(* ===== verification/Prelude.thy ===== *)
theory Prelude
  imports Main "HOL-Library.AList" "HOL-Library.Char_ord" "HOL-Library.List_Lexorder"
begin

text \<open>
  The shared base of the development.

  \<^item> Sequencing of effectful Python code: a piece of code that may raise is a function from
    the state to a result (\<open>Inl\<close> the exception, \<open>Inr\<close> the value) and the state left behind.
    An exception keeps the state changes made before it, as in Python; only a store's
    transaction undoes them, and says so in its own definition.
  \<^item> The text conversions of the Python runtime that the broker uses: decimal rendering and
    zero padding (format strings), \<open>int(text)\<close> and \<open>str.rsplit\<close>.
  \<^item> Facts on dictionaries kept as association lists in insertion order: \<open>AList.update\<close>
    overwrites in place and appends a new key at the end, exactly as a Python dict does.
\<close>

named_theorems run_simps \<open>evaluation of sequenced code\<close>
named_theorems keeps_intros \<open>introduction rules for state invariants of sequenced code\<close>

section \<open>Sequencing code that may raise\<close>

type_synonym ('s, 'e, 'a) prog = "'s \<Rightarrow> ('e + 'a) \<times> 's"

definition ret :: "'a \<Rightarrow> ('s, 'e, 'a) prog" where
  "ret x = (\<lambda>s. (Inr x, s))"

definition throw :: "'e \<Rightarrow> ('s, 'e, 'a) prog" where
  "throw e = (\<lambda>s. (Inl e, s))"

definition and_then :: "('s, 'e, 'a) prog \<Rightarrow> ('a \<Rightarrow> ('s, 'e, 'b) prog) \<Rightarrow> ('s, 'e, 'b) prog" where
  "and_then m f = (\<lambda>s. case m s of (Inl e, t) \<Rightarrow> (Inl e, t) | (Inr x, t) \<Rightarrow> f x t)"

text \<open>\<open>try: m except E: h\<close>; the handler re-raises what it does not handle.\<close>

definition on_error :: "('s, 'e, 'a) prog \<Rightarrow> ('e \<Rightarrow> ('s, 'e, 'a) prog) \<Rightarrow> ('s, 'e, 'a) prog" where
  "on_error m h = (\<lambda>s. case m s of (Inl e, t) \<Rightarrow> h e t | (Inr x, t) \<Rightarrow> (Inr x, t))"

definition modify :: "('s \<Rightarrow> 's) \<Rightarrow> ('s, 'e, unit) prog" where
  "modify f = (\<lambda>s. (Inr (), f s))"

lemma ret_run [simp]: "ret x s = (Inr x, s)"
  by (simp add: ret_def)

lemma throw_run [simp]: "throw e s = (Inl e, s)"
  by (simp add: throw_def)

lemma modify_run [simp]: "modify f s = (Inr (), f s)"
  by (simp add: modify_def)

lemma and_then_run [run_simps]:
  "m s = (Inl e, t) \<Longrightarrow> and_then m f s = (Inl e, t)"
  "m s = (Inr x, t) \<Longrightarrow> and_then m f s = f x t"
  by (simp_all add: and_then_def)

lemma on_error_run [run_simps]:
  "m s = (Inl e, t) \<Longrightarrow> on_error m h s = h e t"
  "m s = (Inr x, t) \<Longrightarrow> on_error m h s = (Inr x, t)"
  by (simp_all add: on_error_def)

lemma and_then_Inr:
  "and_then m f s = (Inr y, t) \<longleftrightarrow> (\<exists>x u. m s = (Inr x, u) \<and> f x u = (Inr y, t))"
  by (auto simp: and_then_def split: prod.splits sum.splits)

lemma and_then_Inl:
  "and_then m f s = (Inl e, t) \<longleftrightarrow>
     m s = (Inl e, t) \<or> (\<exists>x u. m s = (Inr x, u) \<and> f x u = (Inl e, t))"
  by (auto simp: and_then_def split: prod.splits sum.splits)

lemma and_then_cases:
  assumes "and_then m f s = (r, t)"
  obtains (raised) e where "m s = (Inl e, t)" "r = Inl e"
    | (returned) x u where "m s = (Inr x, u)" "f x u = (r, t)"
  using assms by (cases r) (auto simp: and_then_Inl and_then_Inr)

lemma on_error_cases:
  assumes "on_error m h s = (r, t)"
  obtains (handled) e u where "m s = (Inl e, u)" "h e u = (r, t)"
    | (returned) x where "m s = (Inr x, t)" "r = Inr x"
  using assms by (auto simp: on_error_def split: prod.splits sum.splits)

text \<open>\<open>keeps I m\<close>: running \<open>m\<close> from a state with \<open>I\<close> ends in one, raise or not.\<close>

definition keeps :: "('s \<Rightarrow> bool) \<Rightarrow> ('s, 'e, 'a) prog \<Rightarrow> bool" where
  "keeps I m \<longleftrightarrow> (\<forall>s. I s \<longrightarrow> I (snd (m s)))"

lemma keepsI: "(\<And>s r t. I s \<Longrightarrow> m s = (r, t) \<Longrightarrow> I t) \<Longrightarrow> keeps I m"
  unfolding keeps_def by (metis prod.collapse)

lemma keepsD: "keeps I m \<Longrightarrow> I s \<Longrightarrow> m s = (r, t) \<Longrightarrow> I t"
  unfolding keeps_def by (metis snd_conv)

lemma keeps_ret [keeps_intros]: "keeps I (ret x)"
  by (simp add: keeps_def)

lemma keeps_throw [keeps_intros]: "keeps I (throw e)"
  by (simp add: keeps_def)

lemma keeps_modify: "(\<And>s. I s \<Longrightarrow> I (f s)) \<Longrightarrow> keeps I (modify f)"
  by (simp add: keeps_def)

lemma keeps_and_then [keeps_intros]:
  assumes "keeps I m" and "\<And>x. keeps I (f x)"
  shows "keeps I (and_then m f)"
proof (rule keepsI)
  fix s r t
  assume "I s" and "and_then m f s = (r, t)"
  from this(2) show "I t"
    by (cases rule: and_then_cases) (use \<open>I s\<close> assms in \<open>blast dest: keepsD\<close>)+
qed

lemma keeps_on_error [keeps_intros]:
  assumes "keeps I m" and "\<And>e. keeps I (h e)"
  shows "keeps I (on_error m h)"
proof (rule keepsI)
  fix s r t
  assume "I s" and "on_error m h s = (r, t)"
  from this(2) show "I t"
    by (cases rule: on_error_cases) (use \<open>I s\<close> assms in \<open>blast dest: keepsD\<close>)+
qed

lemma keeps_if [keeps_intros]:
  "(b \<Longrightarrow> keeps I m) \<Longrightarrow> (\<not> b \<Longrightarrow> keeps I m') \<Longrightarrow> keeps I (if b then m else m')"
  by simp

section \<open>Text\<close>

definition digit_char :: "nat \<Rightarrow> char" where
  "digit_char d = char_of (48 + d)"

definition is_digit :: "char \<Rightarrow> bool" where
  "is_digit c \<longleftrightarrow> 48 \<le> (of_char c :: nat) \<and> (of_char c :: nat) \<le> 57"

definition digit_val :: "char \<Rightarrow> nat" where
  "digit_val c = of_char c - 48"

text \<open>\<open>str(n)\<close> for a non-negative and for any integer.\<close>

fun nat_text :: "nat \<Rightarrow> string" where
  "nat_text n = (if n < 10 then [digit_char n] else nat_text (n div 10) @ [digit_char (n mod 10)])"

declare nat_text.simps [simp del]

definition int_text :: "int \<Rightarrow> string" where
  "int_text i = (if i < 0 then CHR ''-'' # nat_text (nat (- i)) else nat_text (nat i))"

text \<open>The value of a run of decimal digits.\<close>

definition digits_val :: "string \<Rightarrow> nat" where
  "digits_val cs = foldl (\<lambda>n c. 10 * n + digit_val c) 0 cs"

text \<open>The format specification \<open>0<w>d\<close> of a non-negative integer.\<close>

definition zero_pad :: "nat \<Rightarrow> nat \<Rightarrow> string" where
  "zero_pad w n = replicate (w - length (nat_text n)) (CHR ''0'') @ nat_text n"

lemma of_char_digit: "d < 10 \<Longrightarrow> (of_char (digit_char d) :: nat) = 48 + d"
  by (simp add: digit_char_def)

lemma is_digit_digit_char [simp]: "d < 10 \<Longrightarrow> is_digit (digit_char d)"
  by (simp add: is_digit_def of_char_digit)

lemma digit_val_digit_char [simp]: "d < 10 \<Longrightarrow> digit_val (digit_char d) = d"
  by (simp add: digit_val_def of_char_digit)

lemma digits_val_snoc: "digits_val (cs @ [c]) = 10 * digits_val cs + digit_val c"
  by (simp add: digits_val_def)

lemma nat_text_not_Nil [simp]: "nat_text n \<noteq> []"
  by (subst nat_text.simps) simp

lemma digits_val_nat_text [simp]: "digits_val (nat_text n) = n"
proof (induction n rule: nat_text.induct)
  case (1 n)
  show ?case
  proof (cases "n < 10")
    case True
    then show ?thesis by (subst nat_text.simps) (simp add: digits_val_def)
  next
    case False
    with 1 show ?thesis by (subst nat_text.simps) (simp add: digits_val_snoc)
  qed
qed

lemma nat_text_digits: "c \<in> set (nat_text n) \<Longrightarrow> is_digit c"
proof (induction n rule: nat_text.induct)
  case (1 n)
  then show ?case
    by (subst (asm) (2) nat_text.simps) (auto split: if_splits)
qed

lemma nat_text_inj [simp]: "nat_text m = nat_text n \<longleftrightarrow> m = n"
  by (metis digits_val_nat_text)

lemma digits_val_zeros [simp]: "digits_val (replicate k (CHR ''0'') @ cs) = digits_val cs"
proof -
  have "foldl (\<lambda>n c. 10 * n + digit_val c) 0 (replicate k (CHR ''0'')) = 0"
    by (induction k) (simp_all add: digit_val_def)
  then show ?thesis by (simp add: digits_val_def)
qed

lemma zero_pad_inj [simp]: "zero_pad w m = zero_pad w n \<longleftrightarrow> m = n"
  by (metis zero_pad_def digits_val_zeros digits_val_nat_text)

lemma zero_pad_digits: "c \<in> set (zero_pad w n) \<Longrightarrow> is_digit c"
  by (auto simp: zero_pad_def is_digit_def dest: nat_text_digits)

lemma minus_not_digit [simp]: "\<not> is_digit (CHR ''-'')"
  by (simp add: is_digit_def)

lemma minus_notin_nat_text [simp]: "CHR ''-'' \<notin> set (nat_text n)"
  using nat_text_digits minus_not_digit by blast

lemma int_text_inj [simp]: "int_text i = int_text j \<longleftrightarrow> i = j"
proof
  assume eq: "int_text i = int_text j"
  have no_sign: "nat_text n \<noteq> CHR ''-'' # cs" for n cs
    by (metis list.set_intros(1) minus_notin_nat_text)
  from eq no_sign no_sign [symmetric] show "i = j"
    by (auto simp: int_text_def split: if_splits)
qed simp

subsection \<open>Python's \<open>int(text)\<close> and \<open>text.rsplit(sep, maxsplit=1)\<close>\<close>

text \<open>White space of \<open>str.strip\<close> among the first 256 code points.\<close>

definition py_space :: "char \<Rightarrow> bool" where
  "py_space c \<longleftrightarrow> (of_char c :: nat) \<in> {9, 10, 11, 12, 13, 28, 29, 30, 31, 32, 133, 160}"

definition strip :: "string \<Rightarrow> string" where
  "strip cs = rev (dropWhile py_space (rev (dropWhile py_space cs)))"

text \<open>Decimal digits with single underscores between digits; \<open>None\<close> is \<open>ValueError\<close>.\<close>

fun digits_after :: "nat \<Rightarrow> string \<Rightarrow> nat option" where
  "digits_after n [] = Some n"
| "digits_after n (CHR ''_'' # c # cs) =
     (if is_digit c then digits_after (10 * n + digit_val c) cs else None)"
| "digits_after n (c # cs) =
     (if is_digit c then digits_after (10 * n + digit_val c) cs else None)"

definition py_nat :: "string \<Rightarrow> nat option" where
  "py_nat cs = (case cs of [] \<Rightarrow> None
     | c # ds \<Rightarrow> if is_digit c then digits_after (digit_val c) ds else None)"

definition py_int :: "string \<Rightarrow> int option" where
  "py_int text = (case strip text of
     CHR ''-'' # cs \<Rightarrow> map_option (\<lambda>n. - int n) (py_nat cs)
   | CHR ''+'' # cs \<Rightarrow> map_option int (py_nat cs)
   | cs \<Rightarrow> map_option int (py_nat cs))"

text \<open>The parts before and after the last separator; \<open>None\<close> if there is none.\<close>

definition rsplit1 :: "char \<Rightarrow> string \<Rightarrow> (string \<times> string) option" where
  "rsplit1 sep cs =
     (if sep \<in> set cs
      then Some (rev (tl (dropWhile (\<lambda>c. c \<noteq> sep) (rev cs))),
                 rev (takeWhile (\<lambda>c. c \<noteq> sep) (rev cs)))
      else None)"

lemma rsplit1_append [simp]:
  assumes "sep \<notin> set b"
  shows "rsplit1 sep (a @ sep # b) = Some (a, b)"
proof -
  have "takeWhile (\<lambda>c. c \<noteq> sep) (rev b @ sep # rev a) = rev b"
    using assms by (subst takeWhile_append2) auto
  moreover have "dropWhile (\<lambda>c. c \<noteq> sep) (rev b @ sep # rev a) = sep # rev a"
    using assms by (subst dropWhile_append2) auto
  ultimately show ?thesis by (simp add: rsplit1_def)
qed

lemma digits_after_digits:
  "(\<forall>c \<in> set cs. is_digit c) \<Longrightarrow>
     digits_after n cs = Some (foldl (\<lambda>m c. 10 * m + digit_val c) n cs)"
  by (induction n cs rule: digits_after.induct) (auto simp: is_digit_def)

lemma py_nat_digits:
  "cs \<noteq> [] \<Longrightarrow> (\<forall>c \<in> set cs. is_digit c) \<Longrightarrow> py_nat cs = Some (digits_val cs)"
  by (cases cs) (auto simp: py_nat_def digits_after_digits digits_val_def)

lemma digit_not_space: "is_digit c \<Longrightarrow> \<not> py_space c"
  by (auto simp: is_digit_def py_space_def)

lemma strip_digits: "(\<forall>c \<in> set cs. is_digit c) \<Longrightarrow> strip cs = cs"
proof -
  assume digits: "\<forall>c \<in> set cs. is_digit c"
  have keep: "dropWhile py_space ds = ds" if "\<forall>c \<in> set ds. is_digit c" for ds
    using that by (cases ds) (auto dest: digit_not_space)
  from digits show ?thesis by (simp add: strip_def keep)
qed

lemma py_int_nat_text [simp]: "py_int (nat_text n) = Some (int n)"
proof -
  have digits: "\<forall>c \<in> set (nat_text n). is_digit c" by (simp add: nat_text_digits)
  obtain c cs where cs: "nat_text n = c # cs" by (cases "nat_text n") auto
  with digits have "is_digit c" by simp
  then have "c \<noteq> CHR ''-''" and "c \<noteq> CHR ''+''" by (auto simp: is_digit_def)
  moreover have "strip (nat_text n) = c # cs" using digits strip_digits cs by simp
  ultimately have "py_int (nat_text n) = map_option int (py_nat (nat_text n))"
    by (simp add: py_int_def cs split: char.splits bool.splits list.splits)
  with digits show ?thesis by (simp add: py_nat_digits)
qed

section \<open>Dictionaries in insertion order\<close>

lemma map_of_update [simp]: "map_of (AList.update k v d) = (map_of d)(k \<mapsto> v)"
  by (simp add: update_conv')

lemma distinct_keys_update [simp]:
  "distinct (map fst d) \<Longrightarrow> distinct (map fst (AList.update k v d))"
  by (rule distinct_update)

lemma keys_update_known:
  "k \<in> fst ` set d \<Longrightarrow> map fst (AList.update k v d) = map fst d"
  by (induction d) auto

lemma keys_update_new:
  "k \<notin> fst ` set d \<Longrightarrow> map fst (AList.update k v d) = map fst d @ [k]"
  by (induction d) auto

lemma update_new: "k \<notin> fst ` set d \<Longrightarrow> AList.update k v d = d @ [(k, v)]"
  by (induction d) auto

lemma update_same: "map_of d k = Some v \<Longrightarrow> AList.update k v d = d"
  by (induction d) (auto split: if_splits)

lemma map_add_upd_swap: "k \<notin> dom n \<Longrightarrow> m(k \<mapsto> x) ++ n = m ++ n(k \<mapsto> x)"
  by (auto simp: fun_eq_iff map_add_def split: option.splits)

end
