(* ===== verification/Py_Values.thy ===== *)
theory Py_Values
  imports Prelude "HOL-Library.Word"
begin

text \<open>
  The Python values that reach the broker: request arguments, adapter outputs, evidence and
  event data. A \<open>str\<close> is a \<open>string\<close> whose characters are the code points 0 to 255.
  A finite \<open>float\<close> is identified by its \<open>repr\<close> text, which is injective on the finite
  doubles and is what \<open>json.dumps\<close> writes. A mapping is its list of items in insertion order;
  keys may be any value, since rejecting keys that are not text is the code's own job.
\<close>

type_synonym byte = "8 word"

datatype pyfloat = Finite string | NaN | Infinity | NegInfinity

datatype pyval =
    VNone
  | VBool bool
  | VInt int
  | VFloat pyfloat
  | VStr string
  | VBytes "byte list"                       \<comment> \<open>\<open>bytes\<close> and \<open>bytearray\<close>\<close>
  | VList "pyval list"
  | VTuple "pyval list"
  | VSequence string "pyval list"            \<comment> \<open>any other registered \<open>Sequence\<close>, by class name\<close>
  | VDict "(pyval \<times> pyval) list"
  | VMapping string "(pyval \<times> pyval) list"   \<comment> \<open>any other registered \<open>Mapping\<close>, by class name\<close>
  | VObject string                           \<comment> \<open>an instance of any other class, by class name\<close>

type_synonym json_object = "(pyval \<times> pyval) list"

text \<open>\<open>d.get(key)\<close> and \<open>d.get(key, default)\<close> for a text key.\<close>

definition dict_get :: "json_object \<Rightarrow> string \<Rightarrow> pyval option" where
  "dict_get d k = map_of d (VStr k)"

definition opt_str :: "string option \<Rightarrow> pyval" where
  "opt_str x = (case x of None \<Rightarrow> VNone | Some s \<Rightarrow> VStr s)"

text \<open>
  A well-formed value: in every mapping the keys are distinct (as the dict guarantees), and
  a float's text is not that of an integer (\<open>repr\<close> of a float has a point or an exponent).
\<close>

definition float_text :: "string \<Rightarrow> bool" where
  "float_text t \<longleftrightarrow> (\<forall>c \<in> set t. is_digit c \<or> c = CHR ''+'' \<or> c = CHR ''-'' \<or> c = CHR ''.'' \<or> c = CHR ''e'')
     \<and> (CHR ''.'' \<in> set t \<or> CHR ''e'' \<in> set t)
     \<and> (\<exists>c cs. t = c # cs \<and> (is_digit c \<or> c = CHR ''-''))"

fun wf_val :: "pyval \<Rightarrow> bool" and
  wf_vals :: "pyval list \<Rightarrow> bool" and
  wf_items :: "(pyval \<times> pyval) list \<Rightarrow> bool"
where
  "wf_val (VFloat (Finite t)) \<longleftrightarrow> float_text t"
| "wf_val (VList xs) \<longleftrightarrow> wf_vals xs"
| "wf_val (VTuple xs) \<longleftrightarrow> wf_vals xs"
| "wf_val (VSequence c xs) \<longleftrightarrow> wf_vals xs"
| "wf_val (VDict kvs) \<longleftrightarrow> distinct (map fst kvs) \<and> wf_items kvs"
| "wf_val (VMapping c kvs) \<longleftrightarrow> distinct (map fst kvs) \<and> wf_items kvs"
| "wf_val _ \<longleftrightarrow> True"
| "wf_vals [] \<longleftrightarrow> True"
| "wf_vals (x # xs) \<longleftrightarrow> wf_val x \<and> wf_vals xs"
| "wf_items [] \<longleftrightarrow> True"
| "wf_items ((k, v) # kvs) \<longleftrightarrow> wf_val v \<and> wf_items kvs"

end
