(* ===== verification/Models.thy ===== *)
theory Models
  imports Py_Values
begin

text \<open>
  The domain vocabulary (\<open>models.py\<close>) and the error taxonomy (\<open>errors.py\<close>).

  A \<open>datetime\<close> is an aware UTC instant, a \<open>timedelta\<close> a duration, both as the whole number
  of microseconds that Python keeps: instants count from 0001-01-01T00:00:00. Exceptions are
  values of one datatype; \<open>error_name\<close> is \<open>type(exc).__name__\<close>, which the worker persists.
\<close>

type_synonym time = int
type_synonym timedelta = int

abbreviation seconds :: "int \<Rightarrow> timedelta" where
  "seconds n \<equiv> n * 1000000"

section \<open>Enumerations\<close>

datatype safety_class = TRANSACTIONAL | IDEMPOTENT | RECONCILABLE | UNSAFE

datatype effect_status =
    PREPARED | CANCELLED | DISPATCHING | RETRYABLE | OUTCOME_UNKNOWN
  | RECONCILING | SUCCEEDED | FAILED_FINAL | MANUAL_REVIEW | COMPENSATED

datatype probe_status = COMMITTED | NOT_COMMITTED | UNKNOWN

fun safety_value :: "safety_class \<Rightarrow> string" where
  "safety_value TRANSACTIONAL = ''transactional''"
| "safety_value IDEMPOTENT = ''idempotent''"
| "safety_value RECONCILABLE = ''reconcilable''"
| "safety_value UNSAFE = ''unsafe''"

fun status_value :: "effect_status \<Rightarrow> string" where
  "status_value PREPARED = ''prepared''"
| "status_value CANCELLED = ''cancelled''"
| "status_value DISPATCHING = ''dispatching''"
| "status_value RETRYABLE = ''retryable''"
| "status_value OUTCOME_UNKNOWN = ''outcome_unknown''"
| "status_value RECONCILING = ''reconciling''"
| "status_value SUCCEEDED = ''succeeded''"
| "status_value FAILED_FINAL = ''failed_final''"
| "status_value MANUAL_REVIEW = ''manual_review''"
| "status_value COMPENSATED = ''compensated''"

fun probe_value :: "probe_status \<Rightarrow> string" where
  "probe_value COMMITTED = ''committed''"
| "probe_value NOT_COMMITTED = ''not_committed''"
| "probe_value UNKNOWN = ''unknown''"

definition terminal_statuses :: "effect_status set" where
  "terminal_statuses = {CANCELLED, SUCCEEDED, FAILED_FINAL, COMPENSATED}"

text \<open>\<open>EffectStatus(text)\<close> and \<open>SafetyClass(text)\<close>; \<open>None\<close> is \<open>ValueError\<close>.\<close>

definition all_statuses :: "effect_status list" where
  "all_statuses = [PREPARED, CANCELLED, DISPATCHING, RETRYABLE, OUTCOME_UNKNOWN,
     RECONCILING, SUCCEEDED, FAILED_FINAL, MANUAL_REVIEW, COMPENSATED]"

definition status_of :: "string \<Rightarrow> effect_status option" where
  "status_of t = find (\<lambda>s. status_value s = t) all_statuses"

definition safety_of :: "string \<Rightarrow> safety_class option" where
  "safety_of t = find (\<lambda>s. safety_value s = t) [TRANSACTIONAL, IDEMPOTENT, RECONCILABLE, UNSAFE]"

lemma status_of_value [simp]: "status_of (status_value s) = Some s"
  by (cases s) (simp_all add: status_of_def all_statuses_def)

lemma safety_of_value [simp]: "safety_of (safety_value s) = Some s"
  by (cases s) (simp_all add: safety_of_def)

lemma status_value_inj [simp]: "status_value s = status_value t \<longleftrightarrow> s = t"
  by (metis status_of_value option.inject)

lemma safety_value_inj [simp]: "safety_value s = safety_value t \<longleftrightarrow> s = t"
  by (metis safety_of_value option.inject)

section \<open>Records\<close>

record effect_request =
  operation_key :: string
  tool :: string
  arguments :: json_object
  requested_by :: string
  trace_id :: "string option"

text \<open>A request whose arguments are a Python dict: keys distinct, at every depth.\<close>

definition wf_request :: "effect_request \<Rightarrow> bool" where
  "wf_request req \<longleftrightarrow> wf_val (VDict (arguments req))"

record effect_contract =
  contract_name :: string
  contract_version :: string
  safety :: safety_class
  retry_limit :: int
  key_retention :: "timedelta option"
  settlement_bound :: "timedelta option"

record effect_record =
  effect_id :: string
  tenant_id :: string
  request :: effect_request
  req_hash :: string                \<comment> \<open>\<open>request_hash\<close>\<close>
  down_key :: string                \<comment> \<open>\<open>downstream_key\<close>\<close>
  contract :: effect_contract
  status :: effect_status
  version :: int
  created_at :: time
  updated_at :: time

record reservation =
  res_effect :: effect_record
  created :: bool
  replayed :: bool

record dispatch_result =
  external_id :: "string option"
  result_output :: json_object
  committed :: bool

record probe_result =
  probe_state :: probe_status
  probe_external_id :: "string option"
  probe_output :: "json_object option"
  evidence :: json_object

section \<open>Errors\<close>

datatype canon_fault =
    NonFiniteFloat string           \<comment> \<open>the path of the value\<close>
  | NonStringKey string
  | BytesValue string
  | UnsupportedType string string   \<comment> \<open>path and class name\<close>

datatype contract_fault =
    NegativeRetryLimit | NoKeyRetention | NoSettlementBound | UnsafeRetries
  | BadSafety | NoContract

datatype error =
    CanonicalizationError canon_fault
  | ContractError string contract_fault
  | PayloadConflictError string string string      \<comment> \<open>operation key, existing and incoming hash\<close>
  | InvalidTransitionError effect_status effect_status
  | VersionConflictError string                    \<comment> \<open>effect id\<close>
  | UnknownEffectError string
  | AdapterError string
  | AuthorizationError string
  | AmbiguousDispatchError string                  \<comment> \<open>a \<open>RuntimeError\<close> of \<open>adapters/base.py\<close>\<close>
  | PyError string                                 \<comment> \<open>any other Python exception, by class name\<close>

fun error_name :: "error \<Rightarrow> string" where
  "error_name (CanonicalizationError _) = ''CanonicalizationError''"
| "error_name (ContractError _ _) = ''ContractError''"
| "error_name (PayloadConflictError _ _ _) = ''PayloadConflictError''"
| "error_name (InvalidTransitionError _ _) = ''InvalidTransitionError''"
| "error_name (VersionConflictError _) = ''VersionConflictError''"
| "error_name (UnknownEffectError _) = ''UnknownEffectError''"
| "error_name (AdapterError _) = ''AdapterError''"
| "error_name (AuthorizationError _) = ''AuthorizationError''"
| "error_name (AmbiguousDispatchError _) = ''AmbiguousDispatchError''"
| "error_name (PyError n) = n"

text \<open>\<open>isinstance(exc, EffectBrokerError)\<close>\<close>

fun is_domain_error :: "error \<Rightarrow> bool" where
  "is_domain_error (AmbiguousDispatchError _) = False"
| "is_domain_error (PyError _) = False"
| "is_domain_error _ = True"

end
