(* ===== verification/Status_Machine.thy ===== *)
theory Status_Machine
  imports Models
begin

text \<open>
  The effect state machine (\<open>statemachine.py\<close>): the transition graph \<open>_ALLOWED\<close>, its
  predicates and the routing of an ambiguous outcome by safety class. \<open>moves\<close> is the graph
  as a step relation; the lemmas are the facts of the graph that the ledgers, the worker and
  the reconciler rest on.
\<close>

fun allowed :: "effect_status \<Rightarrow> effect_status set" where
  "allowed PREPARED = {DISPATCHING, CANCELLED}"
| "allowed DISPATCHING = {SUCCEEDED, FAILED_FINAL, RETRYABLE, OUTCOME_UNKNOWN}"
| "allowed RETRYABLE = {DISPATCHING, FAILED_FINAL, CANCELLED}"
| "allowed OUTCOME_UNKNOWN = {DISPATCHING, RECONCILING, MANUAL_REVIEW}"
| "allowed RECONCILING = {SUCCEEDED, PREPARED, MANUAL_REVIEW, FAILED_FINAL}"
| "allowed MANUAL_REVIEW = {SUCCEEDED, FAILED_FINAL, COMPENSATED}"
| "allowed SUCCEEDED = {}"
| "allowed FAILED_FINAL = {}"
| "allowed COMPENSATED = {}"
| "allowed CANCELLED = {}"

definition is_terminal :: "effect_status \<Rightarrow> bool" where
  "is_terminal s \<longleftrightarrow> s \<in> terminal_statuses"

definition is_allowed :: "effect_status \<Rightarrow> effect_status \<Rightarrow> bool" where
  "is_allowed current goal \<longleftrightarrow> goal \<in> allowed current"

definition assert_transition :: "effect_status \<Rightarrow> effect_status \<Rightarrow> error + unit" where
  "assert_transition current goal =
     (if is_allowed current goal then Inr () else Inl (InvalidTransitionError current goal))"

definition route_unknown :: "safety_class \<Rightarrow> effect_status" where
  "route_unknown c =
     (if c = IDEMPOTENT then DISPATCHING
      else if c \<in> {RECONCILABLE, TRANSACTIONAL} then RECONCILING
      else MANUAL_REVIEW)"

section \<open>The graph as a step relation\<close>

inductive moves :: "effect_status \<Rightarrow> effect_status \<Rightarrow> bool" where
  refl: "moves s s"
| step: "moves s t \<Longrightarrow> is_allowed t u \<Longrightarrow> moves s u"

inductive_cases moves_from: "moves s t"

lemmas is_allowed_simps = is_allowed_def allowed.simps

lemma assert_transition_Inr [simp]:
  "assert_transition c g = Inr u \<longleftrightarrow> is_allowed c g"
  by (simp add: assert_transition_def)

lemma assert_transition_Inl [simp]:
  "assert_transition c g = Inl e \<longleftrightarrow> \<not> is_allowed c g \<and> e = InvalidTransitionError c g"
  by (auto simp: assert_transition_def)

lemma allowed_irrefl [simp]: "\<not> is_allowed s s"
  by (cases s) (simp_all add: is_allowed_simps)

lemma terminal_iff_no_exit: "is_terminal s \<longleftrightarrow> (\<forall>t. \<not> is_allowed s t)"
  by (cases s) (auto simp: is_allowed_simps is_terminal_def terminal_statuses_def)

lemma moves_terminal: "moves s t \<Longrightarrow> is_terminal s \<Longrightarrow> t = s"
  by (induction rule: moves.induct) (auto simp: terminal_iff_no_exit)

lemma moves_trans: "moves t u \<Longrightarrow> moves s t \<Longrightarrow> moves s u"
  by (induction rule: moves.induct) (auto intro: moves.step)

text \<open>A status is closed under moves: the shape of every safety argument over the graph.\<close>

lemma moves_closed:
  assumes "moves s t" and "s \<in> A" and "\<And>x y. x \<in> A \<Longrightarrow> is_allowed x y \<Longrightarrow> y \<in> A"
  shows "t \<in> A"
  using assms by (induction rule: moves.induct) auto

text \<open>Where a dispatch may start, and the ways out of ambiguity.\<close>

lemma into_dispatching: "is_allowed s DISPATCHING \<longleftrightarrow> s \<in> {PREPARED, RETRYABLE, OUTCOME_UNKNOWN}"
  by (cases s) (simp_all add: is_allowed_simps)

lemma into_retryable: "is_allowed s RETRYABLE \<longleftrightarrow> s = DISPATCHING"
  by (cases s) (simp_all add: is_allowed_simps)

lemma into_prepared: "is_allowed s PREPARED \<longleftrightarrow> s = RECONCILING"
  by (cases s) (simp_all add: is_allowed_simps)

lemma into_unknown: "is_allowed s OUTCOME_UNKNOWN \<longleftrightarrow> s = DISPATCHING"
  by (cases s) (simp_all add: is_allowed_simps)

lemma into_cancelled: "is_allowed s CANCELLED \<longleftrightarrow> s \<in> {PREPARED, RETRYABLE}"
  by (cases s) (simp_all add: is_allowed_simps)

lemma into_succeeded: "is_allowed s SUCCEEDED \<longleftrightarrow> s \<in> {DISPATCHING, RECONCILING, MANUAL_REVIEW}"
  by (cases s) (simp_all add: is_allowed_simps)

lemma into_reconciling: "is_allowed s RECONCILING \<longleftrightarrow> s = OUTCOME_UNKNOWN"
  by (cases s) (simp_all add: is_allowed_simps)

lemma into_manual_review: "is_allowed s MANUAL_REVIEW \<longleftrightarrow> s \<in> {OUTCOME_UNKNOWN, RECONCILING}"
  by (cases s) (simp_all add: is_allowed_simps)

lemmas into_status = into_reconciling into_manual_review
  into_dispatching into_retryable into_prepared into_unknown into_cancelled into_succeeded

lemma route_unknown_allowed: "is_allowed OUTCOME_UNKNOWN (route_unknown c)"
  by (simp add: route_unknown_def is_allowed_simps)

lemma route_unknown_cases:
  "route_unknown c = DISPATCHING \<longleftrightarrow> c = IDEMPOTENT"
  "route_unknown c = RECONCILING \<longleftrightarrow> c \<in> {RECONCILABLE, TRANSACTIONAL}"
  "route_unknown c = MANUAL_REVIEW \<longleftrightarrow> c = UNSAFE"
  by (cases c; simp add: route_unknown_def)+

text \<open>
  The statuses an unsafe effect can reach once its outcome is unknown, when the edges out of
  \<open>OUTCOME_UNKNOWN\<close> are the ones \<open>route_unknown\<close> chooses: it is never dispatched again.
\<close>

inductive routed :: "safety_class \<Rightarrow> effect_status \<Rightarrow> effect_status \<Rightarrow> bool" for c where
  start: "routed c s s"
| hop: "routed c s t \<Longrightarrow> is_allowed t u \<Longrightarrow> t = OUTCOME_UNKNOWN \<longrightarrow> u \<in> {route_unknown c, MANUAL_REVIEW}
    \<Longrightarrow> routed c s u"

lemma routed_unsafe:
  assumes "routed UNSAFE OUTCOME_UNKNOWN t"
  shows "t \<in> {OUTCOME_UNKNOWN, MANUAL_REVIEW, SUCCEEDED, FAILED_FINAL, COMPENSATED}"
  using assms
  by (induction "OUTCOME_UNKNOWN" t rule: routed.induct)
    (auto simp: route_unknown_def is_allowed_simps split: if_splits)

end
