(* ===== verification/Contracts.thy ===== *)
theory Contracts
  imports Status_Machine
begin

text \<open>
  Tool-contract validation and the contract registry (\<open>contracts.py\<close>). A registry is the
  dict \<open>_by_tool\<close> in insertion order. \<open>sound_contract\<close> is the promise a validated contract
  makes, stated by safety class; \<open>validate_contract\<close> accepts exactly the sound ones.
\<close>

definition validate_contract :: "effect_contract \<Rightarrow> error + effect_contract" where
  "validate_contract c =
     (if retry_limit c < 0 then Inl (ContractError (contract_name c) NegativeRetryLimit)
      else if safety c = IDEMPOTENT then
        (if case key_retention c of None \<Rightarrow> True | Some d \<Rightarrow> d \<le> 0
         then Inl (ContractError (contract_name c) NoKeyRetention)
         else Inr c)
      else if safety c = RECONCILABLE then
        (if case settlement_bound c of None \<Rightarrow> True | Some d \<Rightarrow> d < 0
         then Inl (ContractError (contract_name c) NoSettlementBound)
         else Inr c)
      else if safety c = UNSAFE \<and> retry_limit c \<noteq> 0
      then Inl (ContractError (contract_name c) UnsafeRetries)
      else Inr c)"

type_synonym registry = "(string \<times> effect_contract) list"

definition registry_get :: "registry \<Rightarrow> string \<Rightarrow> error + effect_contract" where
  "registry_get reg name =
     (case map_of reg name of Some c \<Rightarrow> Inr c | None \<Rightarrow> Inl (ContractError name NoContract))"

definition registry_tools :: "registry \<Rightarrow> string list" where
  "registry_tools reg = sort (map fst reg)"

section \<open>What a validated contract promises\<close>

fun sound_class :: "safety_class \<Rightarrow> int \<Rightarrow> timedelta option \<Rightarrow> timedelta option \<Rightarrow> bool" where
  "sound_class TRANSACTIONAL n retention bound \<longleftrightarrow> True"
| "sound_class IDEMPOTENT n retention bound \<longleftrightarrow> (\<exists>d > 0. retention = Some d)"
| "sound_class RECONCILABLE n retention bound \<longleftrightarrow> (\<exists>d \<ge> 0. bound = Some d)"
| "sound_class UNSAFE n retention bound \<longleftrightarrow> n = 0"

definition sound_contract :: "effect_contract \<Rightarrow> bool" where
  "sound_contract c \<longleftrightarrow>
     0 \<le> retry_limit c \<and> sound_class (safety c) (retry_limit c) (key_retention c) (settlement_bound c)"

lemma validate_contract_sound: "validate_contract c = Inr d \<longleftrightarrow> d = c \<and> sound_contract c"
  by (cases "safety c")
    (auto simp: validate_contract_def sound_contract_def split: option.splits)

lemma validate_contract_rejects:
  "(\<exists>e. validate_contract c = Inl e) \<longleftrightarrow> \<not> sound_contract c"
  using validate_contract_sound [of c] by (cases "validate_contract c") auto

lemma registry_get_Inr: "registry_get reg name = Inr c \<longleftrightarrow> map_of reg name = Some c"
  by (auto simp: registry_get_def split: option.splits)

lemma registry_get_Inl:
  "registry_get reg name = Inl e \<longleftrightarrow> map_of reg name = None \<and> e = ContractError name NoContract"
  by (auto simp: registry_get_def split: option.splits)

lemma registry_tools_known: "name \<in> set (registry_tools reg) \<longleftrightarrow> (\<exists>c. registry_get reg name = Inr c)"
  by (simp add: registry_tools_def registry_get_Inr) (metis domIff dom_map_of_conv_image_fst not_None_eq)

text \<open>A registry loaded by \<open>from_mapping\<close> holds validated contracts only.\<close>

definition sound_registry :: "registry \<Rightarrow> bool" where
  "sound_registry reg \<longleftrightarrow> (\<forall>(name, c) \<in> set reg. sound_contract c)"

lemma sound_registry_get:
  "sound_registry reg \<Longrightarrow> registry_get reg name = Inr c \<Longrightarrow> sound_contract c"
  by (auto simp: sound_registry_def registry_get_Inr dest: map_of_SomeD)

end
