(* ===== verification/Digests.thy ===== *)
theory Digests
  imports Py_Values
begin

text \<open>
  The standard-library routines behind the fingerprints: \<open>str.encode("utf-8")\<close>,
  \<open>hashlib.sha256\<close>, \<open>hmac.new(key, msg, sha256)\<close>, \<open>hexdigest\<close> and
  \<open>base64.urlsafe_b64encode\<close>. They are the published algorithms (FIPS 180-4, RFC 2104,
  RFC 4648) over bytes, so every fingerprint of the model is a concrete value. No proof
  assumes anything about collisions.
\<close>

unbundle bit_operations_syntax

section \<open>UTF-8\<close>

definition utf8_char :: "char \<Rightarrow> byte list" where
  "utf8_char c = (let n = of_char c :: nat in
     if n < 128 then [of_nat n] else [of_nat (192 + n div 64), of_nat (128 + n mod 64)])"

definition utf8_encode :: "string \<Rightarrow> byte list" where
  "utf8_encode cs = concat (map utf8_char cs)"

section \<open>SHA-256\<close>

type_synonym word32 = "32 word"
type_synonym regs = "word32 \<times> word32 \<times> word32 \<times> word32 \<times> word32 \<times> word32 \<times> word32 \<times> word32"

definition sha_k :: "word32 list" where
  "sha_k = [
    1116352408, 1899447441, 3049323471, 3921009573, 961987163, 1508970993, 2453635748, 2870763221,
    3624381080, 310598401, 607225278, 1426881987, 1925078388, 2162078206, 2614888103, 3248222580,
    3835390401, 4022224774, 264347078, 604807628, 770255983, 1249150122, 1555081692, 1996064986,
    2554220882, 2821834349, 2952996808, 3210313671, 3336571891, 3584528711, 113926993, 338241895,
    666307205, 773529912, 1294757372, 1396182291, 1695183700, 1986661051, 2177026350, 2456956037,
    2730485921, 2820302411, 3259730800, 3345764771, 3516065817, 3600352804, 4094571909, 275423344,
    430227734, 506948616, 659060556, 883997877, 958139571, 1322822218, 1537002063, 1747873779,
    1955562222, 2024104815, 2227730452, 2361852424, 2428436474, 2756734187, 3204031479, 3329325298]"

definition sha_init :: regs where
  "sha_init = (1779033703, 3144134277, 1013904242, 2773480762,
               1359893119, 2600822924, 528734635, 1541459225)"

definition rotr :: "nat \<Rightarrow> word32 \<Rightarrow> word32" where
  "rotr n x = drop_bit n x OR push_bit (32 - n) x"

text \<open>The message schedule, as a window of sixteen words that slides over the 64 rounds.\<close>

fun schedule :: "nat \<Rightarrow> word32 list \<Rightarrow> word32 list" where
  "schedule 0 w = []"
| "schedule (Suc n) w =
     hd w # schedule n (tl w @
       [(rotr 17 (w ! 14) XOR rotr 19 (w ! 14) XOR drop_bit 10 (w ! 14)) + w ! 9
        + (rotr 7 (w ! 1) XOR rotr 18 (w ! 1) XOR drop_bit 3 (w ! 1)) + w ! 0])"

fun sha_round :: "regs \<Rightarrow> word32 \<times> word32 \<Rightarrow> regs" where
  "sha_round (a, b, c, d, e, f, g, h) (k, w) =
     (let t1 = h + (rotr 6 e XOR rotr 11 e XOR rotr 25 e) + ((e AND f) XOR (NOT e AND g)) + k + w;
          t2 = (rotr 2 a XOR rotr 13 a XOR rotr 22 a) + ((a AND b) XOR (a AND c) XOR (b AND c))
      in (t1 + t2, a, b, c, d + t1, e, f, g))"

definition sha_compress :: "regs \<Rightarrow> word32 list \<Rightarrow> regs" where
  "sha_compress r m =
     (case (r, foldl sha_round r (zip sha_k (schedule 64 m))) of
       ((a, b, c, d, e, f, g, h), (a', b', c', d', e', f', g', h')) \<Rightarrow>
         (a + a', b + b', c + c', d + d', e + e', f + f', g + g', h + h'))"

text \<open>Big-endian bytes of a number, and words of a byte list.\<close>

definition be_bytes :: "nat \<Rightarrow> nat \<Rightarrow> byte list" where
  "be_bytes k n = map (\<lambda>i. of_nat (n div 256 ^ i)) (rev [0..<k])"

fun be_words :: "byte list \<Rightarrow> word32 list" where
  "be_words (a # b # c # d # bs) =
     of_nat (((unat a * 256 + unat b) * 256 + unat c) * 256 + unat d) # be_words bs"
| "be_words _ = []"

definition sha_pad :: "byte list \<Rightarrow> byte list" where
  "sha_pad m = m @ [0x80] @ replicate ((119 - length m mod 64) mod 64) 0 @ be_bytes 8 (8 * length m)"

fun chunks :: "nat \<Rightarrow> 'a list \<Rightarrow> 'a list list" where
  "chunks n xs = (if n = 0 \<or> xs = [] then [] else take n xs # chunks n (drop n xs))"

declare chunks.simps [simp del]

definition sha_words :: "byte list \<Rightarrow> word32 list" where
  "sha_words m = (case foldl sha_compress sha_init (map be_words (chunks 64 (sha_pad m))) of
     (a, b, c, d, e, f, g, h) \<Rightarrow> [a, b, c, d, e, f, g, h])"

definition sha256 :: "byte list \<Rightarrow> byte list" where
  "sha256 m = concat (map (\<lambda>w. be_bytes 4 (unat w)) (sha_words m))"

section \<open>HMAC, hexadecimal and base64\<close>

definition hmac_sha256 :: "byte list \<Rightarrow> byte list \<Rightarrow> byte list" where
  "hmac_sha256 key msg =
     (let k = (if length key > 64 then sha256 key else key);
          k64 = k @ replicate (64 - length k) 0
      in sha256 (map (\<lambda>b. b XOR 0x5c) k64 @ sha256 (map (\<lambda>b. b XOR 0x36) k64 @ msg)))"

definition hex_digits :: string where
  "hex_digits = ''0123456789abcdef''"

definition hex_text :: "byte list \<Rightarrow> string" where
  "hex_text bs = concat (map (\<lambda>b. [hex_digits ! (unat b div 16), hex_digits ! (unat b mod 16)]) bs)"

definition b64_alphabet :: string where
  "b64_alphabet = ''ABCDEFGHIJKLMNOPQRSTUVWXYZabcdefghijklmnopqrstuvwxyz0123456789-_''"

definition b64_char :: "nat \<Rightarrow> char" where
  "b64_char n = b64_alphabet ! (n mod 64)"

fun urlsafe_b64encode :: "byte list \<Rightarrow> string" where
  "urlsafe_b64encode [] = []"
| "urlsafe_b64encode [a] = (let n = unat a * 65536 in
     [b64_char (n div 262144), b64_char (n div 4096), CHR ''='', CHR ''=''])"
| "urlsafe_b64encode [a, b] = (let n = unat a * 65536 + unat b * 256 in
     [b64_char (n div 262144), b64_char (n div 4096), b64_char (n div 64), CHR ''=''])"
| "urlsafe_b64encode (a # b # c # bs) = (let n = unat a * 65536 + unat b * 256 + unat c in
     [b64_char (n div 262144), b64_char (n div 4096), b64_char (n div 64), b64_char n]
       @ urlsafe_b64encode bs)"

text \<open>\<open>text.rstrip("=")\<close>\<close>

definition rstrip_eq :: "string \<Rightarrow> string" where
  "rstrip_eq cs = rev (dropWhile (\<lambda>c. c = CHR ''='') (rev cs))"

section \<open>Sizes\<close>

lemma length_be_bytes [simp]: "length (be_bytes k n) = k"
  by (simp add: be_bytes_def)

lemma length_sha_words [simp]: "length (sha_words m) = 8"
  by (simp add: sha_words_def split: prod.splits)

lemma length_sha256 [simp]: "length (sha256 m) = 32"
proof -
  have "sum_list (map (\<lambda>w :: word32. length (be_bytes 4 (unat w))) ws) = 4 * length ws" for ws
    by (induction ws) simp_all
  then show ?thesis by (simp add: sha256_def length_concat o_def)
qed

lemma length_hmac_sha256 [simp]: "length (hmac_sha256 k m) = 32"
  by (simp add: hmac_sha256_def Let_def)

lemma length_hex_text [simp]: "length (hex_text bs) = 2 * length bs"
  by (induction bs) (simp_all add: hex_text_def)

text \<open>Padding always reaches a multiple of the block size: no byte of the message is dropped.\<close>

lemma sha_pad_blocks: "length (sha_pad m) mod 64 = 0"
proof -
  let ?r = "length m mod 64"
  have reduce: "(a + b mod 64 + 9) mod 64 = (a mod 64 + b + 9) mod 64" for a b :: nat
    using mod_add_right_eq [of "a + 9" b 64] mod_add_right_eq [of "b + 9" a 64]
    by (simp only: ac_simps)
  have "(length m + (119 - ?r) mod 64 + 9) mod 64 = (?r + (119 - ?r) + 9) mod 64"
    by (rule reduce)
  also have "?r + (119 - ?r) + 9 = 128"
    using mod_less_divisor [of 64 "length m"] by linarith
  finally show ?thesis by (simp add: sha_pad_def add.assoc add.commute add.left_commute)
qed

section \<open>UTF-8 is injective\<close>

lemma unat_byte: "n < 256 \<Longrightarrow> unat (of_nat n :: byte) = n"
  by (simp add: unat_of_nat)

lemma of_char_less_256: "(of_char c :: nat) < 256"
  by simp

lemma utf8_char_prefix:
  assumes "utf8_char c @ xs = utf8_char d @ ys"
  shows "c = d \<and> xs = ys"
proof -
  have high: "192 + n div 64 < (256 :: nat)" if "n < 256" for n :: nat
    using that by linarith
  have lead: "unat (hd (utf8_char e)) = (if (of_char e :: nat) < 128 then of_char e
      else 192 + of_char e div 64)" for e
    using unat_byte [OF high [OF of_char_less_256 [of e]]]
    by (simp add: utf8_char_def Let_def unat_byte del: of_nat_add)
  have tail: "unat (utf8_char e ! 1) = 128 + of_char e mod 64"
    if "128 \<le> (of_char e :: nat)" for e
    using that unat_byte [of "128 + of_char e mod 64"]
    by (simp add: utf8_char_def Let_def del: of_nat_add)
  have len: "length (utf8_char e) = (if (of_char e :: nat) < 128 then 1 else 2)" for e
    by (simp add: utf8_char_def Let_def)
  have "hd (utf8_char c) = hd (utf8_char d)"
    using arg_cong [OF assms, of hd] len
    by (metis hd_append2 length_0_conv zero_neq_one zero_neq_numeral)
  then have lead_eq: "(if (of_char c :: nat) < 128 then of_char c :: nat else 192 + of_char c div 64)
      = (if (of_char d :: nat) < 128 then of_char d else 192 + of_char d div 64)"
    using lead by metis
  then have same: "(of_char c :: nat) < 128 \<longleftrightarrow> (of_char d :: nat) < 128"
    by (auto split: if_splits)
  then have len_eq: "length (utf8_char c) = length (utf8_char d)" by (simp add: len)
  with assms have chars: "utf8_char c = utf8_char d" and rest: "xs = ys" by simp_all
  have "(of_char c :: nat) = of_char d"
  proof (cases "(of_char c :: nat) < 128")
    case True
    with same lead_eq show ?thesis by simp
  next
    case False
    with same have d: "128 \<le> (of_char d :: nat)" by simp
    from False have c: "128 \<le> (of_char c :: nat)" by simp
    from lead_eq False same have "(of_char c :: nat) div 64 = of_char d div 64" by simp
    moreover from chars tail [OF c] tail [OF d] have "(of_char c :: nat) mod 64 = of_char d mod 64"
      by simp
    ultimately show ?thesis by (metis div_mult_mod_eq)
  qed
  then have "c = d" by simp
  with rest show ?thesis by simp
qed

lemma utf8_encode_append [simp]: "utf8_encode (a @ b) = utf8_encode a @ utf8_encode b"
  by (simp add: utf8_encode_def)

lemma utf8_encode_inj [simp]: "utf8_encode a = utf8_encode b \<longleftrightarrow> a = b"
proof
  have nonempty: "utf8_char c \<noteq> []" for c by (simp add: utf8_char_def Let_def)
  show "utf8_encode a = utf8_encode b \<Longrightarrow> a = b"
  proof (induction a arbitrary: b)
    case Nil
    then show ?case using nonempty by (cases b) (auto simp: utf8_encode_def)
  next
    case (Cons c a)
    then obtain d b' where b: "b = d # b'"
      using nonempty by (cases b) (auto simp: utf8_encode_def)
    with Cons.prems have "utf8_char c @ utf8_encode a = utf8_char d @ utf8_encode b'"
      by (simp add: utf8_encode_def)
    then have "c = d" and "utf8_encode a = utf8_encode b'" using utf8_char_prefix by blast+
    with Cons.IH b show ?case by simp
  qed
qed simp

section \<open>Hexadecimal text is injective, and a digest's base64 text has one padding sign\<close>

lemma hex_digits_nth_inj: "i < 16 \<Longrightarrow> j < 16 \<Longrightarrow> hex_digits ! i = hex_digits ! j \<Longrightarrow> i = j"
proof -
  have "distinct hex_digits" and "length hex_digits = 16" by (simp_all add: hex_digits_def)
  then show "i < 16 \<Longrightarrow> j < 16 \<Longrightarrow> hex_digits ! i = hex_digits ! j \<Longrightarrow> i = j"
    by (simp add: nth_eq_iff_index_eq)
qed

lemma hex_text_inj [simp]: "hex_text a = hex_text b \<longleftrightarrow> a = b"
proof
  show "hex_text a = hex_text b \<Longrightarrow> a = b"
  proof (induction a arbitrary: b)
    case Nil
    then show ?case by (cases b) (simp_all add: hex_text_def)
  next
    case (Cons x a)
    then obtain y b' where b: "b = y # b'" by (cases b) (simp_all add: hex_text_def)
    have bound: "unat w div 16 < 16" for w :: byte
      using unsigned_less [of w, where ?'a = nat] by simp
    from Cons.prems b have "hex_digits ! (unat x div 16) = hex_digits ! (unat y div 16)"
      and "hex_digits ! (unat x mod 16) = hex_digits ! (unat y mod 16)"
      and rest: "hex_text a = hex_text b'" by (simp_all add: hex_text_def)
    then have "unat x div 16 = unat y div 16" and "unat x mod 16 = unat y mod 16"
      using hex_digits_nth_inj bound by (metis, metis mod_less_divisor zero_less_numeral)
    then have "x = y" by (metis div_mult_mod_eq unsigned_word_eqI)
    with Cons.IH rest b show ?case by simp
  qed
qed simp

end
