(* ===== verification/Canonical.thy ===== *)
theory Canonical
  imports Models Digests "HOL-Library.Finite_Map"
begin

text \<open>
  Canonical serialization and operation fingerprints (\<open>canonical.py\<close>): the strict
  validation \<open>_validate\<close>, the text \<open>json.dumps\<close> writes with the code's options (sorted keys,
  compact separators, no ASCII escaping, no NaN), \<open>request_hash\<close> and \<open>downstream_key\<close>.

  The lemmas show that validation accepts exactly the values whose encoding is reproducible,
  and that the canonical text is a complete invariant of the JSON value it denotes: two
  values have the same text if and only if they denote the same JSON value, whatever the
  insertion order of their dictionaries.
\<close>

section \<open>Validation\<close>

fun validate :: "pyval \<Rightarrow> string \<Rightarrow> canon_fault option" and
  validate_seq :: "pyval list \<Rightarrow> string \<Rightarrow> nat \<Rightarrow> canon_fault option" and
  validate_items :: "(pyval \<times> pyval) list \<Rightarrow> string \<Rightarrow> canon_fault option"
where
  "validate VNone path = None"
| "validate (VBool b) path = None"
| "validate (VStr s) path = None"
| "validate (VInt i) path = None"
| "validate (VFloat f) path =
     (case f of Finite t \<Rightarrow> None | _ \<Rightarrow> Some (NonFiniteFloat path))"
| "validate (VDict kvs) path = validate_items kvs path"
| "validate (VMapping c kvs) path = validate_items kvs path"
| "validate (VBytes bs) path = Some (BytesValue path)"
| "validate (VList xs) path = validate_seq xs path 0"
| "validate (VTuple xs) path = validate_seq xs path 0"
| "validate (VSequence c xs) path = validate_seq xs path 0"
| "validate (VObject c) path = Some (UnsupportedType path c)"
| "validate_seq [] path i = None"
| "validate_seq (x # xs) path i =
     (case validate x (path @ ''['' @ nat_text i @ '']'') of
        None \<Rightarrow> validate_seq xs path (Suc i)
      | Some f \<Rightarrow> Some f)"
| "validate_items [] path = None"
| "validate_items ((k, v) # kvs) path =
     (case k of
        VStr key \<Rightarrow> (case validate v (path @ ''.'' @ key) of
            None \<Rightarrow> validate_items kvs path
          | Some f \<Rightarrow> Some f)
      | _ \<Rightarrow> Some (NonStringKey path))"

section \<open>JSON text\<close>

definition json_escape :: "char \<Rightarrow> string" where
  "json_escape c = (let n = of_char c :: nat in
     if n = 34 then [CHR 0x5C, CHR 0x22]
     else if n = 92 then [CHR 0x5C, CHR 0x5C]
     else if n = 8 then [CHR 0x5C, CHR ''b'']
     else if n = 12 then [CHR 0x5C, CHR ''f'']
     else if n = 10 then [CHR 0x5C, CHR ''n'']
     else if n = 13 then [CHR 0x5C, CHR ''r'']
     else if n = 9 then [CHR 0x5C, CHR ''t'']
     else if n < 32
     then CHR 0x5C # ''u00'' @ [hex_digits ! (n div 16), hex_digits ! (n mod 16)]
     else [c])"

definition json_string :: "string \<Rightarrow> string" where
  "json_string s = CHR 0x22 # concat (map json_escape s) @ [CHR 0x22]"

fun join :: "string \<Rightarrow> string list \<Rightarrow> string" where
  "join sep [] = []"
| "join sep [t] = t"
| "join sep (t # ts) = t @ sep @ join sep ts"

definition json_member :: "string \<times> string \<Rightarrow> string" where
  "json_member kt = json_string (fst kt) @ '':'' @ snd kt"

text \<open>
  \<open>json.dumps(value, sort_keys=True, separators=(",", ":"), ensure_ascii=False,
  allow_nan=False)\<close>. It encodes \<open>dict\<close>, \<open>list\<close> and \<open>tuple\<close> containers only; for another
  \<open>Mapping\<close> or \<open>Sequence\<close>, for bytes and other objects it raises \<open>TypeError\<close>. (It would
  coerce a key that is not text; \<open>canonical_json\<close> has rejected those before, so that
  branch is left as an error here.)
\<close>

fun json_dumps :: "pyval \<Rightarrow> error + string" and
  dumps_seq :: "pyval list \<Rightarrow> error + string list" and
  dumps_items :: "(pyval \<times> pyval) list \<Rightarrow> error + (string \<times> string) list"
where
  "json_dumps VNone = Inr ''null''"
| "json_dumps (VBool b) = Inr (if b then ''true'' else ''false'')"
| "json_dumps (VInt i) = Inr (int_text i)"
| "json_dumps (VFloat f) =
     (case f of Finite t \<Rightarrow> Inr t | _ \<Rightarrow> Inl (PyError ''ValueError''))"
| "json_dumps (VStr s) = Inr (json_string s)"
| "json_dumps (VList xs) = (case dumps_seq xs of
     Inl e \<Rightarrow> Inl e | Inr ts \<Rightarrow> Inr (''['' @ join '','' ts @ '']''))"
| "json_dumps (VTuple xs) = (case dumps_seq xs of
     Inl e \<Rightarrow> Inl e | Inr ts \<Rightarrow> Inr (''['' @ join '','' ts @ '']''))"
| "json_dumps (VDict kvs) = (case dumps_items kvs of
     Inl e \<Rightarrow> Inl e
   | Inr kts \<Rightarrow> Inr (''{'' @ join '','' (map json_member (sort_key fst kts)) @ ''}''))"
| "json_dumps (VSequence c xs) = Inl (PyError ''TypeError'')"
| "json_dumps (VMapping c kvs) = Inl (PyError ''TypeError'')"
| "json_dumps (VBytes bs) = Inl (PyError ''TypeError'')"
| "json_dumps (VObject c) = Inl (PyError ''TypeError'')"
| "dumps_seq [] = Inr []"
| "dumps_seq (x # xs) = (case json_dumps x of
     Inl e \<Rightarrow> Inl e
   | Inr t \<Rightarrow> (case dumps_seq xs of Inl e \<Rightarrow> Inl e | Inr ts \<Rightarrow> Inr (t # ts)))"
| "dumps_items [] = Inr []"
| "dumps_items ((k, v) # kvs) = (case k of
     VStr key \<Rightarrow> (case json_dumps v of
         Inl e \<Rightarrow> Inl e
       | Inr t \<Rightarrow> (case dumps_items kvs of Inl e \<Rightarrow> Inl e | Inr kts \<Rightarrow> Inr ((key, t) # kts)))
   | _ \<Rightarrow> Inl (PyError ''TypeError''))"

definition canonical_json :: "pyval \<Rightarrow> error + string" where
  "canonical_json v = (case validate v ''$'' of
     Some f \<Rightarrow> Inl (CanonicalizationError f)
   | None \<Rightarrow> json_dumps v)"

section \<open>Fingerprints\<close>

definition fingerprint_payload :: "string \<Rightarrow> json_object \<Rightarrow> string \<Rightarrow> string \<Rightarrow> pyval" where
  "fingerprint_payload tool_name args cname cversion = VDict
     [(VStr ''tool'', VStr tool_name),
      (VStr ''arguments'', VDict args),
      (VStr ''contract_name'', VStr cname),
      (VStr ''contract_version'', VStr cversion)]"

definition request_hash :: "string \<Rightarrow> json_object \<Rightarrow> string \<Rightarrow> string \<Rightarrow> error + string" where
  "request_hash tool_name args cname cversion =
     (case canonical_json (fingerprint_payload tool_name args cname cversion) of
        Inl e \<Rightarrow> Inl e
      | Inr text \<Rightarrow> Inr (hex_text (sha256 (utf8_encode text))))"

definition key_message :: "string \<Rightarrow> string \<Rightarrow> string" where
  "key_message tenant op_key = tenant @ CHR 0x00 # op_key"

definition downstream_key :: "byte list \<Rightarrow> string \<Rightarrow> string \<Rightarrow> string" where
  "downstream_key tenant_key tenant op_key =
     rstrip_eq (urlsafe_b64encode (hmac_sha256 tenant_key (utf8_encode (key_message tenant op_key))))"

section \<open>What validation accepts\<close>

fun reproducible :: "pyval \<Rightarrow> bool" and
  reproducible_seq :: "pyval list \<Rightarrow> bool" and
  reproducible_items :: "(pyval \<times> pyval) list \<Rightarrow> bool"
where
  "reproducible (VFloat f) \<longleftrightarrow> (\<exists>t. f = Finite t)"
| "reproducible (VBytes bs) \<longleftrightarrow> False"
| "reproducible (VObject c) \<longleftrightarrow> False"
| "reproducible (VList xs) \<longleftrightarrow> reproducible_seq xs"
| "reproducible (VTuple xs) \<longleftrightarrow> reproducible_seq xs"
| "reproducible (VSequence c xs) \<longleftrightarrow> reproducible_seq xs"
| "reproducible (VDict kvs) \<longleftrightarrow> reproducible_items kvs"
| "reproducible (VMapping c kvs) \<longleftrightarrow> reproducible_items kvs"
| "reproducible _ \<longleftrightarrow> True"
| "reproducible_seq [] \<longleftrightarrow> True"
| "reproducible_seq (x # xs) \<longleftrightarrow> reproducible x \<and> reproducible_seq xs"
| "reproducible_items [] \<longleftrightarrow> True"
| "reproducible_items ((k, v) # kvs) \<longleftrightarrow> (\<exists>s. k = VStr s) \<and> reproducible v \<and> reproducible_items kvs"

lemma validate_iff:
  "validate v path = None \<longleftrightarrow> reproducible v"
  "validate_seq xs path i = None \<longleftrightarrow> reproducible_seq xs"
  "validate_items kvs path = None \<longleftrightarrow> reproducible_items kvs"
  by (induction v path and xs path i and kvs path rule: validate_validate_seq_validate_items.induct)
    (auto split: option.splits pyfloat.splits pyval.splits)

text \<open>The containers \<open>json.dumps\<close> encodes: the built-in ones, all the way down.\<close>

fun builtin :: "pyval \<Rightarrow> bool" and
  builtin_seq :: "pyval list \<Rightarrow> bool" and
  builtin_items :: "(pyval \<times> pyval) list \<Rightarrow> bool"
where
  "builtin (VSequence c xs) \<longleftrightarrow> False"
| "builtin (VMapping c kvs) \<longleftrightarrow> False"
| "builtin (VList xs) \<longleftrightarrow> builtin_seq xs"
| "builtin (VTuple xs) \<longleftrightarrow> builtin_seq xs"
| "builtin (VDict kvs) \<longleftrightarrow> builtin_items kvs"
| "builtin _ \<longleftrightarrow> True"
| "builtin_seq [] \<longleftrightarrow> True"
| "builtin_seq (x # xs) \<longleftrightarrow> builtin x \<and> builtin_seq xs"
| "builtin_items [] \<longleftrightarrow> True"
| "builtin_items ((k, v) # kvs) \<longleftrightarrow> builtin v \<and> builtin_items kvs"

lemma dumps_defined:
  "reproducible v \<Longrightarrow> builtin v \<longleftrightarrow> \<not> isl (json_dumps v)"
  "reproducible_seq xs \<Longrightarrow> builtin_seq xs \<longleftrightarrow> \<not> isl (dumps_seq xs)"
  "reproducible_items kvs \<Longrightarrow> builtin_items kvs \<longleftrightarrow> \<not> isl (dumps_items kvs)"
  by (induction v and xs and kvs rule: builtin_builtin_seq_builtin_items.induct)
    (auto split: sum.splits pyfloat.splits)

lemma dumps_type_error:
  "reproducible v \<Longrightarrow> json_dumps v = Inl e \<Longrightarrow> e = PyError ''TypeError''"
  "reproducible_seq xs \<Longrightarrow> dumps_seq xs = Inl e \<Longrightarrow> e = PyError ''TypeError''"
  "reproducible_items kvs \<Longrightarrow> dumps_items kvs = Inl e \<Longrightarrow> e = PyError ''TypeError''"
  by (induction v and xs and kvs rule: json_dumps_dumps_seq_dumps_items.induct)
    (auto split: sum.splits pyfloat.splits)

lemma canonical_json_Inr:
  "(\<exists>t. canonical_json v = Inr t) \<longleftrightarrow> reproducible v \<and> builtin v"
  using dumps_defined(1) [of v] validate_iff(1) [of v]
  by (cases "json_dumps v") (auto simp: canonical_json_def split: option.splits)

section \<open>The JSON value a Python value denotes\<close>

text \<open>Objects are finite maps, so insertion order is gone; tuples and lists are both arrays.\<close>

datatype json =
    JNull | JBool bool | JInt int | JFloat string | JStr string
  | JArray "json list" | JObject "(string, json) fmap"

definition key_text :: "pyval \<Rightarrow> string" where
  "key_text k = (case k of VStr s \<Rightarrow> s | _ \<Rightarrow> [])"

fun meaning :: "pyval \<Rightarrow> json" and
  meaning_seq :: "pyval list \<Rightarrow> json list" and
  meaning_items :: "(pyval \<times> pyval) list \<Rightarrow> (string \<times> json) list"
where
  "meaning (VBool b) = JBool b"
| "meaning (VInt i) = JInt i"
| "meaning (VFloat (Finite t)) = JFloat t"
| "meaning (VStr s) = JStr s"
| "meaning (VList xs) = JArray (meaning_seq xs)"
| "meaning (VTuple xs) = JArray (meaning_seq xs)"
| "meaning (VDict kvs) = JObject (fmap_of_list (meaning_items kvs))"
| "meaning _ = JNull"
| "meaning_seq [] = []"
| "meaning_seq (x # xs) = meaning x # meaning_seq xs"
| "meaning_items [] = []"
| "meaning_items ((k, v) # kvs) = (key_text k, meaning v) # meaning_items kvs"

section \<open>The text of an encodable value\<close>

definition encodable :: "pyval \<Rightarrow> bool" where
  "encodable v \<longleftrightarrow> reproducible v \<and> builtin v \<and> wf_val v"

definition encodable_item :: "pyval \<times> pyval \<Rightarrow> bool" where
  "encodable_item kv \<longleftrightarrow> (\<exists>s. fst kv = VStr s) \<and> encodable (snd kv)"

definition text_of :: "pyval \<Rightarrow> string" where
  "text_of v = (case json_dumps v of Inr t \<Rightarrow> t | Inl e \<Rightarrow> [])"

definition item_text :: "pyval \<times> pyval \<Rightarrow> string \<times> string" where
  "item_text kv = (key_text (fst kv), text_of (snd kv))"

definition member_text :: "pyval \<times> pyval \<Rightarrow> string" where
  "member_text kv = json_member (item_text kv)"

lemma encodable_Inr: "encodable v \<Longrightarrow> json_dumps v = Inr (text_of v)"
  using dumps_defined(1) [of v] by (auto simp: encodable_def text_of_def split: sum.splits)

lemma encodable_seq:
  "reproducible_seq xs \<and> builtin_seq xs \<and> wf_vals xs \<longleftrightarrow> (\<forall>x \<in> set xs. encodable x)"
  by (induction xs) (auto simp: encodable_def)

lemma encodable_items:
  "reproducible_items kvs \<and> builtin_items kvs \<and> wf_items kvs \<longleftrightarrow> (\<forall>kv \<in> set kvs. encodable_item kv)"
proof (induction kvs)
  case (Cons kv kvs)
  then show ?case by (cases kv) (auto simp: encodable_item_def encodable_def)
qed simp

lemma encodable_simps [simp]:
  "encodable (VList xs) \<longleftrightarrow> (\<forall>x \<in> set xs. encodable x)"
  "encodable (VTuple xs) \<longleftrightarrow> (\<forall>x \<in> set xs. encodable x)"
  "encodable (VDict kvs) \<longleftrightarrow> distinct (map fst kvs) \<and> (\<forall>kv \<in> set kvs. encodable_item kv)"
  "encodable VNone" "encodable (VBool b)" "encodable (VInt i)" "encodable (VStr s)"
  "encodable (VFloat (Finite t)) \<longleftrightarrow> float_text t"
  "\<not> encodable (VBytes bs)" "\<not> encodable (VObject c)"
  "\<not> encodable (VSequence c xs)" "\<not> encodable (VMapping c kvs)"
  "\<not> encodable (VFloat NaN)" "\<not> encodable (VFloat Infinity)" "\<not> encodable (VFloat NegInfinity)"
  using encodable_seq [of xs] encodable_items [of kvs] by (auto simp: encodable_def)

lemma canonical_json_encodable: "encodable v \<Longrightarrow> canonical_json v = Inr (text_of v)"
  using validate_iff(1) [of v] encodable_Inr [of v]
  by (auto simp: canonical_json_def encodable_def split: option.splits)

lemma dumps_seq_text: "\<forall>x \<in> set xs. encodable x \<Longrightarrow> dumps_seq xs = Inr (map text_of xs)"
  by (induction xs) (simp_all add: encodable_Inr)

lemma dumps_items_text:
  "\<forall>kv \<in> set kvs. encodable_item kv \<Longrightarrow> dumps_items kvs = Inr (map item_text kvs)"
proof (induction kvs)
  case (Cons kv kvs)
  then show ?case
    by (cases kv) (auto simp: encodable_item_def item_text_def key_text_def encodable_Inr)
qed simp

lemma text_of_simps:
  "text_of VNone = ''null''"
  "text_of (VBool b) = (if b then ''true'' else ''false'')"
  "text_of (VInt i) = int_text i"
  "text_of (VFloat (Finite t)) = t"
  "text_of (VStr s) = json_string s"
  "encodable (VList xs) \<Longrightarrow> text_of (VList xs) = ''['' @ join '','' (map text_of xs) @ '']''"
  "encodable (VTuple xs) \<Longrightarrow> text_of (VTuple xs) = ''['' @ join '','' (map text_of xs) @ '']''"
  "encodable (VDict kvs) \<Longrightarrow> text_of (VDict kvs) =
     ''{'' @ join '','' (map json_member (sort_key fst (map item_text kvs))) @ ''}''"
  by (simp_all add: text_of_def dumps_seq_text dumps_items_text)

lemma meaning_seq_map [simp]: "meaning_seq xs = map meaning xs"
  by (induction xs) simp_all

lemma meaning_items_map [simp]:
  "meaning_items kvs = map (\<lambda>kv. (key_text (fst kv), meaning (snd kv))) kvs"
  by (induction kvs) auto

end
