(* ===== verification/Clock.thy ===== *)
theory Clock
  imports Models "HOL-Library.Monad_Syntax"
begin

text \<open>
  \<open>datetime.isoformat()\<close> of an aware UTC instant, the text the stores put into lease events,
  receipts and columns, and \<open>datetime.fromisoformat\<close> on such texts. An instant is the number of microseconds since 0001-01-01T00:00:00 UTC; the
  calendar date of a day number is found as Python's \<open>datetime\<close> finds it, by cycles of 400,
  100, 4 and 1 years and a table of the days before each month. Python's datetimes end with the
  years 1 and 9999; the model continues the calendar beyond them, with longer years and a sign,
  so the functions are total. The lemmas show that parsing inverts formatting.
\<close>

definition is_leap :: "int \<Rightarrow> bool" where
  "is_leap y \<longleftrightarrow> y mod 4 = 0 \<and> (y mod 100 \<noteq> 0 \<or> y mod 400 = 0)"

text \<open>Days of the year before each month, January first.\<close>

definition days_before_month :: "bool \<Rightarrow> int list" where
  "days_before_month leap = (if leap
     then [0, 31, 60, 91, 121, 152, 182, 213, 244, 274, 305, 335]
     else [0, 31, 59, 90, 120, 151, 181, 212, 243, 273, 304, 334])"

text \<open>Month and day of month of a day of the year, counted from 0.\<close>

definition month_day :: "bool \<Rightarrow> int \<Rightarrow> int \<times> int" where
  "month_day leap d =
     (let before = takeWhile (\<lambda>b. b \<le> d) (days_before_month leap)
      in (int (length before), d - last before + 1))"

definition date_of_day :: "int \<Rightarrow> int \<times> int \<times> int" where
  "date_of_day n =
     (let n400 = n div 146097; r400 = n mod 146097;
          n100 = r400 div 36524; r100 = r400 mod 36524;
          n4 = r100 div 1461; r4 = r100 mod 1461;
          n1 = r4 div 365; r1 = r4 mod 365;
          y = 400 * n400 + 100 * n100 + 4 * n4 + n1 + 1
      in if n1 = 4 \<or> n100 = 4 then (y - 1, 12, 31)
         else (y, month_day (is_leap y) r1))"

definition pad :: "nat \<Rightarrow> int \<Rightarrow> string" where
  "pad w n = (if n < 0 then CHR ''-'' # zero_pad w (nat (- n)) else zero_pad w (nat n))"

definition isoformat :: "time \<Rightarrow> string" where
  "isoformat t =
     (let us = t mod 1000000; secs = t div 1000000;
          (y, m, d) = date_of_day (secs div 86400);
          rest = secs mod 86400
      in pad 4 y @ ''-'' @ pad 2 m @ ''-'' @ pad 2 d @ ''T''
         @ pad 2 (rest div 3600) @ '':'' @ pad 2 (rest div 60 mod 60) @ '':'' @ pad 2 (rest mod 60)
         @ (if us = 0 then [] else ''.'' @ pad 6 us) @ ''+00:00'')"

text \<open>The epoch of Unix time, a leap day, and the last day of a 400-year cycle.\<close>

lemma isoformat_epoch:
  "isoformat (62135596800 * 1000000 + 1) = ''1970-01-01T00:00:00.000001+00:00''"
  by code_simp

lemma isoformat_leap_day: "isoformat (63844761600 * 1000000) = ''2024-02-29T00:00:00+00:00''"
  by code_simp

lemma isoformat_cycle_end: "isoformat (146096 * 86400 * 1000000) = ''0400-12-31T00:00:00+00:00''"
  by code_simp

section \<open>Reading a text back\<close>

text \<open>The number of a date, the first day of the year 1 being day 0.\<close>

definition day_of_date :: "int \<Rightarrow> int \<Rightarrow> int \<Rightarrow> int" where
  "day_of_date y m d =
     (y - 1) * 365 + (y - 1) div 4 - (y - 1) div 100 + (y - 1) div 400
     + days_before_month (is_leap y) ! nat (m - 1) + d - 1"

definition cut :: "char \<Rightarrow> string \<Rightarrow> (string \<times> string) option" where
  "cut c cs = (if c \<in> set cs
     then Some (takeWhile (\<lambda>x. x \<noteq> c) cs, tl (dropWhile (\<lambda>x. x \<noteq> c) cs)) else None)"

definition read_num :: "string \<Rightarrow> int option" where
  "read_num cs = (if cs \<noteq> [] \<and> list_all is_digit cs then Some (int (digits_val cs)) else None)"

definition read_year :: "string \<Rightarrow> (int \<times> string) option" where
  "read_year cs =
     (if cs \<noteq> [] \<and> hd cs = CHR ''-''
      then do { (a, rest) \<leftarrow> cut (CHR ''-'') (tl cs); n \<leftarrow> read_num a; Some (- n, rest) }
      else do { (a, rest) \<leftarrow> cut (CHR ''-'') cs; n \<leftarrow> read_num a; Some (n, rest) })"

text \<open>Seconds with an optional fraction of six digits.\<close>

definition read_seconds :: "string \<Rightarrow> int option" where
  "read_seconds cs = (case cut (CHR ''.'') cs of
     None \<Rightarrow> map_option (\<lambda>n. n * 1000000) (read_num cs)
   | Some (a, b) \<Rightarrow> do { n \<leftarrow> read_num a; us \<leftarrow> read_num b; Some (n * 1000000 + us) })"

definition parse_time :: "string \<Rightarrow> time option" where
  "parse_time cs = do {
     (y, r1) \<leftarrow> read_year cs;
     (ms, r2) \<leftarrow> cut (CHR ''-'') r1; m \<leftarrow> read_num ms;
     (ds, r3) \<leftarrow> cut (CHR ''T'') r2; d \<leftarrow> read_num ds;
     (hs, r4) \<leftarrow> cut (CHR '':'') r3; h \<leftarrow> read_num hs;
     (ns, r5) \<leftarrow> cut (CHR '':'') r4; n \<leftarrow> read_num ns;
     (ss, zone) \<leftarrow> cut (CHR ''+'') r5; us \<leftarrow> read_seconds ss;
     if zone = ''00:00'' then Some (((day_of_date y m d * 24 + h) * 60 + n) * 60 * 1000000 + us) else None }"

subsection \<open>The calendar\<close>

lemma month_day_inverse:
  assumes "0 \<le> r" and "month_day leap r = (m, d)"
  shows "days_before_month leap ! nat (m - 1) + d - 1 = r" "1 \<le> m" "1 \<le> d"
proof -
  let ?before = "takeWhile (\<lambda>b. b \<le> r) (days_before_month leap)"
  have "hd (days_before_month leap) = 0" "days_before_month leap \<noteq> []" by (simp_all add: days_before_month_def)
  with assms(1) have ne: "?before \<noteq> []" by (cases "days_before_month leap") auto
  then have len: "0 < length ?before" by simp
  have "last ?before = days_before_month leap ! (length ?before - 1)"
    using ne by (simp add: last_conv_nth takeWhile_nth)
  moreover have "last ?before \<le> r" using ne set_takeWhileD [of "last ?before"] last_in_set by blast
  moreover have "m = int (length ?before)" "d = r - last ?before + 1"
    using assms(2) by (simp_all add: month_day_def Let_def)
  moreover have "nat (int (length ?before) - 1) = length ?before - 1" by arith
  ultimately show "days_before_month leap ! nat (m - 1) + d - 1 = r" "1 \<le> m" "1 \<le> d"
    using len by (simp_all del: length_greater_0_conv)
qed

lemma year_days:
  fixes g c q a :: int
  assumes "0 \<le> c" "c \<le> 3" "0 \<le> q" "q \<le> 24" "0 \<le> a" "a \<le> 3"
  defines "y \<equiv> 400 * g + 100 * c + 4 * q + a"
  shows "y * 365 + y div 4 - y div 100 + y div 400 = 146097 * g + 36524 * c + 1461 * q + 365 * a"
proof -
  have "y div 4 = 100 * g + 25 * c + q"
    by (rule int_div_pos_eq [of _ _ _ a]) (use assms(1-6) in \<open>simp_all add: y_def\<close>)
  moreover have "y div 100 = 4 * g + c"
    by (rule int_div_pos_eq [of _ _ _ "4 * q + a"]) (use assms(1-6) in \<open>simp_all add: y_def\<close>)
  moreover have "y div 400 = g"
    by (rule int_div_pos_eq [of _ _ _ "100 * c + 4 * q + a"]) (use assms(1-6) in \<open>simp_all add: y_def\<close>)
  ultimately show ?thesis by (simp add: y_def)
qed

lemma last_day: "is_leap y \<Longrightarrow> days_before_month (is_leap y) ! nat (12 - 1) + 31 - 1 = 365"
  by (simp add: days_before_month_def)

lemma day_of_date_of_day:
  assumes "date_of_day n = (y, m, d)"
  shows "day_of_date y m d = n" "1 \<le> m" "1 \<le> d"
proof -
  define g where "g = n div 146097"
  define r400 where "r400 = n mod 146097"
  define c where "c = r400 div 36524"
  define r100 where "r100 = r400 mod 36524"
  define q where "q = r100 div 1461"
  define r4 where "r4 = r100 mod 1461"
  define a where "a = r4 div 365"
  define r where "r = r4 mod 365"
  define z where "z = 400 * g + 100 * c + 4 * q + a"
  note defs = g_def r400_def c_def r100_def q_def r4_def a_def r_def
  have n: "n = 146097 * g + r400" "r400 = 36524 * c + r100" "r100 = 1461 * q + r4" "r4 = 365 * a + r"
    by (simp_all add: defs)
  have b: "0 \<le> r400" "r400 < 146097" "0 \<le> r100" "r100 < 36524" "0 \<le> r4" "r4 < 1461" "0 \<le> r" "r < 365"
    by (simp_all add: defs)
  have pos: "0 \<le> c" "0 \<le> q" "0 \<le> a" "c \<le> 4" "q \<le> 24" "a \<le> 4" using n b by linarith+
  have date: "date_of_day n = (if a = 4 \<or> c = 4 then (z, 12, 31) else (z + 1, month_day (is_leap (z + 1)) r))"
    unfolding date_of_day_def Let_def z_def defs by simp
  show "day_of_date y m d = n" "1 \<le> m" "1 \<le> d"
  proof -
    have "day_of_date y m d = n \<and> 1 \<le> m \<and> 1 \<le> d"
    proof (cases "a = 4 \<or> c = 4")
      case False
      with pos have le: "c \<le> 3" "a \<le> 3" by linarith+
      have "z * 365 + z div 4 - z div 100 + z div 400 = 146097 * g + 36524 * c + 1461 * q + 365 * a"
        unfolding z_def by (rule year_days [OF pos(1) le(1) pos(2) pos(5) pos(3) le(2)])
      moreover have "month_day (is_leap (z + 1)) r = (m, d)" "y = z + 1" using False assms date by auto
      ultimately show ?thesis
        using month_day_inverse [OF b(7), of "is_leap (z + 1)" m d] n by (simp add: day_of_date_def)
    next
      case True
      then have date': "y = z" "m = 12" "d = 31" using assms date by auto
      show ?thesis
      proof (cases "c = 4")
        case True
        with n b pos have "q = 0" "a = 0" "r = 0" "r400 = 146096" by linarith+
        with True have z: "z = 400 * g + 400" by (simp add: z_def)
        have "z mod 4 = 0" by (rule int_mod_pos_eq [of _ _ "100 * g + 100"]) (simp_all add: z)
        moreover have "z mod 400 = 0" by (rule int_mod_pos_eq [of _ _ "g + 1"]) (simp_all add: z)
        ultimately have leap: "is_leap z" by (simp add: is_leap_def)
        have "(z - 1) * 365 + (z - 1) div 4 - (z - 1) div 100 + (z - 1) div 400 = 146097 * g + 36524 * 3 + 1461 * 24 + 365 * 3"
          using year_days [of 3 24 3 g] by (simp add: z)
        with leap last_day [of z] n \<open>r400 = 146096\<close> show ?thesis by (simp add: day_of_date_def date')
      next
        case False
        with \<open>a = 4 \<or> c = 4\<close> have a: "a = 4" by simp
        with n b pos have "r4 = 1460" by linarith
        with n b have "q \<le> 23" by linarith
        have "c \<le> 3" using False pos by simp
        have z: "z = 400 * g + 100 * c + 4 * (q + 1)" by (simp add: z_def a)
        have "z mod 4 = 0" by (rule int_mod_pos_eq [of _ _ "100 * g + 25 * c + q + 1"]) (simp_all add: z)
        moreover have "z mod 100 = 4 * (q + 1)"
          by (rule int_mod_pos_eq [of _ _ "4 * g + c"]) (use \<open>q \<le> 23\<close> pos(2) in \<open>simp_all add: z\<close>)
        ultimately have leap: "is_leap z" using pos(2) by (simp add: is_leap_def)
        have "(z - 1) * 365 + (z - 1) div 4 - (z - 1) div 100 + (z - 1) div 400 =
            146097 * g + 36524 * c + 1461 * q + 365 * 3"
        proof -
          have pred: "z - 1 = 400 * g + 100 * c + 4 * q + 3" using z by simp
          show ?thesis unfolding pred by (rule year_days [OF pos(1) \<open>c \<le> 3\<close> pos(2,5)]) simp_all
        qed
        with leap last_day [of z] n \<open>r4 = 1460\<close> show ?thesis by (simp add: day_of_date_def date')
      qed
    qed
    then show "day_of_date y m d = n" "1 \<le> m" "1 \<le> d" by simp_all
  qed
qed

subsection \<open>The text\<close>

lemma cut_append: "c \<notin> set a \<Longrightarrow> cut c (a @ c # b) = Some (a, b)"
proof -
  assume c: "c \<notin> set a"
  then have "\<forall>x \<in> set a. x \<noteq> c" by auto
  then have "takeWhile (\<lambda>x. x \<noteq> c) (a @ c # b) = a" "dropWhile (\<lambda>x. x \<noteq> c) (a @ c # b) = c # b"
    by simp_all
  then show ?thesis by (simp add: cut_def)
qed

lemma zero_pad_not_Nil [simp]: "zero_pad w n \<noteq> []"
  by (simp add: zero_pad_def)

lemma read_num_zero_pad [simp]: "read_num (zero_pad w n) = Some (int n)"
  using zero_pad_digits [of _ w n] by (auto simp: read_num_def list_all_iff) (simp add: zero_pad_def)

lemma not_in_zero_pad [simp]: "\<not> is_digit c \<Longrightarrow> c \<notin> set (zero_pad w n)"
  using zero_pad_digits by blast

lemma no_digits [simp]:
  "\<not> is_digit (CHR ''T'')" "\<not> is_digit (CHR '':'')" "\<not> is_digit (CHR ''+'')" "\<not> is_digit (CHR ''.'')"
  by (simp_all add: is_digit_def)

text \<open>A non-negative field and its separator.\<close>

lemma read_field:
  "0 \<le> n \<Longrightarrow> \<not> is_digit c \<Longrightarrow> cut c (pad w n @ c # b) = Some (zero_pad w (nat n), b)"
  "0 \<le> n \<Longrightarrow> read_num (zero_pad w (nat n)) = Some n"
  by (simp_all add: pad_def cut_append)

lemma read_year_pad: "read_year (pad w y @ CHR ''-'' # rest) = Some (y, rest)"
proof (cases "y < 0")
  case True
  then show ?thesis by (simp add: read_year_def pad_def cut_append)
next
  case False
  obtain c cs where cs: "zero_pad w (nat y) = c # cs" by (cases "zero_pad w (nat y)") auto
  then have "is_digit c" using zero_pad_digits [of c w "nat y"] by simp
  then have "c \<noteq> CHR ''-''" by (auto simp: is_digit_def)
  then have "hd (zero_pad w (nat y) @ CHR ''-'' # rest) \<noteq> CHR ''-''" by (simp add: cs)
  moreover have "cut (CHR ''-'') (zero_pad w (nat y) @ CHR ''-'' # rest) = Some (zero_pad w (nat y), rest)"
    by (simp add: cut_append)
  ultimately show ?thesis using False by (simp add: read_year_def pad_def)
qed

lemma read_seconds_text:
  assumes "0 \<le> n" and "0 \<le> us"
  shows "read_seconds (pad 2 n @ (if us = 0 then [] else ''.'' @ pad 6 us)) = Some (n * 1000000 + us)"
proof (cases "us = 0")
  case True
  then show ?thesis using assms by (simp add: read_seconds_def pad_def cut_def)
next
  case False
  have "cut (CHR ''.'') (zero_pad 2 (nat n) @ CHR ''.'' # zero_pad 6 (nat us)) = Some (zero_pad 2 (nat n), zero_pad 6 (nat us))"
    by (simp add: cut_append)
  with False assms show ?thesis by (simp add: read_seconds_def pad_def)
qed

text \<open>
  The time columns of the stores are faithful: reading back what \<open>isoformat\<close> wrote gives the same
  instant, to the microsecond, on every day of the calendar.
\<close>

theorem parse_isoformat: "parse_time (isoformat t) = Some t"
proof -
  define us where "us = t mod 1000000"
  define secs where "secs = t div 1000000"
  define rest where "rest = secs mod 86400"
  obtain y m d where date: "date_of_day (secs div 86400) = (y, m, d)" by (cases "date_of_day (secs div 86400)")
  note day = day_of_date_of_day [OF date]
  let ?h = "rest div 3600" and ?n = "rest div 60 mod 60" and ?s = "rest mod 60"
  let ?ss = "pad 2 ?s @ (if us = 0 then [] else ''.'' @ pad 6 us)"
  have pos: "0 \<le> us" "0 \<le> ?h" "0 \<le> ?n" "0 \<le> ?s" "0 \<le> m" "0 \<le> d"
    using day by (simp_all add: us_def rest_def)
  have written: "isoformat t = pad 4 y @ CHR ''-'' # pad 2 m @ CHR ''-'' # pad 2 d @ CHR ''T'' # pad 2 ?h @ CHR '':''
      # pad 2 ?n @ CHR '':'' # ?ss @ CHR ''+'' # ''00:00''"
    by (simp add: isoformat_def Let_def us_def [symmetric] secs_def [symmetric] rest_def [symmetric] date)
  have "CHR ''+'' \<notin> set ?ss" using pos by (simp add: pad_def)
  then have zone: "cut (CHR ''+'') (?ss @ CHR ''+'' # ''00:00'') = Some (?ss, ''00:00'')" by (rule cut_append)
  have "parse_time (isoformat t) = Some (((day_of_date y m d * 24 + ?h) * 60 + ?n) * 60 * 1000000 + (?s * 1000000 + us))"
    unfolding written parse_time_def using pos
    by (simp add: read_year_pad read_field zone read_seconds_text del: append_assoc)
  also have "((day_of_date y m d * 24 + ?h) * 60 + ?n) * 60 + ?s = secs"
  proof -
    have "rest div 60 = ?h * 60 + ?n" "rest = rest div 60 * 60 + ?s"
      using div_mult_mod_eq [of "rest div 60" 60] by (simp_all add: zdiv_zmult2_eq [symmetric])
    then have "rest = ?h * 3600 + ?n * 60 + ?s" by linarith
    moreover have "secs = day_of_date y m d * 86400 + rest" unfolding day(1) rest_def by simp
    ultimately show ?thesis by simp
  qed
  then have "((day_of_date y m d * 24 + ?h) * 60 + ?n) * 60 * 1000000 + (?s * 1000000 + us) = secs * 1000000 + us"
    by simp
  also have "secs * 1000000 + us = t" by (simp add: secs_def us_def)
  finally show ?thesis .
qed

end
