(* ===== verification/Store_Api.thy ===== *)
theory Store_Api
  imports Contracts Canonical Clock
begin

text \<open>
  The persistence contract of the effect ledger (\<open>store/base.py\<close>).

  \<^item> \<open>store_ops\<close> is the \<open>EffectStore\<close> protocol: one operation per method, over any ledger state.
    What an operation reads from outside, the current time and a fresh UUID, is its first
    argument: every operation of every store reads the clock at most once.
  \<^item> The locales \<open>effect_ledger\<close> and \<open>effect_store\<close> state what the worker, the reconciler and the
    broker rely on: the ledger is seen as a map from ids to records (\<open>look\<close>) and a count of
    attempts (\<open>tries\<close>), and each operation has its effect on that view. The first says what an
    operation that returns has done, the second also says which branch is taken, errors included.
    Every law is about one call, which is atomic in each store (a lock or a transaction).
\<close>

section \<open>Tenant keys\<close>

type_synonym tenant_key_provider = "string \<Rightarrow> byte list"

definition tenant_key_provider_from_secret :: "byte list \<Rightarrow> tenant_key_provider" where
  "tenant_key_provider_from_secret broker_secret tenant =
     hmac_sha256 broker_secret (utf8_encode tenant)"

lemma tenant_key_length: "length (tenant_key_provider_from_secret secret tenant) = 32"
  by (simp add: tenant_key_provider_from_secret_def length_hmac_sha256)

section \<open>The protocol\<close>

record env =
  env_now :: time                   \<comment> \<open>\<open>datetime.now(UTC)\<close>\<close>
  env_uuid :: string                \<comment> \<open>\<open>uuid.uuid4().hex\<close>\<close>

record 's store_ops =
  reserve_op :: "env \<Rightarrow> string \<Rightarrow> effect_request \<Rightarrow> effect_contract \<Rightarrow> ('s, error, reservation) prog"
  claim_op :: "string \<Rightarrow> time \<Rightarrow> timedelta \<Rightarrow> int \<Rightarrow> ('s, error, effect_record list) prog"
  start_op :: "env \<Rightarrow> string \<Rightarrow> int \<Rightarrow> string \<Rightarrow> ('s, error, string) prog"
  transition_op :: "env \<Rightarrow> string \<Rightarrow> int \<Rightarrow> effect_status \<Rightarrow> json_object \<Rightarrow> ('s, error, effect_record) prog"
  get_op :: "string \<Rightarrow> string \<Rightarrow> 's \<Rightarrow> effect_record option"
  list_op :: "string \<Rightarrow> effect_status option \<Rightarrow> int \<Rightarrow> int \<Rightarrow> 's \<Rightarrow> effect_record list"
  receipt_op :: "string \<Rightarrow> string \<Rightarrow> 's \<Rightarrow> json_object option"

text \<open>The record a transition writes; the record a claim writes.\<close>

definition advance :: "effect_record \<Rightarrow> effect_status \<Rightarrow> time \<Rightarrow> effect_record" where
  "advance r goal now = r\<lparr>status := goal, version := version r + 1, updated_at := now\<rparr>"

definition claim_record :: "effect_record \<Rightarrow> time \<Rightarrow> effect_record" where
  "claim_record r now = r\<lparr>version := version r + 1, updated_at := now\<rparr>"

definition attempt_name :: "string \<Rightarrow> nat \<Rightarrow> string" where
  "attempt_name eid ordinal = eid @ ''-attempt-'' @ nat_text ordinal"

text \<open>Work that is due: proven not to have been committed yet.\<close>

definition due :: "effect_record \<Rightarrow> bool" where
  "due r \<longleftrightarrow> status r \<in> {PREPARED, RETRYABLE}"

text \<open>What never changes after the reservation.\<close>

definition same_pins :: "effect_record \<Rightarrow> effect_record \<Rightarrow> bool" where
  "same_pins r r' \<longleftrightarrow> effect_id r' = effect_id r \<and> tenant_id r' = tenant_id r \<and> request r' = request r
     \<and> req_hash r' = req_hash r \<and> down_key r' = down_key r \<and> contract r' = contract r
     \<and> created_at r' = created_at r"

lemma advance_simps [simp]:
  "effect_id (advance r g n) = effect_id r" "tenant_id (advance r g n) = tenant_id r"
  "request (advance r g n) = request r" "req_hash (advance r g n) = req_hash r"
  "down_key (advance r g n) = down_key r" "contract (advance r g n) = contract r"
  "created_at (advance r g n) = created_at r" "status (advance r g n) = g"
  "version (advance r g n) = version r + 1" "updated_at (advance r g n) = n"
  by (simp_all add: advance_def)

lemma claim_record_simps [simp]:
  "effect_id (claim_record r n) = effect_id r" "tenant_id (claim_record r n) = tenant_id r"
  "request (claim_record r n) = request r" "req_hash (claim_record r n) = req_hash r"
  "down_key (claim_record r n) = down_key r" "contract (claim_record r n) = contract r"
  "created_at (claim_record r n) = created_at r" "status (claim_record r n) = status r"
  "version (claim_record r n) = version r + 1" "updated_at (claim_record r n) = n"
  by (simp_all add: claim_record_def)

lemma same_pins_refl [simp]: "same_pins r r"
  by (simp add: same_pins_def)

lemma same_pins_trans: "same_pins r s \<Longrightarrow> same_pins s t \<Longrightarrow> same_pins r t"
  by (simp add: same_pins_def)

lemma same_pins_advance [simp]: "same_pins r (advance s g n) \<longleftrightarrow> same_pins r s"
  by (simp add: same_pins_def)

lemma same_pins_claim [simp]: "same_pins r (claim_record s n) \<longleftrightarrow> same_pins r s"
  by (simp add: same_pins_def)

lemma attempt_name_inj: "attempt_name e m = attempt_name e n \<longleftrightarrow> m = n"
  by (simp add: attempt_name_def)

text \<open>Text data: what the worker and the reconciler write on their own account.\<close>

definition plain :: "json_object \<Rightarrow> bool" where
  "plain d \<longleftrightarrow> distinct (map fst d) \<and> (\<forall>(k, v) \<in> set d. \<exists>s t. k = VStr s \<and> v = VStr t)"

text \<open>What a ledger raises for data it cannot write.\<close>

definition data_error :: "error \<Rightarrow> bool" where
  "data_error x \<longleftrightarrow> (\<exists>f. x = CanonicalizationError f) \<or> x = PyError ''TypeError''"

section \<open>The laws of a ledger\<close>

text \<open>
  What safety rests on: an operation that returns has had its effect on the view, one that raises,
  for whatever reason, has had none. It leaves open when an operation raises, so that a ledger
  behind a network, whose statements may be refused by the database, is an \<open>effect_ledger\<close> too. \<open>pin\<close>
  is what a later reading returns of the contract of a freshly reserved record: the in-memory ledger
  keeps the object itself, a durable one writes columns.
\<close>

locale effect_ledger =
  fixes ops :: "'s store_ops"
    and invar :: "'s \<Rightarrow> bool"
    and look :: "'s \<Rightarrow> string \<Rightarrow> effect_record option"
    and tries :: "'s \<Rightarrow> string \<Rightarrow> nat"
    and pin :: "effect_contract \<Rightarrow> effect_contract"
  assumes ledger_id: "invar s \<Longrightarrow> look s eid = Some r \<Longrightarrow> effect_id r = eid"
    and ledger_pin: "safety (pin c) = safety c \<and> retry_limit (pin c) = retry_limit c"
    and ledger_untried: "invar s \<Longrightarrow> look s eid = None \<Longrightarrow> tries s eid = 0"
    and ledger_transition: "invar s \<Longrightarrow> transition_op ops e eid v goal d s = (Inr r', t) \<Longrightarrow>
        \<exists>r. look s eid = Some r \<and> version r = v \<and> is_allowed (status r) goal
          \<and> r' = advance r goal (env_now e) \<and> invar t \<and> look t = (look s)(eid \<mapsto> r') \<and> tries t = tries s"
    and ledger_transition_error: "invar s \<Longrightarrow> transition_op ops e eid v goal d s = (Inl x, t) \<Longrightarrow> t = s"
    and ledger_start: "invar s \<Longrightarrow> start_op ops e eid v w s = (Inr aid, t) \<Longrightarrow>
        (\<exists>r. look s eid = Some r \<and> version r = v) \<and> aid = attempt_name eid (Suc (tries s eid))
          \<and> invar t \<and> look t = look s \<and> tries t = (tries s)(eid := Suc (tries s eid))"
    and ledger_start_error: "invar s \<Longrightarrow> start_op ops e eid v w s = (Inl x, t) \<Longrightarrow> t = s"
    and ledger_claim: "invar s \<Longrightarrow> claim_op ops w now lease lim s = (Inr cs, t) \<Longrightarrow>
        invar t \<and> tries t = tries s \<and> distinct (map effect_id cs) \<and> int (length cs) \<le> max 0 lim
        \<and> (\<forall>c \<in> set cs. \<exists>r. look s (effect_id c) = Some r \<and> due r \<and> c = claim_record r now)
        \<and> look t = look s ++ map_of (map (\<lambda>c. (effect_id c, c)) cs)"
    and ledger_claim_error: "invar s \<Longrightarrow> claim_op ops w now lease lim s = (Inl x, t) \<Longrightarrow> t = s"
    and ledger_get: "invar s \<Longrightarrow> get_op ops tenant eid s =
        (case look s eid of Some r \<Rightarrow> if tenant_id r = tenant then Some r else None | None \<Rightarrow> None)"
    and ledger_reserve: "invar s \<Longrightarrow> wf_request req \<Longrightarrow> reserve_op ops e tenant req c s = (Inr res, t) \<Longrightarrow>
        invar t \<and> tries t = tries s
        \<and> (if created res
           then \<exists>r. look s (effect_id r) = None \<and> look t = (look s)(effect_id r \<mapsto> r)
             \<and> effect_id r = effect_id (res_effect res) \<and> status r = PREPARED \<and> version r = 0
             \<and> contract r = pin c \<and> tenant_id r = tenant
             \<and> operation_key (request r) = operation_key req
           else look t = look s \<and> look s (effect_id (res_effect res)) = Some (res_effect res))"
    and ledger_reserve_error:
      "invar s \<Longrightarrow> wf_request req \<Longrightarrow> reserve_op ops e tenant req c s = (Inl x, t) \<Longrightarrow> t = s"

text \<open>
  A ledger that answers: it also says when its operations return. \<open>accepts\<close> says which event data the
  ledger can write and \<open>saved\<close> what a later reading returns of a freshly reserved record.
\<close>

locale effect_store =
  fixes ops :: "'s store_ops"
    and invar :: "'s \<Rightarrow> bool"
    and look :: "'s \<Rightarrow> string \<Rightarrow> effect_record option"
    and tries :: "'s \<Rightarrow> string \<Rightarrow> nat"
    and accepts :: "json_object \<Rightarrow> bool"
    and saved :: "effect_record \<Rightarrow> effect_record"
    and pin :: "effect_contract \<Rightarrow> effect_contract"
  assumes look_id: "invar s \<Longrightarrow> look s eid = Some r \<Longrightarrow> effect_id r = eid"
    and tries_none: "invar s \<Longrightarrow> look s eid = None \<Longrightarrow> tries s eid = 0"
    and accepts_plain: "plain d \<Longrightarrow> accepts d"
    and transition_done: "invar s \<Longrightarrow> look s eid = Some r \<Longrightarrow> version r = v \<Longrightarrow> is_allowed (status r) goal
      \<Longrightarrow> accepts d \<Longrightarrow> \<exists>t. transition_op ops e eid v goal d s = (Inr (advance r goal (env_now e)), t)
        \<and> invar t \<and> look t = (look s)(eid \<mapsto> advance r goal (env_now e)) \<and> tries t = tries s"
    and transition_refused: "invar s \<Longrightarrow> look s eid = Some r \<Longrightarrow> version r = v
      \<Longrightarrow> is_allowed (status r) goal \<Longrightarrow> \<not> accepts d
      \<Longrightarrow> \<exists>x. transition_op ops e eid v goal d s = (Inl x, s) \<and> data_error x"
    and transition_forbidden: "invar s \<Longrightarrow> look s eid = Some r \<Longrightarrow> version r = v
      \<Longrightarrow> \<not> is_allowed (status r) goal
      \<Longrightarrow> transition_op ops e eid v goal d s = (Inl (InvalidTransitionError (status r) goal), s)"
    and transition_fenced: "invar s \<Longrightarrow> look s eid = Some r \<Longrightarrow> version r \<noteq> v
      \<Longrightarrow> transition_op ops e eid v goal d s = (Inl (VersionConflictError eid), s)"
    and transition_unknown: "invar s \<Longrightarrow> look s eid = None
      \<Longrightarrow> transition_op ops e eid v goal d s = (Inl (UnknownEffectError eid), s)"
    and start_done: "invar s \<Longrightarrow> look s eid = Some r \<Longrightarrow> version r = v
      \<Longrightarrow> \<exists>t. start_op ops e eid v w s = (Inr (attempt_name eid (Suc (tries s eid))), t)
        \<and> invar t \<and> look t = look s \<and> tries t = (tries s)(eid := Suc (tries s eid))"
    and start_fenced: "invar s \<Longrightarrow> look s eid = Some r \<Longrightarrow> version r \<noteq> v
      \<Longrightarrow> start_op ops e eid v w s = (Inl (VersionConflictError eid), s)"
    and start_unknown: "invar s \<Longrightarrow> look s eid = None
      \<Longrightarrow> start_op ops e eid v w s = (Inl (UnknownEffectError eid), s)"
    and claim_done: "invar s \<Longrightarrow> \<exists>cs t. claim_op ops w now lease lim s = (Inr cs, t)
        \<and> invar t \<and> tries t = tries s \<and> distinct (map effect_id cs) \<and> int (length cs) \<le> max 0 lim
        \<and> (\<forall>c \<in> set cs. \<exists>r. look s (effect_id c) = Some r \<and> due r \<and> c = claim_record r now)
        \<and> look t = look s ++ map_of (map (\<lambda>c. (effect_id c, c)) cs)"
    and get_look: "invar s \<Longrightarrow> get_op ops tenant eid s =
        (case look s eid of Some r \<Rightarrow> if tenant_id r = tenant then Some r else None | None \<Rightarrow> None)"
    and saved_fields: "effect_id (saved r) = effect_id r \<and> tenant_id (saved r) = tenant_id r
        \<and> operation_key (request (saved r)) = operation_key (request r) \<and> status (saved r) = status r
        \<and> version (saved r) = version r \<and> contract (saved r) = pin (contract r)"
    and pin_fields: "safety (pin c) = safety c \<and> retry_limit (pin c) = retry_limit c"
    and reserve_safe: "invar s \<Longrightarrow> wf_request req \<Longrightarrow> reserve_op ops e tenant req c s = (Inr res, t) \<Longrightarrow>
        invar t \<and> (\<not> created res \<longrightarrow> look s (effect_id (res_effect res)) = Some (res_effect res))
        \<and> look t = (if created res then (look s)(effect_id (res_effect res) \<mapsto> saved (res_effect res)) else look s)
        \<and> tries t = tries s
        \<and> tenant_id (res_effect res) = tenant
        \<and> operation_key (request (res_effect res)) = operation_key req
        \<and> request_hash (tool req) (arguments req) (contract_name c) (contract_version c)
            = Inr (req_hash (res_effect res))
        \<and> replayed res = (\<not> created res)
        \<and> (created res \<longrightarrow> look s (effect_id (res_effect res)) = None
             \<and> status (res_effect res) = PREPARED \<and> version (res_effect res) = 0
             \<and> contract (res_effect res) = c \<and> request (res_effect res) = req)"
    and reserve_error: "invar s \<Longrightarrow> wf_request req \<Longrightarrow> reserve_op ops e tenant req c s = (Inl x, t) \<Longrightarrow> t = s"
begin

text \<open>One transition, on every branch.\<close>

lemma transition_cases:
  assumes "invar s" and run: "transition_op ops e eid v goal d s = (x, t)"
  obtains (unknown) "look s eid = None" "x = Inl (UnknownEffectError eid)" "t = s"
  | (fenced) r where "look s eid = Some r" "version r \<noteq> v" "x = Inl (VersionConflictError eid)" "t = s"
  | (forbidden) r where "look s eid = Some r" "version r = v" "\<not> is_allowed (status r) goal"
      "x = Inl (InvalidTransitionError (status r) goal)" "t = s"
  | (refused) r err where "look s eid = Some r" "version r = v" "is_allowed (status r) goal"
      "\<not> accepts d" "x = Inl err" "data_error err" "t = s"
  | (moved) r where "look s eid = Some r" "version r = v" "is_allowed (status r) goal" "accepts d"
      "x = Inr (advance r goal (env_now e))" "invar t"
      "look t = (look s)(eid \<mapsto> advance r goal (env_now e))" "tries t = tries s"
proof (cases "look s eid")
  case None
  with unknown run show ?thesis using transition_unknown [OF assms(1) None] by simp
next
  case (Some r)
  note at = assms(1) Some
  consider "version r \<noteq> v" | "version r = v" "\<not> is_allowed (status r) goal"
    | "version r = v" "is_allowed (status r) goal" "\<not> accepts d"
    | "version r = v" "is_allowed (status r) goal" "accepts d" by blast
  then show ?thesis
  proof cases
    case 1
    with fenced run Some show ?thesis using transition_fenced [OF at 1] by simp
  next
    case 2
    with forbidden run Some show ?thesis using transition_forbidden [OF at 2] by simp
  next
    case 3
    from transition_refused [OF at 3, of e] run obtain err where "x = Inl err" "data_error err" "t = s"
      by auto
    with refused Some 3 show ?thesis by blast
  next
    case 4
    from transition_done [OF at 4, of e] obtain t' where
      "transition_op ops e eid v goal d s = (Inr (advance r goal (env_now e)), t')" and t': "invar t'"
      "look t' = (look s)(eid \<mapsto> advance r goal (env_now e))" "tries t' = tries s" by blast
    with run have "x = Inr (advance r goal (env_now e))" "t' = t" by simp_all
    with moved Some 4 t' show ?thesis by blast
  qed
qed

lemma transition_invar:
  assumes "invar s" and "transition_op ops e eid v goal d s = (x, t)"
  shows "invar t"
  using assms by (cases rule: transition_cases) (use assms in simp_all)

lemma transition_other:
  assumes "invar s" and "transition_op ops e eid v goal d s = (x, t)" and "other \<noteq> eid"
  shows "look t other = look s other"
  using assms(1,2) by (cases rule: transition_cases) (use assms(3) in simp_all)

lemma transition_tries:
  assumes "invar s" and "transition_op ops e eid v goal d s = (x, t)"
  shows "tries t = tries s"
  using assms by (cases rule: transition_cases) simp_all

text \<open>A transition that raises, for whatever reason, has changed nothing.\<close>

lemma transition_error:
  assumes "invar s" and "transition_op ops e eid v goal d s = (Inl x, t)"
  shows "t = s"
  using assms by (cases rule: transition_cases) simp_all

text \<open>One that returns had the current version: a stale write is always refused.\<close>

lemma transition_Inr:
  assumes "invar s" and "transition_op ops e eid v goal d s = (Inr r', t)"
  obtains r where "look s eid = Some r" "version r = v" "is_allowed (status r) goal"
    "r' = advance r goal (env_now e)" "invar t" "look t = (look s)(eid \<mapsto> r')" "tries t = tries s"
  using assms
proof (cases rule: transition_cases)
  case (moved r)
  then show ?thesis using that [of r] by simp
qed simp_all

lemma start_cases:
  assumes "invar s" and run: "start_op ops e eid v w s = (x, t)"
  obtains (failed) err where "x = Inl err" "t = s"
  | (started) r where "look s eid = Some r" "version r = v"
      "x = Inr (attempt_name eid (Suc (tries s eid)))" "invar t" "look t = look s"
      "tries t = (tries s)(eid := Suc (tries s eid))"
proof (cases "look s eid")
  case None
  from start_unknown [OF assms(1) None, of e v w] run
  show ?thesis by (intro failed [of "UnknownEffectError eid"]) simp_all
next
  case (Some r)
  show ?thesis
  proof (cases "version r = v")
    case True
    from start_done [OF assms(1) Some True, of e w] obtain t' where
      "start_op ops e eid v w s = (Inr (attempt_name eid (Suc (tries s eid))), t')" and t': "invar t'"
      "look t' = look s" "tries t' = (tries s)(eid := Suc (tries s eid))" by blast
    with run have "x = Inr (attempt_name eid (Suc (tries s eid)))" "t' = t" by simp_all
    with started Some True t' show ?thesis by blast
  next
    case False
    from start_fenced [OF assms(1) Some False, of e w] run
    show ?thesis by (intro failed [of "VersionConflictError eid"]) simp_all
  qed
qed

end

text \<open>The exact laws give the safe ones.\<close>

sublocale effect_store < effect_ledger ops invar look tries pin
proof unfold_locales
  fix s e eid v goal d r' t
  assume "invar s" "transition_op ops e eid v goal d s = (Inr r', t)"
  then show "\<exists>r. look s eid = Some r \<and> version r = v \<and> is_allowed (status r) goal
      \<and> r' = advance r goal (env_now e) \<and> invar t \<and> look t = (look s)(eid \<mapsto> r') \<and> tries t = tries s"
    by (rule transition_Inr) simp
next
  fix s e eid v w aid t
  assume "invar s" "start_op ops e eid v w s = (Inr aid, t)"
  then show "(\<exists>r. look s eid = Some r \<and> version r = v) \<and> aid = attempt_name eid (Suc (tries s eid))
      \<and> invar t \<and> look t = look s \<and> tries t = (tries s)(eid := Suc (tries s eid))"
    by (cases rule: start_cases) simp_all
next
  fix s e eid v w x t
  assume "invar s" "start_op ops e eid v w s = (Inl x, t)"
  then show "t = s" by (cases rule: start_cases) simp_all
next
  fix s w now lease lim cs t
  assume at: "invar s" "claim_op ops w now lease lim s = (Inr cs, t)"
  from claim_done [OF at(1), of w now lease lim] at(2) show "invar t \<and> tries t = tries s
      \<and> distinct (map effect_id cs) \<and> int (length cs) \<le> max 0 lim
      \<and> (\<forall>c \<in> set cs. \<exists>r. look s (effect_id c) = Some r \<and> due r \<and> c = claim_record r now)
      \<and> look t = look s ++ map_of (map (\<lambda>c. (effect_id c, c)) cs)" by auto
next
  fix s w now lease lim x t
  assume at: "invar s" "claim_op ops w now lease lim s = (Inl x, t)"
  from claim_done [OF at(1), of w now lease lim] at(2) show "t = s" by auto
next
  fix s req e tenant c res t
  assume at: "invar s" "wf_request req" "reserve_op ops e tenant req c s = (Inr res, t)"
  let ?r = "saved (res_effect res)"
  from reserve_safe [OF at] saved_fields [of "res_effect res"]
  show "invar t \<and> tries t = tries s
      \<and> (if created res
         then \<exists>r. look s (effect_id r) = None \<and> look t = (look s)(effect_id r \<mapsto> r)
           \<and> effect_id r = effect_id (res_effect res) \<and> status r = PREPARED \<and> version r = 0
           \<and> contract r = pin c \<and> tenant_id r = tenant
           \<and> operation_key (request r) = operation_key req
         else look t = look s \<and> look s (effect_id (res_effect res)) = Some (res_effect res))"
    by (auto intro!: exI [of _ ?r])
qed (auto simp: look_id tries_none get_look pin_fields dest: transition_error reserve_error)

end
