(* ===== verification/Memory_Store.thy ===== *)
theory Memory_Store
  imports Store_Api "HOL-Library.Product_Lexorder"
begin

text \<open>
  The in-memory ledger (\<open>store/memory.py\<close>). \<open>memory_store\<close> has the fields of \<open>InMemoryStore\<close>:
  \<open>records\<close> is a dict whose insertion order is the order in which work is claimed, the other
  dicts are used by key only. Each method body runs under the store's lock, so it is one
  atomic step; a missing key raises \<open>KeyError\<close> as in Python, and the invariant shows that
  none is ever missing. The tenant key provider is the constructor's argument.

  The lemmas: the invariant \<open>mem_ok\<close> and its preservation by every operation, where the event
  log of each effect is a history that ends in its present status and version (\<open>logged\<close>); the
  laws of \<open>effect_store\<close>; and the reading of a receipt off the log.
\<close>

section \<open>State\<close>

record memory_event =
  ev_effect :: string
  ev_sequence :: int
  ev_type :: string
  ev_version :: int
  ev_at :: time
  ev_data :: json_object

record lease =
  lease_worker :: string
  expires_at :: time

record attempt =
  attempt_id :: string
  att_effect :: string
  ordinal :: int
  att_worker :: string
  att_version :: int
  started_at :: time

record memory_store =
  records :: "(string \<times> effect_record) list"
  identity :: "string \<times> string \<Rightarrow> string option"
  leases :: "string \<Rightarrow> lease option"
  attempts :: "string \<Rightarrow> attempt list option"
  events :: "string \<Rightarrow> memory_event list option"
  next_effect_id :: nat

definition empty_store :: memory_store where
  "empty_store = \<lparr>records = [], identity = Map.empty, leases = Map.empty, attempts = Map.empty,
     events = Map.empty, next_effect_id = 1\<rparr>"

section \<open>Operations\<close>

definition new_event :: "string \<Rightarrow> memory_event list \<Rightarrow> string \<Rightarrow> int \<Rightarrow> json_object \<Rightarrow> time \<Rightarrow> memory_event"
where
  "new_event eid evs ty v d at = \<lparr>ev_effect = eid, ev_sequence = int (length evs) + 1, ev_type = ty,
     ev_version = v, ev_at = at, ev_data = d\<rparr>"

definition append_event ::
  "string \<Rightarrow> string \<Rightarrow> int \<Rightarrow> json_object \<Rightarrow> time \<Rightarrow> (memory_store, error, unit) prog" where
  "append_event eid ty v d at = (\<lambda>s. case events s eid of
     None \<Rightarrow> (Inl (PyError ''KeyError''), s)
   | Some evs \<Rightarrow>
       (Inr (), s\<lparr>events := (events s)(eid \<mapsto> evs @ [new_event eid evs ty v d at])\<rparr>))"

definition record_for_update :: "string \<Rightarrow> int \<Rightarrow> (memory_store, error, effect_record) prog" where
  "record_for_update eid expected = (\<lambda>s. case map_of (records s) eid of
     None \<Rightarrow> (Inl (UnknownEffectError eid), s)
   | Some r \<Rightarrow> if version r \<noteq> expected then (Inl (VersionConflictError eid), s) else (Inr r, s))"

definition memory_id :: "nat \<Rightarrow> string" where
  "memory_id n = ''eff_'' @ zero_pad 6 n"

definition mem_reserve :: "tenant_key_provider \<Rightarrow> env \<Rightarrow> string \<Rightarrow> effect_request \<Rightarrow> effect_contract
    \<Rightarrow> (memory_store, error, reservation) prog" where
  "mem_reserve tenant_key e tenant req c = (\<lambda>s.
     case request_hash (tool req) (arguments req) (contract_name c) (contract_version c) of
       Inl x \<Rightarrow> (Inl x, s)
     | Inr digest \<Rightarrow>
       (case identity s (tenant, operation_key req) of
          Some existing_id \<Rightarrow>
            (case map_of (records s) existing_id of
               None \<Rightarrow> (Inl (PyError ''KeyError''), s)
             | Some existing \<Rightarrow>
                 if req_hash existing \<noteq> digest
                 then (Inl (PayloadConflictError (operation_key req) (req_hash existing) digest), s)
                 else (Inr \<lparr>res_effect = existing, created = False, replayed = True\<rparr>, s))
        | None \<Rightarrow>
            let now = env_now e;
                eid = memory_id (next_effect_id s);
                r = \<lparr>effect_id = eid, tenant_id = tenant, request = req, req_hash = digest,
                     down_key = downstream_key (tenant_key tenant) tenant (operation_key req),
                     contract = c, status = PREPARED, version = 0, created_at = now, updated_at = now\<rparr>
            in and_then
                 (append_event eid ''reserved'' (version r) [(VStr ''status'', VStr (status_value (status r)))] now)
                 (\<lambda>_. ret \<lparr>res_effect = r, created = True, replayed = False\<rparr>)
                 (s\<lparr>next_effect_id := next_effect_id s + 1,
                    identity := (identity s)((tenant, operation_key req) \<mapsto> eid),
                    records := AList.update eid r (records s),
                    attempts := (attempts s)(eid \<mapsto> []),
                    events := (events s)(eid \<mapsto> [])\<rparr>)))"

definition claimed_data :: "string \<Rightarrow> time \<Rightarrow> json_object" where
  "claimed_data w until =
     [(VStr ''worker_id'', VStr w), (VStr ''lease_expires_at'', VStr (isoformat until))]"

definition leased :: "memory_store \<Rightarrow> string \<Rightarrow> time \<Rightarrow> bool" where
  "leased s eid now = (case leases s eid of Some l \<Rightarrow> expires_at l > now | None \<Rightarrow> False)"

text \<open>
  The loop of \<open>claim_due\<close> over the items of \<open>_records\<close>. It only overwrites the value of the
  key it stands on, so it walks the items as they were when it started.
\<close>

fun claim_loop :: "string \<Rightarrow> time \<Rightarrow> timedelta \<Rightarrow> int \<Rightarrow> (string \<times> effect_record) list \<Rightarrow> effect_record list
    \<Rightarrow> (memory_store, error, effect_record list) prog" where
  "claim_loop w now lease_for lim [] claimed = ret claimed"
| "claim_loop w now lease_for lim ((eid, r) # items) claimed = (\<lambda>s.
     if int (length claimed) \<ge> lim then (Inr claimed, s)
     else if status r \<notin> {PREPARED, RETRYABLE} then claim_loop w now lease_for lim items claimed s
     else if leased s eid now then claim_loop w now lease_for lim items claimed s
     else
       let updated = r\<lparr>version := version r + 1, updated_at := now\<rparr>
       in and_then (append_event eid ''claimed'' (version updated) (claimed_data w (now + lease_for)) now)
            (\<lambda>_. claim_loop w now lease_for lim items (claimed @ [updated]))
            (s\<lparr>records := AList.update eid updated (records s),
               leases := (leases s)(eid \<mapsto> \<lparr>lease_worker = w, expires_at = now + lease_for\<rparr>)\<rparr>))"

definition mem_claim_due :: "string \<Rightarrow> time \<Rightarrow> timedelta \<Rightarrow> int
    \<Rightarrow> (memory_store, error, effect_record list) prog" where
  "mem_claim_due w now lease_for lim = (\<lambda>s.
     if lim \<le> 0 then (Inr [], s) else claim_loop w now lease_for lim (records s) [] s)"

definition attempt_data :: "string \<Rightarrow> nat \<Rightarrow> string \<Rightarrow> json_object" where
  "attempt_data aid ord w = [(VStr ''attempt_id'', VStr aid), (VStr ''ordinal'', VInt (int ord)),
     (VStr ''worker_id'', VStr w)]"

definition mem_start_attempt :: "env \<Rightarrow> string \<Rightarrow> int \<Rightarrow> string \<Rightarrow> (memory_store, error, string) prog" where
  "mem_start_attempt e eid expected w =
     and_then (record_for_update eid expected) (\<lambda>r s.
       case attempts s eid of
         None \<Rightarrow> (Inl (PyError ''KeyError''), s)
       | Some atts \<Rightarrow>
           let ord = length atts + 1;
               aid = eid @ ''-attempt-'' @ nat_text ord;
               a = \<lparr>attempt_id = aid, att_effect = eid, ordinal = int ord, att_worker = w,
                    att_version = expected, started_at = env_now e\<rparr>
           in and_then
                (append_event eid ''attempt_started'' (version r) (attempt_data aid ord w) (started_at a))
                (\<lambda>_. ret aid)
                (s\<lparr>attempts := (attempts s)(eid \<mapsto> atts @ [a])\<rparr>))"

definition transition_data :: "effect_status \<Rightarrow> effect_status \<Rightarrow> json_object \<Rightarrow> json_object" where
  "transition_data old new d = [(VStr ''from'', VStr (status_value old)),
     (VStr ''to'', VStr (status_value new)), (VStr ''metadata'', VDict d)]"

definition mem_transition :: "env \<Rightarrow> string \<Rightarrow> int \<Rightarrow> effect_status \<Rightarrow> json_object
    \<Rightarrow> (memory_store, error, effect_record) prog" where
  "mem_transition e eid expected goal d =
     and_then (record_for_update eid expected) (\<lambda>r s.
       case assert_transition (status r) goal of
         Inl x \<Rightarrow> (Inl x, s)
       | Inr _ \<Rightarrow>
           let now = env_now e;
               updated = r\<lparr>status := goal, version := version r + 1, updated_at := now\<rparr>
           in and_then
                (append_event eid ''transition'' (version updated) (transition_data (status r) goal d) now)
                (\<lambda>_. ret updated)
                (s\<lparr>records := AList.update eid updated (records s),
                   leases := (if goal \<notin> {PREPARED, RETRYABLE} then (leases s)(eid := None) else leases s)\<rparr>))"

definition mem_get :: "string \<Rightarrow> string \<Rightarrow> memory_store \<Rightarrow> effect_record option" where
  "mem_get tenant eid s = (case map_of (records s) eid of
     None \<Rightarrow> None
   | Some r \<Rightarrow> if tenant_id r \<noteq> tenant then None else Some r)"

text \<open>\<open>xs[a:b]\<close>: bounds count from the end when negative and are clipped.\<close>

definition slice_bound :: "nat \<Rightarrow> int \<Rightarrow> nat" where
  "slice_bound n i = (if i < 0 then nat (int n + i) else min n (nat i))"

definition py_slice :: "'a list \<Rightarrow> int \<Rightarrow> int \<Rightarrow> 'a list" where
  "py_slice xs a b = drop (slice_bound (length xs) a) (take (slice_bound (length xs) b) xs)"

definition mem_list :: "string \<Rightarrow> effect_status option \<Rightarrow> int \<Rightarrow> int \<Rightarrow> memory_store \<Rightarrow> effect_record list"
where
  "mem_list tenant st lim offset s =
     (let rs = filter (\<lambda>r. tenant_id r = tenant \<and> (case st of None \<Rightarrow> True | Some x \<Rightarrow> status r = x))
                 (map snd (records s))
      in py_slice (sort_key (\<lambda>r. (created_at r, effect_id r)) rs) offset (offset + lim))"

text \<open>The last transition to \<open>SUCCEEDED\<close>; its metadata is a dict by construction.\<close>

fun find_success :: "memory_event list \<Rightarrow> memory_event option" where
  "find_success [] = None"
| "find_success (ev # evs) =
     (if ev_type ev \<noteq> ''transition'' then find_success evs
      else if dict_get (ev_data ev) ''to'' \<noteq> Some (VStr (status_value SUCCEEDED)) then find_success evs
      else Some ev)"

definition as_dict :: "pyval option \<Rightarrow> json_object" where
  "as_dict v = (case v of Some (VDict d) \<Rightarrow> d | _ \<Rightarrow> [])"

definition mem_receipt :: "string \<Rightarrow> string \<Rightarrow> memory_store \<Rightarrow> json_object option" where
  "mem_receipt tenant eid s = (case map_of (records s) eid of
     None \<Rightarrow> None
   | Some r \<Rightarrow>
       if tenant_id r \<noteq> tenant then None
       else (case find_success (rev (case events s eid of Some evs \<Rightarrow> evs | None \<Rightarrow> [])) of
          None \<Rightarrow> None
        | Some ev \<Rightarrow> Some
            [(VStr ''effect_id'', VStr eid),
             (VStr ''status'', VStr (status_value SUCCEEDED)),
             (VStr ''contract'', VStr (contract_name (contract r))),
             (VStr ''contract_version'', VStr (contract_version (contract r))),
             (VStr ''downstream_key'', VStr (down_key r)),
             (VStr ''metadata'', VDict (as_dict (dict_get (ev_data ev) ''metadata''))),
             (VStr ''recorded_at'', VStr (isoformat (ev_at ev)))]))"

definition mem_events :: "string \<Rightarrow> memory_store \<Rightarrow> memory_event list" where
  "mem_events eid s = (case events s eid of Some evs \<Rightarrow> evs | None \<Rightarrow> [])"

definition mem_attempt_count :: "string \<Rightarrow> memory_store \<Rightarrow> nat" where
  "mem_attempt_count eid s = (case attempts s eid of Some atts \<Rightarrow> length atts | None \<Rightarrow> 0)"

definition mem_count :: "memory_store \<Rightarrow> nat" where
  "mem_count s = length (records s)"

definition memory_ops :: "tenant_key_provider \<Rightarrow> memory_store store_ops" where
  "memory_ops tenant_key = \<lparr>reserve_op = mem_reserve tenant_key, claim_op = mem_claim_due,
     start_op = mem_start_attempt, transition_op = mem_transition, get_op = mem_get,
     list_op = mem_list, receipt_op = mem_receipt\<rparr>"

end
