(* ===== verification/Observability.thy ===== *)
theory Observability
  imports Models Digests
begin

text \<open>
  Correctness telemetry (\<open>observability.py\<close>). \<open>metrics\<close> holds the samples of the Prometheus
  registry: a counter is a count per label value, a gauge the last value set per label pair,
  the latency histogram its number of observations per operation, and ages and retention are
  kept in microseconds. \<open>unknown_by_effect\<close> is the module's dict of effects whose outcome is
  unknown; \<open>track_unknown\<close> keeps the two gauges in step with it. A span is its attributes.
  Measured durations are not modelled, nor the OpenTelemetry tracer behind a span.
\<close>

type_synonym unknown_key = "string \<times> string \<times> time"

record metrics =
  effects_total :: "string \<Rightarrow> nat"
  unknown_effects :: "string \<times> string \<Rightarrow> nat option"
  unknown_oldest_age :: "string \<times> string \<Rightarrow> timedelta option"
  dispatch_attempts_total :: "string \<Rightarrow> nat"
  reconciliation_outcomes :: "string \<Rightarrow> nat"
  lease_expirations_total :: nat
  fenced_stale_writes :: nat
  payload_conflicts :: nat
  op_latency_count :: "string \<Rightarrow> nat"
  retention_remaining :: timedelta
  unknown_by_effect :: "(string \<times> unknown_key) list"

definition reset_for_tests :: metrics where
  "reset_for_tests = \<lparr>effects_total = (\<lambda>_. 0), unknown_effects = Map.empty,
     unknown_oldest_age = Map.empty, dispatch_attempts_total = (\<lambda>_. 0),
     reconciliation_outcomes = (\<lambda>_. 0), lease_expirations_total = 0, fenced_stale_writes = 0,
     payload_conflicts = 0, op_latency_count = (\<lambda>_. 0), retention_remaining = 0,
     unknown_by_effect = []\<rparr>"

text \<open>\<open>counter.labels(l).inc()\<close>\<close>

definition inc :: "string \<Rightarrow> (string \<Rightarrow> nat) \<Rightarrow> string \<Rightarrow> nat" where
  "inc l f = f(l := Suc (f l))"

definition record_submit :: "reservation \<Rightarrow> metrics \<Rightarrow> metrics" where
  "record_submit res m =
     (let result = (if created res then ''submitted'' else ''deduplicated'')
      in m\<lparr>effects_total := inc result (effects_total m)\<rparr>)"

definition record_conflict :: "metrics \<Rightarrow> metrics" where
  "record_conflict m = m\<lparr>effects_total := inc ''conflicted'' (effects_total m),
     payload_conflicts := Suc (payload_conflicts m)\<rparr>"

definition unknown_key :: "effect_record \<Rightarrow> unknown_key" where
  "unknown_key r = (contract_name (contract r), safety_value (safety (contract r)), created_at r)"

definition key_labels :: "unknown_key \<Rightarrow> string \<times> string" where
  "key_labels k = (case k of (name, cls, at) \<Rightarrow> (name, cls))"

definition key_created :: "unknown_key \<Rightarrow> time" where
  "key_created k = (case k of (name, cls, at) \<Rightarrow> at)"

definition created_times :: "(string \<times> unknown_key) list \<Rightarrow> string \<times> string \<Rightarrow> time list" where
  "created_times d l = map key_created (filter (\<lambda>k. key_labels k = l) (map snd d))"

definition oldest_age :: "time \<Rightarrow> time list \<Rightarrow> timedelta" where
  "oldest_age now ts = (case ts of [] \<Rightarrow> 0 | t # ts' \<Rightarrow> max 0 (now - fold min ts' t))"

text \<open>The gauges are set for the labels of the two records and of every tracked effect.\<close>

definition track_unknown :: "time \<Rightarrow> effect_record \<Rightarrow> effect_record \<Rightarrow> metrics \<Rightarrow> metrics" where
  "track_unknown now before after m =
     (let d = (if status after = OUTCOME_UNKNOWN
               then AList.update (effect_id after) (unknown_key after) (unknown_by_effect m)
               else if status before = OUTCOME_UNKNOWN
               then AList.delete (effect_id before) (unknown_by_effect m)
               else unknown_by_effect m);
          labels = key_labels (unknown_key before) # key_labels (unknown_key after)
                     # map (key_labels \<circ> snd) d
      in m\<lparr>unknown_by_effect := d,
           unknown_effects := (\<lambda>l. if l \<in> set labels then Some (length (created_times d l))
                                     else unknown_effects m l),
           unknown_oldest_age := (\<lambda>l. if l \<in> set labels then Some (oldest_age now (created_times d l))
                                        else unknown_oldest_age m l)\<rparr>)"

definition record_transition :: "time \<Rightarrow> effect_record \<Rightarrow> effect_record \<Rightarrow> metrics \<Rightarrow> metrics" where
  "record_transition now before after m =
     (let changed = (status before \<noteq> status after);
          m' = (if status after = SUCCEEDED \<and> changed
                then m\<lparr>effects_total := inc ''succeeded'' (effects_total m)\<rparr>
                else if status after = FAILED_FINAL \<and> changed
                then m\<lparr>effects_total := inc ''failed'' (effects_total m)\<rparr>
                else if status after = OUTCOME_UNKNOWN \<and> changed
                then m\<lparr>effects_total := inc ''unknown'' (effects_total m)\<rparr>
                else m)
      in if changed then track_unknown now before after m' else m')"

definition record_dispatch_attempt :: "effect_record \<Rightarrow> metrics \<Rightarrow> metrics" where
  "record_dispatch_attempt r m =
     m\<lparr>dispatch_attempts_total := inc (tool (request r)) (dispatch_attempts_total m)\<rparr>"

definition record_reconciliation_outcome :: "string \<Rightarrow> metrics \<Rightarrow> metrics" where
  "record_reconciliation_outcome outcome m =
     m\<lparr>reconciliation_outcomes := inc outcome (reconciliation_outcomes m)\<rparr>"

definition record_lease_expiration :: "metrics \<Rightarrow> metrics" where
  "record_lease_expiration m = m\<lparr>lease_expirations_total := Suc (lease_expirations_total m)\<rparr>"

definition record_fenced_stale_write :: "metrics \<Rightarrow> metrics" where
  "record_fenced_stale_write m = m\<lparr>fenced_stale_writes := Suc (fenced_stale_writes m)\<rparr>"

definition record_retention_remaining :: "time \<Rightarrow> effect_record \<Rightarrow> metrics \<Rightarrow> metrics" where
  "record_retention_remaining now r m =
     (case key_retention (contract r) of
        None \<Rightarrow> m\<lparr>retention_remaining := 0\<rparr>
      | Some d \<Rightarrow> m\<lparr>retention_remaining := created_at r + d - now\<rparr>)"

definition count_latency :: "string \<Rightarrow> metrics \<Rightarrow> metrics" where
  "count_latency op m = m\<lparr>op_latency_count := inc op (op_latency_count m)\<rparr>"

definition operation_key_digest :: "string \<Rightarrow> string" where
  "operation_key_digest op_key = take 16 (hex_text (sha256 (utf8_encode op_key)))"

definition span_attributes :: "effect_record \<Rightarrow> string option \<Rightarrow> (string \<times> string) list" where
  "span_attributes r receipt_id =
     [(''effect_broker.operation_key_digest'', operation_key_digest (operation_key (request r))),
      (''effect_broker.tool'', tool (request r)),
      (''effect_broker.contract_version'', contract_version (contract r)),
      (''effect_broker.status'', status_value (status r)),
      (''effect_broker.receipt_id'', case receipt_id of None \<Rightarrow> [] | Some t \<Rightarrow> t)]"

section \<open>The gauges follow the tracked effects\<close>

lemma inc_simps [simp]: "inc l f l = Suc (f l)" "k \<noteq> l \<Longrightarrow> inc l f k = f k"
  by (simp_all add: inc_def)

text \<open>
  Every gauge that was ever set shows the number of tracked effects with its labels, and every
  tracked effect is shown by a gauge.
\<close>

definition gauge_ok :: "nat option \<Rightarrow> time list \<Rightarrow> bool" where
  "gauge_ok g ts \<longleftrightarrow> (case g of Some n \<Rightarrow> n = length ts | None \<Rightarrow> ts = [])"

definition gauges_ok :: "metrics \<Rightarrow> bool" where
  "gauges_ok m \<longleftrightarrow> distinct (map fst (unknown_by_effect m))
     \<and> (\<forall>l. gauge_ok (unknown_effects m l) (created_times (unknown_by_effect m) l))"

lemma gauge_ok_simps [simp]: "gauge_ok (Some n) ts \<longleftrightarrow> n = length ts" "gauge_ok None ts \<longleftrightarrow> ts = []"
  by (simp_all add: gauge_ok_def)

lemma gauges_ok_reset: "gauges_ok reset_for_tests"
  by (simp add: gauges_ok_def reset_for_tests_def created_times_def)

lemma created_times_Nil: "created_times d l = [] \<longleftrightarrow> l \<notin> set (map (key_labels \<circ> snd) d)"
  by (auto simp: created_times_def filter_empty_conv)

lemma created_times_update:
  "l \<noteq> key_labels k \<Longrightarrow> (\<And>k'. map_of d i = Some k' \<Longrightarrow> key_labels k' \<noteq> l) \<Longrightarrow>
     created_times (AList.update i k d) l = created_times d l"
  by (induction d) (auto simp: created_times_def split: if_splits)

lemma created_times_delete:
  "(\<And>k. (i, k) \<in> set d \<Longrightarrow> key_labels k \<noteq> l) \<Longrightarrow> created_times (AList.delete i d) l = created_times d l"
proof (induction d)
  case (Cons p d)
  obtain j k where p: "p = (j, k)" by (cases p)
  have "created_times (AList.delete i d) l = created_times d l"
    using Cons.prems by (intro Cons.IH) simp
  moreover have "j = i \<Longrightarrow> key_labels k \<noteq> l" using Cons.prems [of k] p by simp
  ultimately show ?case by (simp add: created_times_def p)
qed (simp add: created_times_def)

text \<open>What the module knows of an effect is what its record says.\<close>

definition tracked_as :: "metrics \<Rightarrow> effect_record \<Rightarrow> bool" where
  "tracked_as m r \<longleftrightarrow> (\<forall>k. map_of (unknown_by_effect m) (effect_id r) = Some k \<longrightarrow> k = unknown_key r)"

lemma gauges_ok_track:
  assumes ok: "gauges_ok m" and known: "tracked_as m before"
    and id: "effect_id after = effect_id before" and key: "unknown_key after = unknown_key before"
  shows "gauges_ok (track_unknown now before after m)"
proof -
  let ?d = "unknown_by_effect m" and ?m' = "track_unknown now before after m"
  let ?d' = "unknown_by_effect ?m'" and ?l = "key_labels (unknown_key before)"
  have dist: "distinct (map fst ?d)" using ok by (simp add: gauges_ok_def)
  have d': "?d' = (if status after = OUTCOME_UNKNOWN then AList.update (effect_id after) (unknown_key after) ?d
      else if status before = OUTCOME_UNKNOWN then AList.delete (effect_id before) ?d else ?d)"
    by (simp add: track_unknown_def Let_def)
  have entry: "key_labels k = ?l" if "map_of ?d (effect_id before) = Some k" for k
    using known that by (simp add: tracked_as_def)
  have same: "created_times ?d' l = created_times ?d l" if "l \<noteq> ?l" for l
  proof -
    have "created_times (AList.update (effect_id after) (unknown_key after) ?d) l = created_times ?d l"
      by (rule created_times_update) (use that entry key id in auto)
    moreover have "created_times (AList.delete (effect_id before) ?d) l = created_times ?d l"
      by (rule created_times_delete) (use that entry dist in auto)
    ultimately show ?thesis by (simp add: d')
  qed
  have gauge: "unknown_effects ?m' l = (if l = ?l \<or> created_times ?d' l \<noteq> []
      then Some (length (created_times ?d' l)) else unknown_effects m l)" for l
    by (auto simp: track_unknown_def Let_def created_times_Nil key)
  have "gauge_ok (unknown_effects ?m' l) (created_times ?d' l)" for l
  proof (cases "l = ?l \<or> created_times ?d' l \<noteq> []")
    case True
    then show ?thesis by (simp add: gauge)
  next
    case False
    then show ?thesis using ok same [of l] unfolding gauge gauges_ok_def by metis
  qed
  moreover have "distinct (map fst ?d')"
    using dist by (simp add: d' distinct_delete)
  ultimately show ?thesis unfolding gauges_ok_def by blast
qed

lemma record_transition_unchanged:
  "status before = status after \<Longrightarrow> record_transition now before after m = m"
  by (simp add: record_transition_def)

lemma gauges_ok_counts [simp]: "gauges_ok (m\<lparr>effects_total := c\<rparr>) = gauges_ok m"
  by (simp add: gauges_ok_def)

lemma tracked_as_counts [simp]: "tracked_as (m\<lparr>effects_total := c\<rparr>) r = tracked_as m r"
  by (simp add: tracked_as_def)

lemma gauges_ok_transition:
  assumes "gauges_ok m" and "tracked_as m before"
    and "effect_id after = effect_id before" and "unknown_key after = unknown_key before"
  shows "gauges_ok (record_transition now before after m)"
  using assms by (simp add: record_transition_def Let_def gauges_ok_track)

text \<open>A record whose outcome is unknown is tracked; leaving that status ends the tracking.\<close>

lemma record_transition_tracks:
  assumes "status before \<noteq> status after" and "effect_id after = effect_id before"
  shows "status after = OUTCOME_UNKNOWN \<Longrightarrow>
      map_of (unknown_by_effect (record_transition now before after m)) (effect_id after) = Some (unknown_key after)"
    and "status before = OUTCOME_UNKNOWN \<Longrightarrow>
      map_of (unknown_by_effect (record_transition now before after m)) (effect_id after) = None"
  using assms by (auto simp: record_transition_def track_unknown_def Let_def delete_conv')

end
