(* ===== verification/Runtime.thy ===== *)
theory Runtime
  imports Store_Api Observability
begin

text \<open>
  What a broker process runs over: its ledger, the targets its adapters reach, its metrics
  and the readings of clock and UUID source it will make (\<open>envs\<close>, consumed in order). All
  are free: the ledger is any type with \<open>store_ops\<close>, the target any type with adapters.

  An adapter (\<open>adapters/base.py\<close>) is its two methods; both may change the target, and raise.
  \<open>transition_and_record\<close> is the helper that \<open>worker.py\<close> and \<open>reconcile.py\<close> share word for
  word: a compare-and-swap transition with its metrics. Exceptions here are those of Python's
  \<open>Exception\<close>; the death of the process is the end of the sequence of operations.
\<close>

record 'w adapter =
  adapter_contract :: effect_contract
  adapter_dispatch :: "effect_record \<Rightarrow> string \<Rightarrow> ('w, error, dispatch_result) prog"
  adapter_probe :: "effect_record \<Rightarrow> ('w, error, probe_result) prog"

type_synonym 'w adapter_for = "effect_record \<Rightarrow> error + 'w adapter"

record ('s, 'w) world =
  ledger :: 's
  target :: 'w
  metrics :: metrics
  envs :: "nat \<Rightarrow> env"
  ticks :: nat

type_synonym ('s, 'w, 'a) process = "(('s, 'w) world, error, 'a) prog"

definition read_env :: "('s, 'w, env) process" where
  "read_env = (\<lambda>s. (Inr (envs s (ticks s)), s\<lparr>ticks := Suc (ticks s)\<rparr>))"

definition on_ledger :: "('s, error, 'a) prog \<Rightarrow> ('s, 'w, 'a) process" where
  "on_ledger m = (\<lambda>s. case m (ledger s) of (x, l) \<Rightarrow> (x, s\<lparr>ledger := l\<rparr>))"

definition on_target :: "('w, error, 'a) prog \<Rightarrow> ('s, 'w, 'a) process" where
  "on_target m = (\<lambda>s. case m (target s) of (x, w) \<Rightarrow> (x, s\<lparr>target := w\<rparr>))"

definition measure_with :: "(metrics \<Rightarrow> metrics) \<Rightarrow> ('s, 'w, unit) process" where
  "measure_with f = modify (\<lambda>s. s\<lparr>metrics := f (metrics s)\<rparr>)"

definition raise_or_return :: "error + 'a \<Rightarrow> ('s, 'w, 'a) process" where
  "raise_or_return x = (\<lambda>s. (x, s))"

text \<open>\<open>with observe_latency(op):\<close> counts on every way out of the block.\<close>

definition observe_latency :: "string \<Rightarrow> ('s, 'w, 'a) process \<Rightarrow> ('s, 'w, 'a) process" where
  "observe_latency op m = (\<lambda>s. case m s of (x, t) \<Rightarrow> (x, t\<lparr>metrics := count_latency op (metrics t)\<rparr>))"

definition transition_and_record ::
  "'s store_ops \<Rightarrow> effect_record \<Rightarrow> effect_status \<Rightarrow> json_object \<Rightarrow> ('s, 'w, effect_record) process"
where
  "transition_and_record ops before goal d =
     and_then read_env (\<lambda>e.
     and_then
       (on_error
         (on_ledger (transition_op ops e (effect_id before) (version before) goal d))
         (\<lambda>x. case x of
            VersionConflictError i \<Rightarrow> and_then (measure_with record_fenced_stale_write) (\<lambda>_. throw x)
          | _ \<Rightarrow> throw x))
       (\<lambda>after.
          and_then read_env (\<lambda>e'.
          and_then (measure_with (record_transition (env_now e') before after)) (\<lambda>_. ret after))))"

section \<open>What a step of the process leaves alone\<close>

text \<open>Equations for the ledger and target components of a run.\<close>

lemma read_env_run [run_simps]: "read_env s = (Inr (envs s (ticks s)), s\<lparr>ticks := Suc (ticks s)\<rparr>)"
  by (simp add: read_env_def)

lemma measure_with_run [run_simps]: "measure_with f s = (Inr (), s\<lparr>metrics := f (metrics s)\<rparr>)"
  by (simp add: measure_with_def)

lemma raise_or_return_run [run_simps]: "raise_or_return x s = (x, s)"
  by (simp add: raise_or_return_def)

lemma on_ledger_run: "m (ledger s) = (x, l) \<Longrightarrow> on_ledger m s = (x, s\<lparr>ledger := l\<rparr>)"
  by (simp add: on_ledger_def)

lemma on_target_run: "m (target s) = (x, w) \<Longrightarrow> on_target m s = (x, s\<lparr>target := w\<rparr>)"
  by (simp add: on_target_def)

text \<open>\<open>leaves_ledger m\<close>: whatever \<open>m\<close> does, the ledger is the same after it.\<close>

definition leaves_ledger :: "('s, 'w, 'a) process \<Rightarrow> bool" where
  "leaves_ledger m \<longleftrightarrow> (\<forall>s. ledger (snd (m s)) = ledger s)"

definition leaves_target :: "('s, 'w, 'a) process \<Rightarrow> bool" where
  "leaves_target m \<longleftrightarrow> (\<forall>s. target (snd (m s)) = target s)"

lemma leaves_ledgerD: "leaves_ledger m \<Longrightarrow> m s = (x, t) \<Longrightarrow> ledger t = ledger s"
  unfolding leaves_ledger_def by (metis snd_conv)

lemma leaves_targetD: "leaves_target m \<Longrightarrow> m s = (x, t) \<Longrightarrow> target t = target s"
  unfolding leaves_target_def by (metis snd_conv)

lemma leaves_ledger_simps [simp]:
  "leaves_ledger read_env" "leaves_ledger (measure_with f)" "leaves_ledger (raise_or_return x)"
  "leaves_ledger (on_target m')" "leaves_ledger (ret y)" "leaves_ledger (throw e)"
  by (simp_all add: leaves_ledger_def run_simps on_target_def split: prod.split)

lemma leaves_target_simps [simp]:
  "leaves_target read_env" "leaves_target (measure_with f)" "leaves_target (raise_or_return x)"
  "leaves_target (on_ledger m')" "leaves_target (ret y)" "leaves_target (throw e)"
  by (simp_all add: leaves_target_def run_simps on_ledger_def split: prod.split)

lemma leaves_ledger_and_then [intro]:
  assumes "leaves_ledger m" and "\<And>x. leaves_ledger (f x)"
  shows "leaves_ledger (and_then m f)"
proof -
  have "ledger t = ledger s" if "and_then m f s = (x, t)" for s x t
    using that by (cases rule: and_then_cases) (use assms in \<open>metis leaves_ledgerD\<close>)+
  then show ?thesis unfolding leaves_ledger_def by (metis prod.collapse)
qed

lemma leaves_target_and_then [intro]:
  assumes "leaves_target m" and "\<And>x. leaves_target (f x)"
  shows "leaves_target (and_then m f)"
proof -
  have "target t = target s" if "and_then m f s = (x, t)" for s x t
    using that by (cases rule: and_then_cases) (use assms in \<open>metis leaves_targetD\<close>)+
  then show ?thesis unfolding leaves_target_def by (metis prod.collapse)
qed

lemma leaves_target_on_error [intro]:
  assumes "leaves_target m" and "\<And>x. leaves_target (f x)"
  shows "leaves_target (on_error m f)"
proof -
  have "target t = target s" if "on_error m f s = (x, t)" for s x t
    using that by (cases rule: on_error_cases) (use assms in \<open>metis leaves_targetD\<close>)+
  then show ?thesis unfolding leaves_target_def by (metis prod.collapse)
qed

lemma observe_latency_run:
  "m s = (x, t) \<Longrightarrow> observe_latency op m s = (x, t\<lparr>metrics := count_latency op (metrics t)\<rparr>)"
  by (simp add: observe_latency_def)

lemma leaves_ledger_observe [simp]: "leaves_ledger (observe_latency op m) = leaves_ledger m"
  by (simp add: leaves_ledger_def observe_latency_def case_prod_beta)

lemma leaves_target_observe [simp]: "leaves_target (observe_latency op m) = leaves_target m"
  by (simp add: leaves_target_def observe_latency_def case_prod_beta)

lemma transition_and_record_target [simp]: "leaves_target (transition_and_record ops before goal d)"
  unfolding transition_and_record_def
  by (intro leaves_target_and_then leaves_target_on_error) (auto split: error.splits)

section \<open>One recorded transition\<close>

context effect_ledger begin

text \<open>Over any ledger it writes the edge it was asked for, or raises and has written nothing.\<close>

lemma recorded_cases:
  assumes inv: "invar (ledger s)" and run: "transition_and_record ops before goal d s = (x, t)"
  obtains (moved) r now where "look (ledger s) (effect_id before) = Some r" "version r = version before"
      "is_allowed (status r) goal" "x = Inr (advance r goal now)"
      "invar (ledger t)" "look (ledger t) = (look (ledger s))(effect_id before \<mapsto> advance r goal now)"
      "tries (ledger t) = tries (ledger s)"
  | (failed) err where "x = Inl err" "ledger t = ledger s"
proof -
  let ?e = "envs s (ticks s)" and ?s = "s\<lparr>ticks := Suc (ticks s)\<rparr>"
  obtain y l where op: "transition_op ops ?e (effect_id before) (version before) goal d (ledger s) = (y, l)"
    by (cases "transition_op ops ?e (effect_id before) (version before) goal d (ledger s)")
  have on: "on_ledger (transition_op ops ?e (effect_id before) (version before) goal d) ?s =
    (y, ?s\<lparr>ledger := l\<rparr>)" using op by (simp add: on_ledger_def)
  show ?thesis
  proof (cases y)
    case (Inr after)
    with run on have "x = Inr after" and "ledger t = l"
      by (auto simp: transition_and_record_def and_then_def on_error_def run_simps)
    with ledger_transition [OF inv op [unfolded Inr]] show ?thesis by (auto intro: that(1))
  next
    case (Inl err)
    with run on have "x = Inl err" and "ledger t = l"
      by (auto simp: transition_and_record_def and_then_def on_error_def run_simps split: error.splits)
    with ledger_transition_error [OF inv op [unfolded Inl]] show ?thesis by (auto intro: that(2))
  qed
qed

end

context effect_store begin

text \<open>
  The compare-and-swap of a process: it succeeds exactly when the ledger still holds the
  version the process saw, the edge is in the graph and the data can be stored; otherwise it
  raises and the ledger is untouched.
\<close>

lemma transition_and_record_cases:
  assumes "invar (ledger s)" and run: "transition_and_record ops before goal d s = (x, t)"
  obtains (moved) r now where "look (ledger s) (effect_id before) = Some r" "version r = version before"
      "is_allowed (status r) goal" "accepts d" "x = Inr (advance r goal now)"
      "invar (ledger t)" "look (ledger t) = (look (ledger s))(effect_id before \<mapsto> advance r goal now)"
      "tries (ledger t) = tries (ledger s)"
  | (failed) err where "x = Inl err" "ledger t = ledger s"
      "look (ledger s) (effect_id before) = None \<or>
       (\<exists>r. look (ledger s) (effect_id before) = Some r \<and>
          (version r \<noteq> version before \<or> \<not> is_allowed (status r) goal \<or> \<not> accepts d))"
proof -
  let ?e = "envs s (ticks s)" and ?s = "s\<lparr>ticks := Suc (ticks s)\<rparr>"
  obtain y l where op: "transition_op ops ?e (effect_id before) (version before) goal d (ledger s) = (y, l)"
    by (cases "transition_op ops ?e (effect_id before) (version before) goal d (ledger s)")
  have on: "on_ledger (transition_op ops ?e (effect_id before) (version before) goal d) ?s =
    (y, ?s\<lparr>ledger := l\<rparr>)" using op by (simp add: on_ledger_def)
  show ?thesis
  proof (cases y)
    case (Inr after)
    with run on have "x = Inr after" and "ledger t = l"
      by (auto simp: transition_and_record_def and_then_def on_error_def run_simps)
    from op Inr have "transition_op ops ?e (effect_id before) (version before) goal d (ledger s) = (Inr after, l)"
      by simp
    from assms(1) this show ?thesis
    proof (cases rule: transition_cases)
      case (moved r)
      show ?thesis
        by (rule that(1) [OF moved(1-4), of "env_now ?e"])
          (use moved(5-8) \<open>x = Inr after\<close> \<open>ledger t = l\<close> in simp_all)
    qed simp_all
  next
    case (Inl err)
    with run on have "x = Inl err" and "ledger t = l"
      by (auto simp: transition_and_record_def and_then_def on_error_def run_simps split: error.splits)
    from op Inl have "transition_op ops ?e (effect_id before) (version before) goal d (ledger s) = (Inl err, l)"
      by simp
    note failed = failed [OF \<open>x = Inl err\<close>]
    from assms(1) \<open>transition_op _ _ _ _ _ _ _ = (Inl err, l)\<close> show ?thesis
      by (cases rule: transition_cases; intro failed) (simp_all add: \<open>ledger t = l\<close>)
  qed
qed

text \<open>When the process holds the current record, the outcome is the intended one.\<close>

lemma transition_and_record_current:
  assumes "invar (ledger s)" and "look (ledger s) (effect_id r) = Some r" and "is_allowed (status r) goal"
    and "accepts d"
  obtains t now where "transition_and_record ops r goal d s = (Inr (advance r goal now), t)"
    "invar (ledger t)" "look (ledger t) = (look (ledger s))(effect_id r \<mapsto> advance r goal now)"
    "tries (ledger t) = tries (ledger s)" "target t = target s"
proof -
  obtain x t where run: "transition_and_record ops r goal d s = (x, t)"
    by (cases "transition_and_record ops r goal d s")
  from assms(1) run show ?thesis
  proof (cases rule: transition_and_record_cases)
    case (moved r' now)
    with assms(2) have "r' = r" by simp
    with moved run leaves_targetD [OF transition_and_record_target run] show ?thesis
      by (intro that [of now t]) simp_all
  next
    case (failed err)
    with assms show ?thesis by simp
  qed
qed

text \<open>Data the ledger cannot store: an error, and nothing written.\<close>

lemma transition_and_record_refused:
  assumes "invar (ledger s)" and "look (ledger s) (effect_id r) = Some r" and "is_allowed (status r) goal"
    and "\<not> accepts d"
  obtains err t where "transition_and_record ops r goal d s = (Inl err, t)" "data_error err"
    "ledger t = ledger s" "target t = target s" "metrics t = metrics s"
proof -
  from transition_refused [OF assms(1,2) HOL.refl assms(3,4), of "envs s (ticks s)"]
  obtain err where err: "transition_op ops (envs s (ticks s)) (effect_id r) (version r) goal d (ledger s) =
    (Inl err, ledger s)" "data_error err" by blast
  then have "transition_and_record ops r goal d s = (Inl err, s\<lparr>ticks := Suc (ticks s)\<rparr>)"
    by (auto simp: transition_and_record_def and_then_def on_error_def run_simps on_ledger_def data_error_def)
  with err(2) show ?thesis by (intro that [of err "s\<lparr>ticks := Suc (ticks s)\<rparr>"]) simp_all
qed

lemma transition_and_record_invar:
  assumes "invar (ledger s)" and "transition_and_record ops before goal d s = (x, t)"
  shows "invar (ledger t)"
  using assms by (cases rule: transition_and_record_cases) (use assms(1) in simp_all)

lemma transition_and_record_tries:
  assumes "invar (ledger s)" and "transition_and_record ops before goal d s = (x, t)"
  shows "tries (ledger t) = tries (ledger s)"
  using assms by (cases rule: transition_and_record_cases) simp_all

end

end
