(* ===== verification/Worker.thy ===== *)
theory Worker
  imports Runtime
begin

text \<open>
  The worker (\<open>worker.py\<close>): claim due work, record \<open>DISPATCHING\<close> and an attempt before any
  adapter I/O, and persist the outcome there is evidence for. \<open>dispatch_effect\<close> is the body of
  the loop in \<open>dispatch_once\<close>; \<open>settle_dispatch\<close> is its \<open>try\<close> statement.

  The abstract specification is \<open>verdict\<close>: the status an answer of the adapter deserves. The
  lemmas, proved once for every ledger that keeps the laws of \<open>effect_store\<close>, show that the
  body returns for every adapter, counts exactly one attempt and ends in the verdict's status.
\<close>

definition attempt_ordinal :: "string \<Rightarrow> int" where
  "attempt_ordinal aid = (case rsplit1 (CHR ''-'') aid of
     None \<Rightarrow> 1
   | Some (_, tail) \<Rightarrow> (case py_int tail of None \<Rightarrow> 1 | Some n \<Rightarrow> n))"

definition transition_committed ::
  "'s store_ops \<Rightarrow> effect_record \<Rightarrow> string \<Rightarrow> dispatch_result \<Rightarrow> ('s, 'w, effect_record) process" where
  "transition_committed ops r aid res = transition_and_record ops r SUCCEEDED
     [(VStr ''attempt_id'', VStr aid), (VStr ''external_id'', opt_str (external_id res)),
      (VStr ''output'', VDict (result_output res))]"

definition transition_proven_non_commit ::
  "'s store_ops \<Rightarrow> effect_record \<Rightarrow> string \<Rightarrow> error \<Rightarrow> ('s, 'w, effect_record) process" where
  "transition_proven_non_commit ops r aid x =
     (let tries = attempt_ordinal aid;
          goal = (if tries < retry_limit (contract r) then RETRYABLE else FAILED_FINAL)
      in transition_and_record ops r goal
           [(VStr ''attempt_id'', VStr aid), (VStr ''error'', VStr (error_name x)),
            (VStr ''reason'', VStr ''proven_non_commit'')])"

definition call_adapter ::
  "'w adapter_for \<Rightarrow> effect_record \<Rightarrow> string \<Rightarrow> ('s, 'w, dispatch_result) process" where
  "call_adapter adapters r aid =
     observe_latency ''dispatch''
       (and_then (raise_or_return (adapters r)) (\<lambda>a. on_target (adapter_dispatch a r aid)))"

definition settle_dispatch ::
  "'s store_ops \<Rightarrow> 'w adapter_for \<Rightarrow> effect_record \<Rightarrow> string \<Rightarrow> ('s, 'w, effect_record) process" where
  "settle_dispatch ops adapters r aid =
     on_error
       (and_then (call_adapter adapters r aid) (\<lambda>res.
          if committed res then transition_committed ops r aid res
          else transition_and_record ops r OUTCOME_UNKNOWN
            [(VStr ''attempt_id'', VStr aid), (VStr ''reason'', VStr ''not_confirmed'')]))
       (\<lambda>x. case x of
          AdapterError _ \<Rightarrow> transition_proven_non_commit ops r aid x
        | _ \<Rightarrow> transition_and_record ops r OUTCOME_UNKNOWN
            [(VStr ''attempt_id'', VStr aid), (VStr ''error'', VStr (error_name x)),
             (VStr ''reason'', VStr ''ambiguous_dispatch'')])"

definition dispatch_effect ::
  "'s store_ops \<Rightarrow> 'w adapter_for \<Rightarrow> string \<Rightarrow> effect_record \<Rightarrow> ('s, 'w, effect_record) process" where
  "dispatch_effect ops adapters w r =
     and_then (transition_and_record ops r DISPATCHING [(VStr ''worker_id'', VStr w)]) (\<lambda>d.
     and_then read_env (\<lambda>e.
     and_then (on_ledger (start_op ops e (effect_id d) (version d) w)) (\<lambda>aid.
     and_then (measure_with (record_dispatch_attempt d)) (\<lambda>_.
     settle_dispatch ops adapters d aid))))"

fun dispatch_all ::
  "'s store_ops \<Rightarrow> 'w adapter_for \<Rightarrow> string \<Rightarrow> effect_record list \<Rightarrow> effect_record list
     \<Rightarrow> ('s, 'w, effect_record list) process" where
  "dispatch_all ops adapters w [] results = ret results"
| "dispatch_all ops adapters w (r # rs) results =
     and_then (dispatch_effect ops adapters w r) (\<lambda>x. dispatch_all ops adapters w rs (results @ [x]))"

definition dispatch_once ::
  "'s store_ops \<Rightarrow> 'w adapter_for \<Rightarrow> string \<Rightarrow> time \<Rightarrow> timedelta \<Rightarrow> int
     \<Rightarrow> ('s, 'w, effect_record list) process" where
  "dispatch_once ops adapters w now lease_for lim =
     and_then (on_ledger (claim_op ops w now lease_for lim)) (\<lambda>claimed.
       dispatch_all ops adapters w claimed [])"

section \<open>Attempt numbers\<close>

lemma attempt_ordinal_name [simp]: "attempt_ordinal (attempt_name eid n) = int n"
proof -
  have "attempt_name eid n = (eid @ ''-attempt'') @ CHR ''-'' # nat_text n"
    by (simp add: attempt_name_def)
  then have "rsplit1 (CHR ''-'') (attempt_name eid n) = Some (eid @ ''-attempt'', nat_text n)"
    by (metis rsplit1_append minus_notin_nat_text)
  then show ?thesis by (simp add: attempt_ordinal_def)
qed

section \<open>The verdict on an answer\<close>

definition adapter_answer :: "'w adapter_for \<Rightarrow> effect_record \<Rightarrow> string \<Rightarrow> 'w \<Rightarrow> (error + dispatch_result) \<times> 'w"
where
  "adapter_answer adapters r aid w = (case adapters r of
     Inl x \<Rightarrow> (Inl x, w) | Inr a \<Rightarrow> adapter_dispatch a r aid w)"

text \<open>
  Only authoritative evidence of a commit, which the ledger can store, is success; only an
  \<open>AdapterError\<close>, the proof of a non-commit, is failure or retry; everything else is unknown.
\<close>

definition verdict ::
  "(json_object \<Rightarrow> bool) \<Rightarrow> int \<Rightarrow> string \<Rightarrow> nat \<Rightarrow> error + dispatch_result \<Rightarrow> effect_status" where
  "verdict storable limit aid n answer = (case answer of
     Inl (AdapterError _) \<Rightarrow> if int n < limit then RETRYABLE else FAILED_FINAL
   | Inl _ \<Rightarrow> OUTCOME_UNKNOWN
   | Inr res \<Rightarrow>
       if committed res \<and> storable [(VStr ''attempt_id'', VStr aid),
            (VStr ''external_id'', opt_str (external_id res)), (VStr ''output'', VDict (result_output res))]
       then SUCCEEDED else OUTCOME_UNKNOWN)"

definition outcomes :: "effect_status set" where
  "outcomes = {SUCCEEDED, RETRYABLE, FAILED_FINAL, OUTCOME_UNKNOWN}"

lemma verdict_outcomes: "verdict p limit aid n answer \<in> outcomes"
  by (simp add: verdict_def outcomes_def split: sum.split error.split)

lemma verdict_RETRYABLE:
  "verdict p limit aid n answer = RETRYABLE \<longleftrightarrow> (\<exists>m. answer = Inl (AdapterError m)) \<and> int n < limit"
  by (auto simp: verdict_def split: sum.splits error.splits)

lemma verdict_SUCCEEDED:
  "verdict p limit aid n answer = SUCCEEDED \<Longrightarrow> \<exists>res. answer = Inr res \<and> committed res"
  by (auto simp: verdict_def split: sum.splits error.splits if_splits)

lemma outcomes_allowed: "g \<in> outcomes \<Longrightarrow> is_allowed DISPATCHING g"
  by (auto simp: outcomes_def is_allowed_simps)

lemma call_adapter_run:
  "adapter_answer adapters r aid (target s) = (x, w) \<Longrightarrow> call_adapter adapters r aid s =
     (x, s\<lparr>target := w, metrics := count_latency ''dispatch'' (metrics s)\<rparr>)"
  by (cases "adapters r")
    (auto simp: adapter_answer_def call_adapter_def observe_latency_def and_then_def raise_or_return_def
      on_target_def split: prod.splits)

section \<open>The body of the loop\<close>

lemma plain_simps:
  "plain [(VStr ''worker_id'', VStr w)]"
  "plain [(VStr ''attempt_id'', VStr aid), (VStr ''reason'', VStr t)]"
  "plain [(VStr ''attempt_id'', VStr aid), (VStr ''error'', VStr t), (VStr ''reason'', VStr u)]"
  "plain [(VStr ''reason'', VStr t)]"
  "plain [(VStr ''actor'', VStr t), (VStr ''reason'', VStr u)]"
  by (simp_all add: plain_def)

context effect_store begin

text \<open>The \<open>try\<close> statement, by the answer of the adapter.\<close>

lemma settle_dispatch_verdict:
  assumes inv: "invar (ledger s)" and cur: "look (ledger s) (effect_id r) = Some r"
    and st: "status r = DISPATCHING" and aid: "aid = attempt_name eid n"
    and ans: "adapter_answer adapters r aid (target s) = (ans, w)"
    and goal: "goal = verdict accepts (retry_limit (contract r)) aid n ans"
  obtains t now where "settle_dispatch ops adapters r aid s = (Inr (advance r goal now), t)"
    "invar (ledger t)" "look (ledger t) = (look (ledger s))(effect_id r \<mapsto> advance r goal now)"
    "tries (ledger t) = tries (ledger s)" "target t = w"
proof -
  let ?s = "s\<lparr>target := w, metrics := count_latency ''dispatch'' (metrics s)\<rparr>"
  note call = call_adapter_run [OF ans] and run = settle_dispatch_def on_error_def and_then_def
  have allowed: "is_allowed (status r) goal"
    unfolding goal st by (rule outcomes_allowed [OF verdict_outcomes])
  have by_transition: thesis
    if "ledger u = ledger s" "target u = w" "accepts d"
      and "\<And>r' t. transition_and_record ops r goal d u = (Inr r', t) \<Longrightarrow>
        settle_dispatch ops adapters r aid s = (Inr r', t)" for u d
  proof -
    have "invar (ledger u)" "look (ledger u) (effect_id r) = Some r" using inv cur that(1) by simp_all
    from transition_and_record_current [OF this allowed that(3)] that(1,2,4) show thesis
      by (metis \<open>\<And>t now. \<lbrakk>settle_dispatch ops adapters r aid s = (Inr (advance r goal now), t);
        invar (ledger t); look (ledger t) = (look (ledger s))(effect_id r \<mapsto> advance r goal now);
        tries (ledger t) = tries (ledger s); target t = w\<rbrakk> \<Longrightarrow> thesis\<close>)
  qed
  show thesis
  proof (cases ans)
    case (Inl x)
    show thesis
    proof (cases "\<exists>m. x = AdapterError m")
      case True
      then show thesis using Inl aid goal call
        by (intro by_transition [of ?s, OF _ _ accepts_plain [OF plain_simps(3)]])
          (auto simp: run verdict_def transition_proven_non_commit_def Let_def)
    next
      case False
      then have "goal = OUTCOME_UNKNOWN" using Inl goal by (auto simp: verdict_def split: error.split)
      with False show thesis using Inl call
        by (intro by_transition [of ?s, OF _ _ accepts_plain
              [OF plain_simps(3) [of aid "error_name x" "''ambiguous_dispatch''"]]])
          (auto simp: run split: error.split)
    qed
  next
    case (Inr res)
    let ?d = "[(VStr ''attempt_id'', VStr aid), (VStr ''external_id'', opt_str (external_id res)),
      (VStr ''output'', VDict (result_output res))]"
    consider "\<not> committed res" | "committed res" "accepts ?d" | "committed res" "\<not> accepts ?d" by blast
    then show thesis
    proof cases
      case 1
      then have "goal = OUTCOME_UNKNOWN" using Inr goal by (simp add: verdict_def)
      with 1 Inr call show thesis
        by (intro by_transition [of ?s, OF _ _ accepts_plain [OF plain_simps(2) [of aid "''not_confirmed''"]]])
          (auto simp: run)
    next
      case 2
      then have "goal = SUCCEEDED" using Inr goal by (simp add: verdict_def)
      with 2 Inr call show thesis
        by (intro by_transition [of ?s, OF _ _ 2(2)]) (auto simp: run transition_committed_def)
    next
      case 3
      then have "goal = OUTCOME_UNKNOWN" using Inr goal by (simp add: verdict_def)
      have succ: "is_allowed (status r) SUCCEEDED" by (simp add: st is_allowed_simps)
      have "invar (ledger ?s)" "look (ledger ?s) (effect_id r) = Some r" using inv cur by simp_all
      from transition_and_record_refused [OF this succ 3(2)]
      obtain err u where "transition_and_record ops r SUCCEEDED ?d ?s = (Inl err, u)" and "data_error err"
        and u: "ledger u = ledger ?s" "target u = target ?s" .
      moreover from u have "ledger u = ledger s" "target u = w" by simp_all
      ultimately
      show thesis using 3 Inr call \<open>goal = OUTCOME_UNKNOWN\<close>
        by (intro by_transition [of u, OF _ _ accepts_plain
              [OF plain_simps(3) [of aid "error_name err" "''ambiguous_dispatch''"]]])
          (auto simp: run transition_committed_def data_error_def)
    qed
  qed
qed

text \<open>
  The body of the loop for the record a claim returned: it returns, whatever the adapter does,
  and nothing else in the ledger changes.
\<close>

lemma dispatch_effect_verdict:
  assumes inv: "invar (ledger s)" and cur: "look (ledger s) (effect_id r) = Some r" and due: "due r"
  obtains r' t d aid ans now now' where "dispatch_effect ops adapters w r s = (Inr r', t)"
    "invar (ledger t)" "look (ledger t) = (look (ledger s))(effect_id r \<mapsto> r')"
    "tries (ledger t) = (tries (ledger s))(effect_id r := Suc (tries (ledger s) (effect_id r)))"
    "aid = attempt_name (effect_id r) (Suc (tries (ledger s) (effect_id r)))"
    "d = advance r DISPATCHING now" "adapter_answer adapters d aid (target s) = (ans, target t)"
    "r' = advance d (verdict accepts (retry_limit (contract r)) aid (Suc (tries (ledger s) (effect_id r))) ans) now'"
proof -
  let ?n = "Suc (tries (ledger s) (effect_id r))"
  let ?aid = "attempt_name (effect_id r) ?n"
  have "is_allowed (status r) DISPATCHING" using due by (auto simp: due_def is_allowed_simps)
  from transition_and_record_current [OF inv cur this accepts_plain [OF plain_simps(1) [of w]]]
  obtain s1 now where s1: "transition_and_record ops r DISPATCHING [(VStr ''worker_id'', VStr w)] s =
      (Inr (advance r DISPATCHING now), s1)" "invar (ledger s1)"
    "look (ledger s1) = (look (ledger s))(effect_id r \<mapsto> advance r DISPATCHING now)"
    "tries (ledger s1) = tries (ledger s)" "target s1 = target s" .
  let ?d = "advance r DISPATCHING now" and ?e = "envs s1 (ticks s1)"
  have "look (ledger s1) (effect_id r) = Some ?d" by (simp add: s1)
  from start_done [OF s1(2) this, of "version r + 1" ?e w] obtain l where
    l: "start_op ops ?e (effect_id r) (version r + 1) w (ledger s1) = (Inr ?aid, l)"
      "invar l" "look l = look (ledger s1)" "tries l = (tries (ledger s))(effect_id r := ?n)"
    by (auto simp: s1)
  let ?s2 = "s1\<lparr>ticks := Suc (ticks s1), ledger := l, metrics := record_dispatch_attempt ?d (metrics s1)\<rparr>"
  obtain ans w' where ans: "adapter_answer adapters ?d ?aid (target s) = (ans, w')"
    by (cases "adapter_answer adapters ?d ?aid (target s)")
  have "dispatch_effect ops adapters w r s = settle_dispatch ops adapters ?d ?aid ?s2"
    by (simp add: dispatch_effect_def and_then_def s1(1) run_simps on_ledger_def l(1))
  moreover have "invar (ledger ?s2)" "look (ledger ?s2) (effect_id ?d) = Some ?d" "status ?d = DISPATCHING"
    "adapter_answer adapters ?d ?aid (target ?s2) = (ans, w')"
    using l ans by (simp_all add: s1)
  from settle_dispatch_verdict [OF this(1-3) HOL.refl this(4) HOL.refl]
  obtain t now' where "settle_dispatch ops adapters ?d ?aid ?s2 =
      (Inr (advance ?d (verdict accepts (retry_limit (contract ?d)) ?aid ?n ans) now'), t)"
    "invar (ledger t)" "look (ledger t) = (look (ledger ?s2))
      (effect_id ?d \<mapsto> advance ?d (verdict accepts (retry_limit (contract ?d)) ?aid ?n ans) now')"
    "tries (ledger t) = tries (ledger ?s2)" "target t = w'" .
  ultimately show thesis using l ans
    by (intro that [of "advance ?d (verdict accepts (retry_limit (contract ?d)) ?aid ?n ans) now'" t ?aid ?d now ans now'])
      (simp_all add: s1)
qed

text \<open>The loop: every claimed effect gets one attempt and one outcome, in order.\<close>

lemma dispatch_all_outcomes:
  assumes "invar (ledger s)" and "distinct (map effect_id rs)"
    and "\<forall>r \<in> set rs. look (ledger s) (effect_id r) = Some r \<and> due r"
  obtains out t where "dispatch_all ops adapters w rs done s = (Inr (done @ out), t)"
    "invar (ledger t)" "map effect_id out = map effect_id rs"
    "\<forall>i < length rs. same_pins (rs ! i) (out ! i) \<and> status (out ! i) \<in> outcomes
       \<and> version (out ! i) = version (rs ! i) + 2"
    "look (ledger t) = look (ledger s) ++ map_of (map (\<lambda>r. (effect_id r, r)) out)"
    "\<forall>i. tries (ledger t) i = tries (ledger s) i + (if i \<in> effect_id ` set rs then 1 else 0)"
  using assms
proof (induction rs arbitrary: "done" s thesis)
  case Nil
  show ?case by (rule Nil(1) [of "[]" s]) (use Nil in simp_all)
next
  case (Cons r rs)
  have cur: "look (ledger s) (effect_id r) = Some r" and due: "due r" using Cons.prems(4) by simp_all
  from dispatch_effect_verdict [OF Cons.prems(2) cur due, of adapters w] obtain r' s1 d aid ans now now' where
    r': "dispatch_effect ops adapters w r s = (Inr r', s1)" "invar (ledger s1)"
      "look (ledger s1) = (look (ledger s))(effect_id r \<mapsto> r')"
      "tries (ledger s1) = (tries (ledger s))(effect_id r := Suc (tries (ledger s) (effect_id r)))"
      "d = advance r DISPATCHING now"
      "r' = advance d (verdict accepts (retry_limit (contract r)) aid (Suc (tries (ledger s) (effect_id r))) ans) now'"
    by metis
  have pins: "same_pins r r'" by (simp add: r'(5,6))
  then have id: "effect_id r' = effect_id r" by (simp add: same_pins_def)
  have new: "effect_id r \<notin> effect_id ` set rs" and dist: "distinct (map effect_id rs)"
    using Cons.prems(3) by simp_all
  have rest: "\<forall>q \<in> set rs. look (ledger s1) (effect_id q) = Some q \<and> due q"
  proof
    fix q assume q: "q \<in> set rs"
    with new have "effect_id q \<noteq> effect_id r" by (metis image_eqI)
    with q Cons.prems(4) show "look (ledger s1) (effect_id q) = Some q \<and> due q" by (simp add: r'(3))
  qed
  obtain out t where
    out: "dispatch_all ops adapters w rs (done @ [r']) s1 = (Inr ((done @ [r']) @ out), t)" "invar (ledger t)"
      "map effect_id out = map effect_id rs"
      "\<forall>i < length rs. same_pins (rs ! i) (out ! i) \<and> status (out ! i) \<in> outcomes
         \<and> version (out ! i) = version (rs ! i) + 2"
      "look (ledger t) = look (ledger s1) ++ map_of (map (\<lambda>r. (effect_id r, r)) out)"
      "\<forall>i. tries (ledger t) i = tries (ledger s1) i + (if i \<in> effect_id ` set rs then 1 else 0)"
    by (rule Cons.IH [OF _ r'(2) dist rest, of "done @ [r']"])
  have "effect_id r \<notin> dom (map_of (map (\<lambda>r. (effect_id r, r)) out))"
  proof -
    have "effect_id ` set out = effect_id ` set rs" using out(3) by (metis list.set_map)
    with new show ?thesis by (simp add: dom_map_of_conv_image_fst image_image)
  qed
  then have look: "look (ledger t) = look (ledger s) ++ map_of (map (\<lambda>r. (effect_id r, r)) (r' # out))"
    by (simp del: fun_upd_apply add: out(5) r'(3) map_add_upd_swap id)
  have each: "same_pins ((r # rs) ! i) ((r' # out) ! i) \<and> status ((r' # out) ! i) \<in> outcomes
      \<and> version ((r' # out) ! i) = version ((r # rs) ! i) + 2" if "i < length (r # rs)" for i
    using that out(4) pins by (cases i) (auto simp: r'(5,6) verdict_outcomes)
  show ?case
  proof (rule Cons.prems(1) [of "r' # out" t])
    show "dispatch_all ops adapters w (r # rs) done s = (Inr (done @ r' # out), t)"
      using out(1) by (simp add: and_then_def r'(1))
    show "\<forall>i. tries (ledger t) i = tries (ledger s) i + (if i \<in> effect_id ` set (r # rs) then 1 else 0)"
      using out(6) new by (auto simp: r'(4))
    show "look (ledger t) = look (ledger s) ++ map_of (map (\<lambda>r. (effect_id r, r)) (r' # out))"
      by (rule look)
    show "map effect_id (r' # out) = map effect_id (r # rs)" using out(3) id by simp
    show "invar (ledger t)" by (rule out(2))
  qed (use each in blast)
qed

text \<open>One pass of the worker.\<close>

lemma dispatch_once_outcomes:
  assumes inv: "invar (ledger s)"
  obtains out t where "dispatch_once ops adapters w now lf lim s = (Inr out, t)"
    "invar (ledger t)" "distinct (map effect_id out)" "int (length out) \<le> max 0 lim"
    "\<forall>r' \<in> set out. status r' \<in> outcomes \<and> look (ledger t) (effect_id r') = Some r'
       \<and> (\<exists>r. look (ledger s) (effect_id r') = Some r \<and> due r \<and> same_pins r r' \<and> version r' = version r + 3)"
    "\<forall>i. i \<notin> effect_id ` set out \<longrightarrow> look (ledger t) i = look (ledger s) i"
    "\<forall>i. tries (ledger t) i = tries (ledger s) i + (if i \<in> effect_id ` set out then 1 else 0)"
proof -
  from claim_done [OF inv, of w now lf lim] obtain cs l where
    cs: "claim_op ops w now lf lim (ledger s) = (Inr cs, l)" "invar l" "tries l = tries (ledger s)"
      "distinct (map effect_id cs)" "int (length cs) \<le> max 0 lim"
      "\<forall>c \<in> set cs. \<exists>r. look (ledger s) (effect_id c) = Some r \<and> due r \<and> c = claim_record r now"
      "look l = look (ledger s) ++ map_of (map (\<lambda>c. (effect_id c, c)) cs)" by blast
  let ?s1 = "s\<lparr>ledger := l\<rparr>"
  have ids: "dom (map_of (map (\<lambda>r. (effect_id r, r)) rs)) = effect_id ` set rs" for rs :: "effect_record list"
    by (simp add: dom_map_of_conv_image_fst image_image)
  have of_id: "map_of (map (\<lambda>r. (effect_id r, r)) rs) (effect_id r) = Some r"
    if "distinct (map effect_id rs)" "r \<in> set rs" for rs and r :: effect_record
    using that by (intro map_of_is_SomeI) (auto simp: o_def)
  have "\<forall>r \<in> set cs. look (ledger ?s1) (effect_id r) = Some r \<and> due r"
    using cs(4,6,7) of_id by (fastforce simp: due_def)
  moreover have "invar (ledger ?s1)" using cs(2) by simp
  ultimately obtain out t where
    "dispatch_all ops adapters w cs [] ?s1 = (Inr ([] @ out), t)" and out: "invar (ledger t)"
      "map effect_id out = map effect_id cs"
      "\<forall>i < length cs. same_pins (cs ! i) (out ! i) \<and> status (out ! i) \<in> outcomes
         \<and> version (out ! i) = version (cs ! i) + 2"
      "look (ledger t) = look (ledger ?s1) ++ map_of (map (\<lambda>r. (effect_id r, r)) out)"
      "\<forall>i. tries (ledger t) i = tries (ledger ?s1) i + (if i \<in> effect_id ` set cs then 1 else 0)"
    using dispatch_all_outcomes [OF _ cs(4), of ?s1 adapters w "[]"] by blast
  then have run: "dispatch_all ops adapters w cs [] ?s1 = (Inr out, t)" by simp
  have same_ids: "effect_id ` set out = effect_id ` set cs" using out(2) by (metis list.set_map)
  have len: "length out = length cs" using out(2) by (rule map_eq_imp_length_eq)
  show thesis
  proof (rule that [OF _ out(1)])
    show "dispatch_once ops adapters w now lf lim s = (Inr out, t)"
      using run cs(1) by (simp add: dispatch_once_def and_then_def on_ledger_def)
    show "distinct (map effect_id out)" "int (length out) \<le> max 0 lim" using out(2) cs(4,5) len by simp_all
    show "\<forall>i. i \<notin> effect_id ` set out \<longrightarrow> look (ledger t) i = look (ledger s) i"
      using ids [of out] ids [of cs] same_ids by (simp add: out(4) cs(7) map_add_dom_app_simps(3))
    show "\<forall>i. tries (ledger t) i = tries (ledger s) i + (if i \<in> effect_id ` set out then 1 else 0)"
      using out(5) cs(3) same_ids by simp
    show "\<forall>r' \<in> set out. status r' \<in> outcomes \<and> look (ledger t) (effect_id r') = Some r'
       \<and> (\<exists>r. look (ledger s) (effect_id r') = Some r \<and> due r \<and> same_pins r r' \<and> version r' = version r + 3)"
    proof
      fix r' assume r': "r' \<in> set out"
      then obtain i where i: "i < length cs" "r' = out ! i" by (metis in_set_conv_nth len)
      obtain r where r: "look (ledger s) (effect_id (cs ! i)) = Some r" "due r" "cs ! i = claim_record r now"
        using cs(6) i(1) by (meson nth_mem)
      have pins: "same_pins (cs ! i) r'" and "status r' \<in> outcomes" and "version r' = version (cs ! i) + 2"
        using out(3) i by simp_all
      moreover have "effect_id r' = effect_id (cs ! i)" using pins by (simp add: same_pins_def)
      moreover have "look (ledger t) (effect_id r') = Some r'"
        using of_id [OF _ r'] out(2) cs(4) by (simp add: out(4))
      moreover have "same_pins r r'" using pins r(3) by (simp add: same_pins_def)
      ultimately show "status r' \<in> outcomes \<and> look (ledger t) (effect_id r') = Some r'
        \<and> (\<exists>r. look (ledger s) (effect_id r') = Some r \<and> due r \<and> same_pins r r' \<and> version r' = version r + 3)"
        using r by auto
    qed
  qed
qed

end

end
