(* ===== verification/Reconcile.thy ===== *)
theory Reconcile
  imports Worker
begin

text \<open>
  Resolution of unknown outcomes (\<open>reconcile.py\<close>). \<open>reconcile_body\<close> is \<open>_reconcile_once\<close>, split
  by the route the safety class decides: \<open>redispatch\<close> (the same downstream key, while the
  target still remembers it), \<open>probe_target\<close>, or an operator. The clock is read where the
  code reads it; the reading that only feeds the retention gauge is taken on every path.
\<close>

text \<open>\<open>try: m except Exception: h else: k\<close>, where \<open>k\<close> is not covered by the handler.\<close>

definition try_else :: "('s, 'e, 'a) prog \<Rightarrow> ('e \<Rightarrow> ('s, 'e, 'b) prog) \<Rightarrow> ('a \<Rightarrow> ('s, 'e, 'b) prog)
    \<Rightarrow> ('s, 'e, 'b) prog" where
  "try_else m h k = (\<lambda>s. case m s of (Inl e, t) \<Rightarrow> h e t | (Inr x, t) \<Rightarrow> k x t)"

definition key_retention_valid :: "time \<Rightarrow> effect_record \<Rightarrow> bool" where
  "key_retention_valid now r = (case key_retention (contract r) of
     None \<Rightarrow> False | Some d \<Rightarrow> now \<le> created_at r + d)"

definition reconcile_committed ::
  "'s store_ops \<Rightarrow> effect_record \<Rightarrow> string \<Rightarrow> dispatch_result \<Rightarrow> ('s, 'w, effect_record) process" where
  "reconcile_committed ops r aid res = transition_and_record ops r SUCCEEDED
     [(VStr ''attempt_id'', VStr aid), (VStr ''external_id'', opt_str (external_id res)),
      (VStr ''output'', VDict (result_output res))]"

text \<open>After the attempt row exists: call the target once more and persist what it answers.\<close>

definition redispatch_failed ::
  "'s store_ops \<Rightarrow> effect_record \<Rightarrow> string \<Rightarrow> error \<Rightarrow> ('s, 'w, effect_record) process" where
  "redispatch_failed ops d aid x = (case x of
     AdapterError _ \<Rightarrow>
       and_then (measure_with (record_reconciliation_outcome ''proven_non_commit'')) (\<lambda>_.
       transition_and_record ops d RETRYABLE
         [(VStr ''attempt_id'', VStr aid), (VStr ''error'', VStr (error_name x)),
          (VStr ''reason'', VStr ''proven_non_commit_after_redispatch'')])
   | _ \<Rightarrow>
       and_then (measure_with (record_reconciliation_outcome ''redispatch_unknown'')) (\<lambda>_.
       transition_and_record ops d OUTCOME_UNKNOWN
         [(VStr ''attempt_id'', VStr aid), (VStr ''error'', VStr (error_name x)),
          (VStr ''reason'', VStr ''ambiguous_redispatch'')]))"

definition redispatch_answered ::
  "'s store_ops \<Rightarrow> effect_record \<Rightarrow> string \<Rightarrow> dispatch_result \<Rightarrow> ('s, 'w, effect_record) process" where
  "redispatch_answered ops d aid res =
     (if committed res then
        and_then (measure_with (record_reconciliation_outcome ''redispatch_committed'')) (\<lambda>_.
        reconcile_committed ops d aid res)
      else
        and_then (measure_with (record_reconciliation_outcome ''redispatch_unknown'')) (\<lambda>_.
        transition_and_record ops d OUTCOME_UNKNOWN
          [(VStr ''attempt_id'', VStr aid), (VStr ''reason'', VStr ''not_confirmed'')]))"

definition redispatch_call ::
  "'s store_ops \<Rightarrow> 'w adapter \<Rightarrow> effect_record \<Rightarrow> string \<Rightarrow> ('s, 'w, effect_record) process" where
  "redispatch_call ops a d aid =
     try_else (observe_latency ''dispatch'' (on_target (adapter_dispatch a d aid)))
       (redispatch_failed ops d aid) (redispatch_answered ops d aid)"

lemmas redispatch_call_defs = redispatch_call_def redispatch_failed_def redispatch_answered_def

definition redispatch_with ::
  "'s store_ops \<Rightarrow> 'w adapter_for \<Rightarrow> effect_record \<Rightarrow> string \<Rightarrow> ('s, 'w, effect_record) process" where
  "redispatch_with ops adapters d aid =
     and_then (raise_or_return (adapters d)) (\<lambda>a. redispatch_call ops a d aid)"

definition redispatch ::
  "'s store_ops \<Rightarrow> 'w adapter_for \<Rightarrow> effect_record \<Rightarrow> ('s, 'w, effect_record) process" where
  "redispatch ops adapters r =
     and_then (transition_and_record ops r DISPATCHING [(VStr ''reason'', VStr ''idempotent_redispatch'')]) (\<lambda>d.
     and_then read_env (\<lambda>e.
     and_then (on_ledger (start_op ops e (effect_id d) (version d) ''reconciler'')) (\<lambda>aid.
     and_then (measure_with (record_dispatch_attempt d)) (\<lambda>_.
     redispatch_with ops adapters d aid))))"

definition probe_goal :: "probe_status \<Rightarrow> effect_status" where
  "probe_goal p = (if p = COMMITTED then SUCCEEDED
     else if p = NOT_COMMITTED then PREPARED else MANUAL_REVIEW)"

definition probe_data :: "probe_result \<Rightarrow> json_object" where
  "probe_data p =
     (if probe_state p = COMMITTED then
        [(VStr ''external_id'', opt_str (probe_external_id p)),
         (VStr ''output'', VDict (case probe_output p of None \<Rightarrow> [] | Some d \<Rightarrow> d)),
         (VStr ''evidence'', VDict (evidence p))]
      else if probe_state p = NOT_COMMITTED then [(VStr ''evidence'', VDict (evidence p))]
      else [(VStr ''evidence'', VDict (evidence p)), (VStr ''reason'', VStr ''probe_unknown'')])"

definition call_probe :: "'w adapter_for \<Rightarrow> effect_record \<Rightarrow> ('s, 'w, probe_result) process" where
  "call_probe adapters q = and_then (raise_or_return (adapters q)) (\<lambda>a. on_target (adapter_probe a q))"

definition probe_answered ::
  "'s store_ops \<Rightarrow> effect_record \<Rightarrow> probe_result \<Rightarrow> ('s, 'w, effect_record) process" where
  "probe_answered ops q p =
     and_then (measure_with (record_reconciliation_outcome (probe_value (probe_state p)))) (\<lambda>_.
     transition_and_record ops q (probe_goal (probe_state p)) (probe_data p))"

definition probe_target ::
  "'s store_ops \<Rightarrow> 'w adapter_for \<Rightarrow> effect_record \<Rightarrow> ('s, 'w, effect_record) process" where
  "probe_target ops adapters r =
     and_then (transition_and_record ops r RECONCILING [(VStr ''reason'', VStr ''authoritative_probe'')]) (\<lambda>q.
     and_then (call_probe adapters q) (probe_answered ops q))"

definition to_operator ::
  "'s store_ops \<Rightarrow> effect_record \<Rightarrow> string \<Rightarrow> string \<Rightarrow> ('s, 'w, effect_record) process" where
  "to_operator ops r outcome reason =
     and_then (measure_with (record_reconciliation_outcome outcome)) (\<lambda>_.
     transition_and_record ops r MANUAL_REVIEW [(VStr ''reason'', VStr reason)])"

definition reconcile_body ::
  "'s store_ops \<Rightarrow> 'w adapter_for \<Rightarrow> effect_record \<Rightarrow> ('s, 'w, effect_record) process" where
  "reconcile_body ops adapters r =
     (let route = route_unknown (safety (contract r))
      in if route = DISPATCHING then
           and_then read_env (\<lambda>e1.
           and_then (measure_with (record_retention_remaining (env_now e1) r)) (\<lambda>_.
           and_then read_env (\<lambda>e2.
           if \<not> key_retention_valid (env_now e2) r
           then to_operator ops r ''retention_expired'' ''idempotency_key_retention_expired''
           else redispatch ops adapters r)))
         else if route = RECONCILING then probe_target ops adapters r
         else to_operator ops r ''unsafe_unknown'' ''unsafe_unknown'')"

definition reconcile_once ::
  "'s store_ops \<Rightarrow> 'w adapter_for \<Rightarrow> effect_record \<Rightarrow> ('s, 'w, effect_record) process" where
  "reconcile_once ops adapters r = observe_latency ''reconcile'' (reconcile_body ops adapters r)"

section \<open>Routes\<close>

lemma key_retention_valid_iff:
  "key_retention_valid now r \<longleftrightarrow> (\<exists>d. key_retention (contract r) = Some d \<and> now \<le> created_at r + d)"
  by (simp add: key_retention_valid_def split: option.split)

lemma reconcile_body_cases:
  "safety (contract r) = IDEMPOTENT \<Longrightarrow> reconcile_body ops adapters r =
     and_then read_env (\<lambda>e1. and_then (measure_with (record_retention_remaining (env_now e1) r)) (\<lambda>_.
     and_then read_env (\<lambda>e2. if \<not> key_retention_valid (env_now e2) r
       then to_operator ops r ''retention_expired'' ''idempotency_key_retention_expired''
       else redispatch ops adapters r)))"
  "safety (contract r) \<in> {RECONCILABLE, TRANSACTIONAL} \<Longrightarrow>
     reconcile_body ops adapters r = probe_target ops adapters r"
  "safety (contract r) = UNSAFE \<Longrightarrow>
     reconcile_body ops adapters r = to_operator ops r ''unsafe_unknown'' ''unsafe_unknown''"
  by (auto simp: reconcile_body_def route_unknown_def)

text \<open>No adapter is reached when the effect goes to an operator.\<close>

lemma to_operator_target [simp]: "leaves_target (to_operator ops r outcome reason)"
  unfolding to_operator_def by (intro leaves_target_and_then) simp_all

lemma reconcile_unsafe_target:
  "safety (contract r) = UNSAFE \<Longrightarrow> leaves_target (reconcile_once ops adapters r)"
  by (simp add: reconcile_once_def reconcile_body_cases(3))

lemma call_probe_ledger [simp]: "leaves_ledger (call_probe adapters q)"
  unfolding call_probe_def by (intro leaves_ledger_and_then) simp_all

lemma probe_goal_simps [simp]:
  "probe_goal COMMITTED = SUCCEEDED" "probe_goal NOT_COMMITTED = PREPARED" "probe_goal UNKNOWN = MANUAL_REVIEW"
  by (simp_all add: probe_goal_def)

lemma probe_goal_allowed: "is_allowed RECONCILING (probe_goal p)"
  by (cases p) (simp_all add: is_allowed_simps)

text \<open>Only a conclusive proof of absence requeues an effect after a probe.\<close>

lemma probe_goal_iff:
  "probe_goal p = PREPARED \<longleftrightarrow> p = NOT_COMMITTED" "probe_goal p = SUCCEEDED \<longleftrightarrow> p = COMMITTED"
  by (cases p; simp)+

text \<open>The verdict on the answer to a redispatch.\<close>

definition redispatch_verdict :: "error + dispatch_result \<Rightarrow> effect_status" where
  "redispatch_verdict answer = (case answer of
     Inl (AdapterError _) \<Rightarrow> RETRYABLE
   | Inl _ \<Rightarrow> OUTCOME_UNKNOWN
   | Inr res \<Rightarrow> if committed res then SUCCEEDED else OUTCOME_UNKNOWN)"

lemma redispatch_verdict_outcomes: "redispatch_verdict answer \<in> outcomes"
  by (auto simp: redispatch_verdict_def outcomes_def split: sum.split error.split)

lemma redispatch_call_run:
  assumes "adapter_dispatch a d aid (target s) = (ans, w)"
  obtains m data where "redispatch_call ops a d aid s =
    transition_and_record ops d (redispatch_verdict ans) data (s\<lparr>target := w, metrics := m\<rparr>)"
  and "\<And>x. ans = Inl x \<Longrightarrow> plain data"
  and "\<And>res. ans = Inr res \<Longrightarrow> \<not> committed res \<Longrightarrow> plain data"
  and "\<And>res. ans = Inr res \<Longrightarrow> committed res \<Longrightarrow> data = [(VStr ''attempt_id'', VStr aid),
      (VStr ''external_id'', opt_str (external_id res)), (VStr ''output'', VDict (result_output res))]"
proof -
  let ?m = "count_latency ''dispatch'' (metrics s)"
  have call: "observe_latency ''dispatch'' (on_target (adapter_dispatch a d aid)) s =
      (ans, s\<lparr>target := w, metrics := ?m\<rparr>)"
    by (simp add: observe_latency_def on_target_def assms)
  show thesis
  proof (cases ans)
    case (Inr res)
    show thesis
    proof (cases "committed res")
      case True
      with call Inr show thesis
        by (intro that [of _ "record_reconciliation_outcome ''redispatch_committed'' ?m"])
          (simp_all add: redispatch_call_defs try_else_def and_then_def run_simps redispatch_verdict_def
            reconcile_committed_def)
    next
      case False
      with call Inr show thesis
        by (intro that [of
              "[(VStr ''attempt_id'', VStr aid), (VStr ''reason'', VStr ''not_confirmed'')]"
              "record_reconciliation_outcome ''redispatch_unknown'' ?m"])
          (simp_all add: redispatch_call_defs try_else_def and_then_def run_simps redispatch_verdict_def
            plain_simps)
    qed
  next
    case (Inl x)
    show thesis
    proof (cases "\<exists>msg. x = AdapterError msg")
      case True
      with call Inl show thesis
        by (intro that [of
              "[(VStr ''attempt_id'', VStr aid), (VStr ''error'', VStr (error_name x)),
               (VStr ''reason'', VStr ''proven_non_commit_after_redispatch'')]"
              "record_reconciliation_outcome ''proven_non_commit'' ?m"])
          (auto simp: redispatch_call_defs try_else_def and_then_def run_simps redispatch_verdict_def
            plain_simps)
    next
      case False
      with call Inl show thesis
        by (intro that [of
              "[(VStr ''attempt_id'', VStr aid), (VStr ''error'', VStr (error_name x)),
               (VStr ''reason'', VStr ''ambiguous_redispatch'')]"
              "record_reconciliation_outcome ''redispatch_unknown'' ?m"])
          (auto simp: redispatch_call_defs try_else_def and_then_def run_simps redispatch_verdict_def
            plain_simps split: error.split)
    qed
  qed
qed

text \<open>What a committed answer writes, and whether the ledger can store it.\<close>

definition commit_data :: "string \<Rightarrow> dispatch_result \<Rightarrow> json_object" where
  "commit_data aid res = [(VStr ''attempt_id'', VStr aid), (VStr ''external_id'', opt_str (external_id res)),
     (VStr ''output'', VDict (result_output res))]"

definition answer_storable :: "(json_object \<Rightarrow> bool) \<Rightarrow> string \<Rightarrow> error + dispatch_result \<Rightarrow> bool" where
  "answer_storable storable aid answer \<longleftrightarrow>
     (\<forall>res. answer = Inr res \<longrightarrow> committed res \<longrightarrow> storable (commit_data aid res))"

text \<open>
  How a redispatch ends for the record \<open>d\<close> and the attempt \<open>aid\<close>: the result \<open>x\<close>, the record \<open>q\<close> the ledger then
  holds, and the target \<open>u\<close> after it was \<open>w\<close>.
\<close>

definition redispatch_ends :: "(json_object \<Rightarrow> bool) \<Rightarrow> 'w adapter_for \<Rightarrow> effect_record \<Rightarrow> string \<Rightarrow> 'w \<Rightarrow> 'w
    \<Rightarrow> error + effect_record \<Rightarrow> effect_record \<Rightarrow> bool" where
  "redispatch_ends storable adapters d aid w u x q = (case adapters d of
     Inl err \<Rightarrow> x = Inl err \<and> q = d \<and> u = w
   | Inr a \<Rightarrow> (case adapter_dispatch a d aid w of (ans, w') \<Rightarrow> u = w' \<and> (case ans of
       Inl (AdapterError _) \<Rightarrow> x = Inr q \<and> status q = RETRYABLE
     | Inl _ \<Rightarrow> x = Inr q \<and> status q = OUTCOME_UNKNOWN
     | Inr res \<Rightarrow>
         if \<not> committed res then x = Inr q \<and> status q = OUTCOME_UNKNOWN
         else if storable (commit_data aid res) then x = Inr q \<and> status q = SUCCEEDED
         else (\<exists>err. data_error err \<and> x = Inl err) \<and> q = d)))"

section \<open>Resolutions of an unknown outcome\<close>

context effect_store begin

lemma to_operator_current:
  assumes "invar (ledger s)" and "look (ledger s) (effect_id r) = Some r" and "status r = OUTCOME_UNKNOWN"
  obtains t now where "to_operator ops r outcome reason s = (Inr (advance r MANUAL_REVIEW now), t)"
    "look (ledger t) = (look (ledger s))(effect_id r \<mapsto> advance r MANUAL_REVIEW now)"
    "tries (ledger t) = tries (ledger s)" "target t = target s"
proof -
  let ?s = "s\<lparr>metrics := record_reconciliation_outcome outcome (metrics s)\<rparr>"
  have "invar (ledger ?s)" "look (ledger ?s) (effect_id r) = Some r" "is_allowed (status r) MANUAL_REVIEW"
    using assms by (simp_all add: is_allowed_simps)
  from transition_and_record_current [OF this accepts_plain [OF plain_simps(4) [of reason]]]
  obtain t now where "transition_and_record ops r MANUAL_REVIEW [(VStr ''reason'', VStr reason)] ?s =
      (Inr (advance r MANUAL_REVIEW now), t)"
    "look (ledger t) = (look (ledger ?s))(effect_id r \<mapsto> advance r MANUAL_REVIEW now)"
    "tries (ledger t) = tries (ledger ?s)" "target t = target ?s" .
  then show thesis by (intro that [of now t]) (simp_all add: to_operator_def and_then_def run_simps)
qed

text \<open>An unsafe outcome goes to an operator without a word to any target.\<close>

lemma reconcile_once_body:
  assumes "reconcile_body ops adapters r s = (x, u)"
  obtains t where "reconcile_once ops adapters r s = (x, t)" "ledger t = ledger u" "target t = target u"
  using assms by (intro that [of "u\<lparr>metrics := count_latency ''reconcile'' (metrics u)\<rparr>"])
    (simp_all add: reconcile_once_def observe_latency_def)

lemma reconcile_to_operator:
  assumes at: "invar (ledger s)" "look (ledger s) (effect_id r) = Some r" "status r = OUTCOME_UNKNOWN"
    and op: "safety (contract r) = UNSAFE
      \<or> safety (contract r) = IDEMPOTENT \<and> \<not> key_retention_valid (env_now (envs s (Suc (ticks s)))) r"
  obtains t now where "reconcile_once ops adapters r s = (Inr (advance r MANUAL_REVIEW now), t)"
    "look (ledger t) = (look (ledger s))(effect_id r \<mapsto> advance r MANUAL_REVIEW now)"
    "tries (ledger t) = tries (ledger s)" "target t = target s"
proof -
  obtain outcome reason s' where body: "reconcile_body ops adapters r s = to_operator ops r outcome reason s'"
    and s': "ledger s' = ledger s" "target s' = target s"
    using op
  proof (elim disjE conjE)
    assume "safety (contract r) = UNSAFE"
    then show thesis using that [of _ _ s] by (simp add: reconcile_body_cases(3))
  next
    assume idem: "safety (contract r) = IDEMPOTENT"
      and old: "\<not> key_retention_valid (env_now (envs s (Suc (ticks s)))) r"
    show thesis
      by (rule that [of "''retention_expired''" "''idempotency_key_retention_expired''" "s\<lparr>metrics :=
          record_retention_remaining (env_now (envs s (ticks s))) r (metrics s), ticks := Suc (Suc (ticks s))\<rparr>"])
        (use old in \<open>simp_all add: reconcile_body_cases(1) [OF idem] and_then_def run_simps\<close>)
  qed
  have "invar (ledger s')" "look (ledger s') (effect_id r) = Some r" using at s' by simp_all
  from to_operator_current [OF this at(3), of outcome reason] obtain u now where
    u: "reconcile_body ops adapters r s = (Inr (advance r MANUAL_REVIEW now), u)"
    "look (ledger u) = (look (ledger s'))(effect_id r \<mapsto> advance r MANUAL_REVIEW now)"
    "tries (ledger u) = tries (ledger s')" "target u = target s'" unfolding body by metis
  from reconcile_once_body [OF u(1)] obtain t where
    "reconcile_once ops adapters r s = (Inr (advance r MANUAL_REVIEW now), t)"
    "ledger t = ledger u" "target t = target u" .
  with u s' show thesis by (intro that [of now t]) simp_all
qed

text \<open>
  A redispatch within the retention of the key: one more attempt, with the same downstream
  key, and the verdict on its answer. Without an adapter, or with an answer the ledger cannot store, the
  exception is passed on and the effect stays where the redispatch had put it.
\<close>

lemma reconcile_redispatch_ends:
  assumes at: "invar (ledger s)" "look (ledger s) (effect_id r) = Some r" "status r = OUTCOME_UNKNOWN"
    and idem: "safety (contract r) = IDEMPOTENT"
    and valid: "key_retention_valid (env_now (envs s (Suc (ticks s)))) r"
  obtains x t d aid now where
    "reconcile_once ops adapters r s = (x, t)" "d = advance r DISPATCHING now"
    "aid = attempt_name (effect_id r) (Suc (tries (ledger s) (effect_id r)))"
    "tries (ledger t) = (tries (ledger s))(effect_id r := Suc (tries (ledger s) (effect_id r)))"
    "invar (ledger t)"
    "\<And>err. adapters d = Inl err \<Longrightarrow> x = Inl err \<and> target t = target s
       \<and> look (ledger t) = (look (ledger s))(effect_id r \<mapsto> d)"
    "\<And>a ans w. adapters d = Inr a \<Longrightarrow> adapter_dispatch a d aid (target s) = (ans, w) \<Longrightarrow> target t = w
       \<and> (if answer_storable accepts aid ans
          then \<exists>now'. x = Inr (advance d (redispatch_verdict ans) now')
            \<and> look (ledger t) = (look (ledger s))(effect_id r \<mapsto> advance d (redispatch_verdict ans) now')
          else \<exists>err. data_error err \<and> x = Inl err \<and> look (ledger t) = (look (ledger s))(effect_id r \<mapsto> d))"
proof -
  let ?n = "Suc (tries (ledger s) (effect_id r))" and ?i = "effect_id r"
  let ?s = "s\<lparr>metrics := record_retention_remaining (env_now (envs s (ticks s))) r (metrics s), ticks := Suc (Suc (ticks s))\<rparr>"
  have body: "reconcile_body ops adapters r s = redispatch ops adapters r ?s"
    using valid by (simp add: reconcile_body_cases(1) [OF idem] and_then_def run_simps)
  have "invar (ledger ?s)" "look (ledger ?s) ?i = Some r" "is_allowed (status r) DISPATCHING"
    using at by (simp_all add: is_allowed_simps)
  from transition_and_record_current [OF this accepts_plain [OF plain_simps(4) [of "''idempotent_redispatch''"]]]
  obtain s1 now where s1: "transition_and_record ops r DISPATCHING [(VStr ''reason'', VStr ''idempotent_redispatch'')] ?s =
      (Inr (advance r DISPATCHING now), s1)" "invar (ledger s1)"
    "look (ledger s1) = (look (ledger ?s))(?i \<mapsto> advance r DISPATCHING now)"
    "tries (ledger s1) = tries (ledger ?s)" "target s1 = target ?s" .
  let ?d = "advance r DISPATCHING now" and ?e = "envs s1 (ticks s1)" and ?aid = "attempt_name ?i ?n"
  have "look (ledger s1) ?i = Some ?d" by (simp add: s1)
  from start_done [OF s1(2) this, of "version r + 1" ?e "''reconciler''"] obtain l where
    l: "start_op ops ?e ?i (version r + 1) ''reconciler'' (ledger s1) = (Inr ?aid, l)"
      "invar l" "look l = look (ledger s1)" "tries l = (tries (ledger s))(?i := ?n)"
    by (auto simp: s1)
  let ?s2 = "s1\<lparr>ticks := Suc (ticks s1), ledger := l, metrics := record_dispatch_attempt ?d (metrics s1)\<rparr>"
  have start: "redispatch ops adapters r ?s = redispatch_with ops adapters ?d ?aid ?s2"
    by (simp add: redispatch_def and_then_def s1(1) run_simps on_ledger_def l(1))
  have at2: "invar (ledger ?s2)" "look (ledger ?s2) ?i = Some ?d" "target ?s2 = target s" using l by (simp_all add: s1)
  obtain x u where u: "redispatch_with ops adapters ?d ?aid ?s2 = (x, u)"
    by (cases "redispatch_with ops adapters ?d ?aid ?s2")
  then have "reconcile_body ops adapters r s = (x, u)" by (simp only: body start)
  from reconcile_once_body [OF this] obtain t where
    t: "reconcile_once ops adapters r s = (x, t)" "ledger t = ledger u" "target t = target u" .
  show thesis
  proof (cases "adapters ?d")
    case (Inl err)
    then have "x = Inl err" "u = ?s2" using u by (simp_all add: redispatch_with_def and_then_def run_simps)
    with t Inl l at2 show thesis by (intro that [OF t(1), of ?d now ?aid]) (simp_all add: s1)
  next
    case (Inr a)
    obtain ans w where ans: "adapter_dispatch a ?d ?aid (target ?s2) = (ans, w)"
      by (cases "adapter_dispatch a ?d ?aid (target ?s2)")
    obtain m data where last: "redispatch_call ops a ?d ?aid ?s2 =
        transition_and_record ops ?d (redispatch_verdict ans) data (?s2\<lparr>target := w, metrics := m\<rparr>)"
      and data: "\<And>x. ans = Inl x \<Longrightarrow> plain data" "\<And>res. ans = Inr res \<Longrightarrow> \<not> committed res \<Longrightarrow> plain data"
        "\<And>res. ans = Inr res \<Longrightarrow> committed res \<Longrightarrow> data = commit_data ?aid res"
      by (rule redispatch_call_run [OF ans, of ops, folded commit_data_def]) (erule that)
    let ?s3 = "?s2\<lparr>target := w, metrics := m\<rparr>"
    have at3: "invar (ledger ?s3)" "look (ledger ?s3) (effect_id ?d) = Some ?d"
      "is_allowed (status ?d) (redispatch_verdict ans)"
      using l by (simp_all add: s1 outcomes_allowed [OF redispatch_verdict_outcomes])
    have run: "transition_and_record ops ?d (redispatch_verdict ans) data ?s3 = (x, u)"
      using u Inr last by (simp add: redispatch_with_def and_then_def run_simps)
    have storable: "accepts data \<longleftrightarrow> answer_storable accepts ?aid ans"
      using data accepts_plain by (cases ans) (auto simp: answer_storable_def)
    note here = that [OF t(1), of ?d now ?aid]
    show thesis
    proof (cases "accepts data")
      case True
      from transition_and_record_current [OF at3 True] obtain u' now' where
        "transition_and_record ops ?d (redispatch_verdict ans) data ?s3 =
          (Inr (advance ?d (redispatch_verdict ans) now'), u')" "invar (ledger u')"
        "look (ledger u') = (look (ledger ?s3))(effect_id ?d \<mapsto> advance ?d (redispatch_verdict ans) now')"
        "tries (ledger u') = tries (ledger ?s3)" "target u' = target ?s3" .
      with run True storable t Inr ans l at2(3) show thesis by (intro here) (auto simp: s1)
    next
      case False
      from transition_and_record_refused [OF at3 False] obtain err u' where
        "transition_and_record ops ?d (redispatch_verdict ans) data ?s3 = (Inl err, u')" "data_error err"
        "ledger u' = ledger ?s3" "target u' = target ?s3" .
      with run False storable t Inr ans l at2(3) show thesis by (intro here) (auto simp: s1)
    qed
  qed
qed

lemma reconcile_redispatched:
  assumes at: "invar (ledger s)" "look (ledger s) (effect_id r) = Some r" "status r = OUTCOME_UNKNOWN"
    and idem: "safety (contract r) = IDEMPOTENT"
    and valid: "key_retention_valid (env_now (envs s (Suc (ticks s)))) r"
  obtains x t d q where "reconcile_once ops adapters r s = (x, t)" "status d = DISPATCHING" "same_pins r d" "same_pins r q"
    "look (ledger t) = (look (ledger s))(effect_id r \<mapsto> q)"
    "tries (ledger t) = (tries (ledger s))(effect_id r := Suc (tries (ledger s) (effect_id r)))"
    "redispatch_ends accepts adapters d (attempt_name (effect_id r) (Suc (tries (ledger s) (effect_id r))))
       (target s) (target t) x q"
proof -
  obtain x t d aid now where run: "reconcile_once ops adapters r s = (x, t)" "d = advance r DISPATCHING now"
    "aid = attempt_name (effect_id r) (Suc (tries (ledger s) (effect_id r)))"
    "tries (ledger t) = (tries (ledger s))(effect_id r := Suc (tries (ledger s) (effect_id r)))"
    and raised: "\<And>err. adapters d = Inl err \<Longrightarrow> x = Inl err \<and> target t = target s
       \<and> look (ledger t) = (look (ledger s))(effect_id r \<mapsto> d)"
    and called: "\<And>a ans w. adapters d = Inr a \<Longrightarrow> adapter_dispatch a d aid (target s) = (ans, w) \<Longrightarrow> target t = w
       \<and> (if answer_storable accepts aid ans
          then \<exists>now'. x = Inr (advance d (redispatch_verdict ans) now')
            \<and> look (ledger t) = (look (ledger s))(effect_id r \<mapsto> advance d (redispatch_verdict ans) now')
          else \<exists>err. data_error err \<and> x = Inl err \<and> look (ledger t) = (look (ledger s))(effect_id r \<mapsto> d))"
    by (rule reconcile_redispatch_ends [OF at idem valid, of adapters]) blast
  have d: "status d = DISPATCHING" "same_pins r d" by (simp_all add: run(2))
  note here = that [OF run(1) d _ _ run(4), folded run(3)]
  show thesis
  proof (cases "adapters d")
    case (Inl err)
    with raised show thesis by (intro here [of d]) (simp_all add: run(2) redispatch_ends_def)
  next
    case (Inr a)
    obtain ans w where ans: "adapter_dispatch a d aid (target s) = (ans, w)" by (cases "adapter_dispatch a d aid (target s)")
    note out = called [OF Inr ans]
    show thesis
    proof (cases "answer_storable accepts aid ans")
      case True
      with out obtain now' where now': "x = Inr (advance d (redispatch_verdict ans) now')" "target t = w"
        "look (ledger t) = (look (ledger s))(effect_id r \<mapsto> advance d (redispatch_verdict ans) now')" by auto
      have "redispatch_ends accepts adapters d aid (target s) (target t) x (advance d (redispatch_verdict ans) now')"
        using True by (auto simp: redispatch_ends_def Inr ans now' answer_storable_def redispatch_verdict_def
            split: sum.split error.split)
      with now' show thesis by (intro here) (simp_all add: run(2))
    next
      case False
      then obtain res where "ans = Inr res" "committed res" "\<not> accepts (commit_data aid res)"
        by (auto simp: answer_storable_def)
      with out False Inr ans show thesis by (intro here [of d]) (auto simp: run(2) redispatch_ends_def)
    qed
  qed
qed

text \<open>With an adapter and a ledger that stores everything, a redispatch always returns.\<close>

lemma reconcile_redispatch:
  assumes at: "invar (ledger s)" "look (ledger s) (effect_id r) = Some r" "status r = OUTCOME_UNKNOWN"
    and idem: "safety (contract r) = IDEMPOTENT"
    and valid: "key_retention_valid (env_now (envs s (Suc (ticks s)))) r"
    and adapter: "\<And>d. adapters d = Inr (a d)"
    and storable: "\<And>data. accepts data"
  obtains t d aid ans now now' where
    "reconcile_once ops adapters r s = (Inr (advance d (redispatch_verdict ans) now'), t)"
    "d = advance r DISPATCHING now" "adapter_dispatch (a d) d aid (target s) = (ans, target t)"
    "aid = attempt_name (effect_id r) (Suc (tries (ledger s) (effect_id r)))"
    "look (ledger t) = (look (ledger s))(effect_id r \<mapsto> advance d (redispatch_verdict ans) now')"
    "tries (ledger t) = (tries (ledger s))(effect_id r := Suc (tries (ledger s) (effect_id r)))"
    "invar (ledger t)"
proof -
  obtain x t d aid now where run: "reconcile_once ops adapters r s = (x, t)" "d = advance r DISPATCHING now"
    "aid = attempt_name (effect_id r) (Suc (tries (ledger s) (effect_id r)))"
    "tries (ledger t) = (tries (ledger s))(effect_id r := Suc (tries (ledger s) (effect_id r)))" "invar (ledger t)"
    and called: "\<And>b ans w. adapters d = Inr b \<Longrightarrow> adapter_dispatch b d aid (target s) = (ans, w) \<Longrightarrow> target t = w
       \<and> (if answer_storable accepts aid ans
          then \<exists>now'. x = Inr (advance d (redispatch_verdict ans) now')
            \<and> look (ledger t) = (look (ledger s))(effect_id r \<mapsto> advance d (redispatch_verdict ans) now')
          else \<exists>err. data_error err \<and> x = Inl err \<and> look (ledger t) = (look (ledger s))(effect_id r \<mapsto> d))"
    by (rule reconcile_redispatch_ends [OF at idem valid, of adapters]) blast
  obtain ans w where "adapter_dispatch (a d) d aid (target s) = (ans, w)" by (cases "adapter_dispatch (a d) d aid (target s)")
  with called [OF adapter this] run storable show thesis by (auto simp: answer_storable_def intro: that)
qed

text \<open>The probe of a reconcilable or transactional effect.\<close>

lemma reconcile_probe:
  assumes at: "invar (ledger s)" "look (ledger s) (effect_id r) = Some r" "status r = OUTCOME_UNKNOWN"
    and probed: "safety (contract r) \<in> {RECONCILABLE, TRANSACTIONAL}"
    and adapter: "\<And>d. adapters d = Inr (a d)"
    and storable: "\<And>data. accepts data"
  obtains t q ans now where "q = advance r RECONCILING now" "adapter_probe (a q) q (target s) = (ans, target t)"
    "invar (ledger t)" "tries (ledger t) = tries (ledger s)"
    "\<And>p. ans = Inr p \<Longrightarrow> \<exists>now'. reconcile_once ops adapters r s = (Inr (advance q (probe_goal (probe_state p)) now'), t)
       \<and> look (ledger t) = (look (ledger s))(effect_id r \<mapsto> advance q (probe_goal (probe_state p)) now')"
    "\<And>e. ans = Inl e \<Longrightarrow> reconcile_once ops adapters r s = (Inl e, t)
       \<and> look (ledger t) = (look (ledger s))(effect_id r \<mapsto> q)"
proof -
  let ?i = "effect_id r"
  have body: "reconcile_body ops adapters r s = probe_target ops adapters r s"
    by (simp add: reconcile_body_cases(2) [OF probed])
  have "is_allowed (status r) RECONCILING" using at by (simp add: is_allowed_simps)
  from transition_and_record_current [OF at(1,2) this accepts_plain [OF plain_simps(4) [of "''authoritative_probe''"]]]
  obtain s1 now where s1: "transition_and_record ops r RECONCILING [(VStr ''reason'', VStr ''authoritative_probe'')] s =
      (Inr (advance r RECONCILING now), s1)" "invar (ledger s1)"
    "look (ledger s1) = (look (ledger s))(?i \<mapsto> advance r RECONCILING now)"
    "tries (ledger s1) = tries (ledger s)" "target s1 = target s" .
  let ?q = "advance r RECONCILING now"
  obtain ans w where ans: "adapter_probe (a ?q) ?q (target s) = (ans, w)" by (cases "adapter_probe (a ?q) ?q (target s)")
  have call: "call_probe adapters ?q s1 = (ans, s1\<lparr>target := w\<rparr>)"
    by (simp add: call_probe_def and_then_def run_simps adapter on_target_def s1 ans)
  show thesis
  proof (cases ans)
    case (Inl e)
    have "reconcile_body ops adapters r s = (Inl e, s1\<lparr>target := w\<rparr>)"
      by (simp add: body probe_target_def and_then_def s1(1) call Inl)
    from reconcile_once_body [OF this] obtain t where
      "reconcile_once ops adapters r s = (Inl e, t)" "ledger t = ledger (s1\<lparr>target := w\<rparr>)" "target t = w" by auto
    then show thesis by (intro that [of ?q now ans t]) (use ans s1 Inl in simp_all)
  next
    case (Inr p)
    let ?s2 = "s1\<lparr>target := w, metrics := record_reconciliation_outcome (probe_value (probe_state p)) (metrics s1)\<rparr>"
    have "invar (ledger ?s2)" "look (ledger ?s2) (effect_id ?q) = Some ?q"
      "is_allowed (status ?q) (probe_goal (probe_state p))" using s1 by (simp_all add: probe_goal_allowed)
    from transition_and_record_current [OF this storable] obtain u now' where
      u: "transition_and_record ops ?q (probe_goal (probe_state p)) (probe_data p) ?s2 =
          (Inr (advance ?q (probe_goal (probe_state p)) now'), u)" "invar (ledger u)"
        "look (ledger u) = (look (ledger ?s2))(effect_id ?q \<mapsto> advance ?q (probe_goal (probe_state p)) now')"
        "tries (ledger u) = tries (ledger ?s2)" "target u = target ?s2" .
    have "reconcile_body ops adapters r s = (Inr (advance ?q (probe_goal (probe_state p)) now'), u)"
      using u(1) by (simp add: body probe_target_def probe_answered_def and_then_def s1(1) call Inr run_simps)
    from reconcile_once_body [OF this] obtain t where
      "reconcile_once ops adapters r s = (Inr (advance ?q (probe_goal (probe_state p)) now'), t)"
      "ledger t = ledger u" "target t = target u" .
    then show thesis by (intro that [of ?q now ans t]) (use ans s1 Inr u in auto)
  qed
qed

end

end
