(* ===== verification/Engine.thy ===== *)
theory Engine
  imports Reconcile
begin

text \<open>
  The public service (\<open>engine.py\<close>): \<open>EffectBroker\<close> is a ledger, a contract registry and, when
  configured, an adapter lookup. \<open>broker_run\<close> is the life of one broker process: any sequence
  of its operations and worker passes, in any order and with any arguments (a request's arguments
  being a Python dict), while the targets
  change as they like between the operations.
\<close>

record ('s, 'w) broker =
  store :: "'s store_ops"
  contracts :: registry
  adapter_for :: "'w adapter_for option"

definition submit :: "('s, 'w) broker \<Rightarrow> string \<Rightarrow> effect_request \<Rightarrow> ('s, 'w, reservation) process" where
  "submit b tenant req =
     and_then (raise_or_return (registry_get (contracts b) (tool req))) (\<lambda>c.
     and_then
       (observe_latency ''reserve''
         (and_then read_env (\<lambda>e.
         on_error (on_ledger (reserve_op (store b) e tenant req c))
           (\<lambda>x. case x of
              PayloadConflictError _ _ _ \<Rightarrow> and_then (measure_with record_conflict) (\<lambda>_. throw x)
            | _ \<Rightarrow> throw x))))
       (\<lambda>res. and_then (measure_with (record_submit res)) (\<lambda>_. ret res)))"

definition broker_get :: "('s, 'w) broker \<Rightarrow> string \<Rightarrow> string \<Rightarrow> ('s, 'w, effect_record) process" where
  "broker_get b tenant eid = (\<lambda>s. case get_op (store b) tenant eid (ledger s) of
     None \<Rightarrow> (Inl (UnknownEffectError eid), s)
   | Some r \<Rightarrow> (Inr r, s))"

definition broker_list :: "('s, 'w) broker \<Rightarrow> string \<Rightarrow> effect_status option \<Rightarrow> int \<Rightarrow> int
    \<Rightarrow> ('s, 'w, effect_record list) process" where
  "broker_list b tenant st lim offset = (\<lambda>s. (Inr (list_op (store b) tenant st lim offset (ledger s)), s))"

definition replay_receipt :: "('s, 'w) broker \<Rightarrow> string \<Rightarrow> string \<Rightarrow> ('s, 'w, json_object) process" where
  "replay_receipt b tenant eid = (\<lambda>s. case receipt_op (store b) tenant eid (ledger s) of
     None \<Rightarrow> (Inl (UnknownEffectError eid), s)
   | Some d \<Rightarrow> (Inr d, s))"

definition reconcile :: "('s, 'w) broker \<Rightarrow> string \<Rightarrow> string \<Rightarrow> ('s, 'w, effect_record) process" where
  "reconcile b tenant eid = (case adapter_for b of
     None \<Rightarrow> throw (PyError ''RuntimeError'')
   | Some adapters \<Rightarrow>
       and_then (broker_get b tenant eid) (\<lambda>r. reconcile_once (store b) adapters r))"

definition cancel :: "('s, 'w) broker \<Rightarrow> string \<Rightarrow> string \<Rightarrow> int \<Rightarrow> string \<Rightarrow> string
    \<Rightarrow> ('s, 'w, effect_record) process" where
  "cancel b tenant eid expected actor reason =
     and_then (broker_get b tenant eid) (\<lambda>r.
     if version r \<noteq> expected then throw (VersionConflictError eid)
     else if status r \<notin> {PREPARED, RETRYABLE} then throw (InvalidTransitionError (status r) CANCELLED)
     else
       and_then read_env (\<lambda>e.
       and_then (on_ledger (transition_op (store b) e (effect_id r) expected CANCELLED
           [(VStr ''actor'', VStr actor), (VStr ''reason'', VStr reason)])) (\<lambda>cancelled.
       and_then read_env (\<lambda>e'.
       and_then (measure_with (record_transition (env_now e') r cancelled)) (\<lambda>_. ret cancelled)))))"

definition resolve :: "('s, 'w) broker \<Rightarrow> string \<Rightarrow> string \<Rightarrow> effect_status \<Rightarrow> json_object
    \<Rightarrow> ('s, 'w, effect_record) process" where
  "resolve b tenant eid resolution ev =
     and_then (broker_get b tenant eid) (\<lambda>r.
     if status r \<noteq> MANUAL_REVIEW then throw (InvalidTransitionError (status r) resolution)
     else if resolution \<notin> {SUCCEEDED, FAILED_FINAL, COMPENSATED}
     then throw (InvalidTransitionError (status r) resolution)
     else
       and_then read_env (\<lambda>e.
       on_ledger (transition_op (store b) e (effect_id r) (version r) resolution
         [(VStr ''evidence'', VDict ev), (VStr ''actor'', VStr ''operator'')])))"

section \<open>The life of a process\<close>

inductive broker_run :: "('s, 'w) broker \<Rightarrow> ('s, 'w) world \<Rightarrow> ('s, 'w) world \<Rightarrow> bool" for b s where
  idle: "broker_run b s s"
| submitted: "broker_run b s t \<Longrightarrow> wf_request req \<Longrightarrow> submit b tenant req t = (x, u) \<Longrightarrow> broker_run b s u"
| worked: "broker_run b s t \<Longrightarrow> dispatch_once (store b) adapters w now lf lim t = (y, u) \<Longrightarrow> broker_run b s u"
| reconciled: "broker_run b s t \<Longrightarrow> reconcile b tenant eid t = (z, u) \<Longrightarrow> broker_run b s u"
| cancelled: "broker_run b s t \<Longrightarrow> cancel b tenant eid v actor reason t = (z, u) \<Longrightarrow> broker_run b s u"
| resolved: "broker_run b s t \<Longrightarrow> resolve b tenant eid goal ev t = (z, u) \<Longrightarrow> broker_run b s u"
| outside: "broker_run b s t \<Longrightarrow> broker_run b s (t\<lparr>target := w', metrics := m, envs := es, ticks := n\<rparr>)"

end
