(* ===== verification/Protocol.thy ===== *)
theory Protocol
  imports Engine
begin

text \<open>
  The abstract specification of the whole broker: what may ever happen to the effects of a
  ledger, on the view of it as a map from ids to records and a count of attempts. A step of
  \<open>protocol\<close> is one move of one effect; \<open>stalled\<close> is a dispatch whose attempt could not be written.
  The safety properties are proved here once; the theory \<open>Process_Refinement\<close> shows that every
  operation of a process, over every \<open>effect_ledger\<close>, is a sequence of these steps.
\<close>

type_synonym view = "(string \<Rightarrow> effect_record option) \<times> (string \<Rightarrow> nat)"

inductive protocol :: "(effect_contract \<Rightarrow> bool) \<Rightarrow> view \<Rightarrow> view \<Rightarrow> bool" for known where
  reserved: "rs i = None \<Longrightarrow> effect_id r = i \<Longrightarrow> status r = PREPARED \<Longrightarrow> version r = 0 \<Longrightarrow> known (contract r)
    \<Longrightarrow> protocol known (rs, n) (rs(i \<mapsto> r), n)"
| claimed: "rs i = Some r \<Longrightarrow> due r \<Longrightarrow> protocol known (rs, n) (rs(i \<mapsto> claim_record r now), n)"
| dispatched: "rs i = Some r \<Longrightarrow> due r \<or> status r = OUTCOME_UNKNOWN \<and> safety (contract r) = IDEMPOTENT
    \<Longrightarrow> protocol known (rs, n) (rs(i \<mapsto> advance r DISPATCHING now), n(i := Suc (n i)))"
| stalled: "rs i = Some r \<Longrightarrow> due r \<or> status r = OUTCOME_UNKNOWN \<and> safety (contract r) = IDEMPOTENT
    \<Longrightarrow> protocol known (rs, n) (rs(i \<mapsto> advance r DISPATCHING now), n)"
| settled: "rs i = Some r \<Longrightarrow> status r = DISPATCHING \<Longrightarrow> goal \<in> outcomes
    \<Longrightarrow> (goal = RETRYABLE \<Longrightarrow> int (n i) < retry_limit (contract r) \<or> safety (contract r) = IDEMPOTENT)
    \<Longrightarrow> protocol known (rs, n) (rs(i \<mapsto> advance r goal now), n)"
| probing: "rs i = Some r \<Longrightarrow> status r = OUTCOME_UNKNOWN \<Longrightarrow> safety (contract r) \<in> {RECONCILABLE, TRANSACTIONAL}
    \<Longrightarrow> protocol known (rs, n) (rs(i \<mapsto> advance r RECONCILING now), n)"
| probed: "rs i = Some r \<Longrightarrow> status r = RECONCILING \<Longrightarrow> goal \<in> {SUCCEEDED, PREPARED, MANUAL_REVIEW}
    \<Longrightarrow> protocol known (rs, n) (rs(i \<mapsto> advance r goal now), n)"
| escalated: "rs i = Some r \<Longrightarrow> status r = OUTCOME_UNKNOWN \<Longrightarrow> safety (contract r) \<in> {IDEMPOTENT, UNSAFE}
    \<Longrightarrow> protocol known (rs, n) (rs(i \<mapsto> advance r MANUAL_REVIEW now), n)"
| cancelled: "rs i = Some r \<Longrightarrow> due r \<Longrightarrow> protocol known (rs, n) (rs(i \<mapsto> advance r CANCELLED now), n)"
| decided: "rs i = Some r \<Longrightarrow> status r = MANUAL_REVIEW \<Longrightarrow> goal \<in> {SUCCEEDED, FAILED_FINAL, COMPENSATED}
    \<Longrightarrow> protocol known (rs, n) (rs(i \<mapsto> advance r goal now), n)"

abbreviation protocols :: "(effect_contract \<Rightarrow> bool) \<Rightarrow> view \<Rightarrow> view \<Rightarrow> bool" where
  "protocols known \<equiv> (protocol known)\<^sup>*\<^sup>*"

section \<open>One effect along a step\<close>

text \<open>What a step may do to a record: nothing, a claim, or one edge of the graph.\<close>

definition successor :: "effect_record \<Rightarrow> effect_record \<Rightarrow> bool" where
  "successor r r' \<longleftrightarrow> r' = r \<or> (\<exists>now. due r \<and> r' = claim_record r now)
     \<or> (\<exists>goal now. is_allowed (status r) goal \<and> r' = advance r goal now)"

lemma successor_advance: "is_allowed (status r) goal \<Longrightarrow> successor r (advance r goal now)"
  by (auto simp: successor_def)

lemma successor_claim: "due r \<Longrightarrow> successor r (claim_record r now)"
  by (auto simp: successor_def)

lemmas due_simps = due_def is_allowed_simps

lemma protocol_successor:
  assumes step: "protocol known (rs, n) (rs', n')" and r: "rs i = Some r"
  shows "\<exists>r'. rs' i = Some r' \<and> successor r r'"
proof -
  have update: ?thesis if "rs j = Some q" "rs' = rs(j \<mapsto> q')" "successor q q'" for j q q'
    using that r by (cases "i = j") (auto simp: successor_def [of r r])
  from step show ?thesis
  proof (cases rule: protocol.cases)
    case (reserved j q)
    with r show ?thesis by (cases "i = j") (auto simp: successor_def)
  next
    case (claimed j q now)
    from update [OF claimed(3,1) successor_claim [OF claimed(4)]] show ?thesis .
  next
    case (dispatched j q now)
    then have "is_allowed (status q) DISPATCHING" by (auto simp: due_simps)
    from update [OF dispatched(3,1) successor_advance [OF this]] show ?thesis .
  next
    case (stalled j q now)
    then have "is_allowed (status q) DISPATCHING" by (auto simp: due_simps)
    from update [OF stalled(3,1) successor_advance [OF this]] show ?thesis .
  next
    case (settled j q goal now)
    then have "is_allowed (status q) goal" by (simp add: outcomes_allowed)
    from update [OF settled(3,1) successor_advance [OF this]] show ?thesis .
  next
    case (probing j q now)
    then have "is_allowed (status q) RECONCILING" by (simp add: due_simps)
    from update [OF probing(3,1) successor_advance [OF this]] show ?thesis .
  next
    case (probed j q goal now)
    then have "is_allowed (status q) goal" by (auto simp: due_simps)
    from update [OF probed(3,1) successor_advance [OF this]] show ?thesis .
  next
    case (escalated j q now)
    then have "is_allowed (status q) MANUAL_REVIEW" by (simp add: due_simps)
    from update [OF escalated(3,1) successor_advance [OF this]] show ?thesis .
  next
    case (cancelled j q now)
    then have "is_allowed (status q) CANCELLED" by (auto simp: due_simps)
    from update [OF cancelled(3,1) successor_advance [OF this]] show ?thesis .
  next
    case (decided j q goal now)
    then have "is_allowed (status q) goal" by (auto simp: due_simps)
    from update [OF decided(3,1) successor_advance [OF this]] show ?thesis .
  qed
qed

lemma successor_facts:
  assumes "successor r r'"
  shows "same_pins r r'" "version r \<le> version r'" "version r' = version r \<Longrightarrow> r' = r"
    "moves (status r) (status r')" "is_terminal (status r) \<Longrightarrow> r' = r"
  using assms by (auto simp: successor_def due_def is_terminal_def terminal_statuses_def is_allowed_def
      intro: moves.intros split: if_splits)

text \<open>Along any number of steps: pins stay, versions grow, statuses move along the graph.\<close>

definition later :: "effect_record \<Rightarrow> effect_record \<Rightarrow> bool" where
  "later r r' \<longleftrightarrow> same_pins r r' \<and> (r' = r \<or> version r < version r') \<and> moves (status r) (status r')
     \<and> (is_terminal (status r) \<longrightarrow> r' = r)"

lemma later_refl: "later r r"
  by (simp add: later_def moves.refl)

lemma later_step: "later r s \<Longrightarrow> successor s t \<Longrightarrow> later r t"
  using successor_facts [of s t] unfolding later_def
  by (metis same_pins_trans moves_trans order.strict_trans2 order.order_iff_strict)

lemma protocols_later:
  assumes "protocols known (rs, n) (rs', n')" and "rs i = Some r"
  shows "\<exists>r'. rs' i = Some r' \<and> later r r'"
  using assms
proof (induction "(rs', n')" arbitrary: rs' n' rule: rtranclp_induct)
  case base
  then show ?case by (simp add: later_refl)
next
  case (step y)
  obtain rs1 n1 where y: "y = (rs1, n1)" by (cases y)
  from step.hyps(3) [OF y step.prems] obtain r1 where "rs1 i = Some r1" "later r r1" by blast
  with protocol_successor [OF step.hyps(2) [unfolded y]] show ?case by (blast intro: later_step)
qed

section \<open>Attempts\<close>

text \<open>
  An unsafe effect whose contract allows no retry is attempted at most once: it is due only
  while it has not been tried, and no way leads back.
\<close>

definition unsafe_ok :: "view \<Rightarrow> bool" where
  "unsafe_ok v \<longleftrightarrow> (\<forall>i r. fst v i = Some r \<longrightarrow> safety (contract r) = UNSAFE \<longrightarrow> retry_limit (contract r) \<le> 0
     \<longrightarrow> snd v i \<le> 1 \<and> (due r \<longrightarrow> snd v i = 0) \<and> status r \<noteq> RECONCILING)"

definition untried_ok :: "view \<Rightarrow> bool" where
  "untried_ok v \<longleftrightarrow> (\<forall>i. fst v i = None \<longrightarrow> snd v i = 0)"

lemma untried_ok_step: "protocol known v v' \<Longrightarrow> untried_ok v \<Longrightarrow> untried_ok v'"
  by (induction rule: protocol.induct) (auto simp: untried_ok_def split: if_splits)

lemma unsafe_ok_step: "protocol known v v' \<Longrightarrow> untried_ok v \<Longrightarrow> unsafe_ok v \<Longrightarrow> unsafe_ok v'"
proof (induction rule: protocol.induct)
  case (settled rs i r goal n now)
  have "\<not> due (advance r goal now)" if "safety (contract r) = UNSAFE" "retry_limit (contract r) \<le> 0"
    using settled.hyps(3,4) that by (auto simp: due_def outcomes_def)
  with settled show ?case by (auto simp: unsafe_ok_def outcomes_def)
next
  case (reserved rs i r n)
  then show ?case by (auto simp: unsafe_ok_def untried_ok_def)
next
  case (dispatched rs i r n now)
  have "\<not> due (advance r DISPATCHING now)" by (simp add: due_def)
  moreover have "n i = 0" if "safety (contract r) = UNSAFE" "retry_limit (contract r) \<le> 0"
    using dispatched that by (auto simp: unsafe_ok_def)
  ultimately show ?case using dispatched.prems(2) by (auto simp: unsafe_ok_def)
qed (auto simp: unsafe_ok_def due_def)

lemma unsafe_ok_steps:
  "protocols known v v' \<Longrightarrow> untried_ok v \<Longrightarrow> unsafe_ok v \<Longrightarrow> unsafe_ok v' \<and> untried_ok v'"
  by (induction rule: rtranclp_induct) (auto dest: untried_ok_step unsafe_ok_step)

text \<open>Every contract in the ledger came from a known one.\<close>

definition contracts_known :: "(effect_contract \<Rightarrow> bool) \<Rightarrow> view \<Rightarrow> bool" where
  "contracts_known known v \<longleftrightarrow> (\<forall>i r. fst v i = Some r \<longrightarrow> known (contract r))"

lemma contracts_known_steps:
  "protocols known v v' \<Longrightarrow> contracts_known known v \<Longrightarrow> contracts_known known v'"
proof (induction rule: rtranclp_induct)
  case (step u v')
  from step.hyps(2) step.IH [OF step.prems] show ?case
    by (induction rule: protocol.induct) (auto simp: contracts_known_def)
qed simp

end
