(* ===== verification/Process_Refinement.thy ===== *)
theory Process_Refinement
  imports Protocol
begin

text \<open>
  Every operation of a broker process is a sequence of \<open>protocol\<close> steps, over every
  \<open>effect_ledger\<close>, for every adapter and whatever fails on the way: \<open>advances known s t\<close> says so of
  the states before and after it. The properties of \<open>protocol\<close> are therefore properties of the
  process.
\<close>

context effect_ledger begin

abbreviation view_of :: "('s, 'w) world \<Rightarrow> view" where
  "view_of s \<equiv> (look (ledger s), tries (ledger s))"

text \<open>What each operation promises about the ledger it leaves.\<close>

definition advances :: "(effect_contract \<Rightarrow> bool) \<Rightarrow> ('s, 'w) world \<Rightarrow> ('s, 'w) world \<Rightarrow> bool" where
  "advances known s t \<longleftrightarrow> invar (ledger t) \<and> protocols known (view_of s) (view_of t)"

lemma advances_same: "invar (ledger s) \<Longrightarrow> ledger t = ledger s \<Longrightarrow> advances known s t"
  by (simp add: advances_def)

lemma advances_trans: "advances known s t \<Longrightarrow> advances known t u \<Longrightarrow> advances known s u"
  by (auto simp: advances_def)

lemma advances_from: "advances known s t \<Longrightarrow> ledger s = ledger s' \<Longrightarrow> advances known s' t"
  by (simp add: advances_def)

lemma advances_to: "advances known s t \<Longrightarrow> ledger t' = ledger t \<Longrightarrow> advances known s t'"
  by (simp add: advances_def)

text \<open>One recorded transition of a record the process holds.\<close>

lemma recorded_advances:
  assumes inv: "invar (ledger s)" and run: "transition_and_record ops r goal d s = (x, t)"
    and cur: "look (ledger s) (effect_id r) = Some r"
    and step: "\<And>now. is_allowed (status r) goal \<Longrightarrow>
      protocol known (view_of s) ((look (ledger s))(effect_id r \<mapsto> advance r goal now), tries (ledger s))"
  shows "advances known s t"
  using inv run
proof (cases rule: recorded_cases)
  case (moved r' now)
  with cur have "r' = r" by simp
  with moved step [of now] show ?thesis by (auto simp: advances_def)
next
  case failed
  with inv show ?thesis by (simp add: advances_same)
qed

section \<open>The worker\<close>

text \<open>
  The outcome of an attempt. Whatever the adapter or the ledger raises, the \<open>try\<close> statement ends in
  transitions to outcomes of a dispatch; when it returns, no other effect has changed.
\<close>

definition touches :: "(effect_contract \<Rightarrow> bool) \<Rightarrow> string \<Rightarrow> ('s, 'w) world \<Rightarrow> error + effect_record
    \<Rightarrow> ('s, 'w) world \<Rightarrow> bool" where
  "touches known i s x t \<longleftrightarrow> advances known s t
     \<and> (\<not> isl x \<longrightarrow> (\<forall>j. j \<noteq> i \<longrightarrow> look (ledger t) j = look (ledger s) j))"

lemma touches_after: "advances known s t \<Longrightarrow> look (ledger t) = look (ledger s) \<Longrightarrow> touches known i t x u \<Longrightarrow> touches known i s x u"
  by (auto simp: touches_def intro: advances_trans)

lemma touches_from: "ledger s' = ledger s \<Longrightarrow> touches known i s' x t \<Longrightarrow> touches known i s x t"
  by (simp add: touches_def advances_def)

lemma settled_touches:
  assumes inv: "invar (ledger s)" and cur: "look (ledger s) (effect_id d) = Some d" and st: "status d = DISPATCHING"
    and goal: "goal \<in> outcomes"
    and limit: "goal = RETRYABLE \<Longrightarrow> int (tries (ledger s) (effect_id d)) < retry_limit (contract d)
      \<or> safety (contract d) = IDEMPOTENT"
    and run: "transition_and_record ops d goal data s = (x, t)"
  shows "touches known (effect_id d) s x t \<and> (isl x \<longrightarrow> ledger t = ledger s)"
proof -
  have "advances known s t"
    by (rule recorded_advances [OF inv run cur], rule protocol.settled [where rs = "look (ledger s)"])
      (use cur st goal limit in simp_all)
  with inv run show ?thesis by (cases rule: recorded_cases) (simp_all add: touches_def)
qed

lemma settle_dispatch_touches:
  fixes s :: "('s, 'w) world"
  assumes inv: "invar (ledger s)" and cur: "look (ledger s) (effect_id d) = Some d" and st: "status d = DISPATCHING"
    and aid: "aid = attempt_name (effect_id d) (tries (ledger s) (effect_id d))"
    and run: "settle_dispatch ops adapters d aid s = (x, t)"
  shows "touches known (effect_id d) s x t"
proof -
  obtain ans w where ans: "adapter_answer adapters d aid (target s) = (ans, w)"
    by (cases "adapter_answer adapters d aid (target s)")
  let ?s = "s\<lparr>target := w, metrics := count_latency ''dispatch'' (metrics s)\<rparr>"
  note call = call_adapter_run [OF ans] and run = run [unfolded settle_dispatch_def on_error_def and_then_def]
  have failed: "touches known (effect_id d) s x t"
    if raised: "(case err of AdapterError _ \<Rightarrow> transition_proven_non_commit ops d aid err
        | _ \<Rightarrow> transition_and_record ops d OUTCOME_UNKNOWN
            [(VStr ''attempt_id'', VStr aid), (VStr ''error'', VStr (error_name err)),
             (VStr ''reason'', VStr ''ambiguous_dispatch'')]) u = (x, t)" and u: "ledger u = ledger s" for err u
  proof -
    obtain goal data where goal: "goal \<in> outcomes"
      "goal = RETRYABLE \<Longrightarrow> int (tries (ledger u) (effect_id d)) < retry_limit (contract d)"
      and trans: "transition_and_record ops d goal data u = (x, t)"
    proof (cases "\<exists>m. err = AdapterError m")
      case True
      with raised show thesis
        by (intro that [of "if int (tries (ledger u) (effect_id d)) < retry_limit (contract d) then RETRYABLE
            else FAILED_FINAL"]) (auto simp: transition_proven_non_commit_def Let_def aid u outcomes_def split: if_split_asm)
    next
      case False
      with raised have "transition_and_record ops d OUTCOME_UNKNOWN [(VStr ''attempt_id'', VStr aid),
          (VStr ''error'', VStr (error_name err)), (VStr ''reason'', VStr ''ambiguous_dispatch'')] u = (x, t)"
        by (simp split: error.splits)
      then show thesis by (intro that [of OUTCOME_UNKNOWN]) (simp_all add: outcomes_def)
    qed
    have "touches known (effect_id d) u x t"
      using settled_touches [OF _ _ st goal(1) _ trans, of known] inv cur goal(2) u by simp
    with u show ?thesis by (rule touches_from)
  qed
  show ?thesis
  proof (cases ans)
    case (Inl err)
    with run call show ?thesis by (intro failed [of err ?s]) simp_all
  next
    case (Inr res)
    obtain goal data where goal: "goal \<in> {SUCCEEDED, OUTCOME_UNKNOWN}" and tried: "\<And>y u.
        transition_and_record ops d goal data ?s = (y, u) \<Longrightarrow> (case y of Inl err \<Rightarrow> (case err of
            AdapterError _ \<Rightarrow> transition_proven_non_commit ops d aid err
          | _ \<Rightarrow> transition_and_record ops d OUTCOME_UNKNOWN
              [(VStr ''attempt_id'', VStr aid), (VStr ''error'', VStr (error_name err)),
               (VStr ''reason'', VStr ''ambiguous_dispatch'')]) u | Inr r \<Rightarrow> (Inr r, u)) = (x, t)"
    proof (cases "committed res")
      case True
      with run call Inr show thesis
        by (intro that [of SUCCEEDED "[(VStr ''attempt_id'', VStr aid), (VStr ''external_id'', opt_str (external_id res)),
            (VStr ''output'', VDict (result_output res))]"]) (simp_all add: transition_committed_def)
    next
      case False
      with run call Inr show thesis
        by (intro that [of OUTCOME_UNKNOWN "[(VStr ''attempt_id'', VStr aid), (VStr ''reason'', VStr ''not_confirmed'')]"])
          simp_all
    qed
    obtain y u where y: "transition_and_record ops d goal data ?s = (y, u)"
      by (cases "transition_and_record ops d goal data ?s")
    have settled: "touches known (effect_id d) ?s y u \<and> (isl y \<longrightarrow> ledger u = ledger ?s)"
      by (rule settled_touches [OF _ _ st _ _ y]) (use inv cur goal in \<open>auto simp: outcomes_def\<close>)
    show ?thesis
    proof (cases y)
      case (Inl err)
      with tried [OF y] settled show ?thesis by (intro failed [of err u]) simp_all
    next
      case (Inr r)
      with tried [OF y] settled have "touches known (effect_id d) ?s x t" by simp
      then show ?thesis by (rule touches_from [rotated]) simp
    qed
  qed
qed

text \<open>The body of the loop: the attempt may fail to be written, then the effect is stalled.\<close>

lemma dispatch_effect_advances:
  assumes inv: "invar (ledger s)" and cur: "look (ledger s) (effect_id r) = Some r" and due: "due r"
    and run: "dispatch_effect ops adapters w r s = (x, t)"
  shows "advances known s t"
    and "x = Inr r' \<Longrightarrow> i \<noteq> effect_id r \<Longrightarrow> look (ledger t) i = look (ledger s) i"
proof -
  let ?i = "effect_id r"
  obtain y s1 where y: "transition_and_record ops r DISPATCHING [(VStr ''worker_id'', VStr w)] s = (y, s1)"
    by (cases "transition_and_record ops r DISPATCHING [(VStr ''worker_id'', VStr w)] s")
  have "advances known s t \<and> (x = Inr r' \<longrightarrow> i \<noteq> ?i \<longrightarrow> look (ledger t) i = look (ledger s) i)"
    using inv y
  proof (cases rule: recorded_cases)
    case (failed err)
    with run y inv show ?thesis by (auto simp: dispatch_effect_def and_then_def advances_same)
  next
    case (moved r0 now)
    with cur have [simp]: "r0 = r" by simp
    let ?d = "advance r DISPATCHING now" and ?e = "envs s1 (ticks s1)"
    have d: "y = Inr ?d" "look (ledger s1) ?i = Some ?d" using moved by simp_all
    obtain z l where z: "start_op ops ?e ?i (version r + 1) w (ledger s1) = (z, l)"
      by (cases "start_op ops ?e ?i (version r + 1) w (ledger s1)")
    show ?thesis
    proof (cases z)
      case (Inl err)
      then have "l = ledger s1" using ledger_start_error [OF moved(5)] z by simp
      moreover have "ledger t = l" "x = Inl err"
        using run y z Inl d(1) by (auto simp: dispatch_effect_def and_then_def run_simps on_ledger_def)
      moreover have "protocol known (view_of s) (view_of s1)"
        using protocol.stalled [of "look (ledger s)" ?i r known "tries (ledger s)" now] cur due moved by simp
      ultimately show ?thesis using moved(5) by (simp add: advances_def)
    next
      case (Inr aid)
      let ?s2 = "s1\<lparr>ticks := Suc (ticks s1), ledger := l, metrics := record_dispatch_attempt ?d (metrics s1)\<rparr>"
      note l = ledger_start [OF moved(5) z [unfolded Inr]]
      have rest: "settle_dispatch ops adapters ?d aid ?s2 = (x, t)"
        using run y z Inr d(1) by (simp add: dispatch_effect_def and_then_def run_simps on_ledger_def)
      have "protocol known (view_of s) (view_of ?s2)"
        using protocol.dispatched [of "look (ledger s)" ?i r known "tries (ledger s)" now] cur due moved l by simp
      then have adv: "advances known s ?s2" using l by (simp add: advances_def)
      have at: "invar (ledger ?s2)" "look (ledger ?s2) (effect_id ?d) = Some ?d" "status ?d = DISPATCHING"
        "aid = attempt_name (effect_id ?d) (tries (ledger ?s2) (effect_id ?d))"
        using l d(2) by simp_all
      have settled: "touches known ?i ?s2 x t" using settle_dispatch_touches [OF at rest] by simp
      then have "advances known s t" using advances_trans [OF adv] by (simp add: touches_def)
      then show ?thesis using settled l moved(6) by (auto simp: touches_def)
    qed
  qed
  then show "advances known s t" "x = Inr r' \<Longrightarrow> i \<noteq> ?i \<Longrightarrow> look (ledger t) i = look (ledger s) i" by blast+
qed

lemma dispatch_all_advances:
  assumes "invar (ledger s)" and "distinct (map effect_id rs)"
    and "\<forall>r \<in> set rs. look (ledger s) (effect_id r) = Some r \<and> due r"
    and "dispatch_all ops adapters w rs done s = (x, t)"
  shows "advances known s t"
  using assms
proof (induction rs arbitrary: "done" s)
  case (Cons r rs)
  have cur: "look (ledger s) (effect_id r) = Some r" and due: "due r" using Cons.prems(3) by simp_all
  obtain y s1 where y: "dispatch_effect ops adapters w r s = (y, s1)"
    by (cases "dispatch_effect ops adapters w r s")
  note step = dispatch_effect_advances [OF Cons.prems(1) cur due y]
  show ?case
  proof (cases y)
    case (Inl err)
    with Cons.prems(4) y have "t = s1" by (simp add: and_then_def)
    with step(1) show ?thesis by simp
  next
    case (Inr r')
    have "\<forall>q \<in> set rs. look (ledger s1) (effect_id q) = Some q \<and> due q"
    proof
      fix q assume q: "q \<in> set rs"
      with Cons.prems(2) have "effect_id q \<noteq> effect_id r" by (auto simp: image_iff)
      with q Cons.prems(3) show "look (ledger s1) (effect_id q) = Some q \<and> due q" by (simp add: step(2) [OF Inr])
    qed
    moreover have "dispatch_all ops adapters w rs (done @ [r']) s1 = (x, t)"
      using Cons.prems(4) by (simp add: and_then_def y Inr)
    ultimately have "advances known s1 t"
      using Cons.prems(2) step(1) by (intro Cons.IH [of s1]) (auto simp: advances_def)
    with step(1) show ?thesis by (rule advances_trans)
  qed
qed (simp add: advances_same)

text \<open>A claim is one step for each claimed effect.\<close>

lemma claims_protocols:
  assumes "distinct (map effect_id cs)"
    and "\<forall>c \<in> set cs. \<exists>r. rs (effect_id c) = Some r \<and> due r \<and> c = claim_record r now"
  shows "protocols known (rs, n) (rs ++ map_of (map (\<lambda>c. (effect_id c, c)) cs), n)"
  using assms
proof (induction cs arbitrary: rs)
  case (Cons c cs)
  then obtain r where r: "rs (effect_id c) = Some r" "due r" "c = claim_record r now" by auto
  have "protocol known (rs, n) (rs(effect_id c \<mapsto> claim_record r now), n)"
    by (rule protocol.claimed) (rule r)+
  then have "protocol known (rs, n) (rs(effect_id c \<mapsto> c), n)" using r(3) by simp
  moreover have "\<forall>q \<in> set cs. \<exists>r. (rs(effect_id c \<mapsto> c)) (effect_id q) = Some r \<and> due r \<and> q = claim_record r now"
  proof
    fix q assume q: "q \<in> set cs"
    with Cons.prems(1) have "effect_id q \<noteq> effect_id c" by (auto simp: image_iff)
    with q Cons.prems(2) show "\<exists>r. (rs(effect_id c \<mapsto> c)) (effect_id q) = Some r \<and> due r \<and> q = claim_record r now"
      by simp
  qed
  moreover have "effect_id c \<notin> dom (map_of (map (\<lambda>c. (effect_id c, c)) cs))"
    using Cons.prems(1) by (simp add: dom_map_of_conv_image_fst image_image)
  ultimately show ?case
    using Cons.IH [of "rs(effect_id c \<mapsto> c)"] Cons.prems(1)
    by (simp del: fun_upd_apply add: map_add_upd_swap converse_rtranclp_into_rtranclp)
qed simp

lemma dispatch_once_advances:
  assumes inv: "invar (ledger s)" and run: "dispatch_once ops adapters w now lf lim s = (x, t)"
  shows "advances known s t"
proof -
  obtain y l where y: "claim_op ops w now lf lim (ledger s) = (y, l)"
    by (cases "claim_op ops w now lf lim (ledger s)")
  show ?thesis
  proof (cases y)
    case (Inl err)
    then have "l = ledger s" using ledger_claim_error [OF inv] y by simp
    moreover have "ledger t = l" using run y Inl by (auto simp: dispatch_once_def and_then_def on_ledger_def)
    ultimately show ?thesis using inv by (simp add: advances_same)
  next
    case (Inr cs)
    note cs = ledger_claim [OF inv y [unfolded Inr]]
    let ?s1 = "s\<lparr>ledger := l\<rparr>"
    have "advances known s ?s1"
      using claims_protocols [of cs "look (ledger s)" now known "tries (ledger s)"] cs by (simp add: advances_def)
    moreover have "\<forall>r \<in> set cs. look (ledger ?s1) (effect_id r) = Some r \<and> due r"
    proof
      fix r assume r: "r \<in> set cs"
      then have "map_of (map (\<lambda>c. (effect_id c, c)) cs) (effect_id r) = Some r"
        using cs by (intro map_of_is_SomeI) (auto simp: o_def)
      moreover have "due r" using cs r by (auto simp: due_def)
      ultimately show "look (ledger ?s1) (effect_id r) = Some r \<and> due r" using cs by simp
    qed
    moreover have "dispatch_all ops adapters w cs [] ?s1 = (x, t)"
      using run y Inr by (simp add: dispatch_once_def and_then_def on_ledger_def)
    ultimately show ?thesis
      using dispatch_all_advances [of ?s1 cs adapters w "[]" x t known] cs by (auto intro: advances_trans)
  qed
qed

section \<open>The reconciler\<close>

text \<open>Counting an outcome, or a reading of the clock, changes nothing the ledger shows.\<close>

lemma to_operator_advances:
  assumes inv: "invar (ledger s)" and cur: "look (ledger s) (effect_id r) = Some r"
    and route: "safety (contract r) \<in> {IDEMPOTENT, UNSAFE}"
    and run: "to_operator ops r outcome reason s = (x, t)"
  shows "advances known s t"
proof -
  let ?s = "s\<lparr>metrics := record_reconciliation_outcome outcome (metrics s)\<rparr>"
  have "transition_and_record ops r MANUAL_REVIEW [(VStr ''reason'', VStr reason)] ?s = (x, t)"
    using run by (simp add: to_operator_def and_then_def run_simps)
  then have "advances known ?s t"
  proof (rule recorded_advances [rotated])
    fix now assume "is_allowed (status r) MANUAL_REVIEW"
    then have "status r = OUTCOME_UNKNOWN \<or> status r = RECONCILING" by (simp add: into_status)
    then show "protocol known (view_of ?s) ((look (ledger ?s))(effect_id r \<mapsto> advance r MANUAL_REVIEW now), tries (ledger ?s))"
      using cur route by (auto intro: protocol.escalated protocol.probed)
  qed (use inv cur in simp_all)
  then show ?thesis by (rule advances_from) simp
qed

lemma probe_target_advances:
  assumes inv: "invar (ledger s)" and cur: "look (ledger s) (effect_id r) = Some r"
    and route: "safety (contract r) \<in> {RECONCILABLE, TRANSACTIONAL}"
    and run: "probe_target ops adapters r s = (x, t)"
  shows "advances known s t"
proof -
  obtain y s1 where y: "transition_and_record ops r RECONCILING [(VStr ''reason'', VStr ''authoritative_probe'')] s = (y, s1)"
    by (cases "transition_and_record ops r RECONCILING [(VStr ''reason'', VStr ''authoritative_probe'')] s")
  have adv: "advances known s s1"
  proof (rule recorded_advances [OF inv y cur])
    fix now assume "is_allowed (status r) RECONCILING"
    then have "status r = OUTCOME_UNKNOWN" by (simp add: into_status)
    then show "protocol known (view_of s) ((look (ledger s))(effect_id r \<mapsto> advance r RECONCILING now), tries (ledger s))"
      using cur route by (intro protocol.probing)
  qed
  show ?thesis
  proof (cases y)
    case (Inl e)
    with run y have "t = s1" by (simp add: probe_target_def and_then_def)
    with adv show ?thesis by simp
  next
    case (Inr q)
    from inv y [unfolded Inr] have q: "status q = RECONCILING \<and> look (ledger s1) (effect_id q) = Some q"
    proof (cases rule: recorded_cases)
      case (moved r' now)
      then have "q = advance r RECONCILING now" using cur by simp
      with moved(6) cur moved(1) show "status q = RECONCILING \<and> look (ledger s1) (effect_id q) = Some q"
        by simp
    qed simp_all
    obtain p s2 where p: "call_probe adapters q s1 = (p, s2)" by (cases "call_probe adapters q s1")
    have same: "ledger s2 = ledger s1" by (rule leaves_ledgerD [OF call_probe_ledger p])
    show ?thesis
    proof (cases p)
      case (Inl e)
      with run y Inr p have "t = s2" by (simp add: probe_target_def and_then_def)
      with adv same show ?thesis by (auto intro: advances_to)
    next
      case (Inr res)
      let ?s3 = "s2\<lparr>metrics := record_reconciliation_outcome (probe_value (probe_state res)) (metrics s2)\<rparr>"
      have "transition_and_record ops q (probe_goal (probe_state res)) (probe_data res) ?s3 = (x, t)"
        using run y \<open>y = Inr q\<close> p Inr by (simp add: probe_target_def probe_answered_def and_then_def run_simps)
      then have "advances known ?s3 t"
      proof (rule recorded_advances [rotated])
        show "invar (ledger ?s3)" using adv same by (simp add: advances_def)
        show "look (ledger ?s3) (effect_id q) = Some q" using q same by simp
        show "protocol known (view_of ?s3) ((look (ledger ?s3))(effect_id q \<mapsto> advance q (probe_goal (probe_state res)) now'),
            tries (ledger ?s3))" for now'
          by (rule protocol.probed) (use q same in \<open>simp_all add: probe_goal_def\<close>)
      qed
      then have "advances known s1 t" by (rule advances_from) (simp add: same)
      with adv show ?thesis by (rule advances_trans)
    qed
  qed
qed

lemma redispatch_call_advances:
  assumes inv: "invar (ledger s)" and cur: "look (ledger s) (effect_id d) = Some d"
    and st: "status d = DISPATCHING" and idem: "safety (contract d) = IDEMPOTENT"
    and run: "redispatch_call ops a d aid s = (x, t)"
  shows "advances known s t"
proof -
  obtain ans w where ans: "adapter_dispatch a d aid (target s) = (ans, w)"
    by (cases "adapter_dispatch a d aid (target s)")
  from redispatch_call_run [OF ans, of ops] run obtain m data where
    "transition_and_record ops d (redispatch_verdict ans) data (s\<lparr>target := w, metrics := m\<rparr>) = (x, t)"
    by metis
  then have "advances known (s\<lparr>target := w, metrics := m\<rparr>) t"
  proof (rule recorded_advances [rotated])
    fix now
    show "protocol known (view_of (s\<lparr>target := w, metrics := m\<rparr>)) ((look (ledger (s\<lparr>target := w, metrics := m\<rparr>)))
        (effect_id d \<mapsto> advance d (redispatch_verdict ans) now), tries (ledger (s\<lparr>target := w, metrics := m\<rparr>)))"
      by (rule protocol.settled) (use cur st idem redispatch_verdict_outcomes in simp_all)
  qed (use inv cur in simp_all)
  then show ?thesis by (rule advances_from) simp
qed

lemma redispatch_advances:
  assumes inv: "invar (ledger s)" and cur: "look (ledger s) (effect_id r) = Some r"
    and idem: "safety (contract r) = IDEMPOTENT" and run: "redispatch ops adapters r s = (x, t)"
  shows "advances known s t"
proof -
  let ?i = "effect_id r"
  obtain y s1 where y: "transition_and_record ops r DISPATCHING [(VStr ''reason'', VStr ''idempotent_redispatch'')] s = (y, s1)"
    by (cases "transition_and_record ops r DISPATCHING [(VStr ''reason'', VStr ''idempotent_redispatch'')] s")
  from inv y show ?thesis
  proof (cases rule: recorded_cases)
    case (failed err)
    with y run have "t = s1" by (simp add: redispatch_def and_then_def)
    with failed inv show ?thesis by (simp add: advances_same)
  next
    case (moved r' now)
    let ?d = "advance r DISPATCHING now" and ?e = "envs s1 (ticks s1)"
    from moved cur have d: "y = Inr ?d" "look (ledger s1) ?i = Some ?d"
      and due: "due r \<or> status r = OUTCOME_UNKNOWN \<and> safety (contract r) = IDEMPOTENT"
      using idem by (auto simp: into_status due_def)
    obtain z l where z: "start_op ops ?e ?i (version r + 1) ''reconciler'' (ledger s1) = (z, l)"
      by (cases "start_op ops ?e ?i (version r + 1) ''reconciler'' (ledger s1)")
    show ?thesis
    proof (cases z)
      case (Inl err)
      then have "l = ledger s1" using ledger_start_error [OF moved(5)] z by simp
      moreover have "ledger t = l"
        using run y z Inl d(1) by (auto simp: redispatch_def and_then_def run_simps on_ledger_def)
      moreover have "protocol known (view_of s) (view_of s1)"
        using protocol.stalled [of "look (ledger s)" ?i r known "tries (ledger s)" now] cur due moved by simp
      ultimately show ?thesis using moved(5) by (simp add: advances_def)
    next
      case (Inr aid)
      let ?s2 = "s1\<lparr>ticks := Suc (ticks s1), ledger := l, metrics := record_dispatch_attempt ?d (metrics s1)\<rparr>"
      note l = ledger_start [OF moved(5) z [unfolded Inr]]
      have "protocol known (view_of s) (view_of ?s2)"
        using protocol.dispatched [of "look (ledger s)" ?i r known "tries (ledger s)" now] cur due moved l by simp
      then have adv: "advances known s ?s2" using l by (simp add: advances_def)
      have rest: "redispatch_with ops adapters ?d aid ?s2 = (x, t)"
        using run y d(1) z Inr by (simp add: redispatch_def and_then_def run_simps on_ledger_def)
      show ?thesis
      proof (cases "adapters ?d")
        case (Inl e)
        with rest have "t = ?s2" by (simp add: redispatch_with_def and_then_def run_simps)
        with adv show ?thesis by simp
      next
        case (Inr a)
        with rest have "redispatch_call ops a ?d aid ?s2 = (x, t)"
          by (simp add: redispatch_with_def and_then_def run_simps)
        then have "advances known ?s2 t"
          by (rule redispatch_call_advances [rotated 4]) (use l d(2) idem in simp_all)
        with adv show ?thesis by (rule advances_trans)
      qed
    qed
  qed
qed

lemma reconcile_once_advances:
  assumes inv: "invar (ledger s)" and cur: "look (ledger s) (effect_id r) = Some r"
    and run: "reconcile_once ops adapters r s = (x, t)"
  shows "advances known s t"
proof -
  obtain y u where body: "reconcile_body ops adapters r s = (y, u)"
    by (cases "reconcile_body ops adapters r s")
  with run have t: "ledger t = ledger u" by (auto simp: reconcile_once_def observe_latency_def)
  consider "safety (contract r) = IDEMPOTENT" | "safety (contract r) \<in> {RECONCILABLE, TRANSACTIONAL}"
    | "safety (contract r) = UNSAFE" by (cases "safety (contract r)") simp_all
  then have "advances known s u"
  proof cases
    case 1
    let ?e = "\<lambda>n. envs s (ticks s + n)"
    let ?s = "s\<lparr>metrics := record_retention_remaining (env_now (?e 0)) r (metrics s), ticks := Suc (Suc (ticks s))\<rparr>"
    have "(if \<not> key_retention_valid (env_now (?e 1)) r
        then to_operator ops r ''retention_expired'' ''idempotency_key_retention_expired''
        else redispatch ops adapters r) ?s = (y, u)"
      using body by (simp add: reconcile_body_cases(1) [OF 1] and_then_def run_simps)
    then have "advances known ?s u"
      using to_operator_advances [of ?s r] redispatch_advances [of ?s r] inv cur 1
      by (auto split: if_splits)
    then show ?thesis by (rule advances_from) simp
  next
    case 2
    then show ?thesis
      using probe_target_advances [OF inv cur 2] body by (simp add: reconcile_body_cases(2))
  next
    case 3
    then show ?thesis
      using to_operator_advances [OF inv cur] body by (simp add: reconcile_body_cases(3))
  qed
  then show ?thesis by (rule advances_to) (rule t)
qed

section \<open>The public service\<close>

text \<open>The read operations leave the ledger alone; what they return is the current record.\<close>

lemma broker_get_run:
  assumes "store b = ops" and "invar (ledger s)" and "broker_get b tenant eid s = (x, t)"
  shows "t = s" and "x = Inr r \<Longrightarrow> look (ledger s) (effect_id r) = Some r \<and> tenant_id r = tenant \<and> effect_id r = eid"
    and "x = Inl e \<Longrightarrow> e = UnknownEffectError eid"
  using assms ledger_id [of "ledger s" eid r]
  by (auto simp: broker_get_def ledger_get split: option.splits if_splits)

lemma submit_advances:
  assumes st: "store b = ops" and inv: "invar (ledger s)" and wf: "wf_request req"
    and run: "submit b tenant req s = (x, t)"
    and known: "\<And>name c. registry_get (contracts b) name = Inr c \<Longrightarrow> known (pin c)"
  shows "advances known s t"
proof (cases "registry_get (contracts b) (tool req)")
  case (Inl e)
  with run have "t = s" by (simp add: submit_def and_then_def run_simps)
  with inv show ?thesis by (simp add: advances_same)
next
  case (Inr c)
  let ?e = "envs s (ticks s)"
  obtain y l where y: "reserve_op ops ?e tenant req c (ledger s) = (y, l)"
    by (cases "reserve_op ops ?e tenant req c (ledger s)")
  show ?thesis
  proof (cases y)
    case (Inl e)
    with run Inr y have "ledger t = l"
      by (auto simp: submit_def and_then_def run_simps st observe_latency_def on_error_def on_ledger_def
          split: error.splits)
    moreover have "l = ledger s" using ledger_reserve_error [OF inv wf] y Inl by blast
    ultimately show ?thesis using inv by (simp add: advances_same)
  next
    case (Inr res)
    with run \<open>registry_get _ _ = Inr c\<close> y have t: "ledger t = l"
      by (auto simp: submit_def and_then_def run_simps st observe_latency_def on_error_def on_ledger_def)
    note safe = ledger_reserve [OF inv wf y [unfolded Inr]]
    show ?thesis
    proof (cases "created res")
      case False
      with safe t show ?thesis by (simp add: advances_def)
    next
      case True
      with safe obtain r where r: "look (ledger s) (effect_id r) = None" "look l = (look (ledger s))(effect_id r \<mapsto> r)"
        "status r = PREPARED" "version r = 0" "contract r = pin c" by auto
      have "protocol known (view_of s) ((look (ledger s))(effect_id r \<mapsto> r), tries (ledger s))"
        by (rule protocol.reserved) (use r known [OF \<open>registry_get _ _ = Inr c\<close>] in simp_all)
      with r safe t show ?thesis by (simp add: advances_def r_into_rtranclp)
    qed
  qed
qed

lemma reconcile_advances:
  assumes st: "store b = ops" and inv: "invar (ledger s)" and run: "reconcile b tenant eid s = (x, t)"
  shows "advances known s t"
proof (cases "adapter_for b")
  case None
  with run inv show ?thesis by (simp add: reconcile_def advances_same)
next
  case (Some adapters)
  obtain y u where y: "broker_get b tenant eid s = (y, u)" by (cases "broker_get b tenant eid s")
  note got = broker_get_run [OF st inv y]
  show ?thesis
  proof (cases y)
    case (Inl e)
    with run Some y got(1) inv show ?thesis by (simp add: reconcile_def and_then_def advances_same)
  next
    case (Inr r)
    with run Some y got(1) have "reconcile_once ops adapters r s = (x, t)"
      by (simp add: reconcile_def and_then_def st)
    with got(2) [OF Inr] inv show ?thesis by (blast intro: reconcile_once_advances)
  qed
qed

text \<open>A transition of the service itself, on the record it has just read.\<close>

lemma transition_advances:
  assumes inv: "invar (ledger s)" and cur: "look (ledger s) (effect_id r) = Some r"
    and run: "transition_op ops e (effect_id r) v goal d (ledger s) = (y, l)" and t: "ledger t = l"
    and step: "\<And>now. protocol known (view_of s) ((look (ledger s))(effect_id r \<mapsto> advance r goal now), tries (ledger s))"
  shows "advances known s t"
proof (cases y)
  case (Inl err)
  with run ledger_transition_error [OF inv] have "l = ledger s" by simp
  with inv t show ?thesis by (simp add: advances_same)
next
  case (Inr r')
  from ledger_transition [OF inv run [unfolded Inr]] cur t step [of "env_now e"]
  show ?thesis by (auto simp: advances_def)
qed

lemma cancel_advances:
  assumes st: "store b = ops" and inv: "invar (ledger s)" and run: "cancel b tenant eid v actor reason s = (x, t)"
  shows "advances known s t"
proof -
  obtain y u where y: "broker_get b tenant eid s = (y, u)" by (cases "broker_get b tenant eid s")
  note got = broker_get_run [OF st inv y]
  show ?thesis
  proof (cases "\<exists>r. y = Inr r \<and> version r = v \<and> status r \<in> {PREPARED, RETRYABLE}")
    case True
    then obtain r where r: "y = Inr r" "version r = v" "status r \<in> {PREPARED, RETRYABLE}" by blast
    let ?d = "[(VStr ''actor'', VStr actor), (VStr ''reason'', VStr reason)]"
    obtain z l where z: "transition_op ops (envs s (ticks s)) (effect_id r) v CANCELLED ?d (ledger s) = (z, l)"
      by (cases "transition_op ops (envs s (ticks s)) (effect_id r) v CANCELLED ?d (ledger s)")
    have "ledger t = l"
      using run y r got(1) z
      by (cases z) (auto simp: cancel_def and_then_def st run_simps on_ledger_def)
    show ?thesis
    proof (rule transition_advances [OF inv _ z \<open>ledger t = l\<close>])
      show "look (ledger s) (effect_id r) = Some r" using got(2) [OF r(1)] by blast
      then show "protocol known (view_of s) ((look (ledger s))(effect_id r \<mapsto> advance r CANCELLED now), tries (ledger s))"
        for now by (rule protocol.cancelled) (use r(3) in \<open>simp add: due_def\<close>)
    qed
  next
    case False
    have "t = s"
      using run y got(1) False by (cases y) (simp_all add: cancel_def and_then_def split: if_splits)
    with inv show ?thesis by (simp add: advances_same)
  qed
qed

lemma resolve_advances:
  assumes st: "store b = ops" and inv: "invar (ledger s)" and run: "resolve b tenant eid goal ev s = (x, t)"
  shows "advances known s t"
proof -
  obtain y u where y: "broker_get b tenant eid s = (y, u)" by (cases "broker_get b tenant eid s")
  note got = broker_get_run [OF st inv y]
  show ?thesis
  proof (cases "\<exists>r. y = Inr r \<and> status r = MANUAL_REVIEW \<and> goal \<in> {SUCCEEDED, FAILED_FINAL, COMPENSATED}")
    case True
    then obtain r where r: "y = Inr r" "status r = MANUAL_REVIEW" "goal \<in> {SUCCEEDED, FAILED_FINAL, COMPENSATED}"
      by blast
    let ?d = "[(VStr ''evidence'', VDict ev), (VStr ''actor'', VStr ''operator'')]"
    obtain z l where z: "transition_op ops (envs s (ticks s)) (effect_id r) (version r) goal ?d (ledger s) = (z, l)"
      by (cases "transition_op ops (envs s (ticks s)) (effect_id r) (version r) goal ?d (ledger s)")
    have "ledger t = l"
      using run y r got(1) z by (auto simp: resolve_def and_then_def st run_simps on_ledger_def)
    show ?thesis
    proof (rule transition_advances [OF inv _ z \<open>ledger t = l\<close>])
      show "look (ledger s) (effect_id r) = Some r" using got(2) [OF r(1)] by blast
      then show "protocol known (view_of s) ((look (ledger s))(effect_id r \<mapsto> advance r goal now), tries (ledger s))"
        for now by (rule protocol.decided) (use r(2,3) in simp_all)
    qed
  next
    case False
    have "t = s"
      using run y got(1) False by (cases y) (simp_all add: resolve_def and_then_def split: if_splits)
    with inv show ?thesis by (simp add: advances_same)
  qed
qed

text \<open>The life of a process is a run of the protocol.\<close>

lemma broker_run_advances:
  assumes "broker_run b s t" and st: "store b = ops" and inv: "invar (ledger s)"
    and known: "\<And>name c. registry_get (contracts b) name = Inr c \<Longrightarrow> known (pin c)"
  shows "advances known s t"
  using assms(1)
proof (induction rule: broker_run.induct)
  case idle
  then show ?case using inv by (simp add: advances_same)
next
  case (submitted t tenant req x u)
  then have "invar (ledger t)" by (simp add: advances_def)
  then have "advances known t u" by (rule submit_advances [OF st _ submitted.hyps(2,3)]) (rule known)
  with submitted.IH show ?case by (rule advances_trans)
next
  case (worked t adapters w now lf lim y u)
  then have "invar (ledger t)" by (simp add: advances_def)
  from dispatch_once_advances [OF this] worked show ?case
    by (simp add: st) (blast intro: advances_trans)
next
  case (reconciled t tenant eid z u)
  then have "invar (ledger t)" by (simp add: advances_def)
  from reconcile_advances [OF st this reconciled.hyps(2)] reconciled.IH show ?case
    by (blast intro: advances_trans)
next
  case (cancelled t tenant eid v actor reason z u)
  then have "invar (ledger t)" by (simp add: advances_def)
  from cancel_advances [OF st this cancelled.hyps(2)] cancelled.IH show ?case
    by (blast intro: advances_trans)
next
  case (resolved t tenant eid goal ev z u)
  then have "invar (ledger t)" by (simp add: advances_def)
  from resolve_advances [OF st this resolved.hyps(2)] resolved.IH show ?case
    by (blast intro: advances_trans)
next
  case (outside t w' m es n)
  then show ?case by (auto intro: advances_to)
qed

text \<open>
  The life of one effect: from a process that starts on an empty ledger, through any state in which the
  effect is there, to any later one.
\<close>

lemma effect_life:
  assumes "broker_run b s t" and "broker_run b t u" and st: "store b = ops" and start: "invar (ledger s)"
    and empty: "look (ledger s) = Map.empty" and sound: "sound_registry (contracts b)"
    and r: "look (ledger t) eid = Some r"
  shows "invar (ledger t) \<and> invar (ledger u) \<and> (\<exists>r'. look (ledger u) eid = Some r' \<and> later r r'
    \<and> (safety (contract r) = UNSAFE \<longrightarrow> tries (ledger u) eid \<le> 1))"
proof -
  let ?known = "\<lambda>c. \<exists>name d. registry_get (contracts b) name = Inr d \<and> c = pin d"
  have first: "advances ?known s t" by (rule broker_run_advances [OF assms(1) st start]) blast
  then have ok: "invar (ledger t)" by (simp add: advances_def)
  have after: "advances ?known t u" by (rule broker_run_advances [OF assms(2) st ok]) blast
  have whole: "protocols ?known (view_of s) (view_of u)"
    using advances_trans [OF first after] by (simp add: advances_def)
  have "tries (ledger s) i = 0" for i using ledger_untried [OF start] empty by simp
  then have "unsafe_ok (view_of u)" using unsafe_ok_steps [OF whole] by (simp add: empty unsafe_ok_def untried_ok_def)
  moreover have "contracts_known ?known (view_of u)"
    using contracts_known_steps [OF whole] by (simp add: empty contracts_known_def)
  moreover obtain r' where r': "look (ledger u) eid = Some r'" "later r r'"
    using protocols_later [OF conjunct2 [OF after [unfolded advances_def]] r] by auto
  ultimately have "?known (contract r')" unfolding contracts_known_def fst_conv by blast
  then obtain name d where d: "registry_get (contracts b) name = Inr d" "contract r' = pin d" by blast
  have same: "contract r' = contract r" using r'(2) by (simp add: later_def same_pins_def)
  have "retry_limit (contract r') \<le> 0" if "safety (contract r) = UNSAFE"
    using sound_registry_get [OF sound d(1)] that same d(2) ledger_pin [of d] by (simp add: sound_contract_def)
  with \<open>unsafe_ok (view_of u)\<close> r'(1) same
  have "safety (contract r) = UNSAFE \<longrightarrow> tries (ledger u) eid \<le> 1" by (simp add: unsafe_ok_def)
  with r' ok after show ?thesis by (auto simp: advances_def)
qed

end

end
