(* ===== verification/Memory_Laws.thy ===== *)
theory Memory_Laws
  imports Memory_Store Process_Refinement
begin

text \<open>
  Facts of the in-memory ledger. \<open>logged\<close> is the abstract history of one effect: how its event
  log may grow, and the status and version it ends in. \<open>mem_ok\<close> is the store invariant; every
  operation is a \<open>keeps\<close> fact for it. The last section gives the laws of \<open>effect_store\<close> for
  this store by interpretation.
\<close>

section \<open>Histories\<close>

inductive logged :: "string \<Rightarrow> memory_event list \<Rightarrow> effect_status \<Rightarrow> int \<Rightarrow> bool" for eid where
  reserved: "logged eid [new_event eid [] ''reserved'' 0 [(VStr ''status'', VStr ''prepared'')] at] PREPARED 0"
| claimed: "logged eid evs st v \<Longrightarrow> st \<in> {PREPARED, RETRYABLE} \<Longrightarrow>
    logged eid (evs @ [new_event eid evs ''claimed'' (v + 1) d at]) st (v + 1)"
| attempted: "logged eid evs st v \<Longrightarrow>
    logged eid (evs @ [new_event eid evs ''attempt_started'' v d at]) st v"
| moved: "logged eid evs st v \<Longrightarrow> is_allowed st goal \<Longrightarrow>
    logged eid (evs @ [new_event eid evs ''transition'' (v + 1) (transition_data st goal d) at]) goal (v + 1)"

lemma new_event_simps [simp]:
  "ev_effect (new_event eid evs ty v d at) = eid"
  "ev_sequence (new_event eid evs ty v d at) = int (length evs) + 1"
  "ev_type (new_event eid evs ty v d at) = ty" "ev_version (new_event eid evs ty v d at) = v"
  "ev_at (new_event eid evs ty v d at) = at" "ev_data (new_event eid evs ty v d at) = d"
  by (simp_all add: new_event_def)

lemma logged_not_Nil: "logged eid evs st v \<Longrightarrow> evs \<noteq> []"
  by (induction rule: logged.induct) simp_all

lemma logged_version: "logged eid evs st v \<Longrightarrow> 0 \<le> v"
  by (induction rule: logged.induct) simp_all

text \<open>Sequence numbers are positions; versions never go down along the log.\<close>

lemma logged_sequence:
  "logged eid evs st v \<Longrightarrow> i < length evs \<Longrightarrow> ev_sequence (evs ! i) = int i + 1 \<and> ev_effect (evs ! i) = eid"
  by (induction arbitrary: i rule: logged.induct) (auto simp: nth_append less_Suc_eq)

lemma logged_versions:
  "logged eid evs st v \<Longrightarrow> sorted (map ev_version evs) \<and> (\<forall>ev \<in> set evs. ev_version ev \<le> v)"
  by (induction rule: logged.induct) (auto simp: sorted_append)

lemma logged_moves: "logged eid evs st v \<Longrightarrow> moves PREPARED st"
  by (induction rule: logged.induct) (auto intro: moves.intros)

text \<open>The log holds a transition to \<open>SUCCEEDED\<close> exactly when the effect has succeeded.\<close>

lemma get_to [simp]: "dict_get (transition_data st goal d) ''to'' = Some (VStr (status_value goal))"
  by (simp add: dict_get_def transition_data_def)

lemma get_metadata [simp]: "dict_get (transition_data st goal d) ''metadata'' = Some (VDict d)"
  by (simp add: dict_get_def transition_data_def)

lemma find_success_append: "find_success (evs @ evs') = (case find_success evs of
    Some ev \<Rightarrow> Some ev | None \<Rightarrow> find_success evs')"
  by (induction evs) simp_all

lemma logged_success:
  "logged eid evs st v \<Longrightarrow> (find_success (rev evs) \<noteq> None) = (st = SUCCEEDED)"
proof (induction rule: logged.induct)
  case (moved evs st v goal d at)
  then have "st \<noteq> SUCCEEDED" by (auto simp: is_allowed_simps)
  with moved.IH have "find_success (rev evs) = None" by simp
  then show ?case using status_value_inj [of goal SUCCEEDED]
    by (auto simp del: status_value_inj)
qed auto

text \<open>The event a receipt is read from is the one that made the effect succeed.\<close>

lemma logged_success_data:
  "logged eid evs st v \<Longrightarrow> find_success (rev evs) = Some ev \<Longrightarrow>
     \<exists>old d. is_allowed old SUCCEEDED \<and> ev_data ev = transition_data old SUCCEEDED d \<and> ev \<in> set evs"
proof (induction rule: logged.induct)
  case (moved evs st v goal d at)
  from moved.hyps have "st \<noteq> SUCCEEDED" by (auto simp: is_allowed_simps)
  with logged_success [OF moved.hyps(1)] have "find_success (rev evs) = None" by simp
  with moved.prems have "status_value goal = status_value SUCCEEDED"
    and "ev = new_event eid evs ''transition'' (v + 1) (transition_data st goal d) at"
    by (auto split: if_splits)
  moreover from this(1) have "goal = SUCCEEDED" by (simp only: status_value_inj)
  ultimately show ?case using moved.hyps(2) by auto
qed auto

section \<open>The invariant\<close>

definition numbered :: "string \<Rightarrow> attempt list \<Rightarrow> bool" where
  "numbered eid atts \<longleftrightarrow> (\<forall>i < length atts. attempt_id (atts ! i) = attempt_name eid (Suc i)
     \<and> ordinal (atts ! i) = int i + 1 \<and> att_effect (atts ! i) = eid)"

definition effect_ok :: "memory_store \<Rightarrow> string \<Rightarrow> effect_record \<Rightarrow> bool" where
  "effect_ok s eid r \<longleftrightarrow> effect_id r = eid
     \<and> (\<exists>evs. events s eid = Some evs \<and> logged eid evs (status r) (version r))
     \<and> (\<exists>atts. attempts s eid = Some atts \<and> numbered eid atts)
     \<and> (leases s eid \<noteq> None \<longrightarrow> due r)
     \<and> request_hash (tool (request r)) (arguments (request r)) (contract_name (contract r))
         (contract_version (contract r)) = Inr (req_hash r)"

definition absent :: "memory_store \<Rightarrow> string \<Rightarrow> bool" where
  "absent s eid \<longleftrightarrow> events s eid = None \<and> attempts s eid = None \<and> leases s eid = None"

definition indexed :: "memory_store \<Rightarrow> bool" where
  "indexed s \<longleftrightarrow> (\<forall>tenant k eid. identity s (tenant, k) = Some eid \<longleftrightarrow>
     (\<exists>r. map_of (records s) eid = Some r \<and> tenant_id r = tenant \<and> operation_key (request r) = k))"

definition mem_ok :: "memory_store \<Rightarrow> bool" where
  "mem_ok s \<longleftrightarrow> map fst (records s) = map memory_id [1..<next_effect_id s] \<and> 1 \<le> next_effect_id s
     \<and> (\<forall>eid r. map_of (records s) eid = Some r \<longrightarrow> effect_ok s eid r)
     \<and> (\<forall>eid. map_of (records s) eid = None \<longrightarrow> absent s eid)
     \<and> indexed s"

lemma memory_id_inj [simp]: "memory_id m = memory_id n \<longleftrightarrow> m = n"
  by (simp add: memory_id_def)

lemma mem_ok_empty: "mem_ok empty_store"
  by (simp add: mem_ok_def empty_store_def absent_def indexed_def)

lemma mem_okD:
  assumes "mem_ok s"
  shows "map fst (records s) = map memory_id [1..<next_effect_id s]" "1 \<le> next_effect_id s"
    "map_of (records s) eid = Some r \<Longrightarrow> effect_ok s eid r"
    "map_of (records s) eid = None \<Longrightarrow> absent s eid"
    "indexed s"
  using assms by (simp_all add: mem_ok_def)

lemma mem_ok_distinct: "mem_ok s \<Longrightarrow> distinct (map fst (records s))"
  by (simp add: mem_okD(1) distinct_map inj_on_def)

lemma mem_ok_fresh: "mem_ok s \<Longrightarrow> memory_id (next_effect_id s) \<notin> fst ` set (records s)"
  using mem_okD(1) [of s] by (metis (no_types) list.set_map atLeastLessThan_iff imageE memory_id_inj
      less_irrefl set_upt)

lemma effect_okD:
  assumes "effect_ok s eid r"
  shows "effect_id r = eid" "leases s eid \<noteq> None \<Longrightarrow> due r"
    "request_hash (tool (request r)) (arguments (request r)) (contract_name (contract r))
       (contract_version (contract r)) = Inr (req_hash r)"
  using assms by (simp_all add: effect_ok_def)

lemma effect_ok_events:
  assumes "effect_ok s eid r"
  obtains evs where "events s eid = Some evs" "logged eid evs (status r) (version r)"
  using assms by (auto simp: effect_ok_def)

lemma effect_ok_attempts:
  assumes "effect_ok s eid r"
  obtains atts where "attempts s eid = Some atts" "numbered eid atts"
  using assms by (auto simp: effect_ok_def)

text \<open>\<open>effect_ok\<close> looks at one key only.\<close>

lemma effect_ok_cong:
  "events t eid = events s eid \<Longrightarrow> attempts t eid = attempts s eid \<Longrightarrow> leases t eid = leases s eid
     \<Longrightarrow> effect_ok t eid r = effect_ok s eid r"
  by (simp add: effect_ok_def)

lemma absent_cong:
  "events t eid = events s eid \<Longrightarrow> attempts t eid = attempts s eid \<Longrightarrow> leases t eid = leases s eid
     \<Longrightarrow> absent t eid = absent s eid"
  by (simp add: absent_def)

text \<open>An operation that rewrites one effect and nothing else keeps the invariant.\<close>

lemma mem_ok_step:
  assumes ok: "mem_ok s" and known: "map_of (records s) eid = Some r"
    and pins: "same_pins r r'" and recs: "records t = AList.update eid r' (records s)"
    and same: "identity t = identity s" "next_effect_id t = next_effect_id s"
    and others: "\<And>other. other \<noteq> eid \<Longrightarrow> events t other = events s other
      \<and> attempts t other = attempts s other \<and> leases t other = leases s other"
    and new: "effect_ok t eid r'"
  shows "mem_ok t"
proof -
  have in_keys: "eid \<in> fst ` set (records s)" using known by (metis map_of_eq_None_iff option.distinct(1))
  have look: "map_of (records t) = (map_of (records s))(eid \<mapsto> r')" by (simp add: recs)
  have "effect_ok t other q" if "map_of (records t) other = Some q" for other q
  proof (cases "other = eid")
    case False
    with that mem_okD(3) [OF ok, of other q] look show ?thesis
      using others [OF False] effect_ok_cong [of t other s q] by simp
  qed (use that look new in auto)
  moreover have "absent t other" if "map_of (records t) other = None" for other
  proof -
    from that look have "other \<noteq> eid" "map_of (records s) other = None" by (auto split: if_splits)
    then show ?thesis using mem_okD(4) [OF ok] others absent_cong [of t other s] by simp
  qed
  moreover have "indexed t"
    using mem_okD(5) [OF ok] known pins by (auto simp: indexed_def look same same_pins_def)
  ultimately show ?thesis
    using mem_okD(1,2) [OF ok] keys_update_known [OF in_keys, of r'] by (simp add: mem_ok_def recs same)
qed

section \<open>What each operation does\<close>

definition log_to :: "memory_store \<Rightarrow> string \<Rightarrow> string \<Rightarrow> int \<Rightarrow> json_object \<Rightarrow> time \<Rightarrow> memory_event list" where
  "log_to s eid ty v d at = mem_events eid s @ [new_event eid (mem_events eid s) ty v d at]"

definition moved_store :: "memory_store \<Rightarrow> string \<Rightarrow> effect_record \<Rightarrow> effect_status \<Rightarrow> json_object \<Rightarrow> time
    \<Rightarrow> memory_store" where
  "moved_store s eid r goal d now = s\<lparr>records := AList.update eid (advance r goal now) (records s),
     leases := (if goal \<notin> {PREPARED, RETRYABLE} then (leases s)(eid := None) else leases s),
     events := (events s)(eid \<mapsto> log_to s eid ''transition'' (version r + 1) (transition_data (status r) goal d) now)\<rparr>"

definition tried_store :: "memory_store \<Rightarrow> string \<Rightarrow> effect_record \<Rightarrow> attempt \<Rightarrow> json_object \<Rightarrow> time \<Rightarrow> memory_store"
where
  "tried_store s eid r a d now = s\<lparr>
     attempts := (attempts s)(eid \<mapsto> the (attempts s eid) @ [a]),
     events := (events s)(eid \<mapsto> log_to s eid ''attempt_started'' (version r) d now)\<rparr>"

definition claimed_store :: "memory_store \<Rightarrow> string \<Rightarrow> effect_record \<Rightarrow> string \<Rightarrow> time \<Rightarrow> timedelta \<Rightarrow> memory_store"
where
  "claimed_store s eid r w now lease_for = s\<lparr>records := AList.update eid (claim_record r now) (records s),
     leases := (leases s)(eid \<mapsto> \<lparr>lease_worker = w, expires_at = now + lease_for\<rparr>),
     events := (events s)(eid \<mapsto> log_to s eid ''claimed'' (version r + 1) (claimed_data w (now + lease_for)) now)\<rparr>"

lemma append_event_run:
  "events s eid = Some evs \<Longrightarrow>
     append_event eid ty v d at s = (Inr (), s\<lparr>events := (events s)(eid \<mapsto> log_to s eid ty v d at)\<rparr>)"
  by (simp add: append_event_def log_to_def mem_events_def)

lemma record_for_update_run:
  "map_of (records s) eid = None \<Longrightarrow> record_for_update eid v s = (Inl (UnknownEffectError eid), s)"
  "map_of (records s) eid = Some r \<Longrightarrow> version r \<noteq> v \<Longrightarrow>
     record_for_update eid v s = (Inl (VersionConflictError eid), s)"
  "map_of (records s) eid = Some r \<Longrightarrow> version r = v \<Longrightarrow> record_for_update eid v s = (Inr r, s)"
  by (simp_all add: record_for_update_def)

lemma mem_transition_run:
  assumes "map_of (records s) eid = Some r" and "version r = v" and "is_allowed (status r) goal"
    and "events s eid = Some evs"
  shows "mem_transition e eid v goal d s =
    (Inr (advance r goal (env_now e)), moved_store s eid r goal d (env_now e))"
  using assms
  by (simp add: mem_transition_def and_then_def record_for_update_def assert_transition_def Let_def
      append_event_def moved_store_def advance_def log_to_def mem_events_def)

lemma moved_store_events:
  "mem_events eid (moved_store s eid r goal d now) =
     log_to s eid ''transition'' (version r + 1) (transition_data (status r) goal d) now"
proof -
  have "events (moved_store s eid r goal d now) eid =
      Some (log_to s eid ''transition'' (version r + 1) (transition_data (status r) goal d) now)"
    by (simp add: moved_store_def)
  then show ?thesis by (simp add: mem_events_def [of eid "moved_store s eid r goal d now"])
qed

lemma mem_transition_errors:
  "map_of (records s) eid = None \<Longrightarrow>
     mem_transition e eid v goal d s = (Inl (UnknownEffectError eid), s)"
  "map_of (records s) eid = Some r \<Longrightarrow> version r \<noteq> v \<Longrightarrow>
     mem_transition e eid v goal d s = (Inl (VersionConflictError eid), s)"
  "map_of (records s) eid = Some r \<Longrightarrow> version r = v \<Longrightarrow> \<not> is_allowed (status r) goal \<Longrightarrow>
     mem_transition e eid v goal d s = (Inl (InvalidTransitionError (status r) goal), s)"
  by (simp_all add: mem_transition_def and_then_def record_for_update_def assert_transition_def)

definition new_attempt :: "env \<Rightarrow> string \<Rightarrow> int \<Rightarrow> string \<Rightarrow> nat \<Rightarrow> attempt" where
  "new_attempt e eid v w n = \<lparr>attempt_id = attempt_name eid (Suc n), att_effect = eid,
     ordinal = int (Suc n), att_worker = w, att_version = v, started_at = env_now e\<rparr>"

lemma mem_start_run:
  assumes "map_of (records s) eid = Some r" and "version r = v"
    and "events s eid = Some evs" and "attempts s eid = Some atts"
  shows "mem_start_attempt e eid v w s = (Inr (attempt_name eid (Suc (length atts))),
    tried_store s eid r (new_attempt e eid v w (length atts))
      (attempt_data (attempt_name eid (Suc (length atts))) (Suc (length atts)) w) (env_now e))"
  using assms
  by (simp add: mem_start_attempt_def and_then_def record_for_update_def Let_def
      append_event_def tried_store_def attempt_name_def new_attempt_def log_to_def mem_events_def)

lemma mem_start_errors:
  "map_of (records s) eid = None \<Longrightarrow> mem_start_attempt e eid v w s = (Inl (UnknownEffectError eid), s)"
  "map_of (records s) eid = Some r \<Longrightarrow> version r \<noteq> v \<Longrightarrow>
     mem_start_attempt e eid v w s = (Inl (VersionConflictError eid), s)"
  by (simp_all add: mem_start_attempt_def and_then_def record_for_update_def)

section \<open>Preservation\<close>

lemma mem_ok_known:
  assumes "mem_ok s" and "map_of (records s) eid = Some r"
  obtains evs atts where "events s eid = Some evs" "logged eid evs (status r) (version r)"
    "attempts s eid = Some atts" "numbered eid atts"
  using mem_okD(3) [OF assms] by (auto simp: effect_ok_def)

lemma mem_ok_moved:
  assumes ok: "mem_ok s" and r: "map_of (records s) eid = Some r" and "is_allowed (status r) goal"
  shows "mem_ok (moved_store s eid r goal d now)"
proof (rule mem_ok_step [OF ok r, of "advance r goal now"])
  from mem_ok_known [OF ok r] obtain evs atts where evs: "events s eid = Some evs"
    "logged eid evs (status r) (version r)" and atts: "attempts s eid = Some atts" "numbered eid atts" .
  have lease: "due (advance r goal now)" if "goal \<in> {PREPARED, RETRYABLE}"
    using that by (auto simp: due_def)
  show "effect_ok (moved_store s eid r goal d now) eid (advance r goal now)"
    using effect_okD [OF mem_okD(3) [OF ok r]] evs atts lease logged.moved [OF evs(2) assms(3)]
    by (auto simp: effect_ok_def moved_store_def log_to_def mem_events_def)
qed (auto simp: moved_store_def)

lemma mem_ok_tried:
  assumes ok: "mem_ok s" and r: "map_of (records s) eid = Some r" and n: "attempts s eid = Some atts"
  shows "mem_ok (tried_store s eid r (new_attempt e eid v w (length atts)) d now)"
proof (rule mem_ok_step [OF ok r, of r])
  from mem_ok_known [OF ok r] n obtain evs where evs: "events s eid = Some evs"
    "logged eid evs (status r) (version r)" and atts: "numbered eid atts" by auto
  from atts have "numbered eid (atts @ [new_attempt e eid v w (length atts)])"
    by (auto simp: numbered_def nth_append new_attempt_def less_Suc_eq)
  then show "effect_ok (tried_store s eid r (new_attempt e eid v w (length atts)) d now) eid r"
    using effect_okD [OF mem_okD(3) [OF ok r]] evs n logged.attempted [OF evs(2)]
    by (auto simp: effect_ok_def tried_store_def log_to_def mem_events_def)
  show "records (tried_store s eid r (new_attempt e eid v w (length atts)) d now) = AList.update eid r (records s)"
    using r by (simp add: tried_store_def update_same)
qed (auto simp: tried_store_def)

lemma mem_ok_claimed:
  assumes ok: "mem_ok s" and r: "map_of (records s) eid = Some r" and "due r"
  shows "mem_ok (claimed_store s eid r w now lease_for)"
proof (rule mem_ok_step [OF ok r, of "claim_record r now"])
  from mem_ok_known [OF ok r] obtain evs atts where evs: "events s eid = Some evs"
    "logged eid evs (status r) (version r)" and atts: "attempts s eid = Some atts" "numbered eid atts" .
  from \<open>due r\<close> have "status r \<in> {PREPARED, RETRYABLE}" by (simp add: due_def)
  from logged.claimed [OF evs(2) this]
  show "effect_ok (claimed_store s eid r w now lease_for) eid (claim_record r now)"
    using effect_okD [OF mem_okD(3) [OF ok r]] evs atts \<open>due r\<close>
    by (auto simp: effect_ok_def claimed_store_def log_to_def mem_events_def due_def)
qed (auto simp: claimed_store_def)

section \<open>Claims\<close>

text \<open>
  The reference: the work a claim takes is the first \<open>limit\<close> due effects, in the order of
  reservation, that no live lease holds.
\<close>

definition claimable :: "memory_store \<Rightarrow> time \<Rightarrow> string \<times> effect_record \<Rightarrow> bool" where
  "claimable s now er \<longleftrightarrow> due (snd er) \<and> \<not> leased s (fst er) now"

definition claim_all :: "string \<Rightarrow> time \<Rightarrow> timedelta \<Rightarrow> (string \<times> effect_record) list \<Rightarrow> memory_store \<Rightarrow> memory_store"
where
  "claim_all w now lease_for = fold (\<lambda>er s. claimed_store s (fst er) (snd er) w now lease_for)"

definition claimed_records :: "time \<Rightarrow> (string \<times> effect_record) list \<Rightarrow> effect_record list" where
  "claimed_records now = map (\<lambda>er. claim_record (snd er) now)"

lemma claim_all_simps [simp]:
  "claim_all w now lf [] s = s"
  "claim_all w now lf (er # ers) s = claim_all w now lf ers (claimed_store s (fst er) (snd er) w now lf)"
  by (simp_all add: claim_all_def)

lemma claimed_records_simps [simp]:
  "claimed_records now [] = []"
  "claimed_records now (er # ers) = claim_record (snd er) now # claimed_records now ers"
  by (simp_all add: claimed_records_def)

lemma claimed_store_simps [simp]:
  "records (claimed_store s eid r w now lf) = AList.update eid (claim_record r now) (records s)"
  "attempts (claimed_store s eid r w now lf) = attempts s"
  "identity (claimed_store s eid r w now lf) = identity s"
  "other \<noteq> eid \<Longrightarrow> leases (claimed_store s eid r w now lf) other = leases s other"
  "other \<noteq> eid \<Longrightarrow> events (claimed_store s eid r w now lf) other = events s other"
  by (simp_all add: claimed_store_def)

lemma claim_loop_step:
  assumes "\<not> int (length claimed) \<ge> lim" and "claimable s now (eid, r)" and "events s eid = Some evs"
  shows "claim_loop w now lf lim ((eid, r) # items) claimed s =
    claim_loop w now lf lim items (claimed @ [claim_record r now]) (claimed_store s eid r w now lf)"
  using assms by (auto simp: claimable_def due_def Let_def and_then_def append_event_def claimed_store_def
      claim_record_def log_to_def mem_events_def)

lemma claim_loop_skip:
  assumes "\<not> int (length claimed) \<ge> lim" and "\<not> claimable s now (eid, r)"
  shows "claim_loop w now lf lim ((eid, r) # items) claimed s = claim_loop w now lf lim items claimed s"
  using assms by (auto simp: claimable_def due_def)

lemma filter_claimable_claimed:
  assumes "eid \<notin> fst ` set items"
  shows "filter (claimable (claimed_store s eid r w now lf) now) items = filter (claimable s now) items"
proof (rule filter_cong [OF HOL.refl])
  fix er assume "er \<in> set items"
  with assms have "fst er \<noteq> eid" by auto
  then show "claimable (claimed_store s eid r w now lf) now er = claimable s now er"
    by (simp add: claimable_def leased_def)
qed

lemma claim_loop_reference:
  assumes "distinct (map fst items)" and "\<forall>er \<in> set items. events s (fst er) \<noteq> None"
  shows "claim_loop w now lf lim items claimed s =
    (Inr (claimed @ claimed_records now (take (nat lim - length claimed) (filter (claimable s now) items))),
     claim_all w now lf (take (nat lim - length claimed) (filter (claimable s now) items)) s)"
  using assms
proof (induction items arbitrary: claimed s)
  case (Cons er items)
  obtain eid r where er: "er = (eid, r)" by (cases er)
  show ?case
  proof (cases "int (length claimed) \<ge> lim")
    case True
    then have "nat lim - length claimed = 0" by simp
    with True show ?thesis by (simp add: er)
  next
    case more: False
    show ?thesis
    proof (cases "claimable s now (eid, r)")
      case False
      with more Cons show ?thesis
        unfolding er claim_loop_skip [OF more False] by simp
    next
      case True
      from Cons.prems er obtain evs where evs: "events s eid = Some evs" by auto
      from Cons.prems er have new: "eid \<notin> fst ` set items" by simp
      let ?t = "claimed_store s eid r w now lf"
      have "\<forall>er \<in> set items. events ?t (fst er) \<noteq> None"
      proof
        fix er' assume er': "er' \<in> set items"
        with new have "fst er' \<noteq> eid" by auto
        with er' Cons.prems(2) show "events ?t (fst er') \<noteq> None" by simp
      qed
      note IH = Cons.IH [OF _ this, of "claimed @ [claim_record r now]"]
      have "nat lim - length claimed = Suc (nat lim - Suc (length claimed))" using more by simp
      with IH Cons.prems True show ?thesis
        unfolding er claim_loop_step [OF more True evs] filter_claimable_claimed [OF new] by simp
    qed
  qed
qed simp

lemma claim_all_ok:
  assumes "mem_ok s" and "distinct (map fst ers)"
    and "\<forall>er \<in> set ers. map_of (records s) (fst er) = Some (snd er) \<and> due (snd er)"
  shows "mem_ok (claim_all w now lf ers s) \<and> attempts (claim_all w now lf ers s) = attempts s
    \<and> map_of (records (claim_all w now lf ers s)) =
        map_of (records s) ++ map_of (map (\<lambda>er. (fst er, claim_record (snd er) now)) ers)"
  using assms
proof (induction ers arbitrary: s)
  case (Cons er ers)
  let ?t = "claimed_store s (fst er) (snd er) w now lf"
  have "mem_ok ?t" using Cons.prems by (intro mem_ok_claimed) auto
  moreover have "\<forall>e \<in> set ers. map_of (records ?t) (fst e) = Some (snd e) \<and> due (snd e)"
  proof
    fix e assume e: "e \<in> set ers"
    with Cons.prems(2) have "fst e \<noteq> fst er"
      by (metis distinct.simps(2) image_eqI list.simps(9) set_map)
    with e Cons.prems(3) show "map_of (records ?t) (fst e) = Some (snd e) \<and> due (snd e)" by simp
  qed
  moreover have "fst er \<notin> dom (map_of (map (\<lambda>er. (fst er, claim_record (snd er) now)) ers))"
    using Cons.prems(2) by (simp add: dom_map_of_conv_image_fst image_image)
  ultimately show ?case using Cons.IH [of ?t] Cons.prems(2)
    by (simp del: fun_upd_apply add: map_add_upd_swap)
qed simp

definition claim_pick :: "memory_store \<Rightarrow> time \<Rightarrow> int \<Rightarrow> (string \<times> effect_record) list" where
  "claim_pick s now lim = take (nat lim) (filter (claimable s now) (records s))"

lemma claim_pick_known:
  assumes "mem_ok s" and "er \<in> set (claim_pick s now lim)"
  shows "map_of (records s) (fst er) = Some (snd er)" and "due (snd er)" and "\<not> leased s (fst er) now"
    and "effect_id (snd er) = fst er"
proof -
  from assms(2) have "er \<in> set (records s)" "claimable s now er"
    by (auto simp: claim_pick_def dest: in_set_takeD)
  then show known: "map_of (records s) (fst er) = Some (snd er)" and "due (snd er)" "\<not> leased s (fst er) now"
    using mem_ok_distinct [OF assms(1)] by (auto simp: claimable_def)
  show "effect_id (snd er) = fst er"
    using effect_okD(1) [OF mem_okD(3) [OF assms(1) known]] .
qed

lemma claim_pick_distinct: "mem_ok s \<Longrightarrow> distinct (map fst (claim_pick s now lim))"
  using mem_ok_distinct [of s] by (simp add: claim_pick_def take_map [symmetric] distinct_map_filter)

text \<open>\<open>claim_due\<close> is the reference.\<close>

lemma mem_claim_reference:
  assumes ok: "mem_ok s"
  shows "mem_claim_due w now lf lim s =
    (Inr (claimed_records now (claim_pick s now lim)), claim_all w now lf (claim_pick s now lim) s)"
proof (cases "lim \<le> 0")
  case True
  then show ?thesis by (simp add: mem_claim_due_def claim_pick_def)
next
  case False
  have "\<forall>er \<in> set (records s). events s (fst er) \<noteq> None"
  proof
    fix er assume "er \<in> set (records s)"
    then have "map_of (records s) (fst er) = Some (snd er)" using mem_ok_distinct [OF ok] by simp
    from mem_ok_known [OF ok this] show "events s (fst er) \<noteq> None" by auto
  qed
  from claim_loop_reference [OF mem_ok_distinct [OF ok] this, of w now lf lim "[]"] False
  show ?thesis by (simp add: mem_claim_due_def claim_pick_def)
qed

text \<open>A claim leaves a lease that keeps the effect from other workers until it expires.\<close>

lemma claim_all_leases_other:
  "eid \<notin> fst ` set ers \<Longrightarrow> leases (claim_all w now lf ers s) eid = leases s eid"
  by (induction ers arbitrary: s) auto

lemma claim_all_leases:
  assumes "distinct (map fst ers)" and "er \<in> set ers"
  shows "leases (claim_all w now lf ers s) (fst er) = Some \<lparr>lease_worker = w, expires_at = now + lf\<rparr>"
  using assms
proof (induction ers arbitrary: s)
  case (Cons e ers)
  show ?case
  proof (cases "er = e")
    case True
    with Cons.prems(1) have "fst er \<notin> fst ` set ers" by simp
    from claim_all_leases_other [OF this] True show ?thesis by (simp add: claimed_store_def)
  next
    case False
    with Cons show ?thesis by simp
  qed
qed simp

lemma mem_claim_exclusive:
  assumes ok: "mem_ok s" and first: "mem_claim_due w now lf lim s = (Inr cs, t)"
    and second: "mem_claim_due w' now' lf' lim' t = (Inr cs', u)" and "now' < now + lf"
  shows "effect_id ` set cs \<inter> effect_id ` set cs' = {}"
proof -
  let ?p = "claim_pick s now lim"
  from first mem_claim_reference [OF ok, of w now lf lim]
  have cs: "cs = claimed_records now ?p" and t: "t = claim_all w now lf ?p s" by simp_all
  have ok': "mem_ok t"
    using claim_all_ok [OF ok claim_pick_distinct [OF ok]] claim_pick_known [OF ok] unfolding t by blast
  from second mem_claim_reference [OF ok', of w' now' lf' lim']
  have cs': "cs' = claimed_records now' (claim_pick t now' lim')" by simp
  have "leased t (effect_id c) now'" if c: "c \<in> set cs" for c
  proof -
    from c obtain er where er: "er \<in> set ?p" "c = claim_record (snd er) now"
      by (auto simp: cs claimed_records_def)
    then have "effect_id c = fst er" using claim_pick_known(4) [OF ok er(1)] by simp
    moreover have "leases t (fst er) = Some \<lparr>lease_worker = w, expires_at = now + lf\<rparr>"
      unfolding t by (rule claim_all_leases [OF claim_pick_distinct [OF ok] er(1)])
    ultimately show ?thesis using assms(4) by (simp add: leased_def)
  qed
  moreover have "\<not> leased t (effect_id c) now'" if "c \<in> set cs'" for c
    using that claim_pick_known(3,4) [OF ok'] by (auto simp: cs' claimed_records_def)
  moreover have "\<exists>c \<in> set cs. \<exists>c' \<in> set cs'. effect_id c = effect_id c'"
    if "effect_id ` set cs \<inter> effect_id ` set cs' \<noteq> {}"
    using that by (simp add: disjoint_iff image_iff) blast
  ultimately show ?thesis by metis
qed

section \<open>Reservations\<close>

definition reserved_record :: "tenant_key_provider \<Rightarrow> env \<Rightarrow> string \<Rightarrow> effect_request \<Rightarrow> effect_contract
    \<Rightarrow> string \<Rightarrow> string \<Rightarrow> effect_record" where
  "reserved_record key e tenant req c digest eid = \<lparr>effect_id = eid, tenant_id = tenant, request = req,
     req_hash = digest, down_key = downstream_key (key tenant) tenant (operation_key req),
     contract = c, status = PREPARED, version = 0, created_at = env_now e, updated_at = env_now e\<rparr>"

definition reserved_store :: "memory_store \<Rightarrow> effect_record \<Rightarrow> memory_store" where
  "reserved_store s r = s\<lparr>next_effect_id := next_effect_id s + 1,
     identity := (identity s)((tenant_id r, operation_key (request r)) \<mapsto> effect_id r),
     records := AList.update (effect_id r) r (records s),
     attempts := (attempts s)(effect_id r \<mapsto> []),
     events := (events s)(effect_id r \<mapsto>
       [new_event (effect_id r) [] ''reserved'' 0 [(VStr ''status'', VStr ''prepared'')] (created_at r)])\<rparr>"

lemma mem_reserve_run:
  assumes "request_hash (tool req) (arguments req) (contract_name c) (contract_version c) = Inr digest"
  shows "identity s (tenant, operation_key req) = None \<Longrightarrow>
      r = reserved_record key e tenant req c digest (memory_id (next_effect_id s)) \<Longrightarrow>
      mem_reserve key e tenant req c s =
        (Inr \<lparr>res_effect = r, created = True, replayed = False\<rparr>, reserved_store s r)"
    and "identity s (tenant, operation_key req) = Some eid \<Longrightarrow> map_of (records s) eid = Some r \<Longrightarrow>
      req_hash r = digest \<Longrightarrow>
      mem_reserve key e tenant req c s = (Inr \<lparr>res_effect = r, created = False, replayed = True\<rparr>, s)"
    and "identity s (tenant, operation_key req) = Some eid \<Longrightarrow> map_of (records s) eid = Some r \<Longrightarrow>
      req_hash r \<noteq> digest \<Longrightarrow> mem_reserve key e tenant req c s =
        (Inl (PayloadConflictError (operation_key req) (req_hash r) digest), s)"
  using assms by (simp_all add: mem_reserve_def Let_def and_then_def append_event_def reserved_record_def
      reserved_store_def new_event_def)

lemma mem_reserve_hash_error:
  "request_hash (tool req) (arguments req) (contract_name c) (contract_version c) = Inl x \<Longrightarrow>
     mem_reserve key e tenant req c s = (Inl x, s)"
  by (simp add: mem_reserve_def)

lemma mem_ok_reserved:
  assumes ok: "mem_ok s" and new: "identity s (tenant, operation_key req) = None"
    and hash: "request_hash (tool req) (arguments req) (contract_name c) (contract_version c) = Inr digest"
    and r: "r = reserved_record key e tenant req c digest (memory_id (next_effect_id s))"
  shows "mem_ok (reserved_store s r)"
proof -
  let ?id = "memory_id (next_effect_id s)" and ?t = "reserved_store s r"
  have r_simps: "effect_id r = ?id" "tenant_id r = tenant" "request r = req" "req_hash r = digest"
    "contract r = c" "status r = PREPARED" "version r = 0"
    by (simp_all add: r reserved_record_def)
  have fresh: "map_of (records s) ?id = None"
    using mem_ok_fresh [OF ok] by (simp add: map_of_eq_None_iff)
  have look: "map_of (records ?t) = (map_of (records s))(?id \<mapsto> r)"
    by (simp add: reserved_store_def r_simps)
  have same: "events ?t other = events s other" "attempts ?t other = attempts s other"
    "leases ?t other = leases s other" if "other \<noteq> ?id" for other
    using that by (simp_all add: reserved_store_def r_simps)
  have "leases s ?id = None" using mem_okD(4) [OF ok fresh] by (simp add: absent_def)
  then have this_ok: "effect_ok ?t ?id r"
    using hash logged.reserved [of ?id "created_at r"]
    by (simp add: effect_ok_def reserved_store_def r_simps numbered_def)
  have "effect_ok ?t other q" if "map_of (records ?t) other = Some q" for other q
  proof (cases "other = ?id")
    case False
    with that look mem_okD(3) [OF ok, of other q] show ?thesis
      using same [OF False] effect_ok_cong [of ?t other s q] by simp
  qed (use that look this_ok in auto)
  moreover have "absent ?t other" if "map_of (records ?t) other = None" for other
  proof -
    from that look have "other \<noteq> ?id" "map_of (records s) other = None" by (auto split: if_splits)
    then show ?thesis using mem_okD(4) [OF ok] same absent_cong [of ?t other s] by simp
  qed
  moreover have "indexed ?t"
  proof -
    have none: "\<not> (tenant_id q = tenant \<and> operation_key (request q) = operation_key req)"
      if "map_of (records s) i = Some q" for i q
      using mem_okD(5) [OF ok] new that unfolding indexed_def by (metis option.distinct(1))
    show ?thesis using mem_okD(5) [OF ok] fresh none
      by (auto simp: indexed_def look reserved_store_def r_simps)
  qed
  moreover have "map fst (records ?t) = map memory_id [1..<next_effect_id ?t]"
    using mem_okD(1,2) [OF ok] keys_update_new [OF mem_ok_fresh [OF ok], of r]
    by (simp add: reserved_store_def r_simps)
  ultimately show ?thesis by (simp add: mem_ok_def) (simp add: reserved_store_def)
qed

text \<open>One reservation, on every branch.\<close>

lemma mem_reserve_cases:
  assumes ok: "mem_ok s" and run: "mem_reserve key e tenant req c s = (x, t)"
  obtains (unhashable) err where "x = Inl err" "t = s"
      "request_hash (tool req) (arguments req) (contract_name c) (contract_version c) = Inl err"
  | (conflict) eid r digest where "map_of (records s) eid = Some r" "tenant_id r = tenant"
      "operation_key (request r) = operation_key req" "req_hash r \<noteq> digest"
      "request_hash (tool req) (arguments req) (contract_name c) (contract_version c) = Inr digest"
      "x = Inl (PayloadConflictError (operation_key req) (req_hash r) digest)" "t = s"
  | (replay) eid r where "map_of (records s) eid = Some r" "tenant_id r = tenant"
      "operation_key (request r) = operation_key req"
      "request_hash (tool req) (arguments req) (contract_name c) (contract_version c) = Inr (req_hash r)"
      "x = Inr \<lparr>res_effect = r, created = False, replayed = True\<rparr>" "t = s"
  | (fresh) r digest where "identity s (tenant, operation_key req) = None"
      "request_hash (tool req) (arguments req) (contract_name c) (contract_version c) = Inr digest"
      "r = reserved_record key e tenant req c digest (memory_id (next_effect_id s))"
      "x = Inr \<lparr>res_effect = r, created = True, replayed = False\<rparr>" "t = reserved_store s r"
proof (cases "request_hash (tool req) (arguments req) (contract_name c) (contract_version c)")
  case (Inl err)
  show ?thesis
    by (rule unhashable [OF _ _ Inl]) (use run mem_reserve_hash_error [OF Inl, of key e tenant s] in auto)
next
  case (Inr digest)
  show ?thesis
  proof (cases "identity s (tenant, operation_key req)")
    case None
    from fresh [OF None Inr HOL.refl] run mem_reserve_run(1) [OF Inr None HOL.refl, of key e]
    show ?thesis by simp
  next
    case (Some eid)
    with mem_okD(5) [OF ok] obtain r where r: "map_of (records s) eid = Some r" "tenant_id r = tenant"
      "operation_key (request r) = operation_key req" by (auto simp: indexed_def)
    show ?thesis
    proof (cases "req_hash r = digest")
      case True
      with replay [OF r] Inr run mem_reserve_run(2) [OF Inr Some r(1) True, of key e] show ?thesis by simp
    next
      case False
      with conflict [OF r False Inr] run mem_reserve_run(3) [OF Inr Some r(1) False, of key e]
      show ?thesis by simp
    qed
  qed
qed

section \<open>The laws of the protocol\<close>

definition mem_look :: "memory_store \<Rightarrow> string \<Rightarrow> effect_record option" where
  "mem_look s = map_of (records s)"

definition mem_tries :: "memory_store \<Rightarrow> string \<Rightarrow> nat" where
  "mem_tries s eid = mem_attempt_count eid s"

lemma memory_ops_simps [simp]:
  "reserve_op (memory_ops key) = mem_reserve key" "claim_op (memory_ops key) = mem_claim_due"
  "start_op (memory_ops key) = mem_start_attempt" "transition_op (memory_ops key) = mem_transition"
  "get_op (memory_ops key) = mem_get" "list_op (memory_ops key) = mem_list"
  "receipt_op (memory_ops key) = mem_receipt"
  by (simp_all add: memory_ops_def)

lemma mem_transition_law:
  assumes "mem_ok s" and "mem_look s eid = Some r" and "version r = v" and "is_allowed (status r) goal"
  shows "\<exists>t. mem_transition e eid v goal d s = (Inr (advance r goal (env_now e)), t)
    \<and> mem_ok t \<and> mem_look t = (mem_look s)(eid \<mapsto> advance r goal (env_now e)) \<and> mem_tries t = mem_tries s"
proof -
  have r: "map_of (records s) eid = Some r" using assms(2) by (simp add: mem_look_def)
  from mem_ok_known [OF assms(1) r] obtain evs where evs: "events s eid = Some evs" by blast
  show ?thesis
    using mem_transition_run [OF r assms(3,4) evs] mem_ok_moved [OF assms(1) r assms(4)]
    by (simp add: mem_look_def mem_tries_def [abs_def] mem_attempt_count_def) (simp add: moved_store_def)
qed

lemma mem_start_law:
  assumes "mem_ok s" and "mem_look s eid = Some r" and "version r = v"
  shows "\<exists>t. mem_start_attempt e eid v w s = (Inr (attempt_name eid (Suc (mem_tries s eid))), t)
    \<and> mem_ok t \<and> mem_look t = mem_look s \<and> mem_tries t = (mem_tries s)(eid := Suc (mem_tries s eid))"
proof -
  have r: "map_of (records s) eid = Some r" using assms(2) by (simp add: mem_look_def)
  from mem_ok_known [OF assms(1) r] obtain evs atts where evs: "events s eid = Some evs"
    and atts: "attempts s eid = Some atts" by blast
  have n: "mem_tries s eid = length atts" by (simp add: mem_tries_def mem_attempt_count_def atts)
  let ?t = "tried_store s eid r (new_attempt e eid v w (length atts))
    (attempt_data (attempt_name eid (Suc (length atts))) (Suc (length atts)) w) (env_now e)"
  have "mem_look ?t = mem_look s" by (simp add: mem_look_def tried_store_def)
  moreover have "mem_tries ?t = (mem_tries s)(eid := Suc (length atts))"
    by (simp add: fun_eq_iff mem_tries_def mem_attempt_count_def tried_store_def atts)
  ultimately show ?thesis
    using mem_start_run [OF r assms(3) evs atts, of e w] mem_ok_tried [OF assms(1) r atts] n by auto
qed

lemma mem_claim_law:
  assumes ok: "mem_ok s"
  shows "\<exists>cs t. mem_claim_due w now lf lim s = (Inr cs, t)
    \<and> mem_ok t \<and> mem_tries t = mem_tries s \<and> distinct (map effect_id cs) \<and> int (length cs) \<le> max 0 lim
    \<and> (\<forall>c \<in> set cs. \<exists>r. mem_look s (effect_id c) = Some r \<and> due r \<and> c = claim_record r now)
    \<and> mem_look t = mem_look s ++ map_of (map (\<lambda>c. (effect_id c, c)) cs)"
proof (intro exI conjI)
  let ?ers = "claim_pick s now lim" and ?cs = "claimed_records now (claim_pick s now lim)"
  let ?t = "claim_all w now lf (claim_pick s now lim) s"
  note known = claim_pick_known [OF ok]
  note all = claim_all_ok [OF ok claim_pick_distinct [OF ok], of now lim w now lf]
  have ids: "map (\<lambda>er. (fst er, claim_record (snd er) now)) ?ers = map (\<lambda>c. (effect_id c, c)) ?cs"
    using known(4) by (simp add: claimed_records_def)
  show "mem_claim_due w now lf lim s = (Inr ?cs, ?t)" by (rule mem_claim_reference [OF ok])
  show "mem_ok ?t" using all known by blast
  show "mem_tries ?t = mem_tries s"
    using all known by (simp add: fun_eq_iff mem_tries_def mem_attempt_count_def)
  have "map effect_id ?cs = map fst ?ers" using known(4) by (simp add: claimed_records_def)
  then show "distinct (map effect_id ?cs)" using claim_pick_distinct [OF ok] by simp
  show "int (length ?cs) \<le> max 0 lim" by (simp add: claimed_records_def claim_pick_def)
  show "\<forall>c \<in> set ?cs. \<exists>r. mem_look s (effect_id c) = Some r \<and> due r \<and> c = claim_record r now"
    using known by (fastforce simp: claimed_records_def mem_look_def)
  show "mem_look ?t = mem_look s ++ map_of (map (\<lambda>c. (effect_id c, c)) ?cs)"
    using all known unfolding mem_look_def ids [symmetric] by blast
qed

lemma mem_reserve_law:
  assumes ok: "mem_ok s" and run: "mem_reserve key e tenant req c s = (Inr res, t)"
  shows "mem_ok t \<and> mem_look t (effect_id (res_effect res)) = Some (res_effect res)
    \<and> mem_look t = (if created res then (mem_look s)(effect_id (res_effect res) \<mapsto> res_effect res)
        else mem_look s)
    \<and> mem_tries t = mem_tries s
    \<and> tenant_id (res_effect res) = tenant
    \<and> operation_key (request (res_effect res)) = operation_key req
    \<and> request_hash (tool req) (arguments req) (contract_name c) (contract_version c)
        = Inr (req_hash (res_effect res))
    \<and> replayed res = (\<not> created res)
    \<and> (created res \<longrightarrow> mem_look s (effect_id (res_effect res)) = None
         \<and> status (res_effect res) = PREPARED \<and> version (res_effect res) = 0
         \<and> contract (res_effect res) = c \<and> request (res_effect res) = req)"
  using ok run
proof (cases rule: mem_reserve_cases)
  case (replay eid r)
  with effect_okD(1) [OF mem_okD(3) [OF ok replay(1)]] ok show ?thesis by (simp add: mem_look_def)
next
  case (fresh r digest)
  from fresh(3) have r: "effect_id r = memory_id (next_effect_id s)" "tenant_id r = tenant" "request r = req"
    "req_hash r = digest" "contract r = c" "status r = PREPARED" "version r = 0"
    by (simp_all add: reserved_record_def)
  have new: "map_of (records s) (effect_id r) = None"
    using mem_ok_fresh [OF ok] by (simp add: map_of_eq_None_iff r)
  have "attempts s (effect_id r) = None" using mem_okD(4) [OF ok new] by (simp add: absent_def)
  then have "mem_tries t = mem_tries s"
    by (auto simp: fun_eq_iff mem_tries_def mem_attempt_count_def fresh(5) reserved_store_def)
  then show ?thesis
    using mem_ok_reserved [OF ok fresh(1-3)] fresh(2,4,5) new
    by (auto simp: mem_look_def r reserved_store_def)
qed simp_all

lemma mem_reserve_safe:
  assumes "mem_ok s" and "wf_request req" and "mem_reserve key e tenant req c s = (Inr res, t)"
  shows "mem_ok t \<and> (\<not> created res \<longrightarrow> mem_look s (effect_id (res_effect res)) = Some (res_effect res))
    \<and> mem_look t = (if created res then (mem_look s)(effect_id (res_effect res) \<mapsto> res_effect res)
        else mem_look s)
    \<and> mem_tries t = mem_tries s
    \<and> tenant_id (res_effect res) = tenant
    \<and> operation_key (request (res_effect res)) = operation_key req
    \<and> request_hash (tool req) (arguments req) (contract_name c) (contract_version c)
        = Inr (req_hash (res_effect res))
    \<and> replayed res = (\<not> created res)
    \<and> (created res \<longrightarrow> mem_look s (effect_id (res_effect res)) = None
         \<and> status (res_effect res) = PREPARED \<and> version (res_effect res) = 0
         \<and> contract (res_effect res) = c \<and> request (res_effect res) = req)"
  using mem_reserve_law [OF assms(1,3)] by (auto split: if_splits)

lemma mem_reserve_error:
  assumes "mem_ok s" and "wf_request req" and "mem_reserve key e tenant req c s = (Inl x, t)"
  shows "t = s"
  using assms(1,3) by (cases rule: mem_reserve_cases) simp_all

lemma mem_get_look: "mem_get tenant eid s =
    (case mem_look s eid of Some r \<Rightarrow> if tenant_id r = tenant then Some r else None | None \<Rightarrow> None)"
  by (auto simp: mem_get_def mem_look_def split: option.splits)

lemma mem_look_identity:
  "mem_ok s \<Longrightarrow> mem_look s eid = Some r \<Longrightarrow> identity s (tenant_id r, operation_key (request r)) = Some eid"
  using mem_okD(5) [of s] by (auto simp: indexed_def mem_look_def)

lemma mem_look_errors:
  "mem_look s eid = None \<Longrightarrow> mem_transition e eid v goal d s = (Inl (UnknownEffectError eid), s)"
  "mem_look s eid = Some r \<Longrightarrow> version r \<noteq> v \<Longrightarrow>
     mem_transition e eid v goal d s = (Inl (VersionConflictError eid), s)"
  "mem_look s eid = Some r \<Longrightarrow> version r = v \<Longrightarrow> \<not> is_allowed (status r) goal \<Longrightarrow>
     mem_transition e eid v goal d s = (Inl (InvalidTransitionError (status r) goal), s)"
  "mem_look s eid = None \<Longrightarrow> mem_start_attempt e eid v w s = (Inl (UnknownEffectError eid), s)"
  "mem_look s eid = Some r \<Longrightarrow> version r \<noteq> v \<Longrightarrow>
     mem_start_attempt e eid v w s = (Inl (VersionConflictError eid), s)"
  by (simp_all add: mem_look_def mem_transition_errors mem_start_errors)

lemma mem_look_id:
  assumes "mem_ok s" and "mem_look s eid = Some r"
  shows "effect_id r = eid"
  using effect_okD(1) mem_okD(3) [OF assms(1)] assms(2) unfolding mem_look_def by blast

lemma mem_tries_none:
  assumes "mem_ok s" and "mem_look s eid = None"
  shows "mem_tries s eid = 0"
  using mem_okD(4) [OF assms(1), of eid] assms(2)
  by (simp add: mem_look_def mem_tries_def mem_attempt_count_def absent_def)

interpretation mem: effect_store "memory_ops key" mem_ok mem_look mem_tries "\<lambda>d. True" "\<lambda>r. r" "\<lambda>c. c" for key
  by (unfold_locales, unfold memory_ops_simps)
    ((rule TrueI mem_look_id mem_tries_none mem_transition_law mem_start_law mem_claim_law mem_get_look
        mem_reserve_safe mem_reserve_error mem_look_errors; assumption) | simp)+

section \<open>Logs and receipts\<close>

text \<open>A log only ever grows at its end, by every operation.\<close>

definition extends :: "memory_store \<Rightarrow> memory_store \<Rightarrow> bool" where
  "extends s t \<longleftrightarrow> (\<forall>eid. \<exists>more. mem_events eid t = mem_events eid s @ more)"

lemma extends_refl [simp]: "extends s s"
  by (simp add: extends_def)

lemma extends_trans: "extends s t \<Longrightarrow> extends t u \<Longrightarrow> extends s u"
  unfolding extends_def by (metis append.assoc)

lemma extends_log:
  "events t = (events s)(eid \<mapsto> log_to s eid ty v d at) \<Longrightarrow> extends s t"
  by (auto simp: extends_def mem_events_def log_to_def)

lemma extends_moved: "extends s (moved_store s eid r goal d now)"
  by (rule extends_log) (simp add: moved_store_def)

lemma extends_tried: "extends s (tried_store s eid r a d now)"
  by (rule extends_log) (simp add: tried_store_def)

lemma extends_claimed: "extends s (claimed_store s eid r w now lf)"
  by (rule extends_log) (simp add: claimed_store_def)

lemma extends_claims: "extends s (claim_all w now lf ers s)"
  by (induction ers arbitrary: s) (auto intro: extends_trans extends_claimed)

lemma extends_reserved:
  assumes "mem_ok s" and "effect_id r = memory_id (next_effect_id s)"
  shows "extends s (reserved_store s r)"
proof -
  have "map_of (records s) (effect_id r) = None"
    using mem_ok_fresh [OF assms(1)] assms(2) by (simp add: map_of_eq_None_iff)
  then have "events s (effect_id r) = None" using mem_okD(4) [OF assms(1)] by (simp add: absent_def)
  then show ?thesis by (auto simp: extends_def mem_events_def reserved_store_def)
qed

lemma mem_transition_extends:
  assumes "mem_ok s" and "mem_transition e eid v goal d s = (x, t)"
  shows "extends s t"
proof (cases "map_of (records s) eid")
  case None
  with assms(2) mem_transition_errors(1) [OF None] show ?thesis by simp
next
  case (Some r)
  from mem_ok_known [OF assms(1) Some] obtain evs where evs: "events s eid = Some evs" by blast
  consider "version r \<noteq> v" | "version r = v" "\<not> is_allowed (status r) goal" | "version r = v" "is_allowed (status r) goal"
    by blast
  then show ?thesis
    using assms(2) mem_transition_errors(2,3) [OF Some] mem_transition_run [OF Some _ _ evs]
    by cases (auto simp: extends_moved)
qed

lemma mem_start_extends:
  assumes "mem_ok s" and "mem_start_attempt e eid v w s = (x, t)"
  shows "extends s t"
proof (cases "map_of (records s) eid")
  case None
  with assms(2) mem_start_errors(1) [OF None] show ?thesis by simp
next
  case (Some r)
  from mem_ok_known [OF assms(1) Some] obtain evs atts where
    "events s eid = Some evs" "attempts s eid = Some atts" by blast
  then show ?thesis
    using assms(2) mem_start_errors(2) [OF Some] mem_start_run [OF Some]
    by (cases "version r = v") (auto simp: extends_tried)
qed

text \<open>A receipt exists exactly for a succeeded effect of the tenant, and says what was recorded.\<close>

lemma mem_receipt_iff:
  assumes "mem_ok s"
  shows "mem_receipt tenant eid s \<noteq> None \<longleftrightarrow> (\<exists>r. mem_get tenant eid s = Some r \<and> status r = SUCCEEDED)"
proof (cases "map_of (records s) eid")
  case (Some r)
  from mem_ok_known [OF assms Some] obtain evs where
    "events s eid = Some evs" "logged eid evs (status r) (version r)" by blast
  with Some logged_success [of eid evs "status r" "version r"] show ?thesis
    by (auto simp: mem_receipt_def mem_get_def split: option.splits)
qed (simp add: mem_receipt_def mem_get_def)

lemma mem_receipt_content:
  assumes "mem_ok s" and "mem_receipt tenant eid s = Some d"
  shows "\<exists>r ev old meta. mem_get tenant eid s = Some r \<and> ev \<in> set (mem_events eid s)
    \<and> ev_data ev = transition_data old SUCCEEDED meta
    \<and> d = [(VStr ''effect_id'', VStr eid), (VStr ''status'', VStr ''succeeded''),
         (VStr ''contract'', VStr (contract_name (contract r))),
         (VStr ''contract_version'', VStr (contract_version (contract r))),
         (VStr ''downstream_key'', VStr (down_key r)), (VStr ''metadata'', VDict meta),
         (VStr ''recorded_at'', VStr (isoformat (ev_at ev)))]"
proof -
  from assms(2) obtain r where r: "map_of (records s) eid = Some r" "tenant_id r = tenant"
    by (auto simp: mem_receipt_def split: option.splits if_splits)
  from mem_ok_known [OF assms(1) r(1)] obtain evs where
    evs: "events s eid = Some evs" "logged eid evs (status r) (version r)" by blast
  obtain ev where ev: "find_success (rev evs) = Some ev"
    using assms(2) r evs(1) by (cases "find_success (rev evs)") (simp_all add: mem_receipt_def)
  from logged_success_data [OF evs(2) ev] obtain old meta where
    "ev_data ev = transition_data old SUCCEEDED meta" "ev \<in> set evs" by blast
  note meta = this
  have "mem_get tenant eid s = Some r" using r by (simp add: mem_get_def)
  moreover have "ev \<in> set (mem_events eid s)" using meta(2) evs(1) by (simp add: mem_events_def)
  moreover have "d = [(VStr ''effect_id'', VStr eid), (VStr ''status'', VStr ''succeeded''),
         (VStr ''contract'', VStr (contract_name (contract r))),
         (VStr ''contract_version'', VStr (contract_version (contract r))),
         (VStr ''downstream_key'', VStr (down_key r)), (VStr ''metadata'', VDict meta),
         (VStr ''recorded_at'', VStr (isoformat (ev_at ev)))]"
    using assms(2) r evs(1) ev meta(1) by (simp add: mem_receipt_def as_dict_def)
  ultimately show ?thesis using meta(1) by blast
qed

section \<open>Listings\<close>

lemma mem_list_elements:
  "set (mem_list tenant st lim offset s) \<subseteq>
     {r. r \<in> snd ` set (records s) \<and> tenant_id r = tenant \<and> (\<forall>x. st = Some x \<longrightarrow> status r = x)}"
  by (auto simp: mem_list_def py_slice_def Let_def dest!: in_set_dropD in_set_takeD split: option.splits)

lemma mem_list_length: "0 \<le> lim \<Longrightarrow> 0 \<le> offset \<Longrightarrow> int (length (mem_list tenant st lim offset s)) \<le> lim"
  by (auto simp: mem_list_def py_slice_def slice_bound_def Let_def)

lemma mem_list_all:
  assumes "int (mem_count s) \<le> lim"
  shows "set (mem_list tenant st lim 0 s) =
     {r. r \<in> snd ` set (records s) \<and> tenant_id r = tenant \<and> (\<forall>x. st = Some x \<longrightarrow> status r = x)}"
proof -
  let ?rs = "filter (\<lambda>r. tenant_id r = tenant \<and> (case st of None \<Rightarrow> True | Some x \<Rightarrow> status r = x)) (map snd (records s))"
  have "length ?rs \<le> mem_count s" by (rule order.trans [OF length_filter_le]) (simp add: mem_count_def)
  with assms have "int (length ?rs) \<le> lim" by simp
  then have "mem_list tenant st lim 0 s = sort_key (\<lambda>r. (created_at r, effect_id r)) ?rs"
    by (auto simp: mem_list_def py_slice_def slice_bound_def Let_def)
  then show ?thesis by (auto split: option.splits)
qed

section \<open>A whole process over this ledger\<close>

lemma empty_view: "mem_ok empty_store" "untried_ok (mem_look empty_store, mem_tries empty_store)"
  "unsafe_ok (mem_look empty_store, mem_tries empty_store)"
  by (rule mem_ok_empty) (simp_all add: untried_ok_def unsafe_ok_def mem_look_def mem_tries_def
      mem_attempt_count_def empty_store_def)

lemma broker_run_memory:
  assumes "broker_run b s t" and "store b = memory_ops key" and "mem_ok (ledger s)"
  shows "mem_ok (ledger t)"
    and "protocols (\<lambda>c. \<exists>name. registry_get (contracts b) name = Inr c)
      (mem_look (ledger s), mem_tries (ledger s)) (mem_look (ledger t), mem_tries (ledger t))"
  using mem.broker_run_advances [OF assms, of "\<lambda>c. \<exists>name. registry_get (contracts b) name = Inr c"]
  by (auto simp: mem.advances_def)

lemma mem_get_Some: "mem_get tenant eid s = Some r \<longleftrightarrow> mem_look s eid = Some r \<and> tenant_id r = tenant"
  by (auto simp: mem_get_def mem_look_def split: option.splits)

end
