(* ===== verification/Simulated.thy ===== *)
theory Simulated
  imports Runtime
begin

text \<open>
  The deterministic target and its adapter (\<open>adapters/simulated.py\<close>) and the conformance checks
  of \<open>adapters/base.py\<close>. The target is authoritative state outside the broker: it can commit
  and lose the response, deduplicate by downstream key, or hide commits until they settle.
  A failing \<open>assert\<close> of a conformance check is \<open>AssertionError\<close>.

  The lemmas: the target's invariant; a deduplicating dispatch makes at most one charge per
  downstream key however often it is repeated and whatever responses are lost; a probe says
  \<open>NOT_COMMITTED\<close> only when the settlement bound has elapsed and there is no charge.
\<close>

record charge =
  charge_id :: string
  charge_key :: string
  charge_hash :: string
  amount :: pyval
  committed_at :: time

record sim_target =
  charges :: "(string \<times> charge) list"
  by_key :: "string \<Rightarrow> string list option"
  next_charge_id :: nat
  lose_response :: bool
  hide_commits :: bool
  sim_now :: time
  dispatch_count :: nat

definition sim_init :: "time \<Rightarrow> sim_target" where
  "sim_init now = \<lparr>charges = [], by_key = Map.empty, next_charge_id = 1, lose_response = False,
     hide_commits = False, sim_now = now, dispatch_count = 0\<rparr>"

definition lose_next_response :: "sim_target \<Rightarrow> sim_target" where
  "lose_next_response w = w\<lparr>lose_response := True\<rparr>"

definition set_now :: "time \<Rightarrow> sim_target \<Rightarrow> sim_target" where
  "set_now now w = w\<lparr>sim_now := now\<rparr>"

definition first_by_key :: "string \<Rightarrow> (sim_target, error, charge option) prog" where
  "first_by_key key = (\<lambda>w. case by_key w key of
     Some (i # ids) \<Rightarrow> (case map_of (charges w) i of
         Some c \<Rightarrow> (Inr (Some c), w) | None \<Rightarrow> (Inl (PyError ''KeyError''), w))
   | _ \<Rightarrow> (Inr None, w))"

definition charge_name :: "nat \<Rightarrow> string" where
  "charge_name n = ''charge_'' @ zero_pad 6 n"

definition get_or_none :: "json_object \<Rightarrow> string \<Rightarrow> pyval" where
  "get_or_none d k = (case dict_get d k of Some v \<Rightarrow> v | None \<Rightarrow> VNone)"

definition new_charge :: "effect_record \<Rightarrow> (sim_target, error, charge) prog" where
  "new_charge r = (\<lambda>w.
     let i = charge_name (next_charge_id w);
         c = \<lparr>charge_id = i, charge_key = down_key r, charge_hash = req_hash r,
              amount = get_or_none (arguments (request r)) ''amount'', committed_at = sim_now w\<rparr>;
         ids = (case by_key w (down_key r) of Some ids \<Rightarrow> ids | None \<Rightarrow> [])
     in (Inr c, w\<lparr>next_charge_id := next_charge_id w + 1,
                  charges := AList.update i c (charges w),
                  by_key := (by_key w)(down_key r \<mapsto> ids @ [i])\<rparr>))"

definition sim_commit :: "effect_record \<Rightarrow> bool \<Rightarrow> (sim_target, error, charge) prog" where
  "sim_commit r dedupe =
     and_then (modify (\<lambda>w. w\<lparr>dispatch_count := dispatch_count w + 1\<rparr>)) (\<lambda>_.
     and_then (first_by_key (down_key r)) (\<lambda>existing. case existing of
       Some c \<Rightarrow>
         if charge_hash c \<noteq> req_hash r
         then throw (AdapterError ''target rejected payload drift for reused key'')
         else if dedupe then ret c
         else new_charge r
     | None \<Rightarrow> new_charge r))"

definition charges_for_key :: "string \<Rightarrow> sim_target \<Rightarrow> charge option list" where
  "charges_for_key key w =
     (case by_key w key of None \<Rightarrow> [] | Some ids \<Rightarrow> map (map_of (charges w)) ids)"

definition dedupes :: "effect_record \<Rightarrow> bool" where
  "dedupes r \<longleftrightarrow> safety (contract r) \<in> {IDEMPOTENT, TRANSACTIONAL}"

definition sim_dispatch :: "effect_record \<Rightarrow> string \<Rightarrow> (sim_target, error, dispatch_result) prog" where
  "sim_dispatch r aid =
     and_then (sim_commit r (dedupes r)) (\<lambda>c w.
       if lose_response w
       then (Inl (AmbiguousDispatchError ''response lost after target commit''), w\<lparr>lose_response := False\<rparr>)
       else (Inr \<lparr>external_id = Some (charge_id c),
                  result_output = [(VStr ''external_id'', VStr (charge_id c))], committed = True\<rparr>, w))"

definition settlement_elapsed :: "effect_record \<Rightarrow> sim_target \<Rightarrow> bool" where
  "settlement_elapsed r w = (case settlement_bound (contract r) of
     None \<Rightarrow> False | Some bound \<Rightarrow> sim_now w \<ge> created_at r + bound)"

definition sim_probe :: "effect_record \<Rightarrow> (sim_target, error, probe_result) prog" where
  "sim_probe r =
     (if safety (contract r) = UNSAFE then
        ret \<lparr>probe_state = UNKNOWN, probe_external_id = None, probe_output = None,
             evidence = [(VStr ''reason'', VStr ''unsafe target has no authoritative lookup'')]\<rparr>
      else
        and_then (first_by_key (down_key r)) (\<lambda>found w.
          let settled = settlement_elapsed r w in
          case found of
            Some c \<Rightarrow>
              if \<not> hide_commits w \<or> settled then
                (Inr \<lparr>probe_state = COMMITTED, probe_external_id = Some (charge_id c),
                      probe_output = Some [(VStr ''external_id'', VStr (charge_id c))],
                      evidence = [(VStr ''downstream_key'', VStr (down_key r))]\<rparr>, w)
              else if safety (contract r) = RECONCILABLE \<and> settled then
                (Inr \<lparr>probe_state = NOT_COMMITTED, probe_external_id = None, probe_output = None,
                      evidence = [(VStr ''settlement_bound_elapsed'', VBool True)]\<rparr>, w)
              else
                (Inr \<lparr>probe_state = UNKNOWN, probe_external_id = None, probe_output = None,
                      evidence = [(VStr ''settlement_bound_elapsed'', VBool settled)]\<rparr>, w)
          | None \<Rightarrow>
              if safety (contract r) = RECONCILABLE \<and> settled then
                (Inr \<lparr>probe_state = NOT_COMMITTED, probe_external_id = None, probe_output = None,
                      evidence = [(VStr ''settlement_bound_elapsed'', VBool True)]\<rparr>, w)
              else
                (Inr \<lparr>probe_state = UNKNOWN, probe_external_id = None, probe_output = None,
                      evidence = [(VStr ''settlement_bound_elapsed'', VBool settled)]\<rparr>, w)))"

definition simulated_adapter :: "effect_contract \<Rightarrow> sim_target adapter" where
  "simulated_adapter c = \<lparr>adapter_contract = c, adapter_dispatch = sim_dispatch, adapter_probe = sim_probe\<rparr>"

definition default_adapter_for :: "sim_target adapter_for" where
  "default_adapter_for r = Inr (simulated_adapter (contract r))"

section \<open>Conformance checks\<close>

definition py_assert :: "bool \<Rightarrow> ('s, error, unit) prog" where
  "py_assert b = (if b then ret () else throw (PyError ''AssertionError''))"

definition stable_key_reuse :: "'w adapter \<Rightarrow> effect_record \<Rightarrow> ('w, error, unit) prog" where
  "stable_key_reuse a r =
     and_then (adapter_dispatch a r ''attempt-1'') (\<lambda>x.
     and_then (adapter_dispatch a r ''attempt-2'') (\<lambda>y.
     and_then (py_assert (committed x)) (\<lambda>_.
     and_then (py_assert (committed y)) (\<lambda>_.
     py_assert (external_id x = external_id y)))))"

definition payload_drift_rejection :: "'w adapter \<Rightarrow> effect_record \<Rightarrow> ('w, error, unit) prog" where
  "payload_drift_rejection a r =
     and_then (adapter_dispatch a r ''attempt-1'') (\<lambda>_.
     (let drifted = r\<lparr>req_hash := req_hash r @ ''-drift''\<rparr>
      in and_then
           (on_error (and_then (adapter_dispatch a drifted ''attempt-2'') (\<lambda>_. ret False))
             (\<lambda>x. case x of AdapterError _ \<Rightarrow> ret True | _ \<Rightarrow> throw x))
           py_assert))"

definition positive_probe :: "'w adapter \<Rightarrow> effect_record \<Rightarrow> ('w, error, unit) prog" where
  "positive_probe a r =
     and_then (adapter_dispatch a r ''attempt-1'') (\<lambda>x.
     and_then (adapter_probe a r) (\<lambda>p.
     and_then (py_assert (committed x)) (\<lambda>_.
     and_then (py_assert (probe_state p = COMMITTED)) (\<lambda>_.
     py_assert (probe_external_id p = external_id x)))))"

definition negative_probe :: "'w adapter \<Rightarrow> effect_record \<Rightarrow> ('w, error, unit) prog" where
  "negative_probe a r = and_then (adapter_probe a r) (\<lambda>p. py_assert (probe_state p = NOT_COMMITTED))"

definition unknown_probe :: "'w adapter \<Rightarrow> effect_record \<Rightarrow> ('w, error, unit) prog" where
  "unknown_probe a r = and_then (adapter_probe a r) (\<lambda>p. py_assert (probe_state p = UNKNOWN))"

section \<open>The target's invariant\<close>

text \<open>The ids filed under a key are charges of that key, all with one request hash.\<close>

definition key_ok :: "sim_target \<Rightarrow> string \<Rightarrow> bool" where
  "key_ok w key \<longleftrightarrow> (case by_key w key of
     None \<Rightarrow> True
   | Some ids \<Rightarrow> ids \<noteq> [] \<and> (\<exists>h. \<forall>i \<in> set ids. \<exists>c. map_of (charges w) i = Some c
       \<and> charge_id c = i \<and> charge_key c = key \<and> charge_hash c = h))"

definition sim_ok :: "sim_target \<Rightarrow> bool" where
  "sim_ok w \<longleftrightarrow> map fst (charges w) = map charge_name [1..<next_charge_id w] \<and> 1 \<le> next_charge_id w
     \<and> (\<forall>key. key_ok w key)"

definition charge_count :: "sim_target \<Rightarrow> string \<Rightarrow> nat" where
  "charge_count w key = length (charges_for_key key w)"

lemma charge_name_inj [simp]: "charge_name m = charge_name n \<longleftrightarrow> m = n"
  by (simp add: charge_name_def)

lemma sim_ok_init: "sim_ok (sim_init now)"
  by (simp add: sim_ok_def sim_init_def key_ok_def)

lemma charge_count_init [simp]: "charge_count (sim_init now) key = 0"
  by (simp add: charge_count_def charges_for_key_def sim_init_def)

lemma sim_ok_fresh: "sim_ok w \<Longrightarrow> charge_name (next_charge_id w) \<notin> fst ` set (charges w)"
proof
  assume ok: "sim_ok w" and "charge_name (next_charge_id w) \<in> fst ` set (charges w)"
  then have "charge_name (next_charge_id w) \<in> charge_name ` {1..<next_charge_id w}"
    unfolding sim_ok_def by (metis list.set_map set_upt)
  then show False by auto
qed

text \<open>The first charge of a key, if the key has any.\<close>

lemma first_by_key_ok:
  assumes ok: "sim_ok w"
  obtains (none) "by_key w key = None" "first_by_key key w = (Inr None, w)" "charge_count w key = 0"
  | (some) c ids where "by_key w key = Some (charge_id c # ids)" "first_by_key key w = (Inr (Some c), w)"
      "map_of (charges w) (charge_id c) = Some c" "charge_key c = key" "charge_count w key = Suc (length ids)"
proof (cases "by_key w key")
  case None
  then show ?thesis by (intro none) (simp_all add: first_by_key_def charge_count_def charges_for_key_def)
next
  case (Some ids)
  from ok have "key_ok w key" by (simp add: sim_ok_def)
  with Some obtain i rest c where "ids = i # rest" "map_of (charges w) i = Some c" "charge_id c = i" "charge_key c = key"
    unfolding key_ok_def by (cases ids) auto
  with Some show ?thesis
    by (intro some [of c rest]) (simp_all add: first_by_key_def charge_count_def charges_for_key_def)
qed

definition charge_of :: "effect_record \<Rightarrow> sim_target \<Rightarrow> charge" where
  "charge_of r w = \<lparr>charge_id = charge_name (next_charge_id w), charge_key = down_key r,
     charge_hash = req_hash r, amount = get_or_none (arguments (request r)) ''amount'',
     committed_at = sim_now w\<rparr>"

text \<open>The request hash all charges of a key share, if it has any.\<close>

definition hash_of_key :: "sim_target \<Rightarrow> string \<Rightarrow> string option" where
  "hash_of_key w key = (case first_by_key key w of (Inr (Some c), _) \<Rightarrow> Some (charge_hash c) | _ \<Rightarrow> None)"

lemma new_charge_effect:
  assumes ok: "sim_ok w" and agree: "hash_of_key w (down_key r) \<in> {None, Some (req_hash r)}"
  obtains w' where "new_charge r w = (Inr (charge_of r w), w')" "sim_ok w'"
    "charge_count w' (down_key r) = Suc (charge_count w (down_key r))"
    "\<And>key. key \<noteq> down_key r \<Longrightarrow> charge_count w' key = charge_count w key"
    "hash_of_key w' (down_key r) = Some (req_hash r)" "lose_response w' = lose_response w"
proof -
  let ?i = "charge_name (next_charge_id w)" and ?c = "charge_of r w" and ?k = "down_key r"
  let ?ids = "case by_key w ?k of Some ids \<Rightarrow> ids | None \<Rightarrow> []"
  let ?w' = "w\<lparr>next_charge_id := next_charge_id w + 1, charges := AList.update ?i ?c (charges w),
    by_key := (by_key w)(?k \<mapsto> ?ids @ [?i])\<rparr>"
  have fresh: "?i \<notin> fst ` set (charges w)" by (rule sim_ok_fresh [OF ok])
  have known: "map_of (charges w) i \<noteq> None \<Longrightarrow> i \<noteq> ?i" for i
    using fresh by (metis map_of_eq_None_iff)
  have c: "charge_id ?c = ?i" "charge_key ?c = ?k" "charge_hash ?c = req_hash r"
    by (simp_all add: charge_of_def)
  have old: "key_ok w key" for key using ok by (simp add: sim_ok_def)
  have ids: "\<forall>i \<in> set ?ids. \<exists>c. map_of (charges w) i = Some c \<and> charge_id c = i \<and> charge_key c = ?k
      \<and> charge_hash c = req_hash r"
  proof (cases "by_key w ?k")
    case (Some ids)
    from old [of ?k] Some obtain h where h: "ids \<noteq> []" "\<forall>i \<in> set ids. \<exists>c. map_of (charges w) i = Some c
        \<and> charge_id c = i \<and> charge_key c = ?k \<and> charge_hash c = h" by (auto simp: key_ok_def)
    then obtain i rest c' where "ids = i # rest" "map_of (charges w) i = Some c'" "charge_hash c' = h"
      by (cases ids) auto
    with Some agree have "h = req_hash r" by (simp add: hash_of_key_def first_by_key_def)
    with h Some show ?thesis by simp
  qed simp
  have "key_ok ?w' key" for key
  proof (cases "key = ?k")
    case True
    have "\<exists>c. map_of (charges ?w') i = Some c \<and> charge_id c = i \<and> charge_key c = ?k \<and> charge_hash c = req_hash r"
      if "i \<in> set (?ids @ [?i])" for i
    proof (cases "i = ?i")
      case False
      with that ids show ?thesis by auto
    qed (use c in simp)
    then have "\<exists>h. \<forall>i \<in> set (?ids @ [?i]). \<exists>c. map_of (charges ?w') i = Some c \<and> charge_id c = i
        \<and> charge_key c = ?k \<and> charge_hash c = h" by blast
    with True show ?thesis unfolding key_ok_def by simp
  next
    case False
    with old [of key] known show ?thesis by (fastforce simp: key_ok_def split: option.splits)
  qed
  moreover have "map fst (charges ?w') = map charge_name [1..<next_charge_id ?w']"
    using ok keys_update_new [OF fresh] by (simp add: sim_ok_def)
  ultimately have "sim_ok ?w'" by (simp add: sim_ok_def)
  moreover have "hash_of_key ?w' ?k = Some (req_hash r)"
  proof (cases ?ids)
    case Nil
    then show ?thesis by (simp add: hash_of_key_def first_by_key_def c)
  next
    case (Cons i rest)
    with ids obtain c' where "map_of (charges w) i = Some c'" "charge_hash c' = req_hash r" by auto
    with Cons known [of i] show ?thesis by (simp add: hash_of_key_def first_by_key_def)
  qed
  ultimately show thesis
    by (intro that [of ?w'])
      (simp_all add: new_charge_def charge_of_def charge_count_def charges_for_key_def Let_def split: option.split)
qed

text \<open>One call of the target, on every branch; the flag that loses a response changes no charge.\<close>

lemma sim_ok_cong:
  assumes "charges v = charges w" "by_key v = by_key w" "next_charge_id v = next_charge_id w"
  shows "sim_ok v = sim_ok w" "charge_count v key = charge_count w key" "hash_of_key v key = hash_of_key w key"
  using assms by (simp_all add: sim_ok_def key_ok_def charge_count_def charges_for_key_def hash_of_key_def
      first_by_key_def split: option.split list.split)

lemma sim_commit_cases:
  assumes ok: "sim_ok w" and run: "sim_commit r dedupe w = (x, w')"
  obtains (drift) h where "hash_of_key w (down_key r) = Some h" "h \<noteq> req_hash r" "\<exists>m. x = Inl (AdapterError m)"
      "sim_ok w'" "\<And>key. charge_count w' key = charge_count w key" "\<And>key. hash_of_key w' key = hash_of_key w key"
  | (known) c where "hash_of_key w (down_key r) = Some (req_hash r)" dedupe "x = Inr c"
      "sim_ok w'" "\<And>key. charge_count w' key = charge_count w key" "\<And>key. hash_of_key w' key = hash_of_key w key"
      "0 < charge_count w (down_key r)" "lose_response w' = lose_response w"
  | (charged) c where "hash_of_key w (down_key r) = None \<or> \<not> dedupe" "x = Inr c" "sim_ok w'"
      "charge_count w' (down_key r) = Suc (charge_count w (down_key r))"
      "\<And>key. key \<noteq> down_key r \<Longrightarrow> charge_count w' key = charge_count w key"
      "hash_of_key w' (down_key r) = Some (req_hash r)" "lose_response w' = lose_response w"
proof -
  let ?v = "w\<lparr>dispatch_count := dispatch_count w + 1\<rparr>"
  note same = sim_ok_cong [of ?v w, simplified]
  have ok': "sim_ok ?v" using ok same(1) by simp
  show ?thesis
  proof (rule first_by_key_ok [OF ok', of "down_key r"])
    assume none: "first_by_key (down_key r) ?v = (Inr None, ?v)"
    then have hash: "hash_of_key w (down_key r) = None" using same(3) [of "down_key r"] by (simp add: hash_of_key_def)
    have "new_charge r ?v = (x, w')" using run none by (simp add: sim_commit_def and_then_def)
    moreover have "hash_of_key ?v (down_key r) \<in> {None, Some (req_hash r)}" using hash same(3) by simp
    ultimately show ?thesis
      by (elim new_charge_effect [OF ok', of r]) (use charged hash same in auto)
  next
    fix c ids
    assume some: "first_by_key (down_key r) ?v = (Inr (Some c), ?v)"
      and count: "charge_count ?v (down_key r) = Suc (length ids)"
    then have hash: "hash_of_key w (down_key r) = Some (charge_hash c)"
      using same(3) [of "down_key r"] by (simp add: hash_of_key_def)
    consider "charge_hash c \<noteq> req_hash r" | "charge_hash c = req_hash r" dedupe | "charge_hash c = req_hash r" "\<not> dedupe"
      by blast
    then show ?thesis
    proof cases
      case 1
      with run some have "\<exists>m. x = Inl (AdapterError m)" "w' = ?v" by (auto simp: sim_commit_def and_then_def)
      with 1 hash ok' same show ?thesis by (intro drift) simp_all
    next
      case 2
      with run some have "x = Inr c" "w' = ?v" by (auto simp: sim_commit_def and_then_def)
      with 2 hash ok' same count show ?thesis by (intro known) simp_all
    next
      case 3
      with run some have "new_charge r ?v = (x, w')" by (simp add: sim_commit_def and_then_def)
      moreover have "hash_of_key ?v (down_key r) \<in> {None, Some (req_hash r)}" using hash same(3) 3 by simp
      ultimately show ?thesis
        by (elim new_charge_effect [OF ok', of r]) (use charged 3 same in auto)
    qed
  qed
qed

section \<open>At most one charge per key\<close>

lemma sim_dispatch_run:
  assumes "sim_commit r (dedupes r) w = (y, v)"
  shows "y = Inl e \<Longrightarrow> sim_dispatch r aid w = (Inl e, v)"
    and "y = Inr c \<Longrightarrow> lose_response v \<Longrightarrow> sim_dispatch r aid w =
      (Inl (AmbiguousDispatchError ''response lost after target commit''), v\<lparr>lose_response := False\<rparr>)"
    and "y = Inr c \<Longrightarrow> \<not> lose_response v \<Longrightarrow> sim_dispatch r aid w =
      (Inr \<lparr>external_id = Some (charge_id c), result_output = [(VStr ''external_id'', VStr (charge_id c))],
            committed = True\<rparr>, v)"
  using assms by (simp_all add: sim_dispatch_def and_then_def)

text \<open>A dispatch of a deduplicating effect, whether or not its response is lost.\<close>

lemma sim_dispatch_once:
  assumes ok: "sim_ok w" and dd: "dedupes r" and hash: "hash_of_key w (down_key r) \<in> {None, Some (req_hash r)}"
    and one: "charge_count w (down_key r) = (if hash_of_key w (down_key r) = None then 0 else 1)"
    and run: "sim_dispatch r aid w = (x, w')"
  shows "sim_ok w'" "charge_count w' (down_key r) = 1" "hash_of_key w' (down_key r) = Some (req_hash r)"
    "key \<noteq> down_key r \<Longrightarrow> charge_count w' key = charge_count w key"
    "lose_response w \<longleftrightarrow> (\<exists>m. x = Inl (AmbiguousDispatchError m))" "\<not> lose_response w'"
    "\<not> lose_response w \<Longrightarrow> \<exists>c. x = Inr c \<and> committed c"
proof -
  obtain y v where y: "sim_commit r (dedupes r) w = (y, v)" by (cases "sim_commit r (dedupes r) w")
  obtain c where c: "y = Inr c" "sim_ok v" "charge_count v (down_key r) = 1"
    "hash_of_key v (down_key r) = Some (req_hash r)" "lose_response v = lose_response w"
    "key \<noteq> down_key r \<Longrightarrow> charge_count v key = charge_count w key"
    using ok y
  proof (cases rule: sim_commit_cases)
    case (drift h)
    with hash show ?thesis by simp
  next
    case (known c)
    with one show ?thesis by (intro that [of c]) simp_all
  next
    case (charged c)
    with one dd show ?thesis by (intro that [of c]) simp_all
  qed
  note same = sim_ok_cong [of "v\<lparr>lose_response := False\<rparr>" v, simplified]
  note lost = sim_dispatch_run(2) [OF y c(1), of aid] and got = sim_dispatch_run(3) [OF y c(1), of aid]
  show "sim_ok w'" "charge_count w' (down_key r) = 1" "hash_of_key w' (down_key r) = Some (req_hash r)"
    "key \<noteq> down_key r \<Longrightarrow> charge_count w' key = charge_count w key"
    "lose_response w \<longleftrightarrow> (\<exists>m. x = Inl (AmbiguousDispatchError m))" "\<not> lose_response w'"
    "\<not> lose_response w \<Longrightarrow> \<exists>c. x = Inr c \<and> committed c"
    using run lost got c same by (cases "lose_response v"; auto)+
qed

text \<open>
  Deliveries of one effect: before each, the demonstration may arm the loss of the response.
\<close>

fun deliveries :: "effect_record \<Rightarrow> (string \<times> bool) list \<Rightarrow> sim_target \<Rightarrow> sim_target" where
  "deliveries r [] w = w"
| "deliveries r ((aid, lose) # ds) w =
     deliveries r ds (snd (sim_dispatch r aid (if lose then lose_next_response w else w)))"

lemma lose_next_same [simp]:
  "sim_ok (lose_next_response w) = sim_ok w" "charge_count (lose_next_response w) key = charge_count w key"
  "hash_of_key (lose_next_response w) key = hash_of_key w key"
  by (simp_all add: lose_next_response_def sim_ok_cong [of "w\<lparr>lose_response := True\<rparr>" w, simplified])

lemma deliveries_once:
  assumes "sim_ok w" and "dedupes r" and "hash_of_key w (down_key r) \<in> {None, Some (req_hash r)}"
    and "charge_count w (down_key r) = (if hash_of_key w (down_key r) = None then 0 else 1)"
    and "ds \<noteq> []"
  shows "charge_count (deliveries r ds w) (down_key r) = 1"
  using assms
proof (induction ds arbitrary: w)
  case (Cons d ds)
  obtain aid lose where d: "d = (aid, lose)" by (cases d)
  let ?w = "if lose then lose_next_response w else w"
  obtain x w' where run: "sim_dispatch r aid ?w = (x, w')" by (cases "sim_dispatch r aid ?w")
  have "sim_ok ?w" "hash_of_key ?w (down_key r) \<in> {None, Some (req_hash r)}"
    "charge_count ?w (down_key r) = (if hash_of_key ?w (down_key r) = None then 0 else 1)"
    using Cons.prems by simp_all
  note step = sim_dispatch_once [OF this(1) Cons.prems(2) this(2,3) run]
  show ?case
  proof (cases ds)
    case Nil
    with run step show ?thesis by (simp add: d)
  next
    case more: (Cons d' ds')
    have "charge_count (deliveries r ds w') (down_key r) = 1"
      by (rule Cons.IH) (use step Cons.prems(2) more in simp_all)
    with run show ?thesis by (simp add: d)
  qed
qed simp

section \<open>Probes\<close>

lemma sim_probe_leaves: "sim_ok w \<Longrightarrow> snd (sim_probe r w) = w"
  by (rule first_by_key_ok [of w "down_key r"])
    (auto simp: sim_probe_def and_then_def Let_def)

text \<open>What a probe proves.\<close>

lemma sim_probe_not_committed:
  assumes ok: "sim_ok w" and run: "sim_probe r w = (Inr p, w')" and p: "probe_state p = NOT_COMMITTED"
  shows "safety (contract r) = RECONCILABLE" "charge_count w (down_key r) = 0"
    "\<exists>bound. settlement_bound (contract r) = Some bound \<and> created_at r + bound \<le> sim_now w"
  using ok run p
  by (rule_tac [!] first_by_key_ok [of w "down_key r"])
    (auto simp: sim_probe_def and_then_def Let_def settlement_elapsed_def split: if_splits option.splits)

lemma sim_probe_committed:
  assumes ok: "sim_ok w" and run: "sim_probe r w = (Inr p, w')" and p: "probe_state p = COMMITTED"
  shows "safety (contract r) \<noteq> UNSAFE" "0 < charge_count w (down_key r)"
    "\<exists>c. charges_for_key (down_key r) w \<noteq> [] \<and> hd (charges_for_key (down_key r) w) = Some c
       \<and> probe_external_id p = Some (charge_id c)"
  using ok run p
  by (rule_tac [!] first_by_key_ok [of w "down_key r"])
    (auto simp: sim_probe_def and_then_def Let_def charges_for_key_def split: if_splits)

end
