(* ===== verification/Scenario.thy ===== *)
theory Scenario
  imports Memory_Laws Simulated
begin

text \<open>
  A concrete process, on which the properties are exercised: one tool under a contract of any
  safety class, the in-memory ledger, the simulated target and a clock that ticks in seconds.
  SHA-256 is never evaluated here: the request hash is kept as the term the code computes.
\<close>

definition demo_contract :: "safety_class \<Rightarrow> effect_contract" where
  "demo_contract cls = \<lparr>contract_name = ''mail'', contract_version = ''v1'', safety = cls, retry_limit = 0,
     key_retention = Some (seconds 3600), settlement_bound = Some (seconds 60)\<rparr>"

definition demo_request :: "int \<Rightarrow> effect_request" where
  "demo_request n = \<lparr>operation_key = ''op-1'', tool = ''send'', arguments = [(VStr ''amount'', VInt n)],
     requested_by = ''agent'', trace_id = None\<rparr>"

definition demo_env :: env where
  "demo_env = \<lparr>env_now = seconds 100, env_uuid = ''u''\<rparr>"

definition demo_text :: "int \<Rightarrow> string" where
  "demo_text n = text_of (fingerprint_payload ''send'' [(VStr ''amount'', VInt n)] ''mail'' ''v1'')"

definition demo_hash :: "int \<Rightarrow> string" where
  "demo_hash n = hex_text (sha256 (utf8_encode (demo_text n)))"

definition demo_keys :: tenant_key_provider where
  "demo_keys tenant = []"

definition demo_record :: "safety_class \<Rightarrow> effect_record" where
  "demo_record cls = reserved_record demo_keys demo_env ''acme'' (demo_request 10) (demo_contract cls)
     (demo_hash 10) (memory_id 1)"

definition demo_store :: "safety_class \<Rightarrow> memory_store" where
  "demo_store cls = reserved_store empty_store (demo_record cls)"

definition demo_broker :: "safety_class \<Rightarrow> (memory_store, sim_target) broker" where
  "demo_broker cls = \<lparr>store = memory_ops demo_keys, contracts = [(''send'', demo_contract cls)],
     adapter_for = Some default_adapter_for\<rparr>"

definition demo_world :: "memory_store \<Rightarrow> (memory_store, sim_target) world" where
  "demo_world s = \<lparr>ledger = s, target = sim_init (seconds 100), metrics = reset_for_tests,
     envs = (\<lambda>n. demo_env), ticks = 0\<rparr>"

section \<open>The request hash and the reservation\<close>

lemma demo_encodable: "encodable (fingerprint_payload ''send'' [(VStr ''amount'', VInt n)] ''mail'' ''v1'')"
  by (simp add: fingerprint_payload_def encodable_item_def)

lemma demo_request_hash:
  "request_hash (tool (demo_request n)) (arguments (demo_request n)) (contract_name (demo_contract cls))
     (contract_version (demo_contract cls)) = Inr (demo_hash n)"
  by (simp add: request_hash_def demo_request_def demo_contract_def demo_hash_def demo_text_def
      canonical_json_encodable [OF demo_encodable])

lemma demo_record_simps [simp]:
  "effect_id (demo_record cls) = ''eff_000001''" "tenant_id (demo_record cls) = ''acme''"
  "request (demo_record cls) = demo_request 10" "req_hash (demo_record cls) = demo_hash 10"
  "contract (demo_record cls) = demo_contract cls" "status (demo_record cls) = PREPARED"
  "version (demo_record cls) = 0" "created_at (demo_record cls) = seconds 100"
  by (simp_all add: demo_record_def reserved_record_def demo_env_def) code_simp

lemma demo_contract_simps [simp]:
  "safety (demo_contract cls) = cls" "retry_limit (demo_contract cls) = 0"
  "key_retention (demo_contract cls) = Some (seconds 3600)"
  "settlement_bound (demo_contract cls) = Some (seconds 60)"
  by (simp_all add: demo_contract_def)

lemma demo_request_simps [simp]:
  "operation_key (demo_request n) = ''op-1''" "tool (demo_request n) = ''send''"
  "arguments (demo_request n) = [(VStr ''amount'', VInt n)]"
  by (simp_all add: demo_request_def)

lemma demo_sound: "sound_contract (demo_contract cls)"
  by (cases cls) (simp_all add: sound_contract_def)

lemma demo_registry: "sound_registry (contracts (demo_broker cls))"
  by (simp add: sound_registry_def demo_broker_def demo_sound)

lemma demo_store_ok: "mem_ok (demo_store cls)"
  unfolding demo_store_def
  by (rule mem_ok_reserved [OF mem_ok_empty _ demo_request_hash [of 10 cls]])
    (simp_all add: empty_store_def demo_record_def)

lemma demo_store_records [simp]: "records (demo_store cls) = [(''eff_000001'', demo_record cls)]"
  by (simp add: demo_store_def reserved_store_def empty_store_def)

lemma demo_store_leases [simp]: "leases (demo_store cls) eid = None"
  by (simp add: demo_store_def reserved_store_def empty_store_def)

lemma demo_look [simp]: "mem_look (demo_store cls) ''eff_000001'' = Some (demo_record cls)"
  by (simp add: mem_look_def)

lemma demo_get [simp]: "mem_get ''acme'' ''eff_000001'' (demo_store cls) = Some (demo_record cls)"
  by (simp add: mem_get_def)

lemma demo_due [simp]: "due (demo_record cls)"
  by (simp add: due_def)

lemma demo_world_simps [simp]:
  "ledger (demo_world s) = s" "target (demo_world s) = sim_init (seconds 100)" "ticks (demo_world s) = 0"
  "envs (demo_world s) n = demo_env"
  by (simp_all add: demo_world_def)

lemma demo_broker_simps [simp]:
  "store (demo_broker cls) = memory_ops demo_keys" "adapter_for (demo_broker cls) = Some default_adapter_for"
  "contracts (demo_broker cls) = [(''send'', demo_contract cls)]"
  by (simp_all add: demo_broker_def)

lemma demo_reserve:
  "mem_reserve demo_keys demo_env ''acme'' (demo_request 10) (demo_contract cls) empty_store =
     (Inr \<lparr>res_effect = demo_record cls, created = True, replayed = False\<rparr>, demo_store cls)"
proof -
  have "identity empty_store (''acme'', operation_key (demo_request 10)) = None" by (simp add: empty_store_def)
  from mem_reserve_run(1) [OF demo_request_hash this, of "demo_record cls" demo_keys demo_env]
  show ?thesis by (simp add: demo_record_def demo_store_def empty_store_def)
qed

text \<open>The life of the process so far: the submission.\<close>

lemma demo_submitted:
  obtains u where "broker_run (demo_broker cls) (demo_world empty_store) u" "ledger u = demo_store cls"
    "target u = sim_init (seconds 100)"
proof -
  obtain x u where u: "submit (demo_broker cls) ''acme'' (demo_request 10) (demo_world empty_store) = (x, u)"
    by (cases "submit (demo_broker cls) ''acme'' (demo_request 10) (demo_world empty_store)")
  then have "ledger u = demo_store cls" "target u = sim_init (seconds 100)"
    by (auto simp: submit_def and_then_def raise_or_return_def registry_get_def observe_latency_def
        read_env_def on_error_def on_ledger_def demo_reserve measure_with_def)
  moreover have "wf_request (demo_request 10)" by (simp add: wf_request_def demo_request_def)
  ultimately show thesis using broker_run.submitted [OF broker_run.idle _ u] by (intro that)
qed

text \<open>A worker pass after the submission, for any safety class.\<close>

lemma demo_worked:
  obtains u out where "broker_run (demo_broker cls) (demo_world empty_store) u"
    "mem_ok (ledger u)" "\<exists>r. mem_get ''acme'' ''eff_000001'' (ledger u) = Some r \<and> same_pins (demo_record cls) r"
proof -
  obtain u where u: "broker_run (demo_broker cls) (demo_world empty_store) u" "ledger u = demo_store cls"
    by (rule demo_submitted)
  obtain out v where v: "dispatch_once (memory_ops demo_keys) default_adapter_for ''w'' 0 (seconds 30) 10 u = (Inr out, v)"
    using mem.dispatch_once_outcomes [of u demo_keys default_adapter_for "''w''" 0 "seconds 30" 10] demo_store_ok u(2)
    by metis
  have run: "broker_run (demo_broker cls) (demo_world empty_store) v"
    by (rule broker_run.worked [OF u(1)]) (use v in simp)
  have step: "broker_run (demo_broker cls) u v"
    by (rule broker_run.worked [OF broker_run.idle]) (use v in simp)
  have ok: "mem_ok (ledger u)" by (simp add: u(2) demo_store_ok)
  note mem = broker_run_memory [OF step _ ok, of demo_keys]
  have "mem_look (ledger u) ''eff_000001'' = Some (demo_record cls)" by (simp add: u(2))
  from protocols_later [OF mem(2) this] obtain r where r: "mem_look (ledger v) ''eff_000001'' = Some r"
    "later (demo_record cls) r" by auto
  then have "same_pins (demo_record cls) r" by (simp add: later_def)
  with r have "mem_get ''acme'' ''eff_000001'' (ledger v) = Some r" by (simp add: mem_get_Some same_pins_def)
  with run mem(1) \<open>same_pins _ r\<close> show thesis by (intro that) auto
qed

text \<open>A worker pass over the reserved effect.\<close>

lemma demo_pass:
  obtains out t where "dispatch_once (memory_ops demo_keys) default_adapter_for ''w'' 0 (seconds 30) 10
      (demo_world (demo_store cls)) = (Inr out, t)"
    "broker_run (demo_broker cls) (demo_world (demo_store cls)) t"
proof -
  obtain out t where t: "dispatch_once (memory_ops demo_keys) default_adapter_for ''w'' 0 (seconds 30) 10
      (demo_world (demo_store cls)) = (Inr out, t)"
    using mem.dispatch_once_outcomes [of "demo_world (demo_store cls)" demo_keys default_adapter_for "''w''"
        0 "seconds 30" 10] demo_store_ok by (metis demo_world_simps(1))
  have "broker_run (demo_broker cls) (demo_world (demo_store cls)) t"
    by (rule broker_run.worked [OF broker_run.idle]) (use t in simp)
  with t show thesis by (rule that)
qed

section \<open>The effect after a success and after an unknown outcome\<close>

definition succeeded_store :: memory_store where
  "succeeded_store = moved_store (moved_store (demo_store UNSAFE) ''eff_000001'' (demo_record UNSAFE) DISPATCHING [] 0)
     ''eff_000001'' (advance (demo_record UNSAFE) DISPATCHING 0) SUCCEEDED [] 0"

lemma succeeded_store_ok:
  "mem_ok succeeded_store"
  "mem_get ''acme'' ''eff_000001'' succeeded_store =
     Some (advance (advance (demo_record UNSAFE) DISPATCHING 0) SUCCEEDED 0)"
proof -
  let ?s = "moved_store (demo_store UNSAFE) ''eff_000001'' (demo_record UNSAFE) DISPATCHING [] 0"
  have "mem_ok ?s" by (rule mem_ok_moved [OF demo_store_ok]) (simp_all add: is_allowed_simps)
  moreover have "map_of (records ?s) ''eff_000001'' = Some (advance (demo_record UNSAFE) DISPATCHING 0)"
    by (simp add: moved_store_def)
  ultimately show "mem_ok succeeded_store"
    unfolding succeeded_store_def by (rule mem_ok_moved) (simp add: is_allowed_simps)
  show "mem_get ''acme'' ''eff_000001'' succeeded_store =
     Some (advance (advance (demo_record UNSAFE) DISPATCHING 0) SUCCEEDED 0)"
    by (simp add: succeeded_store_def moved_store_def mem_get_def)
qed

text \<open>The demonstration effect after a dispatch with an unknown outcome.\<close>

definition unknown_record :: "safety_class \<Rightarrow> effect_record" where
  "unknown_record cls = advance (advance (demo_record cls) DISPATCHING 0) OUTCOME_UNKNOWN 0"

definition unknown_store :: "safety_class \<Rightarrow> memory_store" where
  "unknown_store cls = moved_store (moved_store (demo_store cls) ''eff_000001'' (demo_record cls) DISPATCHING [] 0)
     ''eff_000001'' (advance (demo_record cls) DISPATCHING 0) OUTCOME_UNKNOWN [] 0"

lemma unknown_store_ok:
  "mem_ok (unknown_store cls)" "mem_get ''acme'' ''eff_000001'' (unknown_store cls) = Some (unknown_record cls)"
  "status (unknown_record cls) = OUTCOME_UNKNOWN" "contract (unknown_record cls) = demo_contract cls"
  "created_at (unknown_record cls) = seconds 100" "down_key (unknown_record cls) = down_key (demo_record cls)"
  "req_hash (unknown_record cls) = demo_hash 10"
proof -
  let ?s = "moved_store (demo_store cls) ''eff_000001'' (demo_record cls) DISPATCHING [] 0"
  have "mem_ok ?s" by (rule mem_ok_moved [OF demo_store_ok]) (simp_all add: is_allowed_simps)
  moreover have "map_of (records ?s) ''eff_000001'' = Some (advance (demo_record cls) DISPATCHING 0)"
    by (simp add: moved_store_def)
  ultimately show "mem_ok (unknown_store cls)"
    unfolding unknown_store_def by (rule mem_ok_moved) (simp add: is_allowed_simps)
qed (simp_all add: unknown_store_def unknown_record_def moved_store_def mem_get_def)

end
