(* ===== verification/Lifecycle.thy ===== *)
theory Lifecycle
  imports Scenario
begin

text \<open>
  Properties of a whole broker process over the in-memory ledger: what holds of an effect after any
  sequence of operations. The proofs read them off the abstract \<open>protocol\<close>.
\<close>

text \<open>
  However the operations of a broker process follow each other (submissions, worker passes
  with any adapters, reconciliations, cancellations, operator resolutions), an effect whose
  contract is unsafe has at most one dispatch attempt in its whole life.
\<close>

theorem unsafe_attempted_once:
  assumes "broker_run b s t" and "store b = memory_ops key" and "ledger s = empty_store"
    and "sound_registry (contracts b)"
    and "mem_get tenant eid (ledger t) = Some r" and "safety (contract r) = UNSAFE"
  shows "mem_attempt_count eid (ledger t) \<le> 1"
proof -
  let ?known = "\<lambda>c. \<exists>name. registry_get (contracts b) name = Inr c"
  let ?v = "(mem_look (ledger t), mem_tries (ledger t))"
  have "mem_ok (ledger s)" using assms(3) by (simp add: mem_ok_empty)
  note run = broker_run_memory(2) [OF assms(1,2) this, unfolded assms(3)]
  have "unsafe_ok ?v" using unsafe_ok_steps [OF run] empty_view by simp
  moreover have "contracts_known ?known ?v"
    using contracts_known_steps [OF run] by (simp add: contracts_known_def mem_look_def empty_store_def)
  moreover have r: "mem_look (ledger t) eid = Some r" using assms(5) by (simp add: mem_get_Some)
  ultimately obtain name where "registry_get (contracts b) name = Inr (contract r)"
    by (auto simp: contracts_known_def)
  from sound_registry_get [OF assms(4) this] assms(6) have "retry_limit (contract r) \<le> 0"
    by (simp add: sound_contract_def)
  with \<open>unsafe_ok ?v\<close> r assms(6) show ?thesis by (simp add: unsafe_ok_def mem_tries_def)
qed

theorem unsafe_attempted_once_witness:
  "\<exists>t r. broker_run (demo_broker UNSAFE) (demo_world empty_store) t
     \<and> mem_get ''acme'' ''eff_000001'' (ledger t) = Some r \<and> safety (contract r) = UNSAFE
     \<and> mem_attempt_count ''eff_000001'' (ledger t) \<le> 1"
proof -
  obtain t r where t: "broker_run (demo_broker UNSAFE) (demo_world empty_store) t"
    "mem_get ''acme'' ''eff_000001'' (ledger t) = Some r" "same_pins (demo_record UNSAFE) r"
    by (rule demo_worked [of UNSAFE]) blast
  then have "safety (contract r) = UNSAFE" by (simp add: same_pins_def)
  from unsafe_attempted_once [OF t(1) _ _ demo_registry t(2) this, of demo_keys] t this
  show ?thesis by auto
qed

text \<open>
  A terminal effect is final: no operation of the process, in any order, ever changes
  anything in its record again.
\<close>

theorem terminal_outcomes_final:
  assumes "broker_run b s t" and "store b = memory_ops key" and "mem_ok (ledger s)"
    and "mem_get tenant eid (ledger s) = Some r" and "is_terminal (status r)"
  shows "mem_get tenant eid (ledger t) = Some r"
proof -
  have "mem_look (ledger s) eid = Some r" using assms(4) by (simp add: mem_get_Some)
  from protocols_later [OF broker_run_memory(2) [OF assms(1-3)] this] assms(4,5)
  show ?thesis by (auto simp: later_def mem_get_Some)
qed

theorem terminal_outcomes_final_witness:
  "\<exists>t. broker_run (demo_broker UNSAFE) (demo_world succeeded_store) t \<and>
     mem_get ''acme'' ''eff_000001'' (ledger t) = Some (advance (advance (demo_record UNSAFE) DISPATCHING 0) SUCCEEDED 0)"
proof -
  obtain x t where "cancel (demo_broker UNSAFE) ''acme'' ''eff_000001'' 2 ''op'' ''late'' (demo_world succeeded_store) = (x, t)"
    by (cases "cancel (demo_broker UNSAFE) ''acme'' ''eff_000001'' 2 ''op'' ''late'' (demo_world succeeded_store)")
  then have "broker_run (demo_broker UNSAFE) (demo_world succeeded_store) t"
    by (rule broker_run.cancelled [OF broker_run.idle])
  from this terminal_outcomes_final [OF this, of demo_keys "''acme''" "''eff_000001''"] succeeded_store_ok
  show ?thesis by (auto simp: is_terminal_def terminal_statuses_def)
qed

text \<open>
  Along any life of the process an effect keeps its identity, request, hash, downstream key,
  pinned contract and creation time; its version never goes down, and its record changes only
  with a higher version; its status moves along the transition graph.
\<close>

theorem effects_pinned:
  assumes "broker_run b s t" and "store b = memory_ops key" and "mem_ok (ledger s)"
    and "mem_get tenant eid (ledger s) = Some r"
  shows "\<exists>r'. mem_get tenant eid (ledger t) = Some r' \<and> same_pins r r'
    \<and> (r' = r \<or> version r < version r') \<and> moves (status r) (status r')"
proof -
  have "mem_look (ledger s) eid = Some r" using assms(4) by (simp add: mem_get_Some)
  from protocols_later [OF broker_run_memory(2) [OF assms(1-3)] this] obtain r' where
    "mem_look (ledger t) eid = Some r'" "later r r'" by auto
  with assms(4) show ?thesis by (auto simp: later_def mem_get_Some same_pins_def)
qed

theorem effects_pinned_witness:
  "\<exists>t r'. broker_run (demo_broker IDEMPOTENT) (demo_world (demo_store IDEMPOTENT)) t
     \<and> mem_get ''acme'' ''eff_000001'' (ledger t) = Some r' \<and> same_pins (demo_record IDEMPOTENT) r'"
proof -
  obtain out t where t: "broker_run (demo_broker IDEMPOTENT) (demo_world (demo_store IDEMPOTENT)) t"
    by (rule demo_pass)
  from effects_pinned [OF t, of demo_keys "''acme''" "''eff_000001''" "demo_record IDEMPOTENT"] t demo_store_ok
  show ?thesis by auto
qed

text \<open>
  A tenant and an operation key name at most one effect, whatever was submitted, retried,
  worked on or cancelled before.
\<close>

theorem one_effect_per_key:
  assumes "broker_run b s t" and "store b = memory_ops key" and "ledger s = empty_store"
    and "mem_get tenant eid (ledger t) = Some r" and "mem_get tenant eid' (ledger t) = Some r'"
    and "operation_key (request r) = operation_key (request r')"
  shows "eid = eid' \<and> r = r'"
proof -
  have "mem_ok (ledger s)" using assms(3) by (simp add: mem_ok_empty)
  from broker_run_memory(1) [OF assms(1,2) this] have ok: "mem_ok (ledger t)" .
  from assms(4,5) have look: "mem_look (ledger t) eid = Some r" "mem_look (ledger t) eid' = Some r'"
    "tenant_id r = tenant" "tenant_id r' = tenant" by (simp_all add: mem_get_Some)
  from mem_look_identity [OF ok look(1)] mem_look_identity [OF ok look(2)] look(3,4) assms(6)
  have "Some eid = Some eid'" by simp
  then have "eid = eid'" by simp
  with assms(4,5) show ?thesis by simp
qed

theorem one_effect_per_key_witness:
  "\<exists>t r. broker_run (demo_broker UNSAFE) (demo_world empty_store) t
     \<and> mem_get ''acme'' ''eff_000001'' (ledger t) = Some r
     \<and> (\<forall>r'. mem_get ''acme'' ''eff_000001'' (ledger t) = Some r' \<longrightarrow> r = r')"
proof -
  obtain t r where t: "broker_run (demo_broker UNSAFE) (demo_world empty_store) t"
    "mem_get ''acme'' ''eff_000001'' (ledger t) = Some r"
    by (rule demo_worked [of UNSAFE]) blast
  have "r = r'" if "mem_get ''acme'' ''eff_000001'' (ledger t) = Some r'" for r'
    using one_effect_per_key [OF t(1) _ _ t(2) that, of demo_keys] t(2) that by simp
  with t show ?thesis by blast
qed

end
