(* ===== verification/Ledger_Properties.thy ===== *)
theory Ledger_Properties
  imports Scenario
begin

text \<open>
  Properties of the single operations of the in-memory ledger: reservation, claim, fencing,
  transition.
\<close>

text \<open>
  C5. A submission under a used operation key changes nothing: the same request under the same
  contract version gets the existing effect back, anything else is a payload conflict.
\<close>

theorem resubmission_replays:
  assumes "mem_ok s" and "mem_get tenant eid s = Some r" and "operation_key (request r) = operation_key req"
  shows "mem_reserve key e tenant req c s =
    (case request_hash (tool req) (arguments req) (contract_name c) (contract_version c) of
       Inl x \<Rightarrow> (Inl x, s)
     | Inr h \<Rightarrow> if h = req_hash r
         then (Inr \<lparr>res_effect = r, created = False, replayed = True\<rparr>, s)
         else (Inl (PayloadConflictError (operation_key req) (req_hash r) h), s))"
proof -
  have look: "map_of (records s) eid = Some r" "tenant_id r = tenant"
    using assms(2) by (simp_all add: mem_get_Some mem_look_def)
  then have "identity s (tenant, operation_key req) = Some eid"
    using mem_look_identity [OF assms(1), of eid r] assms(3) by (simp add: mem_look_def)
  with look show ?thesis
    by (auto simp: mem_reserve_run mem_reserve_hash_error split: sum.split)
qed

theorem resubmission_replays_witness:
  "mem_reserve demo_keys demo_env ''acme'' (demo_request 10) (demo_contract UNSAFE) (demo_store UNSAFE) =
     (Inr \<lparr>res_effect = demo_record UNSAFE, created = False, replayed = True\<rparr>, demo_store UNSAFE)"
  using resubmission_replays [OF demo_store_ok demo_get, where req = "demo_request 10" and key = demo_keys and e = demo_env and c = "demo_contract UNSAFE"]
  by (simp add: demo_request_hash del: demo_request_simps)

text \<open>
  A claim takes exactly the reference: the first \<open>limit\<close> effects, in order of reservation,
  that are prepared or retryable and not under a live lease, each with its version raised.
\<close>

theorem claim_is_reference:
  assumes "mem_ok s"
  shows "\<exists>t. mem_claim_due w now lease_for lim s =
    (Inr (map (\<lambda>(i, r). r\<lparr>version := version r + 1, updated_at := now\<rparr>)
       (take (nat lim) (filter (\<lambda>(i, r). status r \<in> {PREPARED, RETRYABLE} \<and> \<not> leased s i now) (records s)))), t)"
proof -
  have "claimable s now = (\<lambda>(i, r). status r \<in> {PREPARED, RETRYABLE} \<and> \<not> leased s i now)"
    by (auto simp: claimable_def due_def)
  then show ?thesis
    using mem_claim_reference [OF assms, of w now lease_for lim]
    by (simp add: claimed_records_def claim_pick_def claim_record_def [abs_def] case_prod_beta)
qed

theorem claim_is_reference_witness:
  "\<exists>t. mem_claim_due ''w'' 0 (seconds 30) 10 (demo_store UNSAFE) =
     (Inr [(demo_record UNSAFE)\<lparr>version := 1, updated_at := 0\<rparr>], t)"
  using claim_is_reference [OF demo_store_ok, of "''w''" 0 "seconds 30" 10 UNSAFE]
  by (simp add: leased_def)

text \<open>
  Two claims never share an effect while the first claim's lease lives, whoever claims.
\<close>

theorem claims_are_exclusive:
  assumes "mem_ok s" and "mem_claim_due w now lease_for lim s = (Inr cs, t)"
    and "mem_claim_due w' now' lease_for' lim' t = (Inr cs', u)" and "now' < now + lease_for"
  shows "effect_id ` set cs \<inter> effect_id ` set cs' = {}"
  by (rule mem_claim_exclusive [OF assms])

theorem claims_are_exclusive_witness:
  "\<exists>cs t cs' u. mem_claim_due ''w1'' 0 (seconds 30) 10 (demo_store UNSAFE) = (Inr cs, t)
     \<and> mem_claim_due ''w2'' (seconds 29) (seconds 30) 10 t = (Inr cs', u)
     \<and> effect_id ` set cs \<inter> effect_id ` set cs' = {}"
proof -
  obtain cs t where t: "mem_claim_due ''w1'' 0 (seconds 30) 10 (demo_store UNSAFE) = (Inr cs, t)" "mem_ok t"
    using mem_claim_law [OF demo_store_ok, of "''w1''" 0 "seconds 30" 10] by metis
  obtain cs' u where u: "mem_claim_due ''w2'' (seconds 29) (seconds 30) 10 t = (Inr cs', u)"
    using mem_claim_law [OF t(2), of "''w2''" "seconds 29" "seconds 30" 10] by metis
  from claims_are_exclusive [OF demo_store_ok t(1) u] t(1) u show ?thesis by auto
qed

text \<open>
  A write with a stale version is fenced: it raises and the ledger is unchanged, whatever the
  status asked for.
\<close>

theorem stale_writes_fenced:
  assumes "mem_look s eid = Some r" and "version r \<noteq> expected"
  shows "mem_transition e eid expected goal d s = (Inl (VersionConflictError eid), s)
    \<and> mem_start_attempt e eid expected w s = (Inl (VersionConflictError eid), s)"
  using mem_look_errors(2) [OF assms] mem_look_errors(5) [OF assms] by blast

theorem stale_writes_fenced_witness:
  "mem_transition demo_env ''eff_000001'' 7 DISPATCHING [] (demo_store UNSAFE) =
     (Inl (VersionConflictError ''eff_000001''), demo_store UNSAFE)"
  using stale_writes_fenced [OF demo_look, of UNSAFE 7] by simp

text \<open>
  A transition with the current version follows the graph: an edge that is not in it is refused
  and changes nothing; an edge that is in it raises the version by one and keeps every pinned field,
  releases the lease unless the effect is due again, and logs where it came from and went to.
\<close>

theorem transition_follows_graph:
  assumes "mem_ok s" and "mem_look s eid = Some r" and "version r = expected"
  shows "if is_allowed (status r) goal
    then \<exists>t. mem_transition e eid expected goal d s = (Inr (advance r goal (env_now e)), t)
      \<and> mem_ok t \<and> mem_look t = (mem_look s)(eid \<mapsto> advance r goal (env_now e))
      \<and> leases t eid = (if goal \<in> {PREPARED, RETRYABLE} then leases s eid else None)
      \<and> mem_events eid t = mem_events eid s @ [new_event eid (mem_events eid s) ''transition'' (expected + 1)
           (transition_data (status r) goal d) (env_now e)]
    else mem_transition e eid expected goal d s = (Inl (InvalidTransitionError (status r) goal), s)"
proof (cases "is_allowed (status r) goal")
  case True
  have r: "map_of (records s) eid = Some r" using assms(2) by (simp add: mem_look_def)
  from mem_ok_known [OF assms(1) r] obtain evs where evs: "events s eid = Some evs" by blast
  let ?t = "moved_store s eid r goal d (env_now e)"
  have "mem_look ?t = (mem_look s)(eid \<mapsto> advance r goal (env_now e))"
    by (simp add: mem_look_def moved_store_def)
  moreover have "mem_events eid ?t = mem_events eid s @ [new_event eid (mem_events eid s) ''transition'' (expected + 1)
      (transition_data (status r) goal d) (env_now e)]"
    using assms(3) by (simp add: moved_store_events log_to_def)
  moreover have "leases ?t eid = (if goal \<in> {PREPARED, RETRYABLE} then leases s eid else None)"
    by (simp add: moved_store_def)
  ultimately show ?thesis
    using True mem_transition_run [OF r assms(3) True evs] mem_ok_moved [OF assms(1) r True] by auto
next
  case False
  with mem_look_errors(3) [OF assms(2,3) False] show ?thesis by simp
qed

theorem transition_follows_graph_witness:
  "\<exists>t. mem_transition demo_env ''eff_000001'' 0 CANCELLED [] (demo_store UNSAFE) =
     (Inr (advance (demo_record UNSAFE) CANCELLED (seconds 100)), t) \<and> mem_ok t"
  using transition_follows_graph [OF demo_store_ok demo_look, of UNSAFE 0 CANCELLED demo_env "[]"]
  by (auto simp: is_allowed_simps demo_env_def)

end
