(* ===== verification/Worker_Properties.thy ===== *)
theory Worker_Properties
  imports Scenario
begin

text \<open>
  Properties of the worker over the in-memory ledger, for every adapter.
\<close>

text \<open>
  C6. The body of the worker's loop returns for every adapter, whatever it answers or raises. It
  spends exactly one attempt, hands the adapter the record in \<open>DISPATCHING\<close>, and leaves the
  effect in the status the answer deserves: success only for an answer that proves the commit,
  failure or (under the retry limit) retry only for an \<open>AdapterError\<close>, unknown for all else.
\<close>

theorem worker_persists_verdict:
  assumes "mem_ok (ledger s)" and "mem_get tenant eid (ledger s) = Some r" and "due r"
  shows "\<exists>r' t d ans. dispatch_effect (memory_ops key) adapters w r s = (Inr r', t)
    \<and> same_pins r d \<and> status d = DISPATCHING
    \<and> adapter_answer adapters d (attempt_name eid (Suc (mem_attempt_count eid (ledger s)))) (target s) = (ans, target t)
    \<and> mem_get tenant eid (ledger t) = Some r' \<and> same_pins r r' \<and> version r' = version r + 2
    \<and> mem_attempt_count eid (ledger t) = Suc (mem_attempt_count eid (ledger s))
    \<and> status r' = (case ans of
         Inr res \<Rightarrow> if committed res then SUCCEEDED else OUTCOME_UNKNOWN
       | Inl (AdapterError _) \<Rightarrow>
           if int (Suc (mem_attempt_count eid (ledger s))) < retry_limit (contract r) then RETRYABLE else FAILED_FINAL
       | Inl _ \<Rightarrow> OUTCOME_UNKNOWN)"
proof -
  have look: "mem_look (ledger s) eid = Some r" "tenant_id r = tenant" using assms(2) by (simp_all add: mem_get_Some)
  then have id: "effect_id r = eid" using mem_look_id [OF assms(1)] by blast
  obtain r' t d aid ans now now' where run: "dispatch_effect (memory_ops key) adapters w r s = (Inr r', t)"
    "mem_ok (ledger t)" "mem_look (ledger t) = (mem_look (ledger s))(effect_id r \<mapsto> r')"
    "mem_tries (ledger t) = (mem_tries (ledger s))(effect_id r := Suc (mem_tries (ledger s) (effect_id r)))"
    "aid = attempt_name (effect_id r) (Suc (mem_tries (ledger s) (effect_id r)))"
    "d = advance r DISPATCHING now" "adapter_answer adapters d aid (target s) = (ans, target t)"
    "r' = advance d (verdict (\<lambda>d. True) (retry_limit (contract r)) aid (Suc (mem_tries (ledger s) (effect_id r))) ans) now'"
    by (rule mem.dispatch_effect_verdict [of s r key adapters w, OF assms(1) _ assms(3)]) (use look id in simp_all)
  have "status r' = (case ans of
         Inr res \<Rightarrow> if committed res then SUCCEEDED else OUTCOME_UNKNOWN
       | Inl (AdapterError _) \<Rightarrow>
           if int (Suc (mem_attempt_count eid (ledger s))) < retry_limit (contract r) then RETRYABLE else FAILED_FINAL
       | Inl _ \<Rightarrow> OUTCOME_UNKNOWN)"
    using run(8) id by (simp add: verdict_def mem_tries_def split: sum.split error.split)
  moreover have "mem_get tenant eid (ledger t) = Some r'" "same_pins r r'" "version r' = version r + 2"
    using run(3,6,8) id look(2) by (simp_all add: mem_get_Some)
  moreover have "mem_attempt_count eid (ledger t) = Suc (mem_attempt_count eid (ledger s))"
    using run(4) id by (simp add: mem_tries_def fun_eq_iff)
  ultimately show ?thesis using run(1,5,6,7) id by (intro exI [of _ r'] exI [of _ t] exI [of _ d] exI [of _ ans])
      (simp add: mem_tries_def)
qed

theorem worker_persists_verdict_witness:
  "\<exists>r' t. dispatch_effect (memory_ops demo_keys) default_adapter_for ''w'' (demo_record UNSAFE) (demo_world (demo_store UNSAFE)) =
      (Inr r', t) \<and> mem_attempt_count ''eff_000001'' (ledger t) = Suc (mem_attempt_count ''eff_000001'' (demo_store UNSAFE))"
  using worker_persists_verdict [of "demo_world (demo_store UNSAFE)" "''acme''" "''eff_000001''" "demo_record UNSAFE"
      demo_keys default_adapter_for "''w''"] demo_store_ok by auto

text \<open>
  C7. One pass of the worker always completes: it returns at most \<open>limit\<close> distinct effects that were
  due, each with exactly one new attempt and in one of the four outcomes; no other effect is touched.
\<close>

theorem worker_pass:
  assumes "mem_ok (ledger s)"
  shows "\<exists>out t. dispatch_once (memory_ops key) adapters w now lease_for lim s = (Inr out, t)
    \<and> mem_ok (ledger t) \<and> distinct (map effect_id out) \<and> int (length out) \<le> max 0 lim
    \<and> (\<forall>r' \<in> set out. status r' \<in> {SUCCEEDED, RETRYABLE, FAILED_FINAL, OUTCOME_UNKNOWN}
         \<and> mem_look (ledger t) (effect_id r') = Some r'
         \<and> (\<exists>r. mem_look (ledger s) (effect_id r') = Some r \<and> due r \<and> same_pins r r' \<and> version r' = version r + 3))
    \<and> (\<forall>i. mem_attempt_count i (ledger t) = mem_attempt_count i (ledger s) + (if i \<in> effect_id ` set out then 1 else 0))
    \<and> (\<forall>i. i \<notin> effect_id ` set out \<longrightarrow> mem_look (ledger t) i = mem_look (ledger s) i)"
proof -
  obtain out t where run: "dispatch_once (memory_ops key) adapters w now lease_for lim s = (Inr out, t)"
    "mem_ok (ledger t)" "distinct (map effect_id out)" "int (length out) \<le> max 0 lim"
    "\<forall>r' \<in> set out. status r' \<in> outcomes \<and> mem_look (ledger t) (effect_id r') = Some r'
       \<and> (\<exists>r. mem_look (ledger s) (effect_id r') = Some r \<and> due r \<and> same_pins r r' \<and> version r' = version r + 3)"
    "\<forall>i. i \<notin> effect_id ` set out \<longrightarrow> mem_look (ledger t) i = mem_look (ledger s) i"
    "\<forall>i. mem_tries (ledger t) i = mem_tries (ledger s) i + (if i \<in> effect_id ` set out then 1 else 0)"
    by (rule mem.dispatch_once_outcomes [OF assms, of key adapters w now lease_for lim])
  have "\<forall>i. mem_attempt_count i (ledger t) = mem_attempt_count i (ledger s) + (if i \<in> effect_id ` set out then 1 else 0)"
    using run(7) unfolding mem_tries_def .
  with run(1-6) show ?thesis unfolding outcomes_def by (intro exI [of _ out] exI [of _ t] conjI)
qed

theorem worker_pass_witness:
  "\<exists>out t. dispatch_once (memory_ops demo_keys) default_adapter_for ''w'' 0 (seconds 30) 10 (demo_world (demo_store UNSAFE)) =
     (Inr out, t) \<and> mem_ok (ledger t)"
proof -
  have "mem_ok (ledger (demo_world (demo_store UNSAFE)))" using demo_store_ok by simp
  from worker_pass [OF this, of demo_keys default_adapter_for "''w''" 0 "seconds 30" 10]
  show ?thesis by (elim exE conjE) (intro exI conjI)
qed

end
