(* ===== verification/Canonical_Text.thy ===== *)
theory Canonical_Text
  imports Canonical
begin

text \<open>
  Canonical text is unambiguous: from \<open>text_of a @ r = text_of b @ r'\<close>, where the remainders
  start with a separator or are empty, it follows that \<open>a\<close> and \<open>b\<close> denote the same JSON value
  and the remainders agree. The other direction needs that sorting by key forgets the insertion
  order. Together they make equality of canonical texts the same as equality of JSON values.
\<close>

section \<open>Separators, numbers and strings\<close>

definition sep :: "string \<Rightarrow> bool" where
  "sep r \<longleftrightarrow> (\<forall>c cs. r = c # cs \<longrightarrow> c = CHR '','' \<or> c = CHR '']'' \<or> c = CHR ''}'')"

lemma sep_simps [simp]:
  "sep []" "sep (CHR '','' # r)" "sep (CHR '']'' # r)" "sep (CHR ''}'' # r)"
  by (simp_all add: sep_def)

definition number_char :: "char \<Rightarrow> bool" where
  "number_char c \<longleftrightarrow> is_digit c \<or> c = CHR ''+'' \<or> c = CHR ''-'' \<or> c = CHR ''.'' \<or> c = CHR ''e''"

lemma number_char_literals [simp]:
  "\<not> number_char (CHR '','')" "\<not> number_char (CHR '']'')" "\<not> number_char (CHR ''}'')"
  "\<not> number_char (CHR ''n'')" "\<not> number_char (CHR ''t'')" "\<not> number_char (CHR ''f'')"
  "\<not> number_char (CHR 0x22)" "\<not> number_char (CHR ''['')" "\<not> number_char (CHR ''{'')"
  by (simp_all add: number_char_def is_digit_def)

lemma int_text_chars: "c \<in> set (int_text i) \<Longrightarrow> is_digit c \<or> c = CHR ''-''"
  by (auto simp: int_text_def dest: nat_text_digits split: if_splits)

lemma int_text_not_Nil [simp]: "int_text i \<noteq> []"
  by (simp add: int_text_def)

lemma float_text_chars: "float_text t \<Longrightarrow> c \<in> set t \<Longrightarrow> number_char c"
  by (auto simp: float_text_def number_char_def is_digit_def)

lemma float_text_not_int: "float_text t \<Longrightarrow> t \<noteq> int_text i"
proof
  assume "float_text t" and "t = int_text i"
  then have "CHR ''.'' \<in> set (int_text i) \<or> CHR ''e'' \<in> set (int_text i)"
    by (simp add: float_text_def)
  then show False by (auto dest!: int_text_chars simp: is_digit_def)
qed

lemma number_prefix:
  assumes "\<forall>c \<in> set s. number_char c" and "\<forall>c \<in> set t. number_char c"
    and "sep r" and "sep r'" and "s @ r = t @ r'"
  shows "s = t \<and> r = r'"
proof -
  have stop: "takeWhile number_char (u @ q) = u" if "\<forall>c \<in> set u. number_char c" and "sep q" for u q
  proof -
    from that(2) have "takeWhile number_char q = []"
      by (cases q) (auto simp: sep_def)
    with that(1) show ?thesis by simp
  qed
  have "s = takeWhile number_char (s @ r)" by (rule stop [symmetric, OF assms(1,3)])
  also have "\<dots> = takeWhile number_char (t @ r')" using assms(5) by simp
  also have "\<dots> = t" by (rule stop [OF assms(2,4)])
  finally show ?thesis using assms(5) by simp
qed

text \<open>String escapes: no escape starts with the closing quote, and escapes are prefix-free.\<close>

lemma json_escape_hd: "\<exists>d ds. json_escape c = d # ds \<and> d \<noteq> CHR 0x22"
  by (auto simp: json_escape_def Let_def)

definition hex_val :: "char \<Rightarrow> nat" where
  "hex_val c = length (takeWhile (\<lambda>d. d \<noteq> c) hex_digits)"

lemma hex_val_digit: "i < 16 \<Longrightarrow> hex_val (hex_digits ! i) = i"
proof -
  assume "i < 16"
  then have "i < length hex_digits" and "distinct hex_digits" by (simp_all add: hex_digits_def)
  moreover from this have "\<forall>j < i. hex_digits ! j \<noteq> hex_digits ! i"
    by (simp add: nth_eq_iff_index_eq)
  ultimately show ?thesis
    unfolding hex_val_def by (subst takeWhile_eq_take_P_nth [of i]) auto
qed

text \<open>Reading one escape back: the code point and the rest of the text.\<close>

fun read_escape :: "string \<Rightarrow> nat \<times> string" where
  "read_escape (c # cs) =
     (if c \<noteq> CHR 0x5C then (of_char c, cs)
      else case cs of
        d # ds \<Rightarrow>
          if d = CHR ''u'' then
            (case ds of z # y # h # l # r \<Rightarrow> (16 * hex_val h + hex_val l, r) | _ \<Rightarrow> (0, []))
          else (if d = CHR ''b'' then 8 else if d = CHR ''f'' then 12 else if d = CHR ''n'' then 10
                else if d = CHR ''r'' then 13 else if d = CHR ''t'' then 9 else of_char d, ds)
      | [] \<Rightarrow> (0, []))"
| "read_escape [] = (0, [])"

lemma read_escape_escape: "read_escape (json_escape c @ xs) = (of_char c, xs)"
proof -
  let ?n = "of_char c :: nat"
  consider "?n \<in> {34, 92, 8, 12, 10, 13, 9}" | "?n \<notin> {34, 92, 8, 12, 10, 13, 9}" "?n < 32"
    | "?n \<notin> {34, 92}" "\<not> ?n < 32" by auto
  then show ?thesis
  proof cases
    case 1
    then show ?thesis by (auto simp: json_escape_def)
  next
    case 2
    then have "hex_val (hex_digits ! (?n div 16)) = ?n div 16"
      and "hex_val (hex_digits ! (?n mod 16)) = ?n mod 16" by (simp_all add: hex_val_digit)
    with 2 show ?thesis by (simp add: json_escape_def Let_def)
  next
    case 3
    then have "c \<noteq> CHR 0x5C" by auto
    with 3 show ?thesis by (simp add: json_escape_def Let_def)
  qed
qed

lemma json_escape_prefix:
  assumes "json_escape c @ xs = json_escape d @ ys"
  shows "c = d \<and> xs = ys"
proof -
  have "(of_char c :: nat, xs) = (of_char d, ys)"
    using assms by (metis read_escape_escape)
  then show ?thesis by simp
qed

lemma json_string_prefix:
  assumes "json_string s @ r = json_string t @ r'"
  shows "s = t \<and> r = r'"
proof -
  have "concat (map json_escape s) @ CHR 0x22 # r = concat (map json_escape t) @ CHR 0x22 # r'"
    using assms by (simp add: json_string_def)
  then show ?thesis
  proof (induction s arbitrary: t)
    case Nil
    then show ?case using json_escape_hd by (cases t) (auto, metis append_Cons list.inject)
  next
    case (Cons c s)
    obtain d t' where t: "t = d # t'"
      using Cons.prems json_escape_hd [of c] by (cases t) auto
    with Cons.prems have "json_escape c @ (concat (map json_escape s) @ CHR 0x22 # r)
        = json_escape d @ (concat (map json_escape t') @ CHR 0x22 # r')" by simp
    then have "c = d" and rest: "concat (map json_escape s) @ CHR 0x22 # r
        = concat (map json_escape t') @ CHR 0x22 # r'" using json_escape_prefix by blast+
    from Cons.IH [OF rest] \<open>c = d\<close> t show ?case by simp
  qed
qed

section \<open>The first character decides the kind of value\<close>

fun kind :: "pyval \<Rightarrow> nat" where
  "kind VNone = 0"
| "kind (VBool b) = (if b then 1 else 2)"
| "kind (VStr s) = 3"
| "kind (VList xs) = 4"
| "kind (VTuple xs) = 4"
| "kind (VDict kvs) = 5"
| "kind _ = 6"

definition lead :: "char \<Rightarrow> nat" where
  "lead c = (if c = CHR ''n'' then 0 else if c = CHR ''t'' then 1 else if c = CHR ''f'' then 2
     else if c = CHR 0x22 then 3 else if c = CHR ''['' then 4 else if c = CHR ''{'' then 5
     else if number_char c then 6 else 7)"

lemma lead_number: "number_char c \<Longrightarrow> lead c = 6"
  by (auto simp: lead_def)

lemma lead_close: "lead (CHR '']'') = 7" "lead (CHR ''}'') = 7"
  by (simp_all add: lead_def)

lemma text_of_lead: "encodable v \<Longrightarrow> \<exists>c cs. text_of v = c # cs \<and> lead c = kind v"
proof (cases v)
  case (VInt i)
  obtain c cs where cs: "int_text i = c # cs" by (cases "int_text i") auto
  then have "number_char c" using int_text_chars [of c i] by (auto simp: number_char_def)
  with VInt cs show ?thesis by (simp add: text_of_simps lead_number)
next
  case (VFloat f)
  moreover assume "encodable v"
  ultimately obtain t where f: "f = Finite t" "float_text t" by (cases f) auto
  then obtain c cs where "t = c # cs" by (auto simp: float_text_def)
  moreover from this have "number_char c" using f(2) float_text_chars [of t c] by simp
  ultimately show ?thesis using VFloat f by (simp add: text_of_simps lead_number)
qed (auto simp: text_of_simps lead_def json_string_def)

lemma same_kind:
  assumes "encodable a" and "encodable b" and "text_of a @ r = text_of b @ r'"
  shows "kind a = kind b"
  using text_of_lead [OF assms(1)] text_of_lead [OF assms(2)] assms(3) by auto

section \<open>Comma-separated items\<close>

lemma join_Cons: "join sp (t # ts) = t @ concat (map (\<lambda>u. sp @ u) ts)"
proof (induction ts arbitrary: t)
  case (Cons u ts)
  then show ?case by simp
qed simp

lemma more_items_prefix:
  assumes item: "\<And>x y r r'. x \<in> set xs \<Longrightarrow> y \<in> set ys \<Longrightarrow> sep r \<Longrightarrow> sep r' \<Longrightarrow>
      p x @ r = p y @ r' \<Longrightarrow> m x = m y \<and> r = r'"
    and cl: "cl = CHR '']'' \<or> cl = CHR ''}''"
    and eq: "concat (map (\<lambda>x. '','' @ p x) xs) @ cl # r = concat (map (\<lambda>x. '','' @ p x) ys) @ cl # r'"
  shows "map m xs = map m ys \<and> r = r'"
  using item eq
proof (induction xs arbitrary: ys)
  case Nil
  then show ?case using cl by (cases ys) auto
next
  case (Cons x xs)
  from Cons.prems(2) obtain y ys' where ys: "ys = y # ys'" using cl by (cases ys) auto
  let ?rest = "\<lambda>zs r. concat (map (\<lambda>x. '','' @ p x) zs) @ cl # r"
  have sep: "sep (?rest zs q)" for zs q using cl by (cases zs) auto
  from Cons.prems(2) ys have "p x @ ?rest xs r = p y @ ?rest ys' r'" by simp
  with Cons.prems(1) [of x y, OF _ _ sep sep] ys
  have head: "m x = m y" and tail: "?rest xs r = ?rest ys' r'" by auto
  have "map m xs = map m ys' \<and> r = r'"
    by (rule Cons.IH [OF Cons.prems(1) tail]) (simp_all add: ys)
  with head ys show ?case by simp
qed

lemma join_prefix:
  assumes item: "\<And>x y r r'. x \<in> set xs \<Longrightarrow> y \<in> set ys \<Longrightarrow> sep r \<Longrightarrow> sep r' \<Longrightarrow>
      p x @ r = p y @ r' \<Longrightarrow> m x = m y \<and> r = r'"
    and start: "\<And>x. x \<in> set xs \<union> set ys \<Longrightarrow> \<exists>c cs. p x = c # cs \<and> c \<noteq> cl"
    and cl: "cl = CHR '']'' \<or> cl = CHR ''}''"
    and eq: "join '','' (map p xs) @ cl # r = join '','' (map p ys) @ cl # r'"
  shows "map m xs = map m ys \<and> r = r'"
proof (cases xs)
  case Nil
  have "ys = []"
  proof (rule ccontr)
    assume "ys \<noteq> []"
    then obtain y ys' where ys: "ys = y # ys'" by (cases ys) auto
    with start [of y] obtain c cs where "p y = c # cs" "c \<noteq> cl" by auto
    with eq Nil ys show False by (simp add: join_Cons)
  qed
  with Nil eq show ?thesis by simp
next
  case (Cons x xs')
  with start [of x] obtain c cs where "p x = c # cs" "c \<noteq> cl" by auto
  with eq Cons obtain y ys' where ys: "ys = y # ys'" by (cases ys) (auto simp: join_Cons)
  let ?rest = "\<lambda>zs r. concat (map (\<lambda>x. '','' @ p x) zs) @ cl # r"
  have sep: "sep (?rest zs q)" for zs q using cl by (cases zs) auto
  from eq Cons ys have "p x @ ?rest xs' r = p y @ ?rest ys' r'"
    by (simp add: join_Cons o_def)
  with item [of x y, OF _ _ sep sep] Cons ys
  have head: "m x = m y" and tail: "?rest xs' r = ?rest ys' r'" by auto
  have "map m xs' = map m ys' \<and> r = r'"
    by (rule more_items_prefix [OF item cl tail]) (simp_all add: Cons ys)
  with head Cons ys show ?thesis by simp
qed

section \<open>Sorting by key\<close>

lemma insort_key_map: "insort_key f (g x) (map g xs) = map g (insort_key (\<lambda>y. f (g y)) x xs)"
  by (induction xs) simp_all

lemma sort_key_map: "sort_key f (map g xs) = map g (sort_key (\<lambda>y. f (g y)) xs)"
  by (induction xs) (simp_all add: insort_key_map)

lemma sort_key_set_eq:
  assumes "distinct (map f xs)" and "distinct (map f ys)" and "set xs = set ys"
  shows "sort_key f xs = sort_key f ys"
proof (rule map_sorted_distinct_set_unique [of f])
  show "inj_on f (set (sort_key f xs) \<union> set (sort_key f ys))"
    using assms by (simp add: distinct_map)
  show "distinct (map f (sort_key f xs))" and "distinct (map f (sort_key f ys))"
    using assms by (simp_all add: distinct_map)
qed (simp_all add: assms(3))

abbreviation item_meaning :: "pyval \<times> pyval \<Rightarrow> string \<times> json" where
  "item_meaning kv \<equiv> (key_text (fst kv), meaning (snd kv))"

abbreviation item_key :: "pyval \<times> pyval \<Rightarrow> string" where
  "item_key kv \<equiv> key_text (fst kv)"

lemma distinct_item_keys:
  assumes "encodable (VDict kvs)"
  shows "distinct (map item_key kvs)"
proof -
  from assms have keys: "\<forall>k \<in> set (map fst kvs). \<exists>s. k = VStr s" and "distinct (map fst kvs)"
    by (auto simp: encodable_item_def)
  moreover have "inj_on key_text (set (map fst kvs))"
    using keys by (auto simp: inj_on_def key_text_def split: pyval.splits)
  ultimately have "distinct (map key_text (map fst kvs))"
    by (simp only: distinct_map [of key_text])
  then show ?thesis by (simp add: o_def)
qed

lemma text_of_dict:
  assumes "encodable (VDict kvs)"
  shows "text_of (VDict kvs) = ''{'' @ join '','' (map member_text (sort_key item_key kvs)) @ ''}''"
proof -
  have "map json_member (sort_key fst (map item_text kvs)) = map member_text (sort_key item_key kvs)"
    by (simp add: sort_key_map o_def item_text_def member_text_def [abs_def])
  with assms show ?thesis by (simp add: text_of_simps)
qed

section \<open>Equal texts denote equal values\<close>

lemma member_prefix:
  assumes "member_text x @ r = member_text y @ r'"
  shows "item_key x = item_key y \<and> text_of (snd x) @ r = text_of (snd y) @ r'"
proof -
  have "json_string (item_key x) @ ('':'' @ text_of (snd x) @ r)
      = json_string (item_key y) @ ('':'' @ text_of (snd y) @ r')"
    using assms by (simp add: member_text_def json_member_def item_text_def)
  from json_string_prefix [OF this] show ?thesis by simp
qed

lemma sorted_items_meaning:
  assumes "encodable (VDict kvs)" and "encodable (VDict kvs')"
    and "map item_meaning (sort_key item_key kvs) = map item_meaning (sort_key item_key kvs')"
  shows "meaning (VDict kvs) = meaning (VDict kvs')"
proof -
  have sorted: "map_of (map item_meaning (sort_key item_key ks)) = map_of (map item_meaning ks)"
    if "encodable (VDict ks)" for ks
  proof -
    have "distinct (map fst (map item_meaning ks))"
      using distinct_item_keys [OF that] by (simp add: o_def)
    moreover have "distinct (map fst (map item_meaning (sort_key item_key ks)))"
      using distinct_item_keys [OF that] by (simp add: o_def distinct_map)
    ultimately show ?thesis by (subst map_of_inject_set) simp_all
  qed
  have "map_of (map item_meaning kvs) = map_of (map item_meaning kvs')"
    by (simp only: sorted [OF assms(1), symmetric] sorted [OF assms(2), symmetric] assms(3))
  then show ?thesis by (simp add: fmap_of_list.abs_eq)
qed

lemma kind_bound: "kind v \<le> 6"
  by (cases v) simp_all

lemma text_of_start:
  assumes "encodable v"
  shows "\<exists>c cs. text_of v = c # cs \<and> c \<noteq> CHR '']''"
proof -
  from text_of_lead [OF assms] obtain c cs where "text_of v = c # cs" and "lead c = kind v" by blast
  moreover from this kind_bound [of v] lead_close(1) have "c \<noteq> CHR '']''" by auto
  ultimately show ?thesis by blast
qed

lemma member_text_start: "\<exists>c cs. member_text kv = c # cs \<and> c \<noteq> CHR ''}''"
  by (simp add: member_text_def json_member_def json_string_def)

definition unambiguous :: "pyval \<Rightarrow> bool" where
  "unambiguous a \<longleftrightarrow> (\<forall>b r r'. encodable b \<longrightarrow> sep r \<longrightarrow> sep r' \<longrightarrow>
     text_of a @ r = text_of b @ r' \<longrightarrow> meaning a = meaning b \<and> r = r')"

lemma unambiguousD:
  "unambiguous a \<Longrightarrow> encodable b \<Longrightarrow> sep r \<Longrightarrow> sep r' \<Longrightarrow> text_of a @ r = text_of b @ r' \<Longrightarrow>
     meaning a = meaning b \<and> r = r'"
  by (simp add: unambiguous_def)

text \<open>
  An array, whichever of the two Python sequences it came from; \<open>a\<close> and \<open>b\<close> are the whole
  values, \<open>xs\<close> and \<open>ys\<close> their elements.
\<close>

lemma array_prefix:
  assumes "\<forall>x \<in> set xs. unambiguous x \<and> encodable x" and "\<forall>y \<in> set ys. encodable y"
    and "join '','' (map text_of xs) @ CHR '']'' # r = join '','' (map text_of ys) @ CHR '']'' # r'"
  shows "map meaning xs = map meaning ys \<and> r = r'"
proof (rule join_prefix [OF _ _ _ assms(3)])
  show "meaning x = meaning y \<and> q = q'" if "x \<in> set xs" "y \<in> set ys" "sep q" "sep q'"
    "text_of x @ q = text_of y @ q'" for x y q q'
    using that assms(1,2) unambiguousD [of x y q q'] by simp
  show "\<exists>c cs. text_of x = c # cs \<and> c \<noteq> CHR '']''" if "x \<in> set xs \<union> set ys" for x
    using that assms(1,2) text_of_start [of x] by blast
qed simp

lemma object_prefix:
  assumes "\<forall>kv \<in> set kvs. unambiguous (snd kv)" and "\<forall>kv \<in> set kvs'. encodable (snd kv)"
    and "join '','' (map member_text kvs) @ CHR ''}'' # r = join '','' (map member_text kvs') @ CHR ''}'' # r'"
  shows "map item_meaning kvs = map item_meaning kvs' \<and> r = r'"
proof (rule join_prefix [OF _ _ _ assms(3)])
  show "item_meaning x = item_meaning y \<and> q = q'" if "x \<in> set kvs" "y \<in> set kvs'" "sep q" "sep q'"
    "member_text x @ q = member_text y @ q'" for x y q q'
    using that assms(1,2) member_prefix [OF that(5)] unambiguousD [of "snd x" "snd y" q q'] by simp
qed (use member_text_start in auto)

lemma array_unambiguous:
  assumes elems: "\<forall>x \<in> set xs. unambiguous x \<and> encodable x" and a: "a = VList xs \<or> a = VTuple xs"
  shows "unambiguous a"
  unfolding unambiguous_def
proof (intro allI impI)
  fix b r r'
  assume b: "encodable b" and "sep r" "sep r'" and eq: "text_of a @ r = text_of b @ r'"
  have "encodable a" using elems a by auto
  from same_kind [OF this b eq] a b
  obtain ys where ys: "b = VList ys \<or> b = VTuple ys" by (cases b) (auto split: if_splits)
  with b have enc: "\<forall>y \<in> set ys. encodable y" by auto
  from eq a ys b \<open>encodable a\<close>
  have "join '','' (map text_of xs) @ CHR '']'' # r = join '','' (map text_of ys) @ CHR '']'' # r'"
    by (auto simp: text_of_simps)
  from array_prefix [OF elems enc this] a ys show "meaning a = meaning b \<and> r = r'" by auto
qed

lemma object_unambiguous:
  assumes elems: "\<forall>kv \<in> set kvs. unambiguous (snd kv)" and a: "encodable (VDict kvs)"
  shows "unambiguous (VDict kvs)"
  unfolding unambiguous_def
proof (intro allI impI)
  fix b r r'
  assume b: "encodable b" and "sep r" "sep r'" and eq: "text_of (VDict kvs) @ r = text_of b @ r'"
  from same_kind [OF a b eq] b obtain kvs' where kvs': "b = VDict kvs'"
    by (cases b) (auto split: if_splits)
  let ?xs = "sort_key item_key kvs" and ?ys = "sort_key item_key kvs'"
  from eq a b kvs' have same: "join '','' (map member_text ?xs) @ CHR ''}'' # r
      = join '','' (map member_text ?ys) @ CHR ''}'' # r'"
    by (simp add: text_of_dict del: encodable_simps)
  have "\<forall>kv \<in> set ?ys. encodable (snd kv)" using b kvs' by (auto simp: encodable_item_def)
  moreover have "\<forall>kv \<in> set ?xs. unambiguous (snd kv)" using elems by simp
  ultimately have "map item_meaning ?xs = map item_meaning ?ys \<and> r = r'"
    by (rule object_prefix [OF _ _ same, rotated])
  with sorted_items_meaning [OF a] b kvs' show "meaning (VDict kvs) = meaning b \<and> r = r'" by blast
qed

lemma encodable_float: "encodable (VFloat f) \<longleftrightarrow> (\<exists>t. f = Finite t \<and> float_text t)"
  by (cases f) simp_all

lemma number_unambiguous:
  assumes "(a = VInt i \<and> t = int_text i) \<or> (a = VFloat (Finite t) \<and> float_text t)"
  shows "unambiguous a"
  unfolding unambiguous_def
proof (intro allI impI)
  fix b r r'
  assume b: "encodable b" and seps: "sep r" "sep r'" and eq: "text_of a @ r = text_of b @ r'"
  have a: "encodable a" "text_of a = t" "kind a = 6" using assms by (auto simp: text_of_simps)
  from same_kind [OF a(1) b eq] a(3) b
  obtain u where u: "text_of b = u" "(\<exists>j. b = VInt j \<and> u = int_text j) \<or> (b = VFloat (Finite u) \<and> float_text u)"
    by (cases b) (auto simp: text_of_simps encodable_float split: if_splits)
  have "\<forall>c \<in> set t. number_char c" and "\<forall>c \<in> set u. number_char c"
    using assms u(2) int_text_chars float_text_chars by (auto simp: number_char_def)+
  with eq a(2) u(1) seps have "t = u" "r = r'" using number_prefix by blast+
  with assms u(2) float_text_not_int show "meaning a = meaning b \<and> r = r'" by auto
qed

lemma encodable_unambiguous: "encodable a \<Longrightarrow> unambiguous a"
proof (induction a)
  case (VStr s)
  show ?case unfolding unambiguous_def
  proof (intro allI impI)
    fix b r r'
    assume b: "encodable b" and eq: "text_of (VStr s) @ r = text_of b @ r'"
    from same_kind [OF VStr b eq] b obtain t where "b = VStr t" by (cases b) (auto split: if_splits)
    with eq show "meaning (VStr s) = meaning b \<and> r = r'"
      using json_string_prefix [of s r t r'] by (simp add: text_of_simps)
  qed
next
  case (VFloat f)
  then obtain t where "f = Finite t" "float_text t" by (cases f) auto
  then show ?case using number_unambiguous by blast
next
  case (VDict kvs)
  have "unambiguous (snd kv)" if "kv \<in> set kvs" for kv
    using VDict.IH(2) [OF that, of "snd kv"] VDict.prems that
    by (cases kv) (auto simp: encodable_item_def)
  then show ?case using object_unambiguous VDict.prems by blast
next
  case VNone
  show ?case unfolding unambiguous_def
  proof (intro allI impI)
    fix b r r'
    assume b: "encodable b" and eq: "text_of VNone @ r = text_of b @ r'"
    from same_kind [OF VNone b eq] b have "b = VNone" by (cases b) (auto split: if_splits)
    with eq show "meaning VNone = meaning b \<and> r = r'" by simp
  qed
next
  case (VBool x)
  show ?case unfolding unambiguous_def
  proof (intro allI impI)
    fix b r r'
    assume b: "encodable b" and eq: "text_of (VBool x) @ r = text_of b @ r'"
    from same_kind [OF VBool b eq] b have "b = VBool x" by (cases b) (auto split: if_splits)
    with eq show "meaning (VBool x) = meaning b \<and> r = r'" by simp
  qed
qed (auto intro: number_unambiguous array_unambiguous)

section \<open>Equal values have equal texts\<close>

lemma map_eq_transfer:
  assumes "map m xs = map m ys" and "\<And>x y. x \<in> set xs \<Longrightarrow> y \<in> set ys \<Longrightarrow> m x = m y \<Longrightarrow> t x = t y"
  shows "map t xs = map t ys"
  using assms
proof (induction xs arbitrary: ys)
  case (Cons x xs)
  then show ?case by (cases ys) auto
qed simp

lemma image_subset_transfer:
  fixes m :: "'a \<Rightarrow> 'b" and t :: "'a \<Rightarrow> 'c"
  assumes "m ` X \<subseteq> m ` Y"
    and "\<And>x y. x \<in> X \<Longrightarrow> y \<in> Y \<Longrightarrow> m x = m y \<Longrightarrow> t x = t y"
  shows "t ` X \<subseteq> t ` Y"
proof
  fix z assume "z \<in> t ` X"
  then obtain x where x: "x \<in> X" "z = t x" by blast
  with assms(1) have "m x \<in> m ` Y" by blast
  then obtain y where "y \<in> Y" "m x = m y" by blast
  with x assms(2) show "z \<in> t ` Y" by blast
qed

lemma image_eq_transfer:
  fixes m :: "'a \<Rightarrow> 'b" and t :: "'a \<Rightarrow> 'c"
  assumes "m ` X = m ` Y"
    and "\<And>x y. x \<in> X \<Longrightarrow> y \<in> Y \<Longrightarrow> m x = m y \<Longrightarrow> t x = t y"
  shows "t ` X = t ` Y"
proof
  show "t ` X \<subseteq> t ` Y"
    by (rule image_subset_transfer [of m]) (use assms in auto)
  show "t ` Y \<subseteq> t ` X"
  proof (rule image_subset_transfer [of m])
    show "m ` Y \<subseteq> m ` X" using assms(1) by simp
    show "t y = t x" if "y \<in> Y" "x \<in> X" "m y = m x" for y x
      using assms(2) [OF that(2,1) that(3) [symmetric]] by (rule sym)
  qed
qed

lemma object_text:
  assumes a: "encodable (VDict kvs)" and b: "encodable (VDict kvs')"
    and eq: "meaning (VDict kvs) = meaning (VDict kvs')"
    and elems: "\<And>x y. x \<in> set kvs \<Longrightarrow> y \<in> set kvs' \<Longrightarrow> meaning (snd x) = meaning (snd y) \<Longrightarrow>
      text_of (snd x) = text_of (snd y)"
  shows "text_of (VDict kvs) = text_of (VDict kvs')"
proof -
  have keys: "distinct (map fst (map item_meaning ks))" "distinct (map fst (map item_text ks))"
    if "encodable (VDict ks)" for ks
    using distinct_item_keys [OF that] by (simp_all add: o_def item_text_def)
  from eq have "fmap_of_list (map item_meaning kvs) = fmap_of_list (map item_meaning kvs')"
    by simp
  then have "fmlookup (fmap_of_list (map item_meaning kvs)) = fmlookup (fmap_of_list (map item_meaning kvs'))"
    by (rule arg_cong)
  then have "map_of (map item_meaning kvs) = map_of (map item_meaning kvs')"
    by (simp only: fmap_of_list.rep_eq)
  then have "item_meaning ` set kvs = item_meaning ` set kvs'"
    using keys(1) [OF a] keys(1) [OF b] by (simp add: map_of_inject_set)
  then have "item_text ` set kvs = item_text ` set kvs'"
    by (rule image_eq_transfer) (use elems in \<open>auto simp: item_text_def\<close>)
  then have "sort_key fst (map item_text kvs) = sort_key fst (map item_text kvs')"
    using keys(2) [OF a] keys(2) [OF b] by (intro sort_key_set_eq) simp_all
  with a b show ?thesis by (simp add: text_of_simps del: encodable_simps)
qed

text \<open>The Python values of each kind, by what they mean.\<close>

lemma meaning_JArray:
  assumes "encodable b" and "meaning b = JArray js"
  obtains ys where "b = VList ys \<or> b = VTuple ys" "js = map meaning ys"
  using assms by (cases b rule: meaning.cases) auto

lemma meaning_JObject:
  assumes "encodable b" and "meaning b = JObject m"
  obtains kvs where "b = VDict kvs"
  using assms by (cases b rule: meaning.cases) auto

lemma meaning_atom:
  assumes "encodable b"
  shows "meaning b = JNull \<Longrightarrow> b = VNone" "meaning b = JBool x \<Longrightarrow> b = VBool x"
    "meaning b = JInt i \<Longrightarrow> b = VInt i" "meaning b = JFloat t \<Longrightarrow> b = VFloat (Finite t)"
    "meaning b = JStr s \<Longrightarrow> b = VStr s"
  using assms by (cases b rule: meaning.cases; simp)+

lemma array_text:
  assumes a: "\<forall>x \<in> set xs. encodable x" and b: "encodable b"
    and eq: "meaning b = JArray (map meaning xs)"
    and elems: "\<And>x y. x \<in> set xs \<Longrightarrow> encodable y \<Longrightarrow> meaning x = meaning y \<Longrightarrow> text_of x = text_of y"
  shows "text_of b = ''['' @ join '','' (map text_of xs) @ '']''"
proof -
  from b eq obtain ys where ys: "b = VList ys \<or> b = VTuple ys" and "map meaning xs = map meaning ys"
    by (rule meaning_JArray)
  with b have enc: "\<forall>y \<in> set ys. encodable y" by auto
  have "map text_of xs = map text_of ys"
    by (rule map_eq_transfer [of meaning]) (use elems enc \<open>map meaning xs = map meaning ys\<close> in auto)
  with ys enc show ?thesis by (auto simp: text_of_simps)
qed

lemma meaning_text: "encodable a \<Longrightarrow> encodable b \<Longrightarrow> meaning a = meaning b \<Longrightarrow> text_of a = text_of b"
proof (induction a arbitrary: b)
  case (VList xs)
  have xs: "\<forall>x \<in> set xs. encodable x" using VList.prems(1) by simp
  have "text_of b = ''['' @ join '','' (map text_of xs) @ '']''"
    by (rule array_text [OF xs VList.prems(2)]) (use VList xs in auto)
  with VList.prems(1) show ?case by (simp add: text_of_simps del: encodable_simps)
next
  case (VTuple xs)
  have xs: "\<forall>x \<in> set xs. encodable x" using VTuple.prems(1) by simp
  have "text_of b = ''['' @ join '','' (map text_of xs) @ '']''"
    by (rule array_text [OF xs VTuple.prems(2)]) (use VTuple xs in auto)
  with VTuple.prems(1) show ?case by (simp add: text_of_simps del: encodable_simps)
next
  case (VDict kvs)
  from VDict.prems(3) have "meaning b = JObject (fmap_of_list (meaning_items kvs))" by simp
  with VDict.prems(2) obtain kvs' where kvs': "b = VDict kvs'" by (rule meaning_JObject)
  have enc: "encodable (snd x)" if "x \<in> set kvs" for x
    using VDict.prems(1) that by (auto simp: encodable_item_def)
  have enc': "encodable (snd y)" if "y \<in> set kvs'" for y
    using VDict.prems(2) kvs' that by (auto simp: encodable_item_def)
  have "text_of (snd x) = text_of (snd y)"
    if "x \<in> set kvs" "y \<in> set kvs'" "meaning (snd x) = meaning (snd y)" for x y
    using VDict.IH(2) [OF that(1), of "snd x" "snd y"] enc [OF that(1)] enc' [OF that(2)] that(3)
    by (cases x) simp
  with VDict.prems kvs' show ?case using object_text by blast
next
  case (VFloat f)
  then obtain t where "f = Finite t" by (cases f) auto
  with VFloat show ?case by (metis meaning.simps(3) meaning_atom(4))
qed (use meaning_atom in \<open>fastforce+\<close>)

section \<open>Canonical text is a complete invariant\<close>

lemma text_of_eq_iff:
  assumes "encodable a" and "encodable b"
  shows "text_of a = text_of b \<longleftrightarrow> meaning a = meaning b"
  using assms encodable_unambiguous [OF assms(1)] meaning_text [OF assms]
  unfolding unambiguous_def by (metis append_Nil2 sep_simps(1))

lemma canonical_json_encodes:
  "wf_val v \<Longrightarrow> canonical_json v = Inr t \<longleftrightarrow> encodable v \<and> t = text_of v"
  using canonical_json_Inr [of v] canonical_json_encodable [of v]
  by (auto simp: encodable_def)

end
