(* ===== verification/Json_Parse.thy ===== *)
theory Json_Parse
  imports Canonical_Text
begin

text \<open>
  \<open>json.loads\<close>, which the durable stores apply to the texts \<open>canonical_json\<close> wrote. The parser follows
  the decoder of the standard library: objects, arrays, strings with escapes, the constants and
  numbers, white space between tokens; a later duplicate key overrides an earlier one. A number is the
  longest run of number characters (on canonical texts the same as the decoder's regular expression),
  and a code point beyond 255, which no stored text holds, is refused. \<open>None\<close> is \<open>JSONDecodeError\<close>.

  \<open>restored v\<close> is the value that comes back: tuples are lists and dictionaries are sorted by key. It
  denotes the same JSON value; \<open>json_loads_text\<close> shows that nothing else changes. The parser's fuel is
  twice the length of the text: a call either consumes a character or hands the same text to one
  inner call.
\<close>

section \<open>The parser\<close>

definition json_space :: "char \<Rightarrow> bool" where
  "json_space c \<longleftrightarrow> c \<in> {CHR 0x20, CHR 0x09, CHR 0x0A, CHR 0x0D}"

definition skip_ws :: "string \<Rightarrow> string" where
  "skip_ws = dropWhile json_space"

definition simple_escape :: "char \<Rightarrow> char option" where
  "simple_escape d =
     (if d \<in> {CHR 0x22, CHR 0x5C, CHR ''/''} then Some d
      else if d = CHR ''b'' then Some (CHR 0x08) else if d = CHR ''f'' then Some (CHR 0x0C)
      else if d = CHR ''n'' then Some (CHR 0x0A) else if d = CHR ''r'' then Some (CHR 0x0D)
      else if d = CHR ''t'' then Some (CHR 0x09) else None)"

definition hex_code :: "string \<Rightarrow> nat option" where
  "hex_code hs = (if list_all (\<lambda>h. h \<in> set hex_digits) hs
     then Some (foldl (\<lambda>n h. 16 * n + hex_val h) 0 hs) else None)"

fun parse_chars :: "string \<Rightarrow> (string \<times> string) option" where
  "parse_chars [] = None"
| "parse_chars (c # cs) =
     (if c = CHR 0x22 then Some ([], cs)
      else if c = CHR 0x5C then
        (case cs of
           [] \<Rightarrow> None
         | d # ds \<Rightarrow>
             if d = CHR ''u'' then
               (case ds of
                  h1 # h2 # h3 # h4 # es \<Rightarrow>
                    (case (hex_code [h1, h2, h3, h4], parse_chars es) of
                       (Some n, Some (s, r)) \<Rightarrow> if n < 256 then Some (char_of n # s, r) else None
                     | _ \<Rightarrow> None)
                | _ \<Rightarrow> None)
             else
               (case (simple_escape d, parse_chars ds) of
                  (Some x, Some (s, r)) \<Rightarrow> Some (x # s, r) | _ \<Rightarrow> None))
      else if (of_char c :: nat) < 32 then None
      else (case parse_chars cs of Some (s, r) \<Rightarrow> Some (c # s, r) | None \<Rightarrow> None))"

definition parse_number :: "string \<Rightarrow> (pyval \<times> string) option" where
  "parse_number cs =
     (let t = takeWhile number_char cs; rest = dropWhile number_char cs;
          ds = (if t \<noteq> [] \<and> hd t = CHR ''-'' then tl t else t)
      in if ds \<noteq> [] \<and> list_all is_digit ds
         then Some (VInt (if hd t = CHR ''-'' then - int (digits_val ds) else int (digits_val ds)), rest)
         else if CHR ''.'' \<in> set t \<or> CHR ''e'' \<in> set t then Some (VFloat (Finite t), rest)
         else None)"

definition parse_const :: "string \<Rightarrow> (pyval \<times> string) option" where
  "parse_const cs =
     (if take 4 cs = ''null'' then Some (VNone, drop 4 cs)
      else if take 4 cs = ''true'' then Some (VBool True, drop 4 cs)
      else if take 5 cs = ''false'' then Some (VBool False, drop 5 cs)
      else if take 3 cs = ''NaN'' then Some (VFloat NaN, drop 3 cs)
      else if take 8 cs = ''Infinity'' then Some (VFloat Infinity, drop 8 cs)
      else if take 9 cs = ''-Infinity'' then Some (VFloat NegInfinity, drop 9 cs)
      else None)"

definition dict_of :: "(string \<times> pyval) list \<Rightarrow> json_object" where
  "dict_of kvs = foldl (\<lambda>d (k, v). AList.update (VStr k) v d) [] kvs"

fun parse_value :: "nat \<Rightarrow> string \<Rightarrow> (pyval \<times> string) option" and
  parse_elems :: "nat \<Rightarrow> string \<Rightarrow> (pyval list \<times> string) option" and
  parse_members :: "nat \<Rightarrow> string \<Rightarrow> ((string \<times> pyval) list \<times> string) option"
where
  "parse_value 0 cs = None"
| "parse_value (Suc n) cs =
     (if cs = [] then None
      else if hd cs = CHR 0x22 then map_option (\<lambda>(s, r). (VStr s, r)) (parse_chars (tl cs))
      else if hd cs = CHR ''{'' then
        (let ds = skip_ws (tl cs)
         in if ds \<noteq> [] \<and> hd ds = CHR ''}'' then Some (VDict [], tl ds)
            else map_option (\<lambda>(kvs, r). (VDict (dict_of kvs), r)) (parse_members n ds))
      else if hd cs = CHR ''['' then
        (let ds = skip_ws (tl cs)
         in if ds \<noteq> [] \<and> hd ds = CHR '']'' then Some (VList [], tl ds)
            else map_option (\<lambda>(vs, r). (VList vs, r)) (parse_elems n ds))
      else (case parse_const cs of Some x \<Rightarrow> Some x | None \<Rightarrow> parse_number cs))"
| "parse_elems 0 cs = None"
| "parse_elems (Suc n) cs =
     (case parse_value n cs of
        None \<Rightarrow> None
      | Some (v, r) \<Rightarrow>
          let q = skip_ws r
          in if q = [] then None
             else if hd q = CHR '','' then map_option (\<lambda>(vs, z). (v # vs, z)) (parse_elems n (skip_ws (tl q)))
             else if hd q = CHR '']'' then Some ([v], tl q)
             else None)"
| "parse_members 0 cs = None"
| "parse_members (Suc n) cs =
     (if cs = [] \<or> hd cs \<noteq> CHR 0x22 then None
      else case parse_chars (tl cs) of
        None \<Rightarrow> None
      | Some (k, r) \<Rightarrow>
          let q = skip_ws r
          in if q = [] \<or> hd q \<noteq> CHR '':'' then None
             else case parse_value n (skip_ws (tl q)) of
               None \<Rightarrow> None
             | Some (v, p) \<Rightarrow>
                 let z = skip_ws p
                 in if z = [] then None
                    else if hd z = CHR '','' then
                      map_option (\<lambda>(kvs, y). ((k, v) # kvs, y)) (parse_members n (skip_ws (tl z)))
                    else if hd z = CHR ''}'' then Some ([(k, v)], tl z)
                    else None)"

definition json_loads :: "string \<Rightarrow> error + pyval" where
  "json_loads t = (case parse_value (2 * length t + 1) (skip_ws t) of
     Some (v, r) \<Rightarrow> if skip_ws r = [] then Inr v else Inl (PyError ''JSONDecodeError'')
   | None \<Rightarrow> Inl (PyError ''JSONDecodeError''))"

section \<open>What comes back\<close>

fun restored :: "pyval \<Rightarrow> pyval" and
  restored_seq :: "pyval list \<Rightarrow> pyval list" and
  restored_items :: "(pyval \<times> pyval) list \<Rightarrow> (pyval \<times> pyval) list"
where
  "restored (VList xs) = VList (restored_seq xs)"
| "restored (VTuple xs) = VList (restored_seq xs)"
| "restored (VDict kvs) = VDict (sort_key item_key (restored_items kvs))"
| "restored (VSequence c xs) = VSequence c xs"
| "restored (VMapping c kvs) = VMapping c kvs"
| "restored VNone = VNone"
| "restored (VBool b) = VBool b"
| "restored (VInt i) = VInt i"
| "restored (VFloat f) = VFloat f"
| "restored (VStr s) = VStr s"
| "restored (VBytes bs) = VBytes bs"
| "restored (VObject c) = VObject c"
| "restored_seq [] = []"
| "restored_seq (x # xs) = restored x # restored_seq xs"
| "restored_items [] = []"
| "restored_items ((k, v) # kvs) = (k, restored v) # restored_items kvs"

lemma restored_seq_map [simp]: "restored_seq xs = map restored xs"
  by (induction xs) simp_all

lemma restored_items_map [simp]: "restored_items kvs = map (\<lambda>kv. (fst kv, restored (snd kv))) kvs"
  by (induction kvs) auto

section \<open>Tokens\<close>

lemma skip_ws_stays [simp]: "\<not> json_space c \<Longrightarrow> skip_ws (c # cs) = c # cs"
  by (simp add: skip_ws_def)

lemma not_space [simp]:
  "\<not> json_space (CHR 0x22)" "\<not> json_space (CHR '','')" "\<not> json_space (CHR '']'')" "\<not> json_space (CHR ''}'')"
  "\<not> json_space (CHR '':'')" "\<not> json_space (CHR ''['')" "\<not> json_space (CHR ''{'')"
  by (simp_all add: json_space_def)

lemma hex_code_escape:
  assumes "i < 16" and "j < 16"
  shows "hex_code [CHR ''0'', CHR ''0'', hex_digits ! i, hex_digits ! j] = Some (16 * i + j)"
proof -
  have "hex_digits ! 0 = CHR ''0''" "length hex_digits = 16" by (simp_all add: hex_digits_def)
  then have "hex_val (CHR ''0'') = 0" "CHR ''0'' \<in> set hex_digits" "hex_digits ! i \<in> set hex_digits"
    "hex_digits ! j \<in> set hex_digits" using hex_val_digit [of 0] assms by (metis nth_mem zero_less_numeral)+
  with assms show ?thesis by (simp add: hex_code_def hex_val_digit)
qed

lemma parse_chars_escape:
  assumes "parse_chars xs = Some (s, r)"
  shows "parse_chars (json_escape c @ xs) = Some (c # s, r)"
proof -
  let ?n = "of_char c :: nat"
  consider "?n \<in> {34, 92, 8, 12, 10, 13, 9}" | "?n \<notin> {34, 92, 8, 12, 10, 13, 9}" "?n < 32"
    | "?n \<notin> {34, 92}" "\<not> ?n < 32" by auto
  then show ?thesis
  proof cases
    case 1
    then have "c \<in> {CHR 0x22, CHR 0x5C, CHR 0x08, CHR 0x0C, CHR 0x0A, CHR 0x0D, CHR 0x09}"
      by (auto simp: of_char_eq_iff [where ?'a = nat, symmetric] simp del: of_char_eq_iff)
    with assms show ?thesis by (auto simp: json_escape_def simple_escape_def)
  next
    case 2
    then have "hex_code [CHR ''0'', CHR ''0'', hex_digits ! (?n div 16), hex_digits ! (?n mod 16)] = Some ?n"
      by (subst hex_code_escape) simp_all
    with 2 assms show ?thesis by (simp add: json_escape_def Let_def)
  next
    case 3
    then have "c \<noteq> CHR 0x5C" "c \<noteq> CHR 0x22" by auto
    with 3 assms show ?thesis by (auto simp: json_escape_def Let_def)
  qed
qed

lemma parse_chars_string: "parse_chars (concat (map json_escape s) @ CHR 0x22 # r) = Some (s, r)"
proof (induction s)
  case (Cons c s)
  from parse_chars_escape [OF this, of c] show ?case by simp
qed simp

lemma number_token:
  assumes "\<forall>c \<in> set t. number_char c" and "sep r"
  shows "takeWhile number_char (t @ r) = t" "dropWhile number_char (t @ r) = r"
proof -
  have "r = [] \<or> (\<exists>c cs. r = c # cs \<and> \<not> number_char c)" using assms(2) by (cases r) (auto simp: sep_def)
  with assms(1) show "takeWhile number_char (t @ r) = t" "dropWhile number_char (t @ r) = r"
    by (auto simp: takeWhile_append dropWhile_append)
qed

lemma parse_number_int: "sep r \<Longrightarrow> parse_number (int_text i @ r) = Some (VInt i, r)"
proof -
  assume r: "sep r"
  have "\<forall>c \<in> set (int_text i). number_char c" by (auto simp: number_char_def dest: int_text_chars)
  note token = number_token [OF this r]
  have digits: "list_all is_digit (nat_text n)" for n by (simp add: list_all_iff nat_text_digits)
  have "hd (nat_text n) \<noteq> CHR ''-''" for n by (metis hd_in_set minus_notin_nat_text nat_text_not_Nil)
  then show ?thesis
    by (simp add: parse_number_def Let_def token) (simp add: int_text_def digits)
qed

lemma parse_number_float:
  assumes "float_text t" and "sep r"
  shows "parse_number (t @ r) = Some (VFloat (Finite t), r)"
proof -
  have "\<forall>c \<in> set t. number_char c" using float_text_chars [OF assms(1)] by blast
  note token = number_token [OF this assms(2)]
  have dot: "CHR ''.'' \<in> set t \<or> CHR ''e'' \<in> set t" using assms(1) by (simp add: float_text_def)
  have "\<not> list_all is_digit (if t \<noteq> [] \<and> hd t = CHR ''-'' then tl t else t)"
  proof
    assume all: "list_all is_digit (if t \<noteq> [] \<and> hd t = CHR ''-'' then tl t else t)"
    have "c = CHR ''-'' \<or> is_digit c" if "c \<in> set t" for c
      using all that by (cases t) (auto simp: list_all_iff split: if_splits)
    from this [of "CHR ''.''"] this [of "CHR ''e''"] dot show False by (auto simp: is_digit_def)
  qed
  with dot show ?thesis by (simp add: parse_number_def Let_def token)
qed

lemma parse_const_number:
  assumes "number_char c" and "take 9 (c # cs) \<noteq> ''-Infinity''"
  shows "parse_const (c # cs) = None"
proof -
  have "c \<noteq> CHR ''n''" "c \<noteq> CHR ''t''" "c \<noteq> CHR ''f''" "c \<noteq> CHR ''N''" "c \<noteq> CHR ''I''"
    using assms(1) by (auto simp: number_char_def is_digit_def)
  then show ?thesis using assms(2) by (simp add: parse_const_def)
qed

section \<open>Values\<close>

text \<open>One call of the parser on the text of a value, whatever follows it.\<close>

definition reads :: "pyval \<Rightarrow> bool" where
  "reads v \<longleftrightarrow> (\<forall>n r. sep r \<longrightarrow> 2 * length (text_of v @ r) < n
     \<longrightarrow> parse_value n (text_of v @ r) = Some (restored v, r))"

lemma readsD:
  "reads v \<Longrightarrow> sep r \<Longrightarrow> 2 * length (text_of v @ r) < n \<Longrightarrow> parse_value n (text_of v @ r) = Some (restored v, r)"
  unfolding reads_def by blast

lemma sep_skip: "sep r \<Longrightarrow> skip_ws r = r"
  by (cases r) (auto simp: sep_def skip_ws_def json_space_def)

lemma no_space_start:
  assumes "encodable v"
  shows "skip_ws (text_of v @ r) = text_of v @ r"
proof -
  from text_of_lead [OF assms] obtain c cs where c: "text_of v = c # cs" "lead c = kind v" by blast
  have "lead (CHR 0x20) = 7" "lead (CHR 0x09) = 7" "lead (CHR 0x0A) = 7" "lead (CHR 0x0D) = 7"
    by (simp_all add: lead_def number_char_def is_digit_def)
  with c(2) kind_bound [of v] have "\<not> json_space c" by (auto simp: json_space_def)
  with c(1) show ?thesis by simp
qed

lemma parse_elems_text:
  assumes "xs \<noteq> []" and "\<forall>x \<in> set xs. encodable x \<and> reads x"
    and "2 * length (join '','' (map text_of xs) @ '']'' @ r) + 1 < n"
  shows "parse_elems n (join '','' (map text_of xs) @ '']'' @ r) = Some (map restored xs, r)"
  using assms
proof (induction xs arbitrary: n)
  case (Cons x xs)
  obtain m where n: "n = Suc m" using Cons.prems(3) by (cases n) simp_all
  have x: "encodable x" "reads x" using Cons.prems(2) by simp_all
  show ?case
  proof (cases xs)
    case Nil
    have "parse_value m (text_of x @ CHR '']'' # r) = Some (restored x, CHR '']'' # r)"
      by (rule readsD [OF x(2)]) (use Cons.prems(3) n Nil in simp_all)
    then show ?thesis by (simp add: n Nil)
  next
    case (Cons y ys)
    let ?tail = "join '','' (map text_of xs) @ '']'' @ r"
    have all: "join '','' (map text_of (x # xs)) @ '']'' @ r = text_of x @ CHR '','' # ?tail"
      by (simp add: Cons)
    have "parse_value m (text_of x @ CHR '','' # ?tail) = Some (restored x, CHR '','' # ?tail)"
      by (rule readsD [OF x(2)]) (use Cons.prems(3) n in \<open>simp_all add: Cons\<close>)
    moreover have "skip_ws ?tail = ?tail"
    proof -
      have "encodable y" using Cons.prems(2) by (simp add: Cons)
      then have "skip_ws (text_of y @ z) = text_of y @ z" for z by (rule no_space_start)
      then show ?thesis by (cases ys) (simp_all add: Cons)
    qed
    moreover have "parse_elems m ?tail = Some (map restored xs, r)"
    proof (rule Cons.IH)
      show "2 * length ?tail + 1 < m" using Cons.prems(3) n unfolding all by simp
    qed (use Cons.prems(2) Cons in simp_all)
    ultimately show ?thesis unfolding all n by simp
  qed
qed simp

abbreviation restored_item :: "pyval \<times> pyval \<Rightarrow> pyval \<times> pyval" where
  "restored_item kv \<equiv> (fst kv, restored (snd kv))"

lemma member_text_parts:
  "member_text kv @ r = CHR 0x22 # (concat (map json_escape (item_key kv)) @ CHR 0x22 # CHR '':'' # text_of (snd kv) @ r)"
  by (simp add: member_text_def json_member_def json_string_def item_text_def)

lemma parse_members_text:
  assumes "kvs \<noteq> []" and "\<forall>kv \<in> set kvs. encodable (snd kv) \<and> reads (snd kv)"
    and "2 * length (join '','' (map member_text kvs) @ ''}'' @ r) + 1 < n"
  shows "parse_members n (join '','' (map member_text kvs) @ ''}'' @ r) =
    Some (map (\<lambda>kv. (item_key kv, restored (snd kv))) kvs, r)"
  using assms
proof (induction kvs arbitrary: n)
  case (Cons kv kvs)
  obtain m where n: "n = Suc m" using Cons.prems(3) by (cases n) simp_all
  have kv: "encodable (snd kv)" "reads (snd kv)" using Cons.prems(2) by simp_all
  note key = parse_chars_string [of "item_key kv"]
  show ?case
  proof (cases kvs)
    case Nil
    have "parse_value m (text_of (snd kv) @ CHR ''}'' # r) = Some (restored (snd kv), CHR ''}'' # r)"
      by (rule readsD [OF kv(2)]) (use Cons.prems(3) n Nil in \<open>simp_all add: member_text_parts [of _ "[]", simplified]\<close>)
    then show ?thesis using no_space_start [OF kv(1)] by (simp add: n Nil member_text_parts key)
  next
    case (Cons y ys)
    let ?tail = "join '','' (map member_text kvs) @ ''}'' @ r"
    have all: "join '','' (map member_text (kv # kvs)) @ ''}'' @ r = member_text kv @ CHR '','' # ?tail"
      by (simp add: Cons)
    have long: "2 * length (text_of (snd kv) @ CHR '','' # ?tail) + 1 < m"
      using Cons.prems(3) n unfolding all by (simp add: member_text_parts)
    then have "parse_value m (text_of (snd kv) @ CHR '','' # ?tail) = Some (restored (snd kv), CHR '','' # ?tail)"
      by (intro readsD [OF kv(2)]) simp_all
    moreover have "skip_ws ?tail = ?tail"
    proof -
      have "skip_ws (member_text y @ z) = member_text y @ z" for z by (simp add: member_text_parts)
      then show ?thesis by (cases ys) (simp_all add: Cons)
    qed
    moreover have "parse_members m ?tail = Some (map (\<lambda>kv. (item_key kv, restored (snd kv))) kvs, r)"
    proof (rule Cons.IH)
      show "2 * length ?tail + 1 < m" using long by simp
    qed (use Cons.prems(2) Cons in simp_all)
    ultimately show ?thesis using no_space_start [OF kv(1)]
      unfolding all n member_text_parts by (simp add: key)
  qed
qed simp

lemma dict_of_distinct:
  assumes "distinct (map fst kvs)"
  shows "dict_of kvs = map (\<lambda>(k, v). (VStr k, v)) kvs"
proof -
  have "foldl (\<lambda>d (k, v). AList.update (VStr k) v d) d kvs = d @ map (\<lambda>(k, v). (VStr k, v)) kvs"
    if "distinct (map fst kvs)" "\<forall>k \<in> fst ` set kvs. VStr k \<notin> fst ` set d" for d :: json_object and kvs :: "(string \<times> pyval) list"
    using that
  proof (induction kvs arbitrary: d)
    case (Cons kv kvs)
    obtain k v where kv: "kv = (k, v)" by (cases kv)
    have "AList.update (VStr k) v d = d @ [(VStr k, v)]" using Cons.prems(2) kv by (intro update_new) simp
    moreover have "\<forall>k' \<in> fst ` set kvs. VStr k' \<notin> fst ` set (d @ [(VStr k, v)])"
      using Cons.prems kv by auto
    ultimately show ?case using Cons.IH [of "d @ [(VStr k, v)]"] Cons.prems(1) kv by simp
  qed simp
  from this [OF assms, of "[]"] show ?thesis by (simp add: dict_of_def)
qed

lemma reads_array:
  assumes "\<forall>x \<in> set xs. encodable x \<and> reads x" and "text_of v = ''['' @ join '','' (map text_of xs) @ '']''"
    and "restored v = VList (map restored xs)"
  shows "reads v"
  unfolding reads_def
proof (intro allI impI)
  fix n r assume r: "sep r" and n: "2 * length (text_of v @ r) < n"
  then obtain m where m: "n = Suc m" by (cases n) simp_all
  show "parse_value n (text_of v @ r) = Some (restored v, r)"
  proof (cases "xs = []")
    case True
    with assms(2,3) m show ?thesis by simp
  next
    case False
    let ?elems = "join '','' (map text_of xs) @ '']'' @ r"
    obtain x ys where xs: "xs = x # ys" using False by (cases xs) auto
    with assms(1) have "encodable x" by simp
    then obtain c cs where c: "text_of x = c # cs" "c \<noteq> CHR '']''" using text_of_start by blast
    have "skip_ws (text_of x @ z) = text_of x @ z" for z by (rule no_space_start [OF \<open>encodable x\<close>])
    then have start: "skip_ws ?elems = ?elems" "?elems \<noteq> []" "hd ?elems \<noteq> CHR '']''"
      using c xs by (cases ys; simp)+
    have "parse_elems m ?elems = Some (map restored xs, r)"
      by (rule parse_elems_text [OF False assms(1)]) (use n m assms(2) in simp)
    with start assms(2,3) m show ?thesis by (simp add: Let_def)
  qed
qed

lemma reads_object:
  assumes "encodable (VDict kvs)" and "\<forall>kv \<in> set kvs. reads (snd kv)"
  shows "reads (VDict kvs)"
  unfolding reads_def
proof (intro allI impI)
  let ?ks = "sort_key item_key kvs"
  fix n r assume r: "sep r" and n: "2 * length (text_of (VDict kvs) @ r) < n"
  then obtain m where m: "n = Suc m" by (cases n) simp_all
  note written = text_of_dict [OF assms(1)]
  have items: "\<forall>kv \<in> set kvs. \<exists>s. fst kv = VStr s \<and> encodable (snd kv)"
    using assms(1) by (auto simp: encodable_item_def)
  have "restored (VDict kvs) = VDict (map restored_item ?ks)" by (simp add: sort_key_map)
  also have "\<dots> = VDict (dict_of (map (\<lambda>kv. (item_key kv, restored (snd kv))) ?ks))"
  proof -
    have "distinct (map item_key ?ks)" using distinct_item_keys [OF assms(1)] by (simp add: distinct_map)
    then have "dict_of (map (\<lambda>kv. (item_key kv, restored (snd kv))) ?ks) =
        map (\<lambda>(k, v). (VStr k, v)) (map (\<lambda>kv. (item_key kv, restored (snd kv))) ?ks)"
      by (intro dict_of_distinct) (simp add: o_def)
    also have "\<dots> = map restored_item ?ks" using items by (auto simp: key_text_def)
    finally show ?thesis by simp
  qed
  finally have outcome: "restored (VDict kvs) = VDict (dict_of (map (\<lambda>kv. (item_key kv, restored (snd kv))) ?ks))" .
  show "parse_value n (text_of (VDict kvs) @ r) = Some (restored (VDict kvs), r)"
  proof (cases "kvs = []")
    case True
    with written m show ?thesis by simp
  next
    case False
    let ?members = "join '','' (map member_text ?ks) @ ''}'' @ r"
    have ne: "?ks \<noteq> []" using False by (metis length_0_conv length_sort)
    then obtain y ys where ys: "?ks = y # ys" by (cases ?ks) auto
    have "\<exists>z. ?members = CHR 0x22 # z" unfolding ys by (cases ys) (simp_all add: member_text_parts)
    then have start: "skip_ws ?members = ?members" "?members \<noteq> []" "hd ?members \<noteq> CHR ''}''" by auto
    have "parse_members m ?members = Some (map (\<lambda>kv. (item_key kv, restored (snd kv))) ?ks, r)"
      by (rule parse_members_text [OF ne]) (use items assms(2) n m written in auto)
    with start written m show ?thesis unfolding outcome by (simp add: Let_def del: restored.simps)
  qed
qed

lemma reads_number:
  assumes "text_of v \<noteq> []" and "\<forall>c \<in> set (text_of v). number_char c"
    and "\<And>r. sep r \<Longrightarrow> parse_number (text_of v @ r) = Some (restored v, r)"
  shows "reads v"
  unfolding reads_def
proof (intro allI impI)
  fix n r assume r: "sep r" and n: "2 * length (text_of v @ r) < n"
  then obtain m where m: "n = Suc m" by (cases n) simp_all
  obtain c cs where c: "text_of v = c # cs" using assms(1) by (cases "text_of v") auto
  with assms(2) have nc: "number_char c" by simp
  then have start: "c \<noteq> CHR 0x22" "c \<noteq> CHR ''{''" "c \<noteq> CHR ''[''" by (auto simp: number_char_def is_digit_def)
  have "\<not> number_char (CHR ''I'')" by (simp add: number_char_def is_digit_def)
  then have "take 9 (c # cs @ r) \<noteq> ''-Infinity''"
    using assms(2) r c by (cases cs; cases r) (auto simp: sep_def)
  then have "parse_const (c # cs @ r) = None" by (rule parse_const_number [OF nc])
  with start assms(3) [OF r] show "parse_value n (text_of v @ r) = Some (restored v, r)" by (simp add: m c)
qed

lemma reads_encodable: "encodable v \<Longrightarrow> reads v"
proof (induction v)
  case (VList xs)
  then show ?case by (intro reads_array [of xs]) (auto simp: text_of_simps)
next
  case (VTuple xs)
  then show ?case by (intro reads_array [of xs]) (auto simp: text_of_simps)
next
  case (VDict kvs)
  have "reads (snd kv)" if "kv \<in> set kvs" for kv
    using VDict.IH(2) [OF that, of "snd kv"] VDict.prems that by (cases kv) (auto simp: encodable_item_def)
  with VDict.prems show ?case by (intro reads_object) simp_all
next
  case (VStr s)
  have "parse_value (Suc m) (json_string s @ r) = Some (VStr s, r)" for m r
    by (simp add: json_string_def parse_chars_string)
  then show ?case by (auto simp: reads_def text_of_simps elim!: less_natE)
next
  case (VInt i)
  have "\<forall>c \<in> set (int_text i). number_char c" by (auto simp: number_char_def dest: int_text_chars)
  then show ?case by (intro reads_number) (simp_all add: text_of_simps parse_number_int)
next
  case (VFloat f)
  then obtain t where t: "f = Finite t" "float_text t" by (cases f) auto
  then have "t \<noteq> []" "\<forall>c \<in> set t. number_char c" using float_text_chars by (auto simp: float_text_def)
  with t show ?case by (intro reads_number) (simp_all add: text_of_simps parse_number_float)
next
  case (VBool b)
  show ?case by (cases b) (auto simp: reads_def text_of_simps parse_const_def elim!: less_natE)
next
  case VNone
  show ?case by (auto simp: reads_def text_of_simps parse_const_def elim!: less_natE)
qed simp_all

section \<open>The round trip\<close>

lemma json_loads_text: "encodable v \<Longrightarrow> json_loads (text_of v) = Inr (restored v)"
proof -
  assume v: "encodable v"
  have "parse_value (2 * length (text_of v) + 1) (text_of v) = Some (restored v, [])"
    using readsD [OF reads_encodable [OF v], of "[]" "2 * length (text_of v) + 1"] by simp
  moreover have "skip_ws (text_of v) = text_of v" using no_space_start [OF v, of "[]"] by simp
  ultimately show ?thesis by (simp add: json_loads_def skip_ws_def)
qed

lemma restored_dict:
  assumes "encodable (VDict kvs)" and "\<forall>kv \<in> set kvs. encodable (restored (snd kv)) \<and> meaning (restored (snd kv)) = meaning (snd kv)"
  shows "encodable (restored (VDict kvs))" "meaning (restored (VDict kvs)) = meaning (VDict kvs)"
proof -
  let ?items = "map restored_item kvs"
  have keys: "distinct (map item_key kvs)" by (rule distinct_item_keys [OF assms(1)])
  have enc: "encodable (VDict ?items)"
    using assms by (auto simp: o_def encodable_item_def)
  have "distinct (map fst (sort_key item_key ?items))"
    using enc by (simp only: encodable_simps distinct_map) (simp add: distinct_map)
  moreover have "\<forall>kv \<in> set (sort_key item_key ?items). encodable_item kv" using enc by simp
  ultimately show sorted: "encodable (restored (VDict kvs))" by simp
  have "map item_meaning (sort_key item_key (sort_key item_key ?items)) = map item_meaning (sort_key item_key ?items)"
    by (simp add: sort_key_id_if_sorted)
  then have "meaning (VDict (sort_key item_key ?items)) = meaning (VDict ?items)"
    using sorted enc by (intro sorted_items_meaning) simp_all
  also have "meaning (VDict ?items) = meaning (VDict kvs)"
  proof -
    have "map item_meaning ?items = map item_meaning kvs" using assms(2) by simp
    then show ?thesis by (simp only: meaning.simps meaning_items_map)
  qed
  finally show "meaning (restored (VDict kvs)) = meaning (VDict kvs)" by simp
qed

lemma restored_meaning: "encodable v \<Longrightarrow> encodable (restored v) \<and> meaning (restored v) = meaning v"
proof (induction v)
  case (VDict kvs)
  have "encodable (restored (snd kv)) \<and> meaning (restored (snd kv)) = meaning (snd kv)" if "kv \<in> set kvs" for kv
    using VDict.IH(2) [OF that, of "snd kv"] VDict.prems that by (cases kv) (auto simp: encodable_item_def)
  with restored_dict [OF VDict.prems] show ?case by blast
qed auto

text \<open>
  The JSON columns of the stores are faithful: reading a canonical text back gives a value with the
  same JSON meaning and the same canonical text; lists, dictionaries and atoms come back as they
  were up to the order of keys, tuples as lists.
\<close>

theorem json_roundtrip:
  assumes "wf_val v" and "canonical_json v = Inr t"
  shows "json_loads t = Inr (restored v) \<and> canonical_json (restored v) = Inr t \<and> meaning (restored v) = meaning v"
proof -
  from assms have v: "encodable v" "t = text_of v" by (simp_all add: canonical_json_encodes)
  note same = restored_meaning [OF v(1)]
  then have "text_of (restored v) = text_of v" using text_of_eq_iff [of "restored v" v] v(1) by simp
  with same v json_loads_text [OF v(1)] canonical_json_encodable [of "restored v"] show ?thesis by simp
qed

theorem json_roundtrip_witness:
  "\<exists>t. canonical_json (VDict [(VStr ''b'', VTuple [VInt (- 7), VFloat (Finite ''1.5'')]), (VStr ''a'', VStr [CHR 0x22, CHR 0x0A])]) = Inr t
     \<and> json_loads t = Inr (VDict [(VStr ''a'', VStr [CHR 0x22, CHR 0x0A]), (VStr ''b'', VList [VInt (- 7), VFloat (Finite ''1.5'')])])"
proof -
  let ?v = "VDict [(VStr ''b'', VTuple [VInt (- 7), VFloat (Finite ''1.5'')]), (VStr ''a'', VStr [CHR 0x22, CHR 0x0A])]"
  have "float_text ''1.5''" by (simp add: float_text_def is_digit_def)
  then have enc: "encodable ?v" by (simp add: encodable_item_def)
  then have wf: "wf_val ?v" by (simp only: encodable_def)
  have written: "canonical_json ?v = Inr (text_of ?v)" by (rule canonical_json_encodable [OF enc])
  from json_roundtrip [OF wf written] have "json_loads (text_of ?v) = Inr (restored ?v)" by (rule conjunct1)
  moreover have "restored ?v = VDict [(VStr ''a'', VStr [CHR 0x22, CHR 0x0A]), (VStr ''b'', VList [VInt (- 7), VFloat (Finite ''1.5'')])]"
    by (simp add: key_text_def)
  ultimately show ?thesis using written by (intro exI conjI) simp_all
qed

end
