(* ===== verification/Durations.thy ===== *)
theory Durations
  imports Models
begin

text \<open>
  Durations as floating-point seconds: \<open>timedelta.total_seconds()\<close> and \<open>timedelta(seconds=x)\<close>, which
  the stores, the HTTP bodies and the contract loader use. A finite double is the rational number it
  denotes; \<open>nearest\<close> is rounding to 53 significant bits, ties to even (overflow and the subnormal range
  are far beyond any \<open>timedelta\<close> and are not modelled). The lemmas show that a duration of less than
  \<open>2 ^ 33\<close> seconds, about 272 years, survives the round trip to the microsecond.
\<close>

section \<open>Rounding\<close>

text \<open>The integer nearest to \<open>n / d\<close>, ties to even.\<close>

definition round_even :: "int \<Rightarrow> int \<Rightarrow> int" where
  "round_even n d = (let q = n div d; r = n mod d in
     if 2 * r < d \<or> 2 * r = d \<and> even q then q else q + 1)"

lemma round_even_error:
  assumes "0 < d"
  shows "2 * \<bar>round_even n d * d - n\<bar> \<le> d"
proof -
  let ?q = "n div d" and ?r = "n mod d"
  have n: "n = ?q * d + ?r" by simp
  have r: "0 \<le> ?r" "?r < d" using assms by simp_all
  have "round_even n d * d - n = - ?r \<and> 2 * ?r \<le> d \<or> round_even n d * d - n = d - ?r \<and> d \<le> 2 * ?r"
    by (subst (2 4) n) (auto simp: round_even_def Let_def algebra_simps)
  with r show ?thesis by auto
qed

lemma round_even_unique:
  assumes "0 < d" and "2 * \<bar>k * d - n\<bar> < d"
  shows "round_even n d = k"
proof -
  have halves: "2 * x \<le> d \<Longrightarrow> 2 * y < d \<Longrightarrow> z \<le> x + y \<Longrightarrow> z < d" for x y z :: int by linarith
  have "\<bar>round_even n d * d - k * d\<bar> \<le> \<bar>round_even n d * d - n\<bar> + \<bar>k * d - n\<bar>" by linarith
  from halves [OF round_even_error [OF assms(1), of n] assms(2) this]
  have "\<bar>(round_even n d - k) * d\<bar> < d" by (simp only: left_diff_distrib)
  then have "\<bar>round_even n d - k\<bar> * d < 1 * d" using assms(1) by (simp add: abs_mult)
  then have "\<bar>round_even n d - k\<bar> < 1" using assms(1) by (simp only: mult_less_cancel_right_pos)
  then show ?thesis by simp
qed

section \<open>The nearest double\<close>

text \<open>
  \<open>grow\<close> scales a positive numerator up until the quotient has 53 bits before the point, \<open>shrink\<close>
  scales the denominator of a larger one. A dyadic number \<open>m / 2 ^ k\<close> is the pair \<open>(m, k)\<close>.
\<close>

type_synonym dyadic = "int \<times> nat"

function grow :: "int \<Rightarrow> int \<Rightarrow> nat \<Rightarrow> int \<times> nat" where
  "grow a d k = (if 0 < a \<and> a < 2 ^ 52 * d then grow (2 * a) d (Suc k) else (a, k))"
  by pat_completeness auto
termination by (relation "measure (\<lambda>(a, d, k). nat (2 ^ 52 * d - a))") auto

function shrink :: "int \<Rightarrow> int \<Rightarrow> nat \<Rightarrow> int \<times> nat" where
  "shrink a d s = (if 0 < d \<and> 2 ^ 53 * d \<le> a then shrink a (2 * d) (Suc s) else (d, s))"
  by pat_completeness auto
termination by (relation "measure (\<lambda>(a, d, s). nat (a - 2 ^ 52 * d))") auto

declare grow.simps [simp del] shrink.simps [simp del]

definition nearest :: "int \<Rightarrow> int \<Rightarrow> dyadic" where
  "nearest n d = (case grow \<bar>n\<bar> d 0 of (a, k) \<Rightarrow> case shrink a d 0 of (d', s) \<Rightarrow>
     (sgn n * round_even a d' * 2 ^ s, k))"

definition total_seconds :: "timedelta \<Rightarrow> dyadic" where
  "total_seconds t = nearest t 1000000"

text \<open>
  \<open>timedelta(seconds=x)\<close>: the whole seconds exactly, the fraction as a product of doubles, and the
  sum rounded to whole microseconds.
\<close>

definition timedelta_of_seconds :: "dyadic \<Rightarrow> timedelta" where
  "timedelta_of_seconds x = (case x of (m, k) \<Rightarrow>
     let whole = \<bar>m\<bar> div 2 ^ k; part = \<bar>m\<bar> mod 2 ^ k
     in case nearest (part * 1000000) (2 ^ k) of (p, j) \<Rightarrow>
          sgn m * round_even (whole * 1000000 * 2 ^ j + p) (2 ^ j))"

lemma grow_result:
  assumes "0 < a" and "0 < d" and "a < 2 ^ 53 * d" and "grow a d k = (a', k')"
  shows "a' * 2 ^ k = a * 2 ^ k' \<and> k \<le> k' \<and> 2 ^ 52 * d \<le> a' \<and> a' < 2 ^ 53 * d"
  using assms
proof (induction a d k rule: grow.induct)
  case (1 a d k)
  show ?case
  proof (cases "a < 2 ^ 52 * d")
    case True
    with 1 have "a' * 2 ^ Suc k = 2 * a * 2 ^ k' \<and> Suc k \<le> k' \<and> 2 ^ 52 * d \<le> a' \<and> a' < 2 ^ 53 * d"
      by (subst (asm) (2) grow.simps) simp
    then show ?thesis by simp
  next
    case False
    with 1 show ?thesis by (subst (asm) (2) grow.simps) simp
  qed
qed

lemma shrink_stays: "a < 2 ^ 53 * d \<Longrightarrow> shrink a d s = (d, s)"
  by (subst shrink.simps) simp

text \<open>Rounding a quotient below \<open>2 ^ j\<close>: the error is half a unit of a scale of more than \<open>52 - j\<close> bits.\<close>

lemma nearest_error:
  assumes "0 < n" and "0 < d" and "n < 2 ^ j * d" and "j \<le> 52"
  obtains m k where "nearest n d = (m, k)" "2 * \<bar>m * d - n * 2 ^ k\<bar> \<le> d" "52 - j < k" "0 \<le> m"
proof -
  obtain a k where a: "grow n d 0 = (a, k)" by (cases "grow n d 0")
  have "(2::int) ^ j \<le> 2 ^ 52" using assms(4) by (intro power_increasing) simp_all
  then have "2 ^ j * d \<le> 2 ^ 52 * d" using assms(2) by (intro mult_right_mono) simp_all
  with assms(3) have "n < 2 ^ 52 * d" by (rule less_le_trans)
  with assms(2) have small: "n < 2 ^ 53 * d" by simp
  from grow_result [OF assms(1,2) small a] have a': "a = n * 2 ^ k" "2 ^ 52 * d \<le> a" "a < 2 ^ 53 * d" by simp_all
  have "nearest n d = (round_even a d, k)"
    using assms(1) a shrink_stays [OF a'(3)] by (simp add: nearest_def)
  moreover have "2 * \<bar>round_even a d * d - n * 2 ^ k\<bar> \<le> d"
    using round_even_error [OF assms(2), of a] a'(1) by simp
  moreover have "52 - j < k"
  proof (rule ccontr)
    assume "\<not> 52 - j < k"
    then have "n * 2 ^ k \<le> n * 2 ^ (52 - j)" using assms(1) by (intro mult_left_mono power_increasing) simp_all
    also have "\<dots> < 2 ^ j * d * 2 ^ (52 - j)" using assms(3) by (intro mult_strict_right_mono) simp_all
    also have "\<dots> = 2 ^ 52 * d" using assms(4) by (simp add: power_add [symmetric] mult.commute mult.left_commute)
    finally show False using a'(1,2) by simp
  qed
  moreover have "0 \<le> round_even a d"
  proof -
    have "0 \<le> a div d" using a' assms(2) by (intro div_int_pos_iff [THEN iffD2]) (use assms(1) in simp)
    then show ?thesis by (simp add: round_even_def Let_def)
  qed
  ultimately show thesis by (rule that)
qed

lemma nearest_zero [simp]: "nearest 0 d = (0, 0)"
  by (simp add: nearest_def grow.simps split: prod.split)

lemma nearest_minus: "nearest (- n) d = (case nearest n d of (m, k) \<Rightarrow> (- m, k))"
  by (simp add: nearest_def split: prod.split)

section \<open>The round trip\<close>

lemma triangle_scaled:
  fixes x y z J K :: int
  assumes "z * K = x * J + y" and "0 < K" and "0 < J"
  shows "\<bar>z\<bar> * K \<le> \<bar>x\<bar> * J + \<bar>y\<bar>"
proof -
  have "\<bar>z\<bar> * K = \<bar>x * J + y\<bar>" using assms(1,2) by (metis abs_mult abs_of_pos)
  also have "\<dots> \<le> \<bar>x * J\<bar> + \<bar>y\<bar>" by (rule abs_triangle_ineq)
  also have "\<bar>x * J\<bar> = \<bar>x\<bar> * J" using assms(3) by (simp add: abs_mult)
  finally show ?thesis .
qed

lemma seconds_roundtrip_pos:
  assumes "0 < t" and "t < 2 ^ 33 * 1000000"
  shows "timedelta_of_seconds (total_seconds t) = t"
proof -
  obtain m k where m: "nearest t 1000000 = (m, k)" "2 * \<bar>m * 1000000 - t * 2 ^ k\<bar> \<le> 1000000" "19 < k" "0 \<le> m"
    using nearest_error [of t 1000000 33] assms by auto
  let ?w = "m div 2 ^ k" and ?f = "m mod 2 ^ k"
  have split: "m = ?w * 2 ^ k + ?f" by (rule div_mult_mod_eq [symmetric])
  have part: "0 \<le> ?f" "?f < 2 ^ k" by simp_all
  have K: "(2::int) ^ 20 \<le> 2 ^ k" using m(3) by (intro power_increasing) simp_all
  obtain p j where p: "nearest (?f * 1000000) (2 ^ k) = (p, j)" "2 * \<bar>p * 2 ^ k - ?f * 1000000 * 2 ^ j\<bar> < 2 ^ j * 2 ^ k - 1000000 * 2 ^ j"
  proof (cases "?f = 0")
    case True
    with K that [of 0 0] show ?thesis by simp
  next
    case False
    then have low: "0 < ?f * 1000000" using part(1) by linarith
    have high: "?f * 1000000 < 2 ^ 20 * 2 ^ k"
    proof -
      have "?f * 1000000 \<le> ?f * 2 ^ 20" using part(1) by simp
      also have "\<dots> < 2 ^ k * 2 ^ 20" using part(2) by (intro mult_strict_right_mono) simp_all
      finally show ?thesis by (simp only: mult.commute)
    qed
    obtain p j where p: "nearest (?f * 1000000) (2 ^ k) = (p, j)"
      "2 * \<bar>p * 2 ^ k - ?f * 1000000 * 2 ^ j\<bar> \<le> 2 ^ k" "52 - 20 < j"
      by (rule nearest_error [OF low _ high]) simp_all
    have J: "(2::int) ^ 33 \<le> 2 ^ j" using p(3) by (intro power_increasing) simp_all
    have "(2::int) ^ k < 2 ^ 33 * (2 ^ k - 1000000)" using K by simp
    also have "\<dots> \<le> 2 ^ j * (2 ^ k - 1000000)" using J K by (intro mult_right_mono) simp_all
    finally have "(2::int) ^ k < 2 ^ j * 2 ^ k - 1000000 * 2 ^ j" by (simp add: algebra_simps)
    with p(2) have "2 * \<bar>p * 2 ^ k - ?f * 1000000 * 2 ^ j\<bar> < 2 ^ j * 2 ^ k - 1000000 * 2 ^ j" by linarith
    with p(1) show ?thesis by (rule that)
  qed
  let ?n = "?w * 1000000 * 2 ^ j + p"
  have "2 * \<bar>t * 2 ^ j - ?n\<bar> * 2 ^ k < 2 ^ j * 2 ^ k"
  proof -
    have "x = y * K + f \<Longrightarrow> (t * J - (y * 1000000 * J + p)) * K = (t * K - x * 1000000) * J + (f * 1000000 * J - p * K)"
      for x y f J K by (simp add: algebra_simps)
    from this [OF split]
    have "(t * 2 ^ j - ?n) * 2 ^ k = (t * 2 ^ k - m * 1000000) * 2 ^ j + (?f * 1000000 * 2 ^ j - p * 2 ^ k)" .
    from triangle_scaled [OF this]
    have sum: "\<bar>t * 2 ^ j - ?n\<bar> * 2 ^ k \<le> \<bar>t * 2 ^ k - m * 1000000\<bar> * 2 ^ j + \<bar>?f * 1000000 * 2 ^ j - p * 2 ^ k\<bar>"
      by simp
    have first: "2 * (\<bar>t * 2 ^ k - m * 1000000\<bar> * 2 ^ j) \<le> 1000000 * 2 ^ j"
    proof -
      have "2 * \<bar>t * 2 ^ k - m * 1000000\<bar> \<le> 1000000" using m(2) by (simp only: abs_minus_commute)
      then have "2 * \<bar>t * 2 ^ k - m * 1000000\<bar> * 2 ^ j \<le> 1000000 * 2 ^ j" by (rule mult_right_mono) simp
      then show ?thesis by (simp only: mult.assoc)
    qed
    have second: "2 * \<bar>?f * 1000000 * 2 ^ j - p * 2 ^ k\<bar> < 2 ^ j * 2 ^ k - 1000000 * 2 ^ j"
      using p(2) by (simp only: abs_minus_commute)
    have combine: "u \<le> v + w \<Longrightarrow> 2 * v \<le> a \<Longrightarrow> 2 * w < b - a \<Longrightarrow> 2 * u < b" for u v w a b :: int by linarith
    from combine [OF sum first second] show ?thesis by (simp only: mult.assoc)
  qed
  then have "2 * \<bar>t * 2 ^ j - ?n\<bar> < 2 ^ j" by (simp only: mult_less_cancel_right_pos zero_less_power zero_less_numeral)
  then have "round_even ?n (2 ^ j) = t" by (intro round_even_unique) simp_all
  moreover have "0 < m"
  proof (rule ccontr)
    assume "\<not> 0 < m"
    with m(4) have "m = 0" by simp
    with m(2) assms(1) have "2 * (t * 2 ^ k) \<le> 1000000" by simp
    moreover have "2 ^ 20 \<le> t * 2 ^ k" using K assms(1) mult_mono [of 1 t "2 ^ 20" "2 ^ k"] by simp
    ultimately show False by simp
  qed
  ultimately show ?thesis using m p by (simp add: total_seconds_def timedelta_of_seconds_def Let_def)
qed

theorem seconds_roundtrip:
  assumes "\<bar>t\<bar> < 2 ^ 33 * 1000000"
  shows "timedelta_of_seconds (total_seconds t) = t"
proof -
  have minus: "timedelta_of_seconds (case x of (m, k) \<Rightarrow> (- m, k)) = - timedelta_of_seconds x" for x
    by (cases x) (simp add: timedelta_of_seconds_def Let_def split: prod.split)
  consider "t = 0" | "0 < t" | "0 < - t" by linarith
  then show ?thesis
  proof cases
    case 1
    then show ?thesis by (simp add: total_seconds_def timedelta_of_seconds_def Let_def)
  next
    case 2
    then show ?thesis using seconds_roundtrip_pos [of t] assms by simp
  next
    case 3
    then have "timedelta_of_seconds (total_seconds (- t)) = - t" using seconds_roundtrip_pos [of "- t"] assms by simp
    then show ?thesis using minus by (simp add: total_seconds_def nearest_minus)
  qed
qed

end
