(* ===== verification/Sqlite_Store.thy ===== *)
theory Sqlite_Store
  imports Store_Api Json_Parse Durations "HOL-Library.Product_Lexorder"
begin

text \<open>
  The durable SQLite ledger (\<open>store/sqlite.py\<close>). \<open>sqlite_db\<close> is the database file: its three tables
  are the lists of their rows in insertion order, the columns hold what SQLite holds (text for JSON and
  for times, an IEEE double for a duration). The statements of the code are the \<open>insert\<close>, \<open>select\<close>
  and \<open>update\<close> operations, with the constraints of the schema; \<open>transaction\<close> is
  \<open>BEGIN IMMEDIATE ... COMMIT\<close> or, on any exception, \<open>ROLLBACK\<close>. As \<open>BEGIN IMMEDIATE\<close> serialises the
  writers, a transaction is one atomic step. Not modelled: lock timeouts and disk errors, and integers
  beyond 64 bits.
\<close>

section \<open>Tables\<close>

record effect_row =
  row_id :: string
  row_tenant :: string
  row_key :: string
  row_tool :: string
  row_arguments :: string                    \<comment> \<open>\<open>arguments_json\<close>\<close>
  row_requested_by :: string
  row_trace :: "string option"
  row_hash :: string
  row_downstream :: string
  row_contract :: string
  row_contract_version :: string
  row_safety :: string                       \<comment> \<open>\<open>safety_class\<close>\<close>
  row_retry_limit :: int
  row_retention :: "dyadic option"           \<comment> \<open>\<open>key_retention_seconds REAL\<close>\<close>
  row_settlement :: "dyadic option"
  row_status :: string
  row_version :: int
  row_created :: string
  row_updated :: string
  row_worker :: "string option"
  row_lease_worker :: "string option"
  row_lease_until :: "string option"

record attempt_row =
  ar_id :: string
  ar_effect :: string
  ar_ordinal :: int
  ar_worker :: string
  ar_version :: int
  ar_started :: string

record event_row =
  er_effect :: string
  er_sequence :: int
  er_type :: string
  er_version :: int
  er_at :: string
  er_data :: string                          \<comment> \<open>\<open>data_json\<close>\<close>

record sqlite_db =
  effects_table :: "effect_row list"
  attempts_table :: "attempt_row list"
  events_table :: "event_row list"

text \<open>\<open>_create_schema\<close> on a new file.\<close>

definition empty_db :: sqlite_db where
  "empty_db = \<lparr>effects_table = [], attempts_table = [], events_table = []\<rparr>"

section \<open>Columns\<close>

definition duration_seconds :: "timedelta option \<Rightarrow> dyadic option" where
  "duration_seconds = map_option total_seconds"

definition seconds_to_duration :: "dyadic option \<Rightarrow> timedelta option" where
  "seconds_to_duration = map_option timedelta_of_seconds"

text \<open>\<open>_record_params\<close>; the lease columns are the \<open>NULL\<close>s of the statement.\<close>

definition record_params :: "effect_record \<Rightarrow> error + effect_row" where
  "record_params r = (case canonical_json (VDict (arguments (request r))) of
     Inl x \<Rightarrow> Inl x
   | Inr args \<Rightarrow> Inr
      \<lparr>row_id = effect_id r, row_tenant = tenant_id r, row_key = operation_key (request r),
       row_tool = tool (request r), row_arguments = args, row_requested_by = requested_by (request r),
       row_trace = trace_id (request r), row_hash = req_hash r, row_downstream = down_key r,
       row_contract = contract_name (contract r), row_contract_version = contract_version (contract r),
       row_safety = safety_value (safety (contract r)), row_retry_limit = retry_limit (contract r),
       row_retention = duration_seconds (key_retention (contract r)),
       row_settlement = duration_seconds (settlement_bound (contract r)),
       row_status = status_value (status r), row_version = version r,
       row_created = isoformat (created_at r), row_updated = isoformat (updated_at r),
       row_worker = None, row_lease_worker = None, row_lease_until = None\<rparr>)"

text \<open>
  \<open>_row_to_record\<close>. The column holds the text of a dict, so \<open>json.loads\<close> returns one; the other
  branch of \<open>object_items\<close> is never taken.
\<close>

definition object_items :: "pyval \<Rightarrow> json_object" where
  "object_items v = (case v of VDict d \<Rightarrow> d | _ \<Rightarrow> [])"

definition row_to_record :: "effect_row \<Rightarrow> error + effect_record" where
  "row_to_record row =
     (case json_loads (row_arguments row) of Inl x \<Rightarrow> Inl x | Inr args \<Rightarrow>
      case safety_of (row_safety row) of None \<Rightarrow> Inl (PyError ''ValueError'') | Some sc \<Rightarrow>
      case status_of (row_status row) of None \<Rightarrow> Inl (PyError ''ValueError'') | Some st \<Rightarrow>
      case parse_time (row_created row) of None \<Rightarrow> Inl (PyError ''ValueError'') | Some at \<Rightarrow>
      case parse_time (row_updated row) of None \<Rightarrow> Inl (PyError ''ValueError'') | Some upd \<Rightarrow> Inr
      \<lparr>effect_id = row_id row, tenant_id = row_tenant row,
       request = \<lparr>operation_key = row_key row, tool = row_tool row, arguments = object_items args,
         requested_by = row_requested_by row, trace_id = row_trace row\<rparr>,
       req_hash = row_hash row, down_key = row_downstream row,
       contract = \<lparr>contract_name = row_contract row, contract_version = row_contract_version row,
         safety = sc, retry_limit = row_retry_limit row,
         key_retention = seconds_to_duration (row_retention row),
         settlement_bound = seconds_to_duration (row_settlement row)\<rparr>,
       status = st, version = row_version row, created_at = at, updated_at = upd\<rparr>)"

section \<open>Statements\<close>

abbreviation integrity_error :: error where
  "integrity_error \<equiv> PyError ''IntegrityError''"

text \<open>A failed statement has no effect of its own.\<close>

definition insert_effect :: "effect_row \<Rightarrow> (sqlite_db, error, unit) prog" where
  "insert_effect row = (\<lambda>s.
     if \<exists>x \<in> set (effects_table s). row_id x = row_id row
          \<or> row_tenant x = row_tenant row \<and> row_key x = row_key row
     then (Inl integrity_error, s)
     else (Inr (), s\<lparr>effects_table := effects_table s @ [row]\<rparr>))"

definition insert_attempt :: "attempt_row \<Rightarrow> (sqlite_db, error, unit) prog" where
  "insert_attempt a = (\<lambda>s.
     if (\<exists>x \<in> set (attempts_table s). ar_id x = ar_id a
          \<or> ar_effect x = ar_effect a \<and> ar_ordinal x = ar_ordinal a)
        \<or> ar_effect a \<notin> row_id ` set (effects_table s)
     then (Inl integrity_error, s)
     else (Inr (), s\<lparr>attempts_table := attempts_table s @ [a]\<rparr>))"

definition insert_event :: "event_row \<Rightarrow> (sqlite_db, error, unit) prog" where
  "insert_event ev = (\<lambda>s.
     if (\<exists>x \<in> set (events_table s). er_effect x = er_effect ev \<and> er_sequence x = er_sequence ev)
        \<or> er_effect ev \<notin> row_id ` set (effects_table s)
     then (Inl integrity_error, s)
     else (Inr (), s\<lparr>events_table := events_table s @ [ev]\<rparr>))"

definition select_record :: "(effect_row \<Rightarrow> bool) \<Rightarrow> (sqlite_db, error, effect_record option) prog" where
  "select_record p = (\<lambda>s. case find p (effects_table s) of
     None \<Rightarrow> (Inr None, s)
   | Some row \<Rightarrow> (case row_to_record row of Inl x \<Rightarrow> (Inl x, s) | Inr r \<Rightarrow> (Inr (Some r), s)))"

definition select_by_identity :: "string \<Rightarrow> string \<Rightarrow> (sqlite_db, error, effect_record option) prog" where
  "select_by_identity tenant op_key = select_record (\<lambda>row. row_tenant row = tenant \<and> row_key row = op_key)"

definition select_by_effect_id :: "string \<Rightarrow> (sqlite_db, error, effect_record option) prog" where
  "select_by_effect_id eid = select_record (\<lambda>row. row_id row = eid)"

text \<open>\<open>UPDATE effects SET ... WHERE ...\<close>, with the number of rows it changed.\<close>

definition update_effects ::
  "(effect_row \<Rightarrow> bool) \<Rightarrow> (effect_row \<Rightarrow> effect_row) \<Rightarrow> (sqlite_db, error, nat) prog" where
  "update_effects p f = (\<lambda>s.
     (Inr (length (filter p (effects_table s))),
      s\<lparr>effects_table := map (\<lambda>row. if p row then f row else row) (effects_table s)\<rparr>))"

definition sql_record_for_version :: "string \<Rightarrow> int \<Rightarrow> (sqlite_db, error, effect_record) prog" where
  "sql_record_for_version eid expected =
     and_then (select_by_effect_id eid) (\<lambda>found. case found of
       None \<Rightarrow> throw (UnknownEffectError eid)
     | Some r \<Rightarrow> if version r \<noteq> expected then throw (VersionConflictError eid) else ret r)"

definition sql_append_event ::
  "string \<Rightarrow> string \<Rightarrow> int \<Rightarrow> json_object \<Rightarrow> time \<Rightarrow> (sqlite_db, error, unit) prog" where
  "sql_append_event eid ty v d at = (\<lambda>s.
     let seq = int (length (filter (\<lambda>x. er_effect x = eid) (events_table s))) + 1
     in case canonical_json (VDict d) of
          Inl x \<Rightarrow> (Inl x, s)
        | Inr t \<Rightarrow> insert_event \<lparr>er_effect = eid, er_sequence = seq, er_type = ty, er_version = v,
            er_at = isoformat at, er_data = t\<rparr> s)"

definition transaction :: "(sqlite_db, error, 'a) prog \<Rightarrow> (sqlite_db, error, 'a) prog" where
  "transaction m = (\<lambda>s. case m s of
     (Inl x, t) \<Rightarrow> (Inl x, s)
   | (Inr y, t) \<Rightarrow> (Inr y, t))"

section \<open>Operations\<close>

definition sqlite_id :: "string \<Rightarrow> string" where
  "sqlite_id uuid = ''eff_'' @ uuid"

definition sql_new_record ::
  "tenant_key_provider \<Rightarrow> env \<Rightarrow> string \<Rightarrow> effect_request \<Rightarrow> effect_contract \<Rightarrow> string \<Rightarrow> effect_record" where
  "sql_new_record tenant_key e tenant req c digest =
     \<lparr>effect_id = sqlite_id (env_uuid e), tenant_id = tenant, request = req, req_hash = digest,
      down_key = downstream_key (tenant_key tenant) tenant (operation_key req),
      contract = c, status = PREPARED, version = 0, created_at = env_now e, updated_at = env_now e\<rparr>"

text \<open>The statement in the \<open>try\<close>; \<open>False\<close> is the \<open>IntegrityError\<close> that the code handles.\<close>

definition try_insert :: "effect_record \<Rightarrow> (sqlite_db, error, bool) prog" where
  "try_insert r = on_error
     (case record_params r of
        Inl x \<Rightarrow> throw x
      | Inr row \<Rightarrow> and_then (insert_effect row) (\<lambda>_. ret True))
     (\<lambda>x. if x = integrity_error then ret False else throw x)"

definition sql_reserve :: "tenant_key_provider \<Rightarrow> env \<Rightarrow> string \<Rightarrow> effect_request \<Rightarrow> effect_contract
    \<Rightarrow> (sqlite_db, error, reservation) prog" where
  "sql_reserve tenant_key e tenant req c = (\<lambda>s.
     case request_hash (tool req) (arguments req) (contract_name c) (contract_version c) of
       Inl x \<Rightarrow> (Inl x, s)
     | Inr digest \<Rightarrow>
       let r = sql_new_record tenant_key e tenant req c digest
       in transaction
            (and_then (try_insert r) (\<lambda>inserted.
             if \<not> inserted then
               and_then (select_by_identity tenant (operation_key req)) (\<lambda>found. case found of
                 None \<Rightarrow> throw integrity_error
               | Some existing \<Rightarrow>
                   if req_hash existing \<noteq> digest
                   then throw (PayloadConflictError (operation_key req) (req_hash existing) digest)
                   else ret \<lparr>res_effect = existing, created = False, replayed = True\<rparr>)
             else
               and_then
                 (sql_append_event (effect_id r) ''reserved'' (version r)
                    [(VStr ''status'', VStr (status_value (status r)))] (env_now e))
                 (\<lambda>_. ret \<lparr>res_effect = r, created = True, replayed = False\<rparr>))) s)"

text \<open>The rows of \<open>SELECT ... WHERE status IN (...) ORDER BY created_at, effect_id\<close>.\<close>

definition row_due :: "effect_row \<Rightarrow> bool" where
  "row_due row \<longleftrightarrow> row_status row \<in> {status_value PREPARED, status_value RETRYABLE}"

definition row_order :: "effect_row \<Rightarrow> string \<times> string" where
  "row_order row = (row_created row, row_id row)"

definition due_rows :: "sqlite_db \<Rightarrow> effect_row list" where
  "due_rows s = sort_key row_order (filter row_due (effects_table s))"

definition claim_columns :: "string \<Rightarrow> time \<Rightarrow> time \<Rightarrow> effect_row \<Rightarrow> effect_row" where
  "claim_columns w until now row = row\<lparr>row_worker := Some w, row_lease_worker := Some w,
     row_lease_until := Some (isoformat until), row_version := row_version row + 1,
     row_updated := isoformat now\<rparr>"

definition sql_claimed_data :: "string \<Rightarrow> time \<Rightarrow> json_object" where
  "sql_claimed_data w until =
     [(VStr ''worker_id'', VStr w), (VStr ''lease_expires_at'', VStr (isoformat until))]"

definition claim_row :: "string \<Rightarrow> time \<Rightarrow> time \<Rightarrow> effect_row \<Rightarrow> (sqlite_db, error, effect_record) prog" where
  "claim_row w until now row =
     and_then (update_effects (\<lambda>x. row_id x = row_id row) (claim_columns w until now)) (\<lambda>_.
     and_then (select_by_effect_id (row_id row)) (\<lambda>found. case found of
       None \<Rightarrow> throw (UnknownEffectError (row_id row))
     | Some updated \<Rightarrow>
         and_then (sql_append_event (effect_id updated) ''claimed'' (version updated)
             (sql_claimed_data w until) now)
           (\<lambda>_. ret updated)))"

fun sql_claim_loop :: "string \<Rightarrow> time \<Rightarrow> time \<Rightarrow> int \<Rightarrow> effect_row list \<Rightarrow> effect_record list
    \<Rightarrow> (sqlite_db, error, effect_record list) prog" where
  "sql_claim_loop w until now lim [] claimed = ret claimed"
| "sql_claim_loop w until now lim (row # rows) claimed =
     (if int (length claimed) \<ge> lim then ret claimed
      else case row_lease_until row of
        None \<Rightarrow> and_then (claim_row w until now row)
          (\<lambda>r. sql_claim_loop w until now lim rows (claimed @ [r]))
      | Some lease_text \<Rightarrow> (case parse_time lease_text of
          None \<Rightarrow> throw (PyError ''ValueError'')
        | Some lease_time \<Rightarrow>
            if lease_time > now then sql_claim_loop w until now lim rows claimed
            else and_then (claim_row w until now row)
              (\<lambda>r. sql_claim_loop w until now lim rows (claimed @ [r]))))"

definition sql_claim_due :: "string \<Rightarrow> time \<Rightarrow> timedelta \<Rightarrow> int
    \<Rightarrow> (sqlite_db, error, effect_record list) prog" where
  "sql_claim_due w now lease_for lim = (\<lambda>s.
     if lim \<le> 0 then (Inr [], s)
     else transaction (\<lambda>s. sql_claim_loop w (now + lease_for) now lim (due_rows s) [] s) s)"

definition sql_attempt_data :: "string \<Rightarrow> nat \<Rightarrow> string \<Rightarrow> json_object" where
  "sql_attempt_data aid ord w = [(VStr ''attempt_id'', VStr aid), (VStr ''ordinal'', VInt (int ord)),
     (VStr ''worker_id'', VStr w)]"

definition sql_attempt_count :: "string \<Rightarrow> sqlite_db \<Rightarrow> nat" where
  "sql_attempt_count eid s = length (filter (\<lambda>a. ar_effect a = eid) (attempts_table s))"

definition sql_start_attempt :: "env \<Rightarrow> string \<Rightarrow> int \<Rightarrow> string \<Rightarrow> (sqlite_db, error, string) prog" where
  "sql_start_attempt e eid expected w = transaction
     (and_then (sql_record_for_version eid expected) (\<lambda>r s.
        let ord = sql_attempt_count eid s + 1;
            aid = eid @ ''-attempt-'' @ nat_text ord
        in and_then
             (insert_attempt \<lparr>ar_id = aid, ar_effect = eid, ar_ordinal = int ord, ar_worker = w,
                ar_version = expected, ar_started = isoformat (env_now e)\<rparr>)
             (\<lambda>_. and_then
                (sql_append_event eid ''attempt_started'' (version r) (sql_attempt_data aid ord w) (env_now e))
                (\<lambda>_. ret aid)) s))"

definition transition_columns :: "effect_status \<Rightarrow> time \<Rightarrow> effect_row \<Rightarrow> effect_row" where
  "transition_columns goal now row = row\<lparr>row_status := status_value goal, row_version := row_version row + 1,
     row_updated := isoformat now, row_worker := None, row_lease_worker := None, row_lease_until := None\<rparr>"

definition sql_transition_data :: "effect_status \<Rightarrow> effect_status \<Rightarrow> json_object \<Rightarrow> json_object" where
  "sql_transition_data old new d = [(VStr ''from'', VStr (status_value old)),
     (VStr ''to'', VStr (status_value new)), (VStr ''metadata'', VDict d)]"

definition sql_transition :: "env \<Rightarrow> string \<Rightarrow> int \<Rightarrow> effect_status \<Rightarrow> json_object
    \<Rightarrow> (sqlite_db, error, effect_record) prog" where
  "sql_transition e eid expected goal d = transaction
     (and_then (sql_record_for_version eid expected) (\<lambda>r.
      case assert_transition (status r) goal of
        Inl x \<Rightarrow> throw x
      | Inr _ \<Rightarrow>
          and_then (update_effects (\<lambda>row. row_id row = eid \<and> row_version row = expected)
              (transition_columns goal (env_now e))) (\<lambda>rowcount.
          if rowcount = 0 then throw (VersionConflictError eid)
          else
            and_then (select_by_effect_id eid) (\<lambda>found. case found of
              None \<Rightarrow> throw (UnknownEffectError eid)
            | Some updated \<Rightarrow>
                and_then
                  (sql_append_event eid ''transition'' (version updated)
                     (sql_transition_data (status r) goal d) (env_now e))
                  (\<lambda>_. ret updated)))))"

definition sql_get :: "string \<Rightarrow> string \<Rightarrow> sqlite_db \<Rightarrow> error + effect_record option" where
  "sql_get tenant eid s = fst (select_record (\<lambda>row. row_tenant row = tenant \<and> row_id row = eid) s)"

text \<open>\<open>LIMIT ? OFFSET ?\<close>: a negative limit is no limit, a negative offset is none.\<close>

definition limit_offset :: "int \<Rightarrow> int \<Rightarrow> 'a list \<Rightarrow> 'a list" where
  "limit_offset lim offset xs = (let ys = drop (nat offset) xs in if lim < 0 then ys else take (nat lim) ys)"

fun rows_to_records :: "effect_row list \<Rightarrow> error + effect_record list" where
  "rows_to_records [] = Inr []"
| "rows_to_records (row # rows) = (case row_to_record row of
     Inl x \<Rightarrow> Inl x
   | Inr r \<Rightarrow> (case rows_to_records rows of Inl x \<Rightarrow> Inl x | Inr rs \<Rightarrow> Inr (r # rs)))"

definition sql_list :: "string \<Rightarrow> effect_status option \<Rightarrow> int \<Rightarrow> int \<Rightarrow> sqlite_db
    \<Rightarrow> error + effect_record list" where
  "sql_list tenant st lim offset s = rows_to_records (limit_offset lim offset
     (sort_key row_order (filter (\<lambda>row. row_tenant row = tenant
        \<and> (case st of None \<Rightarrow> True | Some x \<Rightarrow> row_status row = status_value x)) (effects_table s))))"

text \<open>The loop of \<open>receipt\<close>, over the transitions of the effect from the latest on.\<close>

fun sql_find_success :: "event_row list \<Rightarrow> error + (event_row \<times> json_object) option" where
  "sql_find_success [] = Inr None"
| "sql_find_success (ev # evs) = (case json_loads (er_data ev) of
     Inl x \<Rightarrow> Inl x
   | Inr v \<Rightarrow>
       if dict_get (object_items v) ''to'' \<noteq> Some (VStr (status_value SUCCEEDED)) then sql_find_success evs
       else Inr (Some (ev, (case dict_get (object_items v) ''metadata'' of
          None \<Rightarrow> [] | Some m \<Rightarrow> object_items m))))"

definition sql_receipt :: "string \<Rightarrow> string \<Rightarrow> sqlite_db \<Rightarrow> error + json_object option" where
  "sql_receipt tenant eid s = (case sql_get tenant eid s of
     Inl x \<Rightarrow> Inl x
   | Inr None \<Rightarrow> Inr None
   | Inr (Some r) \<Rightarrow>
       (case sql_find_success (rev (sort_key er_sequence
           (filter (\<lambda>ev. er_effect ev = eid \<and> er_type ev = ''transition'') (events_table s)))) of
          Inl x \<Rightarrow> Inl x
        | Inr None \<Rightarrow> Inr None
        | Inr (Some (ev, metadata)) \<Rightarrow> Inr (Some
            [(VStr ''effect_id'', VStr eid),
             (VStr ''status'', VStr (status_value SUCCEEDED)),
             (VStr ''contract'', VStr (contract_name (contract r))),
             (VStr ''contract_version'', VStr (contract_version (contract r))),
             (VStr ''downstream_key'', VStr (down_key r)),
             (VStr ''metadata'', VDict metadata),
             (VStr ''recorded_at'', VStr (er_at ev))])))"

record sqlite_event =
  se_effect :: string
  se_sequence :: int
  se_type :: string
  se_version :: int
  se_at :: time
  se_data :: pyval

definition event_of_row :: "event_row \<Rightarrow> error + sqlite_event" where
  "event_of_row row = (case parse_time (er_at row) of
     None \<Rightarrow> Inl (PyError ''ValueError'')
   | Some at \<Rightarrow> (case json_loads (er_data row) of
       Inl x \<Rightarrow> Inl x
     | Inr v \<Rightarrow> Inr \<lparr>se_effect = er_effect row, se_sequence = er_sequence row, se_type = er_type row,
         se_version = er_version row, se_at = at, se_data = v\<rparr>))"

fun events_of_rows :: "event_row list \<Rightarrow> error + sqlite_event list" where
  "events_of_rows [] = Inr []"
| "events_of_rows (row # rows) = (case event_of_row row of
     Inl x \<Rightarrow> Inl x
   | Inr ev \<Rightarrow> (case events_of_rows rows of Inl x \<Rightarrow> Inl x | Inr evs \<Rightarrow> Inr (ev # evs)))"

definition sql_events :: "string \<Rightarrow> sqlite_db \<Rightarrow> error + sqlite_event list" where
  "sql_events eid s =
     events_of_rows (sort_key er_sequence (filter (\<lambda>ev. er_effect ev = eid) (events_table s)))"

definition sql_count :: "sqlite_db \<Rightarrow> nat" where
  "sql_count s = length (effects_table s)"

text \<open>
  The ledger the broker sees. The reading operations of the protocol return values; those of this store
  raise when a stored row does not decode, which the invariant of \<open>Sqlite_Laws\<close> excludes, so that the
  default of \<open>or_else\<close> is never used.
\<close>

definition or_else :: "'a \<Rightarrow> error + 'a \<Rightarrow> 'a" where
  "or_else dflt x = (case x of Inl _ \<Rightarrow> dflt | Inr y \<Rightarrow> y)"

definition sqlite_ops :: "tenant_key_provider \<Rightarrow> sqlite_db store_ops" where
  "sqlite_ops tenant_key = \<lparr>reserve_op = sql_reserve tenant_key, claim_op = sql_claim_due,
     start_op = sql_start_attempt, transition_op = sql_transition,
     get_op = \<lambda>tenant eid s. or_else None (sql_get tenant eid s),
     list_op = \<lambda>tenant st lim offset s. or_else [] (sql_list tenant st lim offset s),
     receipt_op = \<lambda>tenant eid s. or_else None (sql_receipt tenant eid s)\<rparr>"

end
