(* ===== verification/Tables.thy ===== *)
theory Tables
  imports Store_Api
begin

text \<open>
  Facts on tables kept as lists of rows, shared by the durable ledgers: keys, gapless numbers and the
  replacement of one row.
\<close>

section \<open>Keys\<close>

lemma find_unique:
  "distinct (map f xs) \<Longrightarrow> x \<in> set xs \<Longrightarrow> find (\<lambda>y. f y = f x) xs = Some x"
  by (induction xs) force+

lemma find_key: "find (\<lambda>y. f y = k) xs = Some x \<Longrightarrow> x \<in> set xs \<and> f x = k"
  by (auto simp: find_Some_iff)

lemma find_no_key: "find (\<lambda>y. f y = k) xs = None \<longleftrightarrow> k \<notin> f ` set xs"
  by (auto simp: find_None_iff)

lemma same_key: "distinct (map f xs) \<Longrightarrow> x \<in> set xs \<Longrightarrow> y \<in> set xs \<Longrightarrow> f x = f y \<Longrightarrow> x = y"
  by (auto simp: distinct_map dest: inj_onD)

lemma status_of_Some: "status_of t = Some s \<Longrightarrow> status_value s = t"
  by (auto simp: status_of_def find_Some_iff)

section \<open>Gapless numbers\<close>

definition gapless :: "int list \<Rightarrow> bool" where
  "gapless ns \<longleftrightarrow> ns = map int [1..<Suc (length ns)]"

lemma gapless_snoc: "gapless ns \<Longrightarrow> gapless (ns @ [int (length ns) + 1])"
  by (simp add: gapless_def)

lemma gapless_bound: "gapless ns \<Longrightarrow> n \<in> set ns \<Longrightarrow> n \<le> int (length ns)"
proof -
  assume "gapless ns" "n \<in> set ns"
  then have "n \<in> set (map int [1..<Suc (length ns)])" by (simp only: gapless_def)
  then show ?thesis by auto
qed

lemma gapless_Max:
  assumes "gapless ns"
  shows "(if ns = [] then 0 else Max (set ns)) = int (length ns)"
proof (cases "ns = []")
  case False
  have "set ns = int ` {1..length ns}"
    using arg_cong [OF assms [unfolded gapless_def], of set]
    by (simp only: set_map set_upt atLeastLessThanSuc_atLeastAtMost)
  moreover have "Max (int ` {1..length ns}) = int (Max {1..length ns})"
    using False by (intro mono_Max_commute [symmetric]) (auto simp: mono_def Suc_le_eq)
  moreover have "Max {1..length ns} = length ns"
    using False by (intro Max_eqI) (auto simp: Suc_le_eq)
  ultimately show ?thesis using False by simp
qed simp

section \<open>One row replaced\<close>

definition replaced :: "('a \<Rightarrow> string) \<Rightarrow> string \<Rightarrow> ('a \<Rightarrow> 'a) \<Rightarrow> 'a list \<Rightarrow> 'a list" where
  "replaced key k f = map (\<lambda>x. if key x = k then f x else x)"

lemma replaced_keys:
  assumes "\<And>x. g (f x) = g x"
  shows "map g (replaced key k f xs) = map g xs"
  by (simp add: replaced_def assms)

lemma replaced_image: "(\<And>x. g (f x) = g x) \<Longrightarrow> g ` set (replaced key k f xs) = g ` set xs"
  using replaced_keys [of g f key k xs] by (metis set_map)

lemma replaced_find:
  assumes "\<And>x. key (f x) = key x"
  shows "find (\<lambda>x. key x = i) (replaced key k f xs)
    = map_option (\<lambda>x. if key x = k then f x else x) (find (\<lambda>x. key x = i) xs)"
  by (induction xs) (auto simp: assms replaced_def)

lemma filter_unique:
  assumes "distinct (map key xs)" and "x \<in> set xs"
  shows "filter (\<lambda>y. key y = key x) xs = [x]"
  using assms by (induction xs) (auto simp: filter_empty_conv image_iff)

section \<open>Attempts: the names of different effects never meet\<close>

lemma attempt_name_inj2: "attempt_name e m = attempt_name e' n \<longleftrightarrow> e = e' \<and> m = n"
proof
  assume "attempt_name e m = attempt_name e' n"
  then have "(e @ ''-attempt'') @ CHR ''-'' # nat_text m = (e' @ ''-attempt'') @ CHR ''-'' # nat_text n"
    by (simp add: attempt_name_def)
  from arg_cong [OF this, of "rsplit1 (CHR ''-'')"]
  have "Some (e @ ''-attempt'', nat_text m) = Some (e' @ ''-attempt'', nat_text n)"
    unfolding rsplit1_append [OF minus_notin_nat_text] .
  then show "e = e' \<and> m = n" by simp
qed simp

section \<open>Calls and their exceptions\<close>

definition raised :: "error + 'a \<Rightarrow> error option" where
  "raised x = (case x of Inl err \<Rightarrow> Some err | Inr _ \<Rightarrow> None)"

lemma raised_Some: "raised x = Some err \<longleftrightarrow> x = Inl err"
  by (cases x) (simp_all add: raised_def)

text \<open>Arguments that hash are JSON.\<close>

lemma hashed_arguments:
  assumes "wf_request req" and "request_hash (tool req) (arguments req) name ver = Inr digest"
  shows "encodable (VDict (arguments req))"
proof -
  have "\<exists>t. canonical_json (fingerprint_payload (tool req) (arguments req) name ver) = Inr t"
    using assms(2) by (auto simp: request_hash_def split: sum.splits)
  then show ?thesis using assms(1)
    by (simp add: canonical_json_Inr fingerprint_payload_def wf_request_def encodable_def)
qed

end
