(* ===== verification/Sqlite_Laws.thy ===== *)
theory Sqlite_Laws
  imports Sqlite_Store Tables Process_Refinement
begin

text \<open>
  The SQLite ledger keeps its invariant and is an \<open>effect_store\<close>. \<open>sql_ok\<close> says what the database
  holds between transactions: unique ids and identities, rows that decode, and for every effect attempts
  and events numbered from one. \<open>sql_look\<close> and \<open>sql_attempt_count\<close> are the view the process has of it.
\<close>

section \<open>The invariant and the view\<close>

definition row_ok :: "effect_row \<Rightarrow> bool" where
  "row_ok row \<longleftrightarrow> \<not> isl (row_to_record row)
     \<and> (case row_lease_until row of None \<Rightarrow> True | Some t \<Rightarrow> parse_time t \<noteq> None)"

definition row_identity :: "effect_row \<Rightarrow> string \<times> string" where
  "row_identity row = (row_tenant row, row_key row)"

definition attempts_ok :: "sqlite_db \<Rightarrow> bool" where
  "attempts_ok s \<longleftrightarrow> (\<forall>a \<in> set (attempts_table s).
       ar_effect a \<in> row_id ` set (effects_table s) \<and> ar_id a = attempt_name (ar_effect a) (nat (ar_ordinal a)))
     \<and> (\<forall>eid. gapless (map ar_ordinal (filter (\<lambda>a. ar_effect a = eid) (attempts_table s))))"

definition events_ok :: "sqlite_db \<Rightarrow> bool" where
  "events_ok s \<longleftrightarrow> (\<forall>eid. gapless (map er_sequence (filter (\<lambda>ev. er_effect ev = eid) (events_table s))))"

definition sql_ok :: "sqlite_db \<Rightarrow> bool" where
  "sql_ok s \<longleftrightarrow> distinct (map row_id (effects_table s)) \<and> distinct (map row_identity (effects_table s))
     \<and> (\<forall>row \<in> set (effects_table s). row_ok row) \<and> attempts_ok s \<and> events_ok s"

definition sql_look :: "sqlite_db \<Rightarrow> string \<Rightarrow> effect_record option" where
  "sql_look s eid = (case find (\<lambda>row. row_id row = eid) (effects_table s) of
     None \<Rightarrow> None
   | Some row \<Rightarrow> (case row_to_record row of Inl _ \<Rightarrow> None | Inr r \<Rightarrow> Some r))"

definition sql_accepts :: "json_object \<Rightarrow> bool" where
  "sql_accepts d \<longleftrightarrow> \<not> isl (canonical_json (VDict d))"

text \<open>What the columns keep of a contract and of a record.\<close>

definition sql_pin :: "effect_contract \<Rightarrow> effect_contract" where
  "sql_pin c = c\<lparr>key_retention := seconds_to_duration (duration_seconds (key_retention c)),
     settlement_bound := seconds_to_duration (duration_seconds (settlement_bound c))\<rparr>"

definition sql_saved :: "effect_record \<Rightarrow> effect_record" where
  "sql_saved r = r\<lparr>request := (request r)\<lparr>arguments := object_items (restored (VDict (arguments (request r))))\<rparr>,
     contract := sql_pin (contract r)\<rparr>"

lemma sql_ok_empty: "sql_ok empty_db"
  by (simp add: sql_ok_def empty_db_def attempts_ok_def events_ok_def gapless_def)

section \<open>Rows\<close>

lemma row_to_record_Inr:
  assumes "row_to_record row = Inr r"
  shows "effect_id r = row_id row" "tenant_id r = row_tenant row" "operation_key (request r) = row_key row"
    "req_hash r = row_hash row" "version r = row_version row" "row_status row = status_value (status r)"
    "Some (created_at r) = parse_time (row_created row)"
  using assms by (auto simp: row_to_record_def status_of_Some split: sum.splits option.splits)

lemma row_okE:
  assumes "row_ok row"
  obtains r where "row_to_record row = Inr r"
  using assms by (cases "row_to_record row") (auto simp: row_ok_def)

lemma row_claimed:
  "row_to_record row = Inr r \<Longrightarrow> row_to_record (claim_columns w until now row) = Inr (claim_record r now)"
  by (auto simp: row_to_record_def claim_columns_def claim_record_def parse_isoformat split: sum.splits option.splits)

lemma row_advanced:
  "row_to_record row = Inr r \<Longrightarrow> row_to_record (transition_columns goal now row) = Inr (advance r goal now)"
  by (auto simp: row_to_record_def transition_columns_def advance_def parse_isoformat split: sum.splits option.splits)

lemma columns_keep [simp]:
  "row_id (claim_columns w until now row) = row_id row"
  "row_identity (claim_columns w until now row) = row_identity row"
  "row_id (transition_columns goal now row) = row_id row"
  "row_identity (transition_columns goal now row) = row_identity row"
  by (simp_all add: claim_columns_def transition_columns_def row_identity_def)

lemma row_ok_claimed: "row_ok row \<Longrightarrow> row_ok (claim_columns w until now row)"
  by (erule row_okE) (simp add: row_ok_def row_claimed, simp add: claim_columns_def parse_isoformat)

lemma row_ok_advanced: "row_ok row \<Longrightarrow> row_ok (transition_columns goal now row)"
  by (erule row_okE) (simp add: row_ok_def row_advanced, simp add: transition_columns_def)

text \<open>The columns of a record decode to the saved record.\<close>

lemma restored_object: "VDict (object_items (restored (VDict d))) = restored (VDict d)"
  by (simp add: object_items_def)

lemma record_params_decodes:
  assumes "encodable (VDict (arguments (request r)))"
  obtains row where "record_params r = Inr row" "row_to_record row = Inr (sql_saved r)" "row_ok row"
    "row_id row = effect_id r" "row_identity row = (tenant_id r, operation_key (request r))"
proof -
  let ?args = "VDict (arguments (request r))"
  from canonical_json_encodable [OF assms] obtain row where row: "record_params r = Inr row"
    "row_arguments row = text_of ?args" by (auto simp: record_params_def)
  with json_loads_text [OF assms] have "row_to_record row = Inr (sql_saved r)"
    using canonical_json_encodable [OF assms]
    by (auto simp: record_params_def row_to_record_def sql_saved_def sql_pin_def parse_isoformat object_items_def)
  moreover have "row_lease_until row = None" "row_id row = effect_id r"
    "row_identity row = (tenant_id r, operation_key (request r))"
    using row(1) canonical_json_encodable [OF assms] by (auto simp: record_params_def row_identity_def)
  ultimately show thesis using row(1) by (intro that [of row]) (simp_all add: row_ok_def)
qed

section \<open>Reading\<close>

lemma sql_look_row:
  assumes "sql_ok s" and "row \<in> set (effects_table s)" and "row_to_record row = Inr r"
  shows "sql_look s (row_id row) = Some r"
  using find_unique [of row_id, OF _ assms(2)] assms(1,3) by (simp add: sql_ok_def sql_look_def)

lemma sql_look_SomeE:
  assumes "sql_look s eid = Some r"
  obtains row where "row \<in> set (effects_table s)" "row_id row = eid" "row_to_record row = Inr r"
    "find (\<lambda>row. row_id row = eid) (effects_table s) = Some row"
  using assms by (auto simp: sql_look_def split: option.splits sum.splits dest!: find_key)

lemma sql_look_None:
  assumes "sql_ok s"
  shows "sql_look s eid = None \<longleftrightarrow> eid \<notin> row_id ` set (effects_table s)"
proof
  assume none: "sql_look s eid = None"
  show "eid \<notin> row_id ` set (effects_table s)"
  proof
    assume "eid \<in> row_id ` set (effects_table s)"
    then obtain row where row: "row \<in> set (effects_table s)" "eid = row_id row" by blast
    then have "row_ok row" using assms by (simp add: sql_ok_def)
    then obtain r where "row_to_record row = Inr r" by (rule row_okE)
    from sql_look_row [OF assms row(1) this] none row(2) show False by simp
  qed
next
  assume "eid \<notin> row_id ` set (effects_table s)"
  then show "sql_look s eid = None" by (simp add: sql_look_def find_no_key [THEN iffD2])
qed

lemma sql_look_cong: "effects_table t = effects_table s \<Longrightarrow> sql_look t = sql_look s"
  by (simp add: sql_look_def fun_eq_iff)

lemma select_by_effect_id_run:
  assumes "sql_ok s"
  shows "select_by_effect_id eid s = (Inr (sql_look s eid), s)"
proof (cases "find (\<lambda>row. row_id row = eid) (effects_table s)")
  case (Some row)
  then have "row_ok row" using assms find_key [OF Some] by (simp add: sql_ok_def)
  then obtain r where "row_to_record row = Inr r" by (rule row_okE)
  with Some show ?thesis by (simp add: select_by_effect_id_def select_record_def sql_look_def)
qed (simp add: select_by_effect_id_def select_record_def sql_look_def)

lemma record_for_version_run:
  assumes "sql_ok s"
  shows "sql_record_for_version eid v s = (case sql_look s eid of
      None \<Rightarrow> (Inl (UnknownEffectError eid), s)
    | Some r \<Rightarrow> if version r \<noteq> v then (Inl (VersionConflictError eid), s) else (Inr r, s))"
  by (simp add: sql_record_for_version_def and_then_def select_by_effect_id_run [OF assms] split: option.split)

lemma sql_look_id: "sql_ok s \<Longrightarrow> sql_look s eid = Some r \<Longrightarrow> effect_id r = eid"
  by (erule sql_look_SomeE) (simp add: row_to_record_Inr)

lemma sql_tries_none:
  assumes "sql_ok s" and "sql_look s eid = None"
  shows "sql_attempt_count eid s = 0"
proof -
  from assms sql_look_None have "eid \<notin> row_id ` set (effects_table s)" by simp
  moreover have "\<forall>a \<in> set (attempts_table s). ar_effect a \<in> row_id ` set (effects_table s)"
    using assms(1) by (simp add: sql_ok_def attempts_ok_def)
  ultimately show ?thesis by (auto simp: sql_attempt_count_def filter_empty_conv)
qed

section \<open>Writing\<close>

text \<open>An event appended to the log of a known effect.\<close>

lemma sql_append_event_run:
  assumes "sql_ok s" and "eid \<in> row_id ` set (effects_table s)" and "canonical_json (VDict d) = Inr tx"
  obtains t ev where "sql_append_event eid ty v d at s = (Inr (), t)" "sql_ok t"
    "effects_table t = effects_table s" "attempts_table t = attempts_table s"
    "events_table t = events_table s @ [ev]" "er_effect ev = eid" "er_type ev = ty" "er_data ev = tx"
    "er_at ev = isoformat at"
proof -
  let ?n = "int (length (filter (\<lambda>x. er_effect x = eid) (events_table s))) + 1"
  let ?ev = "\<lparr>er_effect = eid, er_sequence = ?n, er_type = ty, er_version = v, er_at = isoformat at, er_data = tx\<rparr>"
  let ?t = "s\<lparr>events_table := events_table s @ [?ev]\<rparr>"
  have num: "gapless (map er_sequence (filter (\<lambda>x. er_effect x = i) (events_table s)))" for i
    using assms(1) by (simp add: sql_ok_def events_ok_def)
  have fresh: "\<not> (er_effect x = eid \<and> er_sequence x = ?n)" if "x \<in> set (events_table s)" for x
  proof
    assume x: "er_effect x = eid \<and> er_sequence x = ?n"
    have "er_sequence x \<in> set (map er_sequence (filter (\<lambda>x. er_effect x = eid) (events_table s)))"
      unfolding set_map by (rule imageI) (use that conjunct1 [OF x] in simp)
    from gapless_bound [OF num this] x show False by simp
  qed
  then have "sql_append_event eid ty v d at s = (Inr (), ?t)"
    using assms(2,3) by (auto simp: sql_append_event_def Let_def insert_event_def)
  moreover have "sql_ok ?t"
  proof -
    have "gapless (map er_sequence (filter (\<lambda>x. er_effect x = i) (events_table ?t)))" for i
      using num [of i] gapless_snoc [OF num [of eid]] by (cases "i = eid") auto
    then show ?thesis using assms(1) by (simp add: sql_ok_def events_ok_def attempts_ok_def)
  qed
  ultimately show thesis by (rule that [of ?t ?ev]) simp_all
qed

lemma sql_append_event_refused:
  "canonical_json (VDict d) = Inl x \<Longrightarrow> sql_append_event eid ty v d at s = (Inl x, s)"
  by (simp add: sql_append_event_def Let_def)

text \<open>One row replaced by another with the same keys.\<close>

definition replace_row :: "string \<Rightarrow> (effect_row \<Rightarrow> effect_row) \<Rightarrow> sqlite_db \<Rightarrow> sqlite_db" where
  "replace_row eid f s =
     s\<lparr>effects_table := map (\<lambda>row. if row_id row = eid then f row else row) (effects_table s)\<rparr>"

lemma replace_row_ok:
  assumes ok: "sql_ok s" and keep: "\<And>row. row_id (f row) = row_id row" "\<And>row. row_identity (f row) = row_identity row"
    and good: "\<And>row. row_ok row \<Longrightarrow> row_ok (f row)"
  shows "sql_ok (replace_row eid f s)"
proof -
  have ids: "map row_id (effects_table (replace_row eid f s)) = map row_id (effects_table s)"
    "map row_identity (effects_table (replace_row eid f s)) = map row_identity (effects_table s)"
    by (simp_all add: replace_row_def keep)
  then have "row_id ` set (effects_table (replace_row eid f s)) = row_id ` set (effects_table s)"
    by (metis set_map)
  then have "attempts_ok (replace_row eid f s) = attempts_ok s" "events_ok (replace_row eid f s) = events_ok s"
    by (simp_all add: attempts_ok_def events_ok_def replace_row_def)
  moreover have "\<forall>row \<in> set (effects_table (replace_row eid f s)). row_ok row"
    using ok good by (auto simp: sql_ok_def replace_row_def)
  ultimately show ?thesis using ok ids by (simp add: sql_ok_def)
qed

lemma find_replaced:
  assumes "\<And>row. row_id (f row) = row_id row"
  shows "find (\<lambda>row. row_id row = i) (map (\<lambda>row. if row_id row = eid then f row else row) xs)
    = map_option (\<lambda>row. if row_id row = eid then f row else row) (find (\<lambda>row. row_id row = i) xs)"
  by (induction xs) (auto simp: assms)

lemma replace_row_look:
  assumes "sql_ok s" and "\<And>row. row_id (f row) = row_id row" and "sql_look s eid = Some r"
    and "\<And>row. row_to_record row = Inr r \<Longrightarrow> row_to_record (f row) = Inr r'"
  shows "sql_look (replace_row eid f s) = (sql_look s)(eid \<mapsto> r')"
proof
  fix i
  from assms(3) obtain row where row: "row_id row = eid" "row_to_record row = Inr r"
    "find (\<lambda>row. row_id row = eid) (effects_table s) = Some row" by (rule sql_look_SomeE)
  show "sql_look (replace_row eid f s) i = ((sql_look s)(eid \<mapsto> r')) i"
  proof (cases "i = eid")
    case True
    with row assms(4) [OF row(2)] show ?thesis by (simp add: sql_look_def replace_row_def find_replaced assms(2))
  next
    case False
    then show ?thesis
      by (auto simp: sql_look_def replace_row_def find_replaced assms(2) split: option.split dest!: find_key)
  qed
qed

lemma replace_row_ids:
  assumes "\<And>row. row_id (f row) = row_id row"
  shows "row_id ` set (effects_table (replace_row eid f s)) = row_id ` set (effects_table s)"
proof -
  have "map row_id (effects_table (replace_row eid f s)) = map row_id (effects_table s)"
    by (simp add: replace_row_def assms)
  then show ?thesis by (metis set_map)
qed

lemma replace_row_tables [simp]:
  "attempts_table (replace_row eid f s) = attempts_table s"
  "events_table (replace_row eid f s) = events_table s"
  "sql_attempt_count i (replace_row eid f s) = sql_attempt_count i s"
  by (simp_all add: replace_row_def sql_attempt_count_def)

text \<open>The guarded \<open>UPDATE\<close> of a transition changes the one row the code has read.\<close>

lemma guarded_update:
  assumes ok: "sql_ok s" and "sql_look s eid = Some r" and v: "version r = v"
  shows "update_effects (\<lambda>row. row_id row = eid \<and> row_version row = v) f s = (Inr 1, replace_row eid f s)"
proof -
  from assms(2) obtain row where row: "row \<in> set (effects_table s)" "row_id row = eid" "row_to_record row = Inr r"
    by (rule sql_look_SomeE)
  have dist: "distinct (map row_id (effects_table s))" using ok by (simp add: sql_ok_def)
  have same: "x \<in> set (effects_table s) \<Longrightarrow> row_id x = eid \<longleftrightarrow> x = row" for x
    using same_key [OF dist _ row(1)] row(2) by auto
  have "row_version row = v" using row_to_record_Inr(5) [OF row(3)] v by simp
  with same have "x \<in> set (effects_table s) \<Longrightarrow> (row_id x = eid \<and> row_version x = v) \<longleftrightarrow> x = row" for x by blast
  then have "filter (\<lambda>x. row_id x = eid \<and> row_version x = v) (effects_table s) = filter (\<lambda>x. x = row) (effects_table s)"
    by (rule filter_cong [OF HOL.refl])
  moreover have "length (filter (\<lambda>x. x = row) (effects_table s)) = 1"
    using row(1) dist by (simp add: distinct_map distinct_length_filter Collect_conv_if)
  moreover have "map (\<lambda>x. if row_id x = eid \<and> row_version x = v then f x else x) (effects_table s)
    = map (\<lambda>x. if row_id x = eid then f x else x) (effects_table s)"
    using same \<open>row_version row = v\<close> by (intro map_cong HOL.refl) auto
  ultimately show ?thesis by (simp add: update_effects_def replace_row_def)
qed

section \<open>The operations\<close>

lemma written_data:
  "\<not> isl (canonical_json (VDict (sql_transition_data old new d))) \<longleftrightarrow> sql_accepts d"
  "\<exists>tx. canonical_json (VDict (sql_claimed_data w until)) = Inr tx"
  "\<exists>tx. canonical_json (VDict (sql_attempt_data aid ord w)) = Inr tx"
  "\<exists>tx. canonical_json (VDict [(VStr ''status'', VStr t)]) = Inr tx"
proof -
  have made: "\<not> isl (canonical_json v) \<longleftrightarrow> reproducible v \<and> builtin v" for v
    using canonical_json_Inr [of v] by (cases "canonical_json v") auto
  show "\<not> isl (canonical_json (VDict (sql_transition_data old new d))) \<longleftrightarrow> sql_accepts d"
    by (simp add: made sql_accepts_def sql_transition_data_def)
  show "\<exists>tx. canonical_json (VDict (sql_claimed_data w until)) = Inr tx"
    "\<exists>tx. canonical_json (VDict (sql_attempt_data aid ord w)) = Inr tx"
    "\<exists>tx. canonical_json (VDict [(VStr ''status'', VStr t)]) = Inr tx"
    by (simp_all add: canonical_json_Inr sql_claimed_data_def sql_attempt_data_def)
qed

lemma canonical_json_error: "canonical_json v = Inl x \<Longrightarrow> data_error x"
  using dumps_type_error(1) [of v x] validate_iff(1) [of v "''$''"]
  by (auto simp: canonical_json_def data_error_def split: option.splits)

lemma sql_transition_failed:
  assumes "sql_ok s"
  shows "sql_look s eid = None \<Longrightarrow> sql_transition e eid v goal d s = (Inl (UnknownEffectError eid), s)"
    and "sql_look s eid = Some r \<Longrightarrow> version r \<noteq> v \<Longrightarrow>
      sql_transition e eid v goal d s = (Inl (VersionConflictError eid), s)"
    and "sql_look s eid = Some r \<Longrightarrow> version r = v \<Longrightarrow> \<not> is_allowed (status r) goal \<Longrightarrow>
      sql_transition e eid v goal d s = (Inl (InvalidTransitionError (status r) goal), s)"
  by (simp_all add: sql_transition_def transaction_def and_then_def record_for_version_run [OF assms]
      assert_transition_def)

lemma transition_update:
  assumes ok: "sql_ok s" and look: "sql_look s eid = Some r"
  shows "sql_ok (replace_row eid (transition_columns goal now) s)"
    "sql_look (replace_row eid (transition_columns goal now) s) = (sql_look s)(eid \<mapsto> advance r goal now)"
    "eid \<in> row_id ` set (effects_table (replace_row eid (transition_columns goal now) s))"
proof -
  show "sql_ok (replace_row eid (transition_columns goal now) s)"
    by (rule replace_row_ok [OF ok]) (simp_all add: row_ok_advanced)
  then show "sql_look (replace_row eid (transition_columns goal now) s) = (sql_look s)(eid \<mapsto> advance r goal now)"
    "eid \<in> row_id ` set (effects_table (replace_row eid (transition_columns goal now) s))"
    using sql_look_None [of "replace_row eid (transition_columns goal now) s" eid]
    by (simp_all add: replace_row_look [OF ok _ look row_advanced])
qed

text \<open>A current transition along the graph, up to the writing of its event.\<close>

lemma sql_transition_event:
  assumes ok: "sql_ok s" and look: "sql_look s eid = Some r" and "version r = v" "is_allowed (status r) goal"
  shows "sql_transition e eid v goal d s =
    (case sql_append_event eid ''transition'' (version r + 1) (sql_transition_data (status r) goal d) (env_now e)
        (replace_row eid (transition_columns goal (env_now e)) s) of
      (Inl x, t) \<Rightarrow> (Inl x, s) | (Inr _, t) \<Rightarrow> (Inr (advance r goal (env_now e)), t))"
  by (simp add: sql_transition_def transaction_def and_then_def record_for_version_run [OF ok] look assms(3,4)
      guarded_update [OF ok look assms(3)] select_by_effect_id_run [OF transition_update(1) [OF ok look]]
      transition_update(2) [OF ok look] split: prod.split sum.split)

lemma sql_transition_done:
  assumes ok: "sql_ok s" and look: "sql_look s eid = Some r" and "version r = v" "is_allowed (status r) goal"
    and "sql_accepts d"
  shows "\<exists>t. sql_transition e eid v goal d s = (Inr (advance r goal (env_now e)), t) \<and> sql_ok t
    \<and> sql_look t = (sql_look s)(eid \<mapsto> advance r goal (env_now e))
    \<and> (\<lambda>i. sql_attempt_count i t) = (\<lambda>i. sql_attempt_count i s)"
proof -
  let ?u = "replace_row eid (transition_columns goal (env_now e)) s"
  note u = transition_update [OF ok look, of goal "env_now e"]
  from assms(5) obtain tx where tx: "canonical_json (VDict (sql_transition_data (status r) goal d)) = Inr tx"
    using written_data(1) [of "status r" goal d] by (cases "canonical_json (VDict (sql_transition_data (status r) goal d))") auto
  obtain t where t: "sql_append_event eid ''transition'' (version r + 1) (sql_transition_data (status r) goal d)
      (env_now e) ?u = (Inr (), t)" "sql_ok t" "effects_table t = effects_table ?u" "attempts_table t = attempts_table ?u"
    by (rule sql_append_event_run [OF u(1,3) tx]) blast
  then show ?thesis
    using u(2) sql_look_cong [OF t(3)]
    by (simp add: sql_transition_event [OF assms(1-4)] sql_attempt_count_def fun_eq_iff)
qed

lemma sql_transition_refused:
  assumes "sql_ok s" "sql_look s eid = Some r" "version r = v" "is_allowed (status r) goal" and "\<not> sql_accepts d"
  shows "\<exists>x. sql_transition e eid v goal d s = (Inl x, s) \<and> data_error x"
proof -
  from assms(5) obtain x where x: "canonical_json (VDict (sql_transition_data (status r) goal d)) = Inl x"
    using written_data(1) [of "status r" goal d] by (cases "canonical_json (VDict (sql_transition_data (status r) goal d))") auto
  then show ?thesis
    by (simp add: sql_transition_event [OF assms(1-4)] sql_append_event_refused [OF x] canonical_json_error)
qed

lemma sql_start_failed:
  assumes "sql_ok s"
  shows "sql_look s eid = None \<Longrightarrow> sql_start_attempt e eid v w s = (Inl (UnknownEffectError eid), s)"
    and "sql_look s eid = Some r \<Longrightarrow> version r \<noteq> v \<Longrightarrow>
      sql_start_attempt e eid v w s = (Inl (VersionConflictError eid), s)"
  by (simp_all add: sql_start_attempt_def transaction_def and_then_def record_for_version_run [OF assms])

lemma insert_attempt_run:
  assumes ok: "sql_ok s" and known: "eid \<in> row_id ` set (effects_table s)"
    and a: "ar_effect a = eid" "ar_ordinal a = int (Suc (sql_attempt_count eid s))"
      "ar_id a = attempt_name eid (Suc (sql_attempt_count eid s))"
  shows "insert_attempt a s = (Inr (), s\<lparr>attempts_table := attempts_table s @ [a]\<rparr>)"
    and "sql_ok (s\<lparr>attempts_table := attempts_table s @ [a]\<rparr>)"
proof -
  let ?n = "sql_attempt_count eid s"
  have num: "gapless (map ar_ordinal (filter (\<lambda>x. ar_effect x = i) (attempts_table s)))" for i
    using ok by (simp add: sql_ok_def attempts_ok_def)
  have names: "ar_id x = attempt_name (ar_effect x) (nat (ar_ordinal x))" if "x \<in> set (attempts_table s)" for x
    using ok that by (simp add: sql_ok_def attempts_ok_def)
  have low: "ar_ordinal x \<le> int ?n" if x: "x \<in> set (attempts_table s)" "ar_effect x = eid" for x
  proof -
    have "ar_ordinal x \<in> set (map ar_ordinal (filter (\<lambda>x. ar_effect x = eid) (attempts_table s)))"
      unfolding set_map by (rule imageI) (simp add: x)
    from gapless_bound [OF num this] show ?thesis by (simp add: sql_attempt_count_def)
  qed
  have "\<not> (ar_id x = ar_id a \<or> ar_effect x = ar_effect a \<and> ar_ordinal x = ar_ordinal a)"
    if x: "x \<in> set (attempts_table s)" for x
  proof
    assume "ar_id x = ar_id a \<or> ar_effect x = ar_effect a \<and> ar_ordinal x = ar_ordinal a"
    then have "ar_effect x = eid \<and> int ?n < ar_ordinal x"
      using names [OF x] a by (auto simp: attempt_name_inj2)
    with low [OF x] show False by simp
  qed
  then show "insert_attempt a s = (Inr (), s\<lparr>attempts_table := attempts_table s @ [a]\<rparr>)"
    using known a(1) by (auto simp: insert_attempt_def)
  have "gapless (map ar_ordinal (filter (\<lambda>x. ar_effect x = i) (attempts_table s @ [a])))" for i
    using num [of i] gapless_snoc [OF num [of eid]] a
    by (cases "i = eid") (auto simp: sql_attempt_count_def add.commute)
  then show "sql_ok (s\<lparr>attempts_table := attempts_table s @ [a]\<rparr>)"
    using ok known a by (simp add: sql_ok_def attempts_ok_def events_ok_def nat_add_distrib)
qed

lemma sql_start_done:
  assumes ok: "sql_ok s" and look: "sql_look s eid = Some r" and "version r = v"
  shows "\<exists>t. sql_start_attempt e eid v w s = (Inr (attempt_name eid (Suc (sql_attempt_count eid s))), t)
    \<and> sql_ok t \<and> sql_look t = sql_look s
    \<and> (\<lambda>i. sql_attempt_count i t) = (\<lambda>i. sql_attempt_count i s)(eid := Suc (sql_attempt_count eid s))"
proof -
  let ?n = "Suc (sql_attempt_count eid s)"
  let ?a = "\<lparr>ar_id = attempt_name eid ?n, ar_effect = eid, ar_ordinal = int ?n, ar_worker = w,
    ar_version = v, ar_started = isoformat (env_now e)\<rparr>"
  let ?u = "s\<lparr>attempts_table := attempts_table s @ [?a]\<rparr>"
  have known: "eid \<in> row_id ` set (effects_table s)" using sql_look_None [OF ok, of eid] look by simp
  have ins: "insert_attempt ?a s = (Inr (), ?u)" "sql_ok ?u"
    by (rule insert_attempt_run [OF ok known]; simp)+
  obtain tx where tx: "canonical_json (VDict (sql_attempt_data (attempt_name eid ?n) ?n w)) = Inr tx"
    using written_data(3) by blast
  obtain t where t: "sql_append_event eid ''attempt_started'' (version r)
      (sql_attempt_data (attempt_name eid ?n) ?n w) (env_now e) ?u = (Inr (), t)"
    "sql_ok t" "effects_table t = effects_table ?u" "attempts_table t = attempts_table ?u"
    by (rule sql_append_event_run [OF ins(2) _ tx]) (use known in auto)
  have "sql_start_attempt e eid v w s = (Inr (attempt_name eid ?n), t)"
    using ins(1) t(1)
    by (simp add: sql_start_attempt_def transaction_def and_then_def record_for_version_run [OF ok] look assms(3)
        attempt_name_def)
  moreover have "sql_look t = sql_look s" by (rule sql_look_cong) (simp add: t(3))
  ultimately show ?thesis using t(2,4) by (auto simp: sql_attempt_count_def fun_eq_iff)
qed

section \<open>Claims\<close>

definition row_leased :: "time \<Rightarrow> effect_row \<Rightarrow> bool" where
  "row_leased now row \<longleftrightarrow> (case row_lease_until row of None \<Rightarrow> False
     | Some t \<Rightarrow> (case parse_time t of None \<Rightarrow> False | Some l \<Rightarrow> l > now))"

definition claimed_row :: "time \<Rightarrow> effect_row \<Rightarrow> effect_record" where
  "claimed_row now row = claim_record (projr (row_to_record row)) now"

definition pick_rows :: "time \<Rightarrow> int \<Rightarrow> effect_row list \<Rightarrow> effect_row list" where
  "pick_rows now n rows = take (nat n) (filter (\<lambda>row. \<not> row_leased now row) rows)"

lemma claimed_row_Inr: "row_to_record row = Inr r \<Longrightarrow> claimed_row now row = claim_record r now"
  by (simp add: claimed_row_def)

lemma claim_row_run:
  assumes ok: "sql_ok s" and row: "row \<in> set (effects_table s)"
  obtains t where "claim_row w until now row s = (Inr (claimed_row now row), t)" "sql_ok t"
    "sql_look t = (sql_look s)(row_id row \<mapsto> claimed_row now row)" "attempts_table t = attempts_table s"
    "effects_table t = effects_table (replace_row (row_id row) (claim_columns w until now) s)"
proof -
  let ?u = "replace_row (row_id row) (claim_columns w until now) s"
  from ok row have "row_ok row" by (simp add: sql_ok_def)
  then obtain r where r: "row_to_record row = Inr r" by (rule row_okE)
  note look = sql_look_row [OF ok row r] and id = row_to_record_Inr(1) [OF r]
  have ok': "sql_ok ?u" by (rule replace_row_ok [OF ok]) (simp_all add: row_ok_claimed)
  have look': "sql_look ?u = (sql_look s)(row_id row \<mapsto> claim_record r now)"
    by (rule replace_row_look [OF ok _ look row_claimed]) simp_all
  have known: "row_id row \<in> row_id ` set (effects_table ?u)"
    using row by (subst replace_row_ids) simp_all
  obtain tx where tx: "canonical_json (VDict (sql_claimed_data w until)) = Inr tx"
    using written_data(2) by blast
  obtain t where t: "sql_append_event (row_id row) ''claimed'' (version r + 1) (sql_claimed_data w until) now ?u
      = (Inr (), t)" "sql_ok t" "effects_table t = effects_table ?u" "attempts_table t = attempts_table ?u"
    by (rule sql_append_event_run [OF ok' known tx]) blast
  have "update_effects (\<lambda>x. row_id x = row_id row) (claim_columns w until now) s
      = (Inr (length (filter (\<lambda>x. row_id x = row_id row) (effects_table s))), ?u)"
    by (simp add: update_effects_def replace_row_def)
  then have "claim_row w until now row s = (Inr (claim_record r now), t)"
    using t(1) by (simp add: claim_row_def and_then_def select_by_effect_id_run [OF ok'] look' id)
  then show thesis
    using that t look' sql_look_cong [OF t(3)] by (simp add: claimed_row_Inr [OF r])
qed

text \<open>The table after a claim of some rows.\<close>

definition leased_table :: "string \<Rightarrow> time \<Rightarrow> time \<Rightarrow> string set \<Rightarrow> effect_row list \<Rightarrow> effect_row list" where
  "leased_table w until now ids =
     map (\<lambda>row. if row_id row \<in> ids then claim_columns w until now row else row)"

lemma leased_table_more:
  assumes "effects_table u = effects_table (replace_row i (claim_columns w until now) s)" and "i \<notin> ids"
  shows "leased_table w until now ids (effects_table u) = leased_table w until now (insert i ids) (effects_table s)"
  using assms by (auto simp: leased_table_def replace_row_def)

lemma sql_claim_loop_run:
  assumes "sql_ok s" and "set rows \<subseteq> set (effects_table s)" and "distinct (map row_id rows)"
  shows "\<exists>t. sql_claim_loop w until now lim rows claimed s
      = (Inr (claimed @ map (claimed_row now) (pick_rows now (lim - int (length claimed)) rows)), t)
    \<and> sql_ok t \<and> attempts_table t = attempts_table s
    \<and> effects_table t = leased_table w until now (row_id ` set (pick_rows now (lim - int (length claimed)) rows))
        (effects_table s)
    \<and> sql_look t = sql_look s ++ map_of (map (\<lambda>row. (row_id row, claimed_row now row))
        (pick_rows now (lim - int (length claimed)) rows))"
  using assms
proof (induction rows arbitrary: claimed s)
  case Nil
  then show ?case by (simp add: pick_rows_def leased_table_def)
next
  case (Cons row rows)
  let ?left = "lim - int (length claimed)"
  have row: "row \<in> set (effects_table s)" "row_ok row" using Cons.prems(1,2) by (auto simp: sql_ok_def)
  show ?case
  proof (cases "int (length claimed) \<ge> lim")
    case True
    with Cons.prems(1) show ?thesis by (simp add: pick_rows_def leased_table_def)
  next
    case more: False
    show ?thesis
    proof (cases "row_leased now row")
      case True
      then have "sql_claim_loop w until now lim (row # rows) claimed s = sql_claim_loop w until now lim rows claimed s"
        using more by (auto simp: row_leased_def split: option.splits)
      moreover have "pick_rows now ?left (row # rows) = pick_rows now ?left rows" using True by (simp add: pick_rows_def)
      ultimately show ?thesis using Cons.IH [of s claimed] Cons.prems by simp
    next
      case False
      obtain u where u: "claim_row w until now row s = (Inr (claimed_row now row), u)" "sql_ok u"
        "sql_look u = (sql_look s)(row_id row \<mapsto> claimed_row now row)" "attempts_table u = attempts_table s"
        "effects_table u = effects_table (replace_row (row_id row) (claim_columns w until now) s)"
        by (rule claim_row_run [OF Cons.prems(1) row(1)])
      have step: "sql_claim_loop w until now lim (row # rows) claimed s
          = sql_claim_loop w until now lim rows (claimed @ [claimed_row now row]) u"
        using more False row(2) u(1)
        by (auto simp: row_leased_def row_ok_def and_then_def split: option.splits)
      have sub: "set rows \<subseteq> set (effects_table u)"
      proof
        fix x
        assume x: "x \<in> set rows"
        then have "row_id x \<noteq> row_id row" "x \<in> set (effects_table s)"
          using Cons.prems(2,3) by (auto simp: image_iff)
        then show "x \<in> set (effects_table u)" by (force simp: u(5) replace_row_def)
      qed
      have left: "lim - int (length (claimed @ [claimed_row now row])) = ?left - 1" by simp
      have "distinct (map row_id rows)" using Cons.prems(3) by simp
      from Cons.IH [OF u(2) sub this, of "claimed @ [claimed_row now row]", unfolded left]
      obtain t where t: "sql_claim_loop w until now lim rows (claimed @ [claimed_row now row]) u
          = (Inr (claimed @ claimed_row now row # map (claimed_row now) (pick_rows now (?left - 1) rows)), t)"
        "sql_ok t" "attempts_table t = attempts_table u"
        "effects_table t = leased_table w until now (row_id ` set (pick_rows now (?left - 1) rows)) (effects_table u)"
        "sql_look t = sql_look u ++ map_of (map (\<lambda>row. (row_id row, claimed_row now row)) (pick_rows now (?left - 1) rows))"
        by auto
      have "nat ?left = Suc (nat (?left - 1))" using more by simp
      then have pick: "pick_rows now ?left (row # rows) = row # pick_rows now (?left - 1) rows"
        using False by (simp add: pick_rows_def)
      have apart: "row_id row \<notin> row_id ` set (pick_rows now (?left - 1) rows)"
        using Cons.prems(3) set_take_subset by (fastforce simp: pick_rows_def)
      have table: "effects_table t = leased_table w until now
          (row_id ` set (row # pick_rows now (?left - 1) rows)) (effects_table s)"
        using t(4) leased_table_more [OF u(5) apart] by simp
      from apart have "row_id row \<notin> dom (map_of (map (\<lambda>row. (row_id row, claimed_row now row)) (pick_rows now (?left - 1) rows)))"
        by (simp add: dom_map_of_conv_image_fst image_image)
      from map_add_upd_swap [OF this, of "sql_look s" "claimed_row now row"]
      have "sql_look t = sql_look s ++ map_of (map (\<lambda>row. (row_id row, claimed_row now row))
          (row # pick_rows now (?left - 1) rows))"
        unfolding t(5) u(3) by (simp only: list.map map_of.simps fst_conv snd_conv)
      then show ?thesis unfolding step pick using t(1,2,3) u(4) table
        by (intro exI [of _ t] conjI) (assumption | simp)+
    qed
  qed
qed

lemma due_rows_facts:
  assumes "sql_ok s"
  shows "set (due_rows s) = {row \<in> set (effects_table s). row_due row}" "distinct (map row_id (due_rows s))"
proof -
  show "set (due_rows s) = {row \<in> set (effects_table s). row_due row}" by (auto simp: due_rows_def)
  have "distinct (map row_id (effects_table s))" using assms by (simp add: sql_ok_def)
  then show "distinct (map row_id (due_rows s))"
    by (auto simp: distinct_map due_rows_def intro: inj_on_subset)
qed

text \<open>The batch is the first \<open>limit\<close> due rows without a live lease, oldest first.\<close>

definition sql_batch :: "time \<Rightarrow> int \<Rightarrow> sqlite_db \<Rightarrow> effect_row list" where
  "sql_batch now lim s = pick_rows now lim (due_rows s)"

lemma sql_claim_run:
  assumes ok: "sql_ok s"
  shows "\<exists>t. sql_claim_due w now lf lim s = (Inr (map (claimed_row now) (sql_batch now lim s)), t)
    \<and> sql_ok t \<and> attempts_table t = attempts_table s
    \<and> effects_table t = leased_table w (now + lf) now (row_id ` set (sql_batch now lim s)) (effects_table s)
    \<and> sql_look t = sql_look s ++ map_of (map (\<lambda>row. (row_id row, claimed_row now row)) (sql_batch now lim s))"
proof (cases "lim \<le> 0")
  case True
  with ok show ?thesis by (simp add: sql_claim_due_def sql_batch_def pick_rows_def leased_table_def)
next
  case False
  have "set (due_rows s) \<subseteq> set (effects_table s)" using due_rows_facts(1) [OF ok] by blast
  from sql_claim_loop_run [OF ok this due_rows_facts(2) [OF ok], of w "now + lf" now lim "[]"] False
  show ?thesis by (auto simp: sql_claim_due_def transaction_def sql_batch_def)
qed

lemma sql_batch_rows:
  assumes ok: "sql_ok s"
  shows "set (sql_batch now lim s) \<subseteq> {row \<in> set (effects_table s). row_due row \<and> \<not> row_leased now row}"
    "distinct (map row_id (sql_batch now lim s))" "int (length (sql_batch now lim s)) \<le> max 0 lim"
proof -
  show "set (sql_batch now lim s) \<subseteq> {row \<in> set (effects_table s). row_due row \<and> \<not> row_leased now row}"
  proof
    fix row
    assume "row \<in> set (sql_batch now lim s)"
    then have "row \<in> set (filter (\<lambda>row. \<not> row_leased now row) (due_rows s))"
      unfolding sql_batch_def pick_rows_def by (rule in_set_takeD)
    then show "row \<in> {row \<in> set (effects_table s). row_due row \<and> \<not> row_leased now row}"
      by (simp add: due_rows_facts(1) [OF ok])
  qed
  have "distinct (map row_id (filter (\<lambda>row. \<not> row_leased now row) (due_rows s)))"
    using due_rows_facts(2) [OF ok] by (rule distinct_map_filter)
  then have "distinct (take (nat lim) (map row_id (filter (\<lambda>row. \<not> row_leased now row) (due_rows s))))"
    by (rule distinct_take)
  then show "distinct (map row_id (sql_batch now lim s))"
    by (simp only: sql_batch_def pick_rows_def take_map)
  show "int (length (sql_batch now lim s)) \<le> max 0 lim" by (simp add: sql_batch_def pick_rows_def)
qed

lemma row_due_status: "row_to_record row = Inr r \<Longrightarrow> row_due row \<longleftrightarrow> due r"
  by (simp add: row_due_def due_def row_to_record_Inr status_value_inj del: status_value.simps)

lemma row_in_ok:
  assumes "sql_ok s" and "row \<in> set (effects_table s)"
  obtains r where "row_to_record row = Inr r" "sql_look s (row_id row) = Some r"
proof -
  from assms have "row_ok row" by (simp add: sql_ok_def)
  then obtain r where "row_to_record row = Inr r" by (rule row_okE)
  with sql_look_row [OF assms this] show thesis by (intro that)
qed

lemma sql_claim_law:
  assumes ok: "sql_ok s"
  shows "\<exists>cs t. sql_claim_due w now lf lim s = (Inr cs, t)
    \<and> sql_ok t \<and> (\<lambda>i. sql_attempt_count i t) = (\<lambda>i. sql_attempt_count i s)
    \<and> distinct (map effect_id cs) \<and> int (length cs) \<le> max 0 lim
    \<and> (\<forall>c \<in> set cs. \<exists>r. sql_look s (effect_id c) = Some r \<and> due r \<and> c = claim_record r now)
    \<and> sql_look t = sql_look s ++ map_of (map (\<lambda>c. (effect_id c, c)) cs)"
proof -
  let ?rows = "sql_batch now lim s"
  let ?cs = "map (claimed_row now) ?rows"
  note batch = sql_batch_rows [OF ok, where now = now and lim = lim]
  have row: "effect_id (claimed_row now x) = row_id x
      \<and> (\<exists>r. sql_look s (row_id x) = Some r \<and> due r \<and> claimed_row now x = claim_record r now)"
    if "x \<in> set ?rows" for x
  proof -
    from that batch(1) have x: "x \<in> set (effects_table s)" "row_due x" by blast+
    obtain r where r: "row_to_record x = Inr r" "sql_look s (row_id x) = Some r" by (rule row_in_ok [OF ok x(1)])
    then show ?thesis using x(2) row_due_status [OF r(1)] row_to_record_Inr(1) [OF r(1)]
      by (simp add: claimed_row_Inr)
  qed
  have ids: "map effect_id ?cs = map row_id ?rows" using row by simp
  have pairs: "map (\<lambda>c. (effect_id c, c)) ?cs = map (\<lambda>row. (row_id row, claimed_row now row)) ?rows"
    using row by simp
  obtain t where t: "sql_claim_due w now lf lim s = (Inr ?cs, t)" "sql_ok t" "attempts_table t = attempts_table s"
    "sql_look t = sql_look s ++ map_of (map (\<lambda>row. (row_id row, claimed_row now row)) ?rows)"
    using sql_claim_run [OF ok] by blast
  show ?thesis
  proof (intro exI conjI)
    show "sql_claim_due w now lf lim s = (Inr ?cs, t)" "sql_ok t" by (rule t)+
    show "(\<lambda>i. sql_attempt_count i t) = (\<lambda>i. sql_attempt_count i s)" by (simp add: sql_attempt_count_def t(3))
    show "distinct (map effect_id ?cs)" unfolding ids by (rule batch)
    show "int (length ?cs) \<le> max 0 lim" using batch(3) by simp
    show "\<forall>c \<in> set ?cs. \<exists>r. sql_look s (effect_id c) = Some r \<and> due r \<and> c = claim_record r now"
      using row by fastforce
    show "sql_look t = sql_look s ++ map_of (map (\<lambda>c. (effect_id c, c)) ?cs)" unfolding pairs by (rule t)
  qed
qed

section \<open>Reservations and readings\<close>

lemma find_tenant:
  "distinct (map row_id xs) \<Longrightarrow> find (\<lambda>row. row_tenant row = tenant \<and> row_id row = eid) xs =
     (case find (\<lambda>row. row_id row = eid) xs of None \<Rightarrow> None
      | Some row \<Rightarrow> if row_tenant row = tenant then Some row else None)"
proof (induction xs)
  case (Cons x xs)
  show ?case
  proof (cases "row_id x = eid")
    case True
    then have "eid \<notin> row_id ` set xs" using Cons.prems by auto
    then have "find (\<lambda>row. row_tenant row = tenant \<and> row_id row = eid) xs = None"
      unfolding find_None_iff by blast
    with True show ?thesis by simp
  qed (use Cons in simp)
qed simp

lemma sql_get_look:
  assumes ok: "sql_ok s"
  shows "sql_get tenant eid s = Inr (case sql_look s eid of
      Some r \<Rightarrow> if tenant_id r = tenant then Some r else None | None \<Rightarrow> None)"
proof -
  have dist: "distinct (map row_id (effects_table s))" using ok by (simp add: sql_ok_def)
  show ?thesis
  proof (cases "find (\<lambda>row. row_id row = eid) (effects_table s)")
    case None
    then show ?thesis by (simp add: sql_get_def select_record_def find_tenant [OF dist] sql_look_def)
  next
    case (Some row)
    with find_key [OF Some] obtain r where r: "row_to_record row = Inr r" "sql_look s eid = Some r"
      by (metis row_in_ok [OF ok])
    with Some row_to_record_Inr(2) [OF r(1)] show ?thesis
      by (simp add: sql_get_def select_record_def find_tenant [OF dist])
  qed
qed

lemma select_by_identity_run:
  assumes ok: "sql_ok s"
  obtains (nothing) "select_by_identity tenant k s = (Inr None, s)"
      "(tenant, k) \<notin> row_identity ` set (effects_table s)"
  | (found) r where "select_by_identity tenant k s = (Inr (Some r), s)" "sql_look s (effect_id r) = Some r"
      "tenant_id r = tenant" "operation_key (request r) = k"
proof (cases "find (\<lambda>row. row_tenant row = tenant \<and> row_key row = k) (effects_table s)")
  case None
  then have "(tenant, k) \<notin> row_identity ` set (effects_table s)" by (auto simp: find_None_iff row_identity_def)
  moreover have "select_by_identity tenant k s = (Inr None, s)"
    using None by (simp add: select_by_identity_def select_record_def)
  ultimately show ?thesis by (intro that(1)) simp_all
next
  case (Some row)
  then have row: "row \<in> set (effects_table s)" "row_tenant row = tenant" "row_key row = k"
    by (auto simp: find_Some_iff)
  obtain r where r: "row_to_record row = Inr r" "sql_look s (row_id row) = Some r" by (rule row_in_ok [OF ok row(1)])
  then show ?thesis using Some row row_to_record_Inr [OF r(1)]
    by (intro that(2) [of r]) (simp_all add: select_by_identity_def select_record_def)
qed

lemma insert_effect_run:
  assumes ok: "sql_ok s" and row: "row_ok row"
    and new: "row_id row \<notin> row_id ` set (effects_table s)" "row_identity row \<notin> row_identity ` set (effects_table s)"
  shows "insert_effect row s = (Inr (), s\<lparr>effects_table := effects_table s @ [row]\<rparr>)"
    "sql_ok (s\<lparr>effects_table := effects_table s @ [row]\<rparr>)"
proof -
  show "insert_effect row s = (Inr (), s\<lparr>effects_table := effects_table s @ [row]\<rparr>)"
  proof -
    have "\<not> (\<exists>x \<in> set (effects_table s). row_id x = row_id row \<or> row_tenant x = row_tenant row \<and> row_key x = row_key row)"
      using new by (metis image_eqI row_identity_def)
    then show ?thesis by (simp add: insert_effect_def)
  qed
  have "attempts_ok (s\<lparr>effects_table := effects_table s @ [row]\<rparr>)" "events_ok (s\<lparr>effects_table := effects_table s @ [row]\<rparr>)"
    using ok by (simp_all add: sql_ok_def attempts_ok_def events_ok_def)
  then show "sql_ok (s\<lparr>effects_table := effects_table s @ [row]\<rparr>)"
    using ok row new by (simp add: sql_ok_def)
qed

lemma insert_effect_conflict:
  "row_id row \<in> row_id ` set (effects_table s) \<or> row_identity row \<in> row_identity ` set (effects_table s) \<Longrightarrow>
     insert_effect row s = (Inl integrity_error, s)"
  by (force simp: insert_effect_def row_identity_def)

lemma look_inserted:
  assumes "row_to_record row = Inr r" and "row_id row \<notin> row_id ` set (effects_table s)"
  shows "sql_look (s\<lparr>effects_table := effects_table s @ [row]\<rparr>) = (sql_look s)(row_id row \<mapsto> r)"
proof
  fix i
  have app: "find p (xs @ [x]) = (case find p xs of None \<Rightarrow> if p x then Some x else None | Some y \<Rightarrow> Some y)" for p xs and x :: effect_row
    by (induction xs) auto
  show "sql_look (s\<lparr>effects_table := effects_table s @ [row]\<rparr>) i = ((sql_look s)(row_id row \<mapsto> r)) i"
    using assms find_no_key [of row_id i "effects_table s"]
    by (auto simp: sql_look_def app split: option.splits)
qed

lemma new_record_simps [simp]:
  "effect_id (sql_new_record key e tenant req c digest) = sqlite_id (env_uuid e)"
  "tenant_id (sql_new_record key e tenant req c digest) = tenant"
  "request (sql_new_record key e tenant req c digest) = req"
  "req_hash (sql_new_record key e tenant req c digest) = digest"
  "contract (sql_new_record key e tenant req c digest) = c"
  "status (sql_new_record key e tenant req c digest) = PREPARED"
  "version (sql_new_record key e tenant req c digest) = 0"
  by (simp_all add: sql_new_record_def)

lemma new_record_row:
  assumes "wf_request req"
    and "request_hash (tool req) (arguments req) (contract_name c) (contract_version c) = Inr digest"
    and "r = sql_new_record key e tenant req c digest"
  obtains row where "record_params r = Inr row" "row_to_record row = Inr (sql_saved r)" "row_ok row"
    "row_id row = sqlite_id (env_uuid e)" "row_identity row = (tenant, operation_key req)"
proof -
  have "encodable (VDict (arguments (request r)))" using hashed_arguments [OF assms(1,2)] assms(3) by simp
  then show thesis by (rule record_params_decodes) (use assms(3) in \<open>simp add: that\<close>)
qed

text \<open>A new identity: one row, one event.\<close>

lemma sql_reserve_fresh:
  assumes ok: "sql_ok s" and wf: "wf_request req"
    and hash: "request_hash (tool req) (arguments req) (contract_name c) (contract_version c) = Inr digest"
    and r: "r = sql_new_record key e tenant req c digest"
    and new: "sqlite_id (env_uuid e) \<notin> row_id ` set (effects_table s)"
      "(tenant, operation_key req) \<notin> row_identity ` set (effects_table s)"
  obtains t row where "sql_reserve key e tenant req c s = (Inr \<lparr>res_effect = r, created = True, replayed = False\<rparr>, t)"
    "sql_ok t" "sql_look t = (sql_look s)(effect_id r \<mapsto> sql_saved r)" "attempts_table t = attempts_table s"
    "record_params r = Inr row" "effects_table t = effects_table s @ [row]"
proof -
  obtain row where row: "record_params r = Inr row" "row_to_record row = Inr (sql_saved r)" "row_ok row"
    "row_id row = sqlite_id (env_uuid e)" "row_identity row = (tenant, operation_key req)"
    by (rule new_record_row [OF wf hash r])
  let ?u = "s\<lparr>effects_table := effects_table s @ [row]\<rparr>"
  have new': "row_id row \<notin> row_id ` set (effects_table s)" "row_identity row \<notin> row_identity ` set (effects_table s)"
    using new row(4,5) by simp_all
  note u = insert_effect_run [OF ok row(3) new']
  have ins: "try_insert r s = (Inr True, ?u)"
    by (simp add: try_insert_def row(1) on_error_def and_then_def u(1))
  have known: "effect_id r \<in> row_id ` set (effects_table ?u)" using row(4) r by simp
  obtain tx where tx: "canonical_json (VDict [(VStr ''status'', VStr (status_value (status r)))]) = Inr tx"
    using written_data(4) by blast
  obtain v where v: "sql_append_event (effect_id r) ''reserved'' (version r)
      [(VStr ''status'', VStr (status_value (status r)))] (env_now e) ?u = (Inr (), v)"
    "sql_ok v" "effects_table v = effects_table ?u" "attempts_table v = attempts_table ?u"
    by (rule sql_append_event_run [OF u(2) known tx]) blast
  have "sql_reserve key e tenant req c s = (Inr \<lparr>res_effect = r, created = True, replayed = False\<rparr>, v)"
    using v(1) ins by (simp add: sql_reserve_def hash Let_def transaction_def and_then_def r)
  moreover have "sql_look v = (sql_look s)(effect_id r \<mapsto> sql_saved r)"
    using look_inserted [OF row(2) new'(1)] sql_look_cong [OF v(3)] row(4) r by simp
  ultimately show thesis using v(2-4) row(1) by (intro that [of v row]) simp_all
qed

text \<open>A conflict: the statement fails, and the identity decides.\<close>

lemma sql_reserve_conflict:
  assumes ok: "sql_ok s" and wf: "wf_request req"
    and hash: "request_hash (tool req) (arguments req) (contract_name c) (contract_version c) = Inr digest"
    and old: "sqlite_id (env_uuid e) \<in> row_id ` set (effects_table s)
      \<or> (tenant, operation_key req) \<in> row_identity ` set (effects_table s)"
  shows "sql_reserve key e tenant req c s = (case fst (select_by_identity tenant (operation_key req) s) of
      Inl x \<Rightarrow> (Inl x, s)
    | Inr None \<Rightarrow> (Inl integrity_error, s)
    | Inr (Some r) \<Rightarrow>
        if req_hash r \<noteq> digest then (Inl (PayloadConflictError (operation_key req) (req_hash r) digest), s)
        else (Inr \<lparr>res_effect = r, created = False, replayed = True\<rparr>, s))"
proof -
  obtain row where row: "record_params (sql_new_record key e tenant req c digest) = Inr row"
    "row_id row = sqlite_id (env_uuid e)" "row_identity row = (tenant, operation_key req)"
    by (rule new_record_row [OF wf hash HOL.refl, of key e tenant])
  with old have "try_insert (sql_new_record key e tenant req c digest) s = (Inr False, s)"
    by (simp add: try_insert_def on_error_def and_then_def insert_effect_conflict)
  then show ?thesis
    using select_by_identity_run [OF ok, of tenant "operation_key req"]
    by (cases "select_by_identity tenant (operation_key req) s")
      (auto simp: sql_reserve_def hash Let_def transaction_def and_then_def split: sum.split option.split)
qed

lemma sql_reserve_cases:
  assumes ok: "sql_ok s" and wf: "wf_request req" and run: "sql_reserve key e tenant req c s = (x, t)"
  obtains (raised) err where "x = Inl err" "t = s"
  | (replay) r where "sql_look s (effect_id r) = Some r" "tenant_id r = tenant"
      "operation_key (request r) = operation_key req"
      "request_hash (tool req) (arguments req) (contract_name c) (contract_version c) = Inr (req_hash r)"
      "x = Inr \<lparr>res_effect = r, created = False, replayed = True\<rparr>" "t = s"
  | (fresh) r digest where "request_hash (tool req) (arguments req) (contract_name c) (contract_version c) = Inr digest"
      "r = sql_new_record key e tenant req c digest" "sql_look s (effect_id r) = None"
      "x = Inr \<lparr>res_effect = r, created = True, replayed = False\<rparr>" "sql_ok t"
      "sql_look t = (sql_look s)(effect_id r \<mapsto> sql_saved r)" "attempts_table t = attempts_table s"
proof (cases "request_hash (tool req) (arguments req) (contract_name c) (contract_version c)")
  case (Inl err)
  with run show ?thesis by (intro that(1) [of err]) (simp_all add: sql_reserve_def)
next
  case hash: (Inr digest)
  show ?thesis
  proof (cases "sqlite_id (env_uuid e) \<in> row_id ` set (effects_table s)
      \<or> (tenant, operation_key req) \<in> row_identity ` set (effects_table s)")
    case True
    note run = run [unfolded sql_reserve_conflict [OF ok wf hash True]]
    show ?thesis
    proof (rule select_by_identity_run [OF ok, of tenant "operation_key req"])
      assume "select_by_identity tenant (operation_key req) s = (Inr None, s)"
      with run show ?thesis by (intro that(1) [of integrity_error]) simp_all
    next
      fix r
      assume r: "select_by_identity tenant (operation_key req) s = (Inr (Some r), s)"
        "sql_look s (effect_id r) = Some r" "tenant_id r = tenant" "operation_key (request r) = operation_key req"
      show ?thesis
      proof (cases "req_hash r = digest")
        case True
        with run hash r(1) show ?thesis by (intro that(2) [OF r(2-4)]) simp_all
      next
        case False
        with run r(1) show ?thesis
          by (intro that(1) [of "PayloadConflictError (operation_key req) (req_hash r) digest"]) simp_all
      qed
    qed
  next
    case False
    let ?r = "sql_new_record key e tenant req c digest"
    obtain v where v: "sql_reserve key e tenant req c s = (Inr \<lparr>res_effect = ?r, created = True, replayed = False\<rparr>, v)"
      "sql_ok v" "sql_look v = (sql_look s)(effect_id ?r \<mapsto> sql_saved ?r)" "attempts_table v = attempts_table s"
      by (rule sql_reserve_fresh [OF ok wf hash HOL.refl]) (use False in blast)+
    with run have "x = Inr \<lparr>res_effect = ?r, created = True, replayed = False\<rparr>" "t = v" by simp_all
    moreover have "sql_look s (effect_id ?r) = None" using sql_look_None [OF ok] False by simp
    ultimately show ?thesis by (intro that(3) [OF hash HOL.refl]) (use v in simp_all)
  qed
qed

lemma sql_reserve_safe:
  assumes "sql_ok s" and "wf_request req" and run: "sql_reserve key e tenant req c s = (Inr res, t)"
  shows "sql_ok t \<and> (\<not> created res \<longrightarrow> sql_look s (effect_id (res_effect res)) = Some (res_effect res))
    \<and> sql_look t = (if created res then (sql_look s)(effect_id (res_effect res) \<mapsto> sql_saved (res_effect res))
        else sql_look s)
    \<and> (\<lambda>i. sql_attempt_count i t) = (\<lambda>i. sql_attempt_count i s)
    \<and> tenant_id (res_effect res) = tenant
    \<and> operation_key (request (res_effect res)) = operation_key req
    \<and> request_hash (tool req) (arguments req) (contract_name c) (contract_version c)
        = Inr (req_hash (res_effect res))
    \<and> replayed res = (\<not> created res)
    \<and> (created res \<longrightarrow> sql_look s (effect_id (res_effect res)) = None
         \<and> status (res_effect res) = PREPARED \<and> version (res_effect res) = 0
         \<and> contract (res_effect res) = c \<and> request (res_effect res) = req)"
  using assms
proof (cases rule: sql_reserve_cases)
  case (replay r)
  with assms(1) show ?thesis by simp
next
  case (fresh r digest)
  then show ?thesis by (simp add: sql_new_record_def sql_attempt_count_def)
qed simp_all

lemma sql_reserve_error:
  assumes "sql_ok s" and "wf_request req" and "sql_reserve key e tenant req c s = (Inl x, t)"
  shows "t = s"
  using assms by (cases rule: sql_reserve_cases) simp_all

section \<open>The SQLite ledger is a ledger\<close>

lemma sql_accepts_plain: "plain d \<Longrightarrow> sql_accepts d"
proof -
  assume plain: "plain d"
  have "reproducible_items kvs \<and> builtin_items kvs" if "\<forall>(k, v) \<in> set kvs. \<exists>s t. k = VStr s \<and> v = VStr t" for kvs
    using that by (induction kvs) auto
  with plain have "reproducible (VDict d) \<and> builtin (VDict d)" by (simp add: plain_def)
  then show ?thesis using canonical_json_Inr [of "VDict d"] by (auto simp: sql_accepts_def)
qed

lemma sql_saved_fields:
  "effect_id (sql_saved r) = effect_id r \<and> tenant_id (sql_saved r) = tenant_id r
    \<and> operation_key (request (sql_saved r)) = operation_key (request r) \<and> status (sql_saved r) = status r
    \<and> version (sql_saved r) = version r \<and> contract (sql_saved r) = sql_pin (contract r)"
  "safety (sql_pin c) = safety c \<and> retry_limit (sql_pin c) = retry_limit c"
  by (simp_all add: sql_saved_def sql_pin_def)

lemma sqlite_ops_simps:
  "reserve_op (sqlite_ops key) = sql_reserve key" "claim_op (sqlite_ops key) = sql_claim_due"
  "start_op (sqlite_ops key) = sql_start_attempt" "transition_op (sqlite_ops key) = sql_transition"
  "get_op (sqlite_ops key) tenant eid s = or_else None (sql_get tenant eid s)"
  by (simp_all add: sqlite_ops_def)

lemma sql_get_law: "sql_ok s \<Longrightarrow> or_else None (sql_get tenant eid s) =
    (case sql_look s eid of Some r \<Rightarrow> if tenant_id r = tenant then Some r else None | None \<Rightarrow> None)"
  by (simp add: sql_get_look or_else_def)

interpretation sql: effect_store "sqlite_ops key" sql_ok sql_look "\<lambda>s i. sql_attempt_count i s" sql_accepts
  sql_saved sql_pin for key
  by (unfold_locales, unfold sqlite_ops_simps)
    ((rule sql_look_id sql_tries_none sql_accepts_plain sql_transition_done sql_transition_refused
        sql_transition_failed sql_start_done sql_start_failed sql_claim_law sql_get_law sql_saved_fields
        sql_reserve_safe sql_reserve_error; assumption) | simp)+

end
