(* ===== verification/Sqlite_Properties.thy ===== *)
theory Sqlite_Properties
  imports Sqlite_Laws Scenario
begin

text \<open>
  Properties of the durable ledger: the life of a broker process over it, its claims against a
  reference, atomicity of its transactions and the faithfulness of its columns.
\<close>

section \<open>A process over SQLite\<close>

definition sqlite_broker :: "safety_class \<Rightarrow> (sqlite_db, sim_target) broker" where
  "sqlite_broker cls = \<lparr>store = sqlite_ops demo_keys, contracts = [(''send'', demo_contract cls)],
     adapter_for = Some default_adapter_for\<rparr>"

definition sqlite_world :: "sqlite_db \<Rightarrow> (sqlite_db, sim_target) world" where
  "sqlite_world s = \<lparr>ledger = s, target = sim_init (seconds 100), metrics = reset_for_tests,
     envs = (\<lambda>n. demo_env), ticks = 0\<rparr>"

definition sqlite_record :: "safety_class \<Rightarrow> effect_record" where
  "sqlite_record cls = sql_new_record demo_keys demo_env ''acme'' (demo_request 10) (demo_contract cls) (demo_hash 10)"

lemma sqlite_broker_simps [simp]:
  "store (sqlite_broker cls) = sqlite_ops demo_keys" "contracts (sqlite_broker cls) = [(''send'', demo_contract cls)]"
  "adapter_for (sqlite_broker cls) = Some default_adapter_for" "ledger (sqlite_world s) = s"
  by (simp_all add: sqlite_broker_def sqlite_world_def)

lemma demo_wf: "wf_request (demo_request n)"
  by (simp add: wf_request_def demo_request_def)

lemma sqlite_reserved:
  obtains t row where "sql_reserve demo_keys demo_env ''acme'' (demo_request 10) (demo_contract cls) empty_db =
      (Inr \<lparr>res_effect = sqlite_record cls, created = True, replayed = False\<rparr>, t)"
    "sql_ok t" "sql_look t ''eff_u'' = Some (sql_saved (sqlite_record cls))" "attempts_table t = []"
    "record_params (sqlite_record cls) = Inr row" "effects_table t = [row]"
proof -
  obtain t row where t: "sql_reserve demo_keys demo_env ''acme'' (demo_request 10) (demo_contract cls) empty_db =
      (Inr \<lparr>res_effect = sqlite_record cls, created = True, replayed = False\<rparr>, t)"
    "sql_ok t" "sql_look t = (sql_look empty_db)(effect_id (sqlite_record cls) \<mapsto> sql_saved (sqlite_record cls))"
    "attempts_table t = attempts_table empty_db" "record_params (sqlite_record cls) = Inr row"
    "effects_table t = effects_table empty_db @ [row]"
    by (rule sql_reserve_fresh [OF sql_ok_empty demo_wf demo_request_hash sqlite_record_def])
      (simp_all add: empty_db_def)
  then show thesis
    by (intro that [of t row]) (simp_all add: sqlite_record_def sqlite_id_def demo_env_def empty_db_def)
qed

lemma sqlite_submitted:
  obtains u where "broker_run (sqlite_broker cls) (sqlite_world empty_db) u" "sql_ok (ledger u)"
    "sql_look (ledger u) ''eff_u'' = Some (sql_saved (sqlite_record cls))" "attempts_table (ledger u) = []"
proof -
  obtain x u where u: "submit (sqlite_broker cls) ''acme'' (demo_request 10) (sqlite_world empty_db) = (x, u)"
    by (cases "submit (sqlite_broker cls) ''acme'' (demo_request 10) (sqlite_world empty_db)")
  obtain t where t: "sql_reserve demo_keys demo_env ''acme'' (demo_request 10) (demo_contract cls) empty_db =
      (Inr \<lparr>res_effect = sqlite_record cls, created = True, replayed = False\<rparr>, t)"
    "sql_ok t" "sql_look t ''eff_u'' = Some (sql_saved (sqlite_record cls))" "attempts_table t = []"
    by (rule sqlite_reserved)
  from u t(1) have "ledger u = t"
    by (auto simp: submit_def and_then_def raise_or_return_def registry_get_def observe_latency_def sqlite_broker_def
        sqlite_world_def sqlite_ops_simps read_env_def on_error_def on_ledger_def measure_with_def)
  then show thesis using broker_run.submitted [OF broker_run.idle demo_wf u] t by (intro that [of u]) simp_all
qed

lemma broker_run_sqlite:
  assumes "broker_run b s t" and "store b = sqlite_ops key" and "sql_ok (ledger s)"
  shows "sql_ok (ledger t)"
    and "protocols (\<lambda>c. \<exists>name d. registry_get (contracts b) name = Inr d \<and> c = sql_pin d)
      (sql_look (ledger s), \<lambda>i. sql_attempt_count i (ledger s))
      (sql_look (ledger t), \<lambda>i. sql_attempt_count i (ledger t))"
  using sql.broker_run_advances [OF assms, of "\<lambda>c. \<exists>name d. registry_get (contracts b) name = Inr d \<and> c = sql_pin d"]
  by (auto simp: sql.advances_def)

lemma sql_get_Some:
  "sql_ok s \<Longrightarrow> sql_get tenant eid s = Inr (Some r) \<longleftrightarrow> sql_look s eid = Some r \<and> tenant_id r = tenant"
  by (auto simp: sql_get_look split: option.splits if_splits)

text \<open>
  The life of an effect in the SQLite ledger, whatever sequence of submissions, worker passes with
  any adapters, reconciliations, cancellations and resolutions a process performs on the database: it
  stays readable, its identity, request, keys and pinned contract never change, its version grows with
  every change and its status moves along the transition graph, a terminal record is final, and an
  unsafe effect has at most one dispatch attempt.
\<close>

theorem sqlite_lifecycle:
  assumes "broker_run b s t" and "broker_run b t u" and "store b = sqlite_ops key" and "ledger s = empty_db"
    and "sound_registry (contracts b)" and "sql_get tenant eid (ledger t) = Inr (Some r)"
  shows "\<exists>r'. sql_get tenant eid (ledger u) = Inr (Some r') \<and> same_pins r r'
    \<and> (r' = r \<or> version r < version r') \<and> moves (status r) (status r')
    \<and> (is_terminal (status r) \<longrightarrow> r' = r)
    \<and> (safety (contract r) = UNSAFE \<longrightarrow> sql_attempt_count eid (ledger u) \<le> 1)"
proof -
  have start: "sql_ok (ledger s)" "sql_look (ledger s) = Map.empty"
    using assms(4) by (simp_all add: sql_ok_empty) (simp add: empty_db_def sql_look_def fun_eq_iff)
  have "sql_ok (ledger t)" by (rule broker_run_sqlite [OF assms(1,3) start(1)])
  from assms(6) have r: "sql_look (ledger t) eid = Some r" "tenant_id r = tenant"
    by (simp_all add: sql_get_Some [OF \<open>sql_ok (ledger t)\<close>])
  from sql.effect_life [OF assms(1-3) start assms(5) r(1)] obtain r' where
    r': "sql_ok (ledger u)" "sql_look (ledger u) eid = Some r'" "later r r'"
    "safety (contract r) = UNSAFE \<longrightarrow> sql_attempt_count eid (ledger u) \<le> 1" by blast
  moreover have "tenant_id r' = tenant" using r'(3) r(2) by (simp add: later_def same_pins_def)
  ultimately show ?thesis by (auto simp: later_def sql_get_Some [OF r'(1)])
qed

theorem sqlite_lifecycle_witness:
  "\<exists>u out v r. broker_run (sqlite_broker UNSAFE) (sqlite_world empty_db) u
     \<and> dispatch_once (sqlite_ops demo_keys) default_adapter_for ''w'' 0 (seconds 30) 10 u = (Inr out, v)
     \<and> sql_get ''acme'' ''eff_u'' (ledger v) = Inr (Some r) \<and> sql_attempt_count ''eff_u'' (ledger v) \<le> 1"
proof -
  obtain u where u: "broker_run (sqlite_broker UNSAFE) (sqlite_world empty_db) u" "sql_ok (ledger u)"
    "sql_look (ledger u) ''eff_u'' = Some (sql_saved (sqlite_record UNSAFE))" by (rule sqlite_submitted)
  obtain out v where v: "dispatch_once (sqlite_ops demo_keys) default_adapter_for ''w'' 0 (seconds 30) 10 u = (Inr out, v)"
    by (rule sql.dispatch_once_outcomes [OF u(2), of demo_keys default_adapter_for "''w''" 0 "seconds 30" 10])
  have step: "broker_run (sqlite_broker UNSAFE) u v" by (rule broker_run.worked [OF broker_run.idle]) (use v in simp)
  have "tenant_id (sql_saved (sqlite_record UNSAFE)) = ''acme''"
    using sql_saved_fields(1) [of "sqlite_record UNSAFE"] by (simp add: sqlite_record_def)
  then have get: "sql_get ''acme'' ''eff_u'' (ledger u) = Inr (Some (sql_saved (sqlite_record UNSAFE)))"
    using sql_get_Some [OF u(2)] u(3) by simp
  have "safety (contract (sql_saved (sqlite_record UNSAFE))) = UNSAFE"
    using sql_saved_fields(1) [of "sqlite_record UNSAFE"] sql_saved_fields(2) [of "demo_contract UNSAFE"]
    by (simp add: sqlite_record_def)
  moreover have "sound_registry (contracts (sqlite_broker UNSAFE))" by (simp add: sound_registry_def demo_sound)
  ultimately obtain r where "sql_get ''acme'' ''eff_u'' (ledger v) = Inr (Some r)" "sql_attempt_count ''eff_u'' (ledger v) \<le> 1"
    using sqlite_lifecycle [OF u(1) step _ _ _ get, of demo_keys] by auto
  with u(1) v show ?thesis by blast
qed

section \<open>Claims\<close>

lemma claimed_row_id:
  assumes "sql_ok s" and "row \<in> set (effects_table s)"
  shows "effect_id (claimed_row now row) = row_id row"
proof -
  obtain r where "row_to_record row = Inr r" by (rule row_in_ok [OF assms])
  then show ?thesis by (simp add: claimed_row_Inr row_to_record_Inr)
qed

lemma batch_ids:
  assumes "sql_ok s"
  shows "effect_id ` set (map (claimed_row now) (sql_batch now lim s)) = row_id ` set (sql_batch now lim s)"
proof -
  have "effect_id (claimed_row now x) = row_id x" if "x \<in> set (sql_batch now lim s)" for x
    using that sql_batch_rows(1) [OF assms] by (intro claimed_row_id [OF assms]) blast
  then show ?thesis by (simp add: image_image)
qed

lemma leased_row:
  assumes "x \<in> set (leased_table w until now ids rows)" and "row_id x \<in> ids"
  obtains y where "x = claim_columns w until now y"
proof -
  from assms(1) obtain y where y: "x = (if row_id y \<in> ids then claim_columns w until now y else y)"
    unfolding leased_table_def set_map by blast
  show thesis
  proof (cases "row_id y \<in> ids")
    case True
    with y show thesis by (intro that [of y]) simp
  next
    case False
    with y assms(2) show thesis by simp
  qed
qed

lemma claims_reference_exclusive:
  assumes ok: "sql_ok s" and run: "sql_claim_due w now lf lim s = (Inr cs, t)"
    and again: "sql_claim_due w' now' lf' lim' t = (Inr cs', u)" and live: "now' < now + lf"
  shows "cs = map (claimed_row now) (take (nat lim) (filter (\<lambda>row. \<not> row_leased now row)
      (sort_key row_order (filter row_due (effects_table s)))))"
    and "effect_id ` set cs \<inter> effect_id ` set cs' = {}"
proof -
  obtain t' where t': "sql_claim_due w now lf lim s = (Inr (map (claimed_row now) (sql_batch now lim s)), t')" "sql_ok t'"
    "effects_table t' = leased_table w (now + lf) now (row_id ` set (sql_batch now lim s)) (effects_table s)"
    using sql_claim_run [OF ok] by blast
  with run have cs: "cs = map (claimed_row now) (sql_batch now lim s)" and t: "t' = t" by simp_all
  then show "cs = map (claimed_row now) (take (nat lim) (filter (\<lambda>row. \<not> row_leased now row)
      (sort_key row_order (filter row_due (effects_table s)))))"
    by (simp add: sql_batch_def pick_rows_def due_rows_def)
  note t' = t'(2,3) [unfolded t]
  obtain u' where "sql_claim_due w' now' lf' lim' t = (Inr (map (claimed_row now') (sql_batch now' lim' t)), u')"
    using sql_claim_run [OF t'(1)] by blast
  with again have cs': "cs' = map (claimed_row now') (sql_batch now' lim' t)" by simp
  have ids: "effect_id ` set cs = row_id ` set (sql_batch now lim s)"
    "effect_id ` set cs' = row_id ` set (sql_batch now' lim' t)"
    unfolding cs cs' by (rule batch_ids [OF ok], rule batch_ids [OF t'(1)])
  have apart: "row_id x \<notin> row_id ` set (sql_batch now lim s)" if "x \<in> set (sql_batch now' lim' t)" for x
  proof
    assume mine: "row_id x \<in> row_id ` set (sql_batch now lim s)"
    from that sql_batch_rows(1) [OF t'(1)] have x: "x \<in> set (effects_table t)" "\<not> row_leased now' x" by blast+
    from x(1) [unfolded t'(2)] mine obtain y where "x = claim_columns w (now + lf) now y" by (rule leased_row)
    then have "row_leased now' x" using live by (simp add: row_leased_def claim_columns_def parse_isoformat)
    with x(2) show False by simp
  qed
  show "effect_id ` set cs \<inter> effect_id ` set cs' = {}"
    unfolding ids
  proof (rule equals0I)
    fix i
    assume i: "i \<in> row_id ` set (sql_batch now lim s) \<inter> row_id ` set (sql_batch now' lim' t)"
    then obtain x where "x \<in> set (sql_batch now' lim' t)" "i = row_id x" by (elim IntE imageE) simp
    from apart [OF this(1)] this(2) i show False by simp
  qed
qed

text \<open>
  C27. \<open>claim_due\<close> on SQLite: it returns the first \<open>limit\<close> due effects without a live lease, in the order
  of their \<open>created_at\<close> and id, each with its version raised by one; and until the lease runs out a
  second claim, by any worker, returns none of them.
\<close>

theorem sqlite_claims:
  assumes "sql_ok s" and "sql_claim_due w now lf lim s = (Inr cs, t)"
    and "sql_claim_due w' now' lf' lim' t = (Inr cs', u)" and "now' < now + lf"
  shows "cs = map (claimed_row now) (take (nat lim) (filter (\<lambda>row. \<not> row_leased now row)
      (sort_key row_order (filter row_due (effects_table s)))))
    \<and> effect_id ` set cs \<inter> effect_id ` set cs' = {}"
  using claims_reference_exclusive [OF assms] by (rule conjI)

theorem sqlite_claims_witness:
  "\<exists>s t u c cs'. sql_claim_due ''w'' 0 (seconds 30) 5 s = (Inr [c], t) \<and> effect_id c = ''eff_u''
     \<and> sql_claim_due ''v'' 1 (seconds 30) 5 t = (Inr cs', u) \<and> ''eff_u'' \<notin> effect_id ` set cs'"
proof -
  obtain s row where s: "sql_ok s" "record_params (sqlite_record UNSAFE) = Inr row" "effects_table s = [row]"
    by (rule sqlite_reserved [of UNSAFE]) blast
  then have row: "row_lease_until row = None" "row_due row" "row_id row = ''eff_u''"
    by (auto simp: record_params_def row_due_def sqlite_record_def sqlite_id_def demo_env_def split: sum.splits)
  then have batch: "sql_batch 0 5 s = [row]" by (simp add: sql_batch_def pick_rows_def due_rows_def row_leased_def s(3))
  have id: "effect_id (claimed_row 0 row) = ''eff_u''"
    using claimed_row_id [OF s(1), of row 0] by (simp add: s(3) row(3))
  obtain t where t: "sql_claim_due ''w'' 0 (seconds 30) 5 s = (Inr [claimed_row 0 row], t)" "sql_ok t"
    using sql_claim_run [OF s(1), of "''w''" 0 "seconds 30" 5] by (auto simp: batch)
  obtain cs' u where u: "sql_claim_due ''v'' 1 (seconds 30) 5 t = (Inr cs', u)"
    using sql_claim_run [OF t(2), of "''v''" 1 "seconds 30" 5] by auto
  from sqlite_claims [OF s(1) t(1) u] id have "''eff_u'' \<notin> effect_id ` set cs'" by auto
  with t(1) u id show ?thesis by blast
qed

section \<open>Transactions\<close>

lemma transaction_error: "transaction m s = (Inl x, t) \<Longrightarrow> t = s"
  by (auto simp: transaction_def split: prod.splits sum.splits)

text \<open>One call of a writing operation, with the exception it raised, if any.\<close>

inductive sql_call :: "tenant_key_provider \<Rightarrow> sqlite_db \<Rightarrow> error option \<Rightarrow> sqlite_db \<Rightarrow> bool" for key s where
  reserve: "wf_request req \<Longrightarrow> sql_reserve key e tenant req c s = (x, t) \<Longrightarrow> sql_call key s (raised x) t"
| claim: "sql_claim_due w now lf lim s = (y, t) \<Longrightarrow> sql_call key s (raised y) t"
| start: "sql_start_attempt e eid v w s = (z, t) \<Longrightarrow> sql_call key s (raised z) t"
| transition: "sql_transition e eid v goal d s = (z', t) \<Longrightarrow> sql_call key s (raised z') t"

lemma errors_roll_back:
  "sql_reserve key e tenant req c s = (Inl err, t) \<Longrightarrow> t = s"
  "sql_claim_due w now lf lim s = (Inl err, t) \<Longrightarrow> t = s"
  "sql_start_attempt e eid v w s = (Inl err, t) \<Longrightarrow> t = s"
  "sql_transition e eid v goal d s = (Inl err, t) \<Longrightarrow> t = s"
  by (auto simp: sql_reserve_def sql_claim_due_def sql_start_attempt_def sql_transition_def Let_def
      split: sum.splits if_splits dest: transaction_error)

lemma sql_call_rollback:
  assumes "sql_call key s (Some err) t"
  shows "t = s"
  using assms by cases (auto simp: raised_Some dest!: sym [of "Some err"] errors_roll_back)

lemma sql_call_ok:
  assumes "sql_call key s err t" and ok: "sql_ok s"
  shows "sql_ok t"
  using assms(1)
proof cases
  case (reserve req e tenant c x)
  with ok show ?thesis by (cases rule: sql_reserve_cases [OF ok reserve(2,3)]) simp_all
next
  case (claim w now lf lim y)
  then show ?thesis using sql_claim_run [OF ok, of w now lf lim] by auto
next
  case (start e eid v w z)
  with ok show ?thesis by (cases rule: sql.start_cases [OF ok, of key, unfolded sqlite_ops_simps, OF start(2)]) simp_all
next
  case (transition e eid v goal d z)
  with ok show ?thesis
    by (cases rule: sql.transition_cases [OF ok, of key, unfolded sqlite_ops_simps, OF transition(2)]) simp_all
qed

text \<open>
  C28. Every writing operation of the SQLite ledger is atomic: when it raises, whatever the exception
  and whatever the state of the database, nothing of it remains; and it keeps the invariant (unique ids
  and identities, rows that decode, gapless attempt and event numbers).
\<close>

theorem sqlite_atomic:
  assumes "sql_call key s err t"
  shows "(err \<noteq> None \<longrightarrow> t = s) \<and> (sql_ok s \<longrightarrow> sql_ok t)"
  using assms sql_call_ok [OF assms] sql_call_rollback [of key s _ t] by (cases err) auto

theorem sqlite_atomic_witness:
  "\<exists>s. effects_table s \<noteq> [] \<and>
     sql_call demo_keys s (Some (CanonicalizationError (BytesValue ''$.metadata.b''))) s \<and> sql_ok s"
proof -
  obtain s row where s: "sql_ok s" "effects_table s = [row]" "sql_look s ''eff_u'' = Some (sql_saved (sqlite_record UNSAFE))"
    by (rule sqlite_reserved [of UNSAFE]) blast
  let ?r = "sql_saved (sqlite_record UNSAFE)"
  have r: "version ?r = 0" "status ?r = PREPARED"
    using sql_saved_fields(1) [of "sqlite_record UNSAFE"] by (simp_all add: sqlite_record_def)
  obtain x t where t: "sql_transition demo_env ''eff_u'' 0 DISPATCHING [(VStr ''b'', VBytes [])] s = (x, t)"
    by (cases "sql_transition demo_env ''eff_u'' 0 DISPATCHING [(VStr ''b'', VBytes [])] s")
  have "canonical_json (VDict (sql_transition_data PREPARED DISPATCHING [(VStr ''b'', VBytes [])])) =
      Inl (CanonicalizationError (BytesValue ''$.metadata.b''))"
    by (simp add: canonical_json_def sql_transition_data_def)
  then have x: "x = Inl (CanonicalizationError (BytesValue ''$.metadata.b''))"
    using t by (simp add: sql_transition_event [OF s(1,3)] r is_allowed_simps sql_append_event_refused)
  have call: "sql_call demo_keys s (Some (CanonicalizationError (BytesValue ''$.metadata.b''))) t"
    using sql_call.transition [OF t, of demo_keys] by (simp add: x raised_def)
  from sqlite_atomic [OF call] have "t = s" by simp
  with s(1,2) call show ?thesis by (intro exI [of _ s]) simp
qed

section \<open>The columns of a record\<close>

definition short_duration :: "timedelta option \<Rightarrow> bool" where
  "short_duration d \<longleftrightarrow> (case d of None \<Rightarrow> True | Some t \<Rightarrow> \<bar>t\<bar> < 2 ^ 33 * 1000000)"

lemma duration_columns: "short_duration d \<Longrightarrow> seconds_to_duration (duration_seconds d) = d"
  by (cases d) (simp_all add: short_duration_def seconds_to_duration_def duration_seconds_def seconds_roundtrip)

lemma payload_restored:
  assumes "encodable (VDict args)" and "restored (VDict args) = VDict args'"
  shows "request_hash tn args' n v = request_hash tn args n v"
proof -
  let ?p = "fingerprint_payload tn args n v" and ?p' = "fingerprint_payload tn args' n v"
  have args': "encodable (VDict args')" "meaning (VDict args') = meaning (VDict args)"
    using restored_meaning [OF assms(1), unfolded assms(2)] by blast+
  have p: "encodable ?p" "encodable ?p'"
    using assms(1) args'(1) by (simp_all add: fingerprint_payload_def encodable_item_def)
  have "meaning ?p' = meaning ?p" using args'(2) by (simp add: fingerprint_payload_def)
  then have "text_of ?p' = text_of ?p" using text_of_eq_iff [OF p(2,1)] by simp
  then show ?thesis by (simp add: request_hash_def canonical_json_encodable [OF p(1)] canonical_json_encodable [OF p(2)])
qed

text \<open>
  C29. The columns of an effect are faithful: writing a record with arguments that hash and durations
  below \<open>2 ^ 33\<close> seconds (about 272 years) and reading the row back gives the same record, except that
  the arguments come back as the parsed JSON, which denotes the same JSON value and has the same
  request hash under every contract.
\<close>

theorem row_roundtrip:
  assumes "wf_request (request r)" and "canonical_json (VDict (arguments (request r))) = Inr tx"
    and "short_duration (key_retention (contract r))" and "short_duration (settlement_bound (contract r))"
  shows "\<exists>row args. record_params r = Inr row
    \<and> row_to_record row = Inr (r\<lparr>request := (request r)\<lparr>arguments := args\<rparr>\<rparr>)
    \<and> meaning (VDict args) = meaning (VDict (arguments (request r)))
    \<and> (\<forall>tn n v. request_hash tn args n v = request_hash tn (arguments (request r)) n v)"
proof -
  let ?args = "arguments (request r)"
  let ?args2 = "object_items (restored (VDict ?args))"
  have enc: "encodable (VDict ?args)"
    using assms(1,2) canonical_json_Inr [of "VDict ?args"] by (auto simp: wf_request_def encodable_def)
  obtain row where row: "record_params r = Inr row" "row_to_record row = Inr (sql_saved r)"
    by (rule record_params_decodes [OF enc])
  have "sql_pin (contract r) = contract r"
    by (simp add: sql_pin_def duration_columns assms(3,4))
  then have "sql_saved r = r\<lparr>request := (request r)\<lparr>arguments := ?args2\<rparr>\<rparr>" by (simp add: sql_saved_def)
  moreover have "meaning (VDict ?args2) = meaning (VDict ?args)"
    unfolding restored_object using restored_meaning [OF enc] by blast
  moreover have "request_hash tn ?args2 n v = request_hash tn ?args n v" for tn n v
    by (rule payload_restored [OF enc restored_object [symmetric]])
  ultimately show ?thesis using row by (intro exI [of _ row] exI [of _ ?args2]) simp
qed

theorem row_roundtrip_witness:
  "\<exists>row args. record_params (sqlite_record IDEMPOTENT) = Inr row
     \<and> row_to_record row = Inr ((sqlite_record IDEMPOTENT)\<lparr>request := (demo_request 10)\<lparr>arguments := args\<rparr>\<rparr>)
     \<and> (\<forall>tn n v. request_hash tn args n v = request_hash tn [(VStr ''amount'', VInt 10)] n v)"
proof -
  let ?r = "sqlite_record IDEMPOTENT"
  have "encodable (VDict (arguments (request ?r)))"
    by (simp add: sqlite_record_def encodable_item_def)
  then have "canonical_json (VDict (arguments (request ?r))) = Inr (text_of (VDict (arguments (request ?r))))"
    by (rule canonical_json_encodable)
  from row_roundtrip [OF _ this] show ?thesis
    by (simp add: sqlite_record_def demo_wf short_duration_def) blast
qed

end
