(* ===== verification/Recovery_Properties.thy ===== *)
theory Recovery_Properties
  imports Sqlite_Properties
begin

text \<open>
  Properties of the reconciler over the in-memory ledger, for every adapter, and of a redispatch also over
  SQLite, which cannot store every answer.
\<close>

text \<open>
  C8. An unknown outcome of an unsafe effect, and of an idempotent one whose key the target may have
  forgotten, goes to an operator: no attempt is spent and no target is contacted.
\<close>

theorem unsafe_unknown_goes_to_operator:
  assumes "mem_ok (ledger s)" and "mem_get tenant eid (ledger s) = Some r" and "status r = OUTCOME_UNKNOWN"
    and "safety (contract r) = UNSAFE \<or>
      safety (contract r) = IDEMPOTENT \<and> \<not> (\<exists>d. key_retention (contract r) = Some d
        \<and> env_now (envs s (Suc (ticks s))) \<le> created_at r + d)"
  shows "\<exists>r' t. reconcile_once (memory_ops key) adapters r s = (Inr r', t) \<and> status r' = MANUAL_REVIEW
    \<and> same_pins r r' \<and> mem_get tenant eid (ledger t) = Some r' \<and> target t = target s
    \<and> (\<forall>i. mem_attempt_count i (ledger t) = mem_attempt_count i (ledger s))"
proof -
  have look: "mem_look (ledger s) eid = Some r" "tenant_id r = tenant" using assms(2) by (simp_all add: mem_get_Some)
  then have id: "effect_id r = eid" using mem_look_id [OF assms(1)] by blast
  from look(1) id have cur: "mem_look (ledger s) (effect_id r) = Some r" by simp
  obtain t now where t: "reconcile_once (memory_ops key) adapters r s = (Inr (advance r MANUAL_REVIEW now), t)"
    "mem_look (ledger t) = (mem_look (ledger s))(effect_id r \<mapsto> advance r MANUAL_REVIEW now)"
    "mem_tries (ledger t) = mem_tries (ledger s)" "target t = target s"
    by (rule mem.reconcile_to_operator [OF assms(1) cur assms(3) assms(4) [folded key_retention_valid_iff], of key adapters])
  have "mem_get tenant eid (ledger t) = Some (advance r MANUAL_REVIEW now)"
    using t(2) id look(2) by (simp add: mem_get_Some)
  moreover have "mem_attempt_count i (ledger t) = mem_attempt_count i (ledger s)" for i
    using t(3) by (simp add: mem_tries_def fun_eq_iff)
  ultimately show ?thesis using t(1,4)
    by (intro exI [of _ "advance r MANUAL_REVIEW now"] exI [of _ t]) simp
qed

theorem unsafe_unknown_goes_to_operator_witness:
  "\<exists>r' t. reconcile_once (memory_ops demo_keys) default_adapter_for (unknown_record UNSAFE) (demo_world (unknown_store UNSAFE)) =
     (Inr r', t) \<and> status r' = MANUAL_REVIEW"
  using unsafe_unknown_goes_to_operator [of "demo_world (unknown_store UNSAFE)" "''acme''" "''eff_000001''"
      "unknown_record UNSAFE" demo_keys default_adapter_for] by (auto simp: unknown_store_ok)

text \<open>
  C9. A redispatch of an idempotent effect, in the in-memory and in the SQLite ledger, happens while the key
  is retained: it presents the same downstream key and request hash and spends exactly one attempt. A
  committed answer ends in success; an unconfirmed one, and any exception but \<open>AdapterError\<close>, in an unknown
  outcome; an \<open>AdapterError\<close> is queued for retry, although it says nothing of the earlier, unknown attempt.
  Two cases reach no verdict and leave the effect in \<open>DISPATCHING\<close> with the exception passed on: no adapter is
  found (then the target is not called), or the answer is committed and its output is not JSON, which SQLite
  cannot store and the in-memory ledger can.
\<close>

theorem redispatch_same_key:
  assumes "mem_ok (ledger s)" and "mem_get tenant eid (ledger s) = Some r" and "status r = OUTCOME_UNKNOWN"
    and "safety (contract r) = IDEMPOTENT" and "key_retention (contract r) = Some horizon"
    and "env_now (envs s (Suc (ticks s))) \<le> created_at r + horizon"
    and "sql_ok (ledger s')" and "sql_look (ledger s') eid' = Some r'" and "status r' = OUTCOME_UNKNOWN"
    and "safety (contract r') = IDEMPOTENT" and "key_retention (contract r') = Some horizon'"
    and "env_now (envs s' (Suc (ticks s'))) \<le> created_at r' + horizon'"
  shows "(\<exists>x t d q. reconcile_once (memory_ops key) adapters r s = (x, t)
      \<and> same_pins r d \<and> down_key d = down_key r \<and> req_hash d = req_hash r \<and> status d = DISPATCHING
      \<and> mem_get tenant eid (ledger t) = Some q \<and> same_pins r q
      \<and> mem_attempt_count eid (ledger t) = Suc (mem_attempt_count eid (ledger s))
      \<and> redispatch_ends (\<lambda>_. True) adapters d (attempt_name eid (Suc (mem_attempt_count eid (ledger s))))
          (target s) (target t) x q)
    \<and> (\<exists>x t d q. reconcile_once (sqlite_ops key) adapters' r' s' = (x, t)
      \<and> same_pins r' d \<and> down_key d = down_key r' \<and> req_hash d = req_hash r' \<and> status d = DISPATCHING
      \<and> sql_look (ledger t) eid' = Some q \<and> same_pins r' q
      \<and> sql_attempt_count eid' (ledger t) = Suc (sql_attempt_count eid' (ledger s'))
      \<and> redispatch_ends (\<lambda>d. \<not> isl (canonical_json (VDict d))) adapters' d
          (attempt_name eid' (Suc (sql_attempt_count eid' (ledger s')))) (target s') (target t) x q)"
proof (rule conjI)
  have look: "mem_look (ledger s) eid = Some r" "tenant_id r = tenant" using assms(2) by (simp_all add: mem_get_Some)
  then have id: "effect_id r = eid" using mem_look_id [OF assms(1)] by blast
  have retained: "key_retention_valid (env_now (envs s (Suc (ticks s)))) r"
    using assms(5,6) by (simp add: key_retention_valid_def)
  obtain x t d q where "reconcile_once (memory_ops key) adapters r s = (x, t)" "status d = DISPATCHING" "same_pins r d"
    "same_pins r q" "mem_look (ledger t) = (mem_look (ledger s))(effect_id r \<mapsto> q)"
    "mem_tries (ledger t) = (mem_tries (ledger s))(effect_id r := Suc (mem_tries (ledger s) (effect_id r)))"
    "redispatch_ends (\<lambda>_. True) adapters d (attempt_name (effect_id r) (Suc (mem_tries (ledger s) (effect_id r))))
       (target s) (target t) x q"
    by (rule mem.reconcile_redispatched [OF assms(1) _ assms(3,4) retained, of key adapters]) (use look id in simp_all)
  with id look(2) show "\<exists>x t d q. reconcile_once (memory_ops key) adapters r s = (x, t)
      \<and> same_pins r d \<and> down_key d = down_key r \<and> req_hash d = req_hash r \<and> status d = DISPATCHING
      \<and> mem_get tenant eid (ledger t) = Some q \<and> same_pins r q
      \<and> mem_attempt_count eid (ledger t) = Suc (mem_attempt_count eid (ledger s))
      \<and> redispatch_ends (\<lambda>_. True) adapters d (attempt_name eid (Suc (mem_attempt_count eid (ledger s))))
          (target s) (target t) x q"
    by (intro exI conjI) (auto simp: same_pins_def mem_get_Some mem_tries_def fun_eq_iff)
next
  have id: "effect_id r' = eid'" by (rule sql.look_id [OF assms(7,8)])
  have retained: "key_retention_valid (env_now (envs s' (Suc (ticks s')))) r'"
    using assms(11,12) by (simp add: key_retention_valid_def)
  obtain x t d q where "reconcile_once (sqlite_ops key) adapters' r' s' = (x, t)" "status d = DISPATCHING" "same_pins r' d"
    "same_pins r' q" "sql_look (ledger t) = (sql_look (ledger s'))(effect_id r' \<mapsto> q)"
    "(\<lambda>i. sql_attempt_count i (ledger t)) =
      (\<lambda>i. sql_attempt_count i (ledger s'))(effect_id r' := Suc (sql_attempt_count (effect_id r') (ledger s')))"
    "redispatch_ends sql_accepts adapters' d (attempt_name (effect_id r') (Suc (sql_attempt_count (effect_id r') (ledger s'))))
       (target s') (target t) x q"
    by (rule sql.reconcile_redispatched [OF assms(7) _ assms(9,10) retained, of key adapters']) (use assms(8) id in simp_all)
  with id show "\<exists>x t d q. reconcile_once (sqlite_ops key) adapters' r' s' = (x, t)
      \<and> same_pins r' d \<and> down_key d = down_key r' \<and> req_hash d = req_hash r' \<and> status d = DISPATCHING
      \<and> sql_look (ledger t) eid' = Some q \<and> same_pins r' q
      \<and> sql_attempt_count eid' (ledger t) = Suc (sql_attempt_count eid' (ledger s'))
      \<and> redispatch_ends (\<lambda>d. \<not> isl (canonical_json (VDict d))) adapters' d
          (attempt_name eid' (Suc (sql_attempt_count eid' (ledger s')))) (target s') (target t) x q"
    unfolding sql_accepts_def [abs_def]
    by (intro exI conjI) (auto simp: same_pins_def fun_eq_iff)
qed

text \<open>An unknown outcome in SQLite.\<close>

lemma sqlite_unknown:
  obtains l r where "sql_ok l" "sql_look l ''eff_u'' = Some r" "status r = OUTCOME_UNKNOWN"
    "contract r = sql_pin (demo_contract cls)" "created_at r = seconds 100"
proof -
  obtain l where l: "sql_ok l" "sql_look l ''eff_u'' = Some (sql_saved (sqlite_record cls))" by (rule sqlite_reserved)
  let ?r = "sql_saved (sqlite_record cls)"
  let ?d = "advance ?r DISPATCHING 0"
  have r: "status ?r = PREPARED" "contract ?r = sql_pin (demo_contract cls)" "created_at ?r = seconds 100"
    by (simp_all add: sql_saved_def sqlite_record_def sql_new_record_def demo_env_def)
  have go: "is_allowed (status ?r) DISPATCHING" "is_allowed (status ?d) OUTCOME_UNKNOWN"
    by (simp_all add: r is_allowed_simps)
  have plain: "sql_accepts []" by (simp add: sql_accepts_def canonical_json_encodable)
  obtain m where m: "sql_ok m" "sql_look m = (sql_look l)(''eff_u'' \<mapsto> ?d)"
    using sql.transition_done [OF l HOL.refl go(1) plain, of demo_keys "demo_env\<lparr>env_now := 0\<rparr>"] by auto
  have "sql_look m ''eff_u'' = Some ?d" by (simp add: m)
  from sql.transition_done [OF m(1) this HOL.refl go(2) plain, of demo_keys demo_env] obtain n where
    "sql_ok n" "sql_look n = (sql_look m)(''eff_u'' \<mapsto> advance ?d OUTCOME_UNKNOWN (env_now demo_env))" by blast
  then show thesis using r by (intro that [of n "advance ?d OUTCOME_UNKNOWN (env_now demo_env)"]) simp_all
qed

text \<open>In memory the simulated target answers; in SQLite the lookup of the adapter raises.\<close>

theorem redispatch_same_key_witness:
  "(\<exists>x t. reconcile_once (memory_ops demo_keys) default_adapter_for (unknown_record IDEMPOTENT)
      (demo_world (unknown_store IDEMPOTENT)) = (x, t) \<and> mem_attempt_count ''eff_000001'' (ledger t) =
        Suc (mem_attempt_count ''eff_000001'' (unknown_store IDEMPOTENT)))
   \<and> (\<exists>l r t q. reconcile_once (sqlite_ops demo_keys) (\<lambda>_. Inl (PyError ''KeyError'')) r (sqlite_world l) =
        (Inl (PyError ''KeyError''), t) \<and> sql_look (ledger t) ''eff_u'' = Some q \<and> status q = DISPATCHING
        \<and> target t = target (sqlite_world l))"
proof -
  obtain l r where l: "sql_ok l" "sql_look l ''eff_u'' = Some r" "status r = OUTCOME_UNKNOWN"
    "contract r = sql_pin (demo_contract IDEMPOTENT)" "created_at r = seconds 100" by (rule sqlite_unknown)
  let ?keep = "the (key_retention (demo_contract IDEMPOTENT))" and ?keep' = "the (key_retention (contract r))"
  have kept: "safety (contract r) = IDEMPOTENT" "key_retention (contract r) = Some ?keep'"
    "env_now demo_env \<le> created_at r + ?keep'"
    using l(4,5) by (simp_all add: sql_pin_def demo_contract_def duration_columns short_duration_def demo_env_def)
  from redispatch_same_key [of "demo_world (unknown_store IDEMPOTENT)" "''acme''" "''eff_000001''"
      "unknown_record IDEMPOTENT" ?keep "sqlite_world l" "''eff_u''" r ?keep' demo_keys default_adapter_for
      "\<lambda>_. Inl (PyError ''KeyError'')"] l kept
  show ?thesis
    by (auto simp: unknown_store_ok demo_env_def sqlite_world_def redispatch_ends_def)
qed

text \<open>
  C10. A reconcilable or transactional effect is requeued only on a conclusive \<open>NOT_COMMITTED\<close>, succeeds
  only on \<open>COMMITTED\<close>, and otherwise goes to an operator; no attempt is spent. If the probe raises,
  the error is passed on and the effect is left in \<open>RECONCILING\<close>.
\<close>

theorem probe_decides:
  assumes "mem_ok (ledger s)" and "mem_get tenant eid (ledger s) = Some r" and "status r = OUTCOME_UNKNOWN"
    and "safety (contract r) \<in> {RECONCILABLE, TRANSACTIONAL}" and "\<forall>d. adapters d = Inr (a d)"
  shows "\<exists>x t q ans. reconcile_once (memory_ops key) adapters r s = (x, t) \<and> same_pins r q \<and> status q = RECONCILING
    \<and> adapter_probe (a q) q (target s) = (ans, target t)
    \<and> (\<forall>i. mem_attempt_count i (ledger t) = mem_attempt_count i (ledger s))
    \<and> (case ans of
         Inl e \<Rightarrow> x = Inl e \<and> mem_get tenant eid (ledger t) = Some q
       | Inr p \<Rightarrow> \<exists>r'. x = Inr r' \<and> mem_get tenant eid (ledger t) = Some r' \<and> same_pins r r'
           \<and> status r' = (case probe_state p of COMMITTED \<Rightarrow> SUCCEEDED | NOT_COMMITTED \<Rightarrow> PREPARED | UNKNOWN \<Rightarrow> MANUAL_REVIEW))"
proof -
  have look: "mem_look (ledger s) eid = Some r" "tenant_id r = tenant" using assms(2) by (simp_all add: mem_get_Some)
  then have id: "effect_id r = eid" using mem_look_id [OF assms(1)] by blast
  obtain t q ans now where q: "q = advance r RECONCILING now" and ans: "adapter_probe (a q) q (target s) = (ans, target t)"
    and tries: "mem_tries (ledger t) = mem_tries (ledger s)"
    and good: "\<And>p. ans = Inr p \<Longrightarrow> \<exists>now'. reconcile_once (memory_ops key) adapters r s =
        (Inr (advance q (probe_goal (probe_state p)) now'), t)
        \<and> mem_look (ledger t) = (mem_look (ledger s))(effect_id r \<mapsto> advance q (probe_goal (probe_state p)) now')"
    and bad: "\<And>e. ans = Inl e \<Longrightarrow> reconcile_once (memory_ops key) adapters r s = (Inl e, t)
        \<and> mem_look (ledger t) = (mem_look (ledger s))(effect_id r \<mapsto> q)"
    by (rule mem.reconcile_probe [of s r adapters a key, OF assms(1) _ assms(3,4)]) (use look id assms(5) in simp_all)
  have count: "mem_attempt_count i (ledger t) = mem_attempt_count i (ledger s)" for i
    using tries by (simp add: mem_tries_def fun_eq_iff)
  show ?thesis
  proof (cases ans)
    case (Inl e)
    with bad [OF Inl] q ans count id look(2) show ?thesis
      by (intro exI [of _ "Inl e"] exI [of _ t] exI [of _ q] exI [of _ ans]) (simp add: mem_get_Some)
  next
    case (Inr p)
    from good [OF Inr] obtain now' where r': "reconcile_once (memory_ops key) adapters r s =
        (Inr (advance q (probe_goal (probe_state p)) now'), t)"
      "mem_look (ledger t) = (mem_look (ledger s))(effect_id r \<mapsto> advance q (probe_goal (probe_state p)) now')" by blast
    have "status (advance q (probe_goal (probe_state p)) now') =
        (case probe_state p of COMMITTED \<Rightarrow> SUCCEEDED | NOT_COMMITTED \<Rightarrow> PREPARED | UNKNOWN \<Rightarrow> MANUAL_REVIEW)"
      by (cases "probe_state p") simp_all
    with r' Inr q ans count id look(2) show ?thesis
      by (intro exI [of _ "Inr (advance q (probe_goal (probe_state p)) now')"] exI [of _ t] exI [of _ q] exI [of _ ans])
        (simp add: mem_get_Some)
  qed
qed

theorem probe_decides_witness:
  "\<exists>x t. reconcile_once (memory_ops demo_keys) default_adapter_for (unknown_record RECONCILABLE)
      (demo_world (unknown_store RECONCILABLE)) = (x, t)
    \<and> mem_attempt_count ''eff_000001'' (ledger t) = mem_attempt_count ''eff_000001'' (unknown_store RECONCILABLE)"
  using probe_decides [of "demo_world (unknown_store RECONCILABLE)" "''acme''" "''eff_000001''"
      "unknown_record RECONCILABLE" default_adapter_for "\<lambda>d. simulated_adapter (contract d)" demo_keys]
  by (auto simp: unknown_store_ok default_adapter_for_def)

end
