(* ===== verification/Fingerprints.thy ===== *)
theory Fingerprints
  imports Canonical_Text
begin

text \<open>
  Properties of the fingerprints of \<open>canonical.py\<close>. A request hash binds the tool, the JSON value
  of the arguments and the contract; a downstream key binds the tenant and the operation key. No
  collision freedom of SHA-256 is assumed in general: where equal fingerprints are to mean equal
  inputs, the two digests at hand not colliding is a hypothesis of the statement.
\<close>

section \<open>Base64 of a digest\<close>

lemma b64_char_inj [simp]: "b64_char m = b64_char n \<longleftrightarrow> m mod 64 = n mod 64"
proof -
  have "distinct b64_alphabet" "length b64_alphabet = 64" by (simp_all add: b64_alphabet_def)
  then show ?thesis by (simp add: b64_char_def nth_eq_iff_index_eq)
qed

lemma b64_char_in [simp]: "b64_char n \<in> set b64_alphabet"
proof -
  have "length b64_alphabet = 64" by (simp add: b64_alphabet_def)
  then show ?thesis by (simp add: b64_char_def)
qed

lemma no_padding_sign: "CHR ''='' \<notin> set b64_alphabet"
  by (simp add: b64_alphabet_def)

lemma b64_char_not_padding [simp]: "b64_char n \<noteq> CHR ''=''" "CHR ''='' \<noteq> b64_char n"
  using b64_char_in no_padding_sign by metis+

text \<open>A group of six-bit digits determines the number, and the number its bytes.\<close>

lemma six_bits:
  fixes m n :: nat
  assumes "m div 262144 mod 64 = n div 262144 mod 64" and "m div 4096 mod 64 = n div 4096 mod 64"
    and "m div 64 mod 64 = n div 64 mod 64" and "m mod 64 = n mod 64"
    and "m < 16777216" and "n < 16777216"
  shows "m = n"
proof -
  have split: "k = ((k div 262144 mod 64 * 64 + k div 4096 mod 64) * 64 + k div 64 mod 64) * 64 + k mod 64"
    if "k < 16777216" for k :: nat
  proof -
    have "k div 262144 < 64" using that by (simp add: less_mult_imp_div_less)
    moreover have "k div 64 div 64 = k div 4096" "k div 4096 div 64 = k div 262144"
      by (simp_all add: div_mult2_eq [symmetric])
    ultimately show ?thesis
      using div_mult_mod_eq [of k 64] div_mult_mod_eq [of "k div 64" 64] div_mult_mod_eq [of "k div 4096" 64]
      by simp
  qed
  have "m = ((n div 262144 mod 64 * 64 + n div 4096 mod 64) * 64 + n div 64 mod 64) * 64 + n mod 64"
    using split [OF assms(5)] unfolding assms(1-4) .
  with split [OF assms(6)] show ?thesis by (metis)
qed

lemma last_byte:
  fixes x y c d :: nat
  assumes "x * 256 + c = y * 256 + d" and "c < 256" and "d < 256"
  shows "x = y \<and> c = d"
proof -
  have "c = d" using arg_cong [OF assms(1), of "\<lambda>k. k mod 256"] assms(2,3) by simp
  with assms(1) show ?thesis by simp
qed

lemma three_bytes:
  fixes a b c a' b' c' :: byte
  assumes "unat a * 65536 + unat b * 256 + unat c = unat a' * 65536 + unat b' * 256 + unat c'"
  shows "a = a' \<and> b = b' \<and> c = c'"
proof -
  have bound: "unat x < 256" for x :: byte using unsigned_less [of x, where ?'a = nat] by simp
  have "(unat a * 256 + unat b) * 256 + unat c = (unat a' * 256 + unat b') * 256 + unat c'"
    using assms by simp
  from last_byte [OF this bound bound] last_byte [OF _ bound bound, of "unat a" b "unat a'" b']
  have "unat a = unat a'" "unat b = unat b'" "unat c = unat c'" by simp_all
  then show ?thesis by (simp add: word_unat_eq_iff)
qed

lemma group_bound: "unat (a :: byte) * 65536 + unat (b :: byte) * 256 + unat (c :: byte) < 16777216"
proof -
  have bound: "unat x < 256" for x :: byte using unsigned_less [of x, where ?'a = nat] by simp
  from bound [of a] bound [of b] bound [of c] show ?thesis by linarith
qed

text \<open>A text of two bytes more than a multiple of three ends in exactly one padding sign.\<close>

lemma b64_one_padding:
  assumes "length bs mod 3 = 2"
  shows "\<exists>cs. urlsafe_b64encode bs = cs @ ''='' \<and> set cs \<subseteq> set b64_alphabet \<and> 3 * Suc (length cs) = 4 * Suc (length bs)"
  using assms
proof (induction bs rule: urlsafe_b64encode.induct)
  case (3 a b)
  show ?case by (simp add: Let_def)
next
  case (4 a b c bs)
  then have "length bs mod 3 = 2" by (simp add: mod_Suc split: if_splits)
  then obtain cs where cs: "urlsafe_b64encode bs = cs @ ''=''" "set cs \<subseteq> set b64_alphabet"
    "3 * Suc (length cs) = 4 * Suc (length bs)" using "4.IH" by blast
  let ?n = "unat a * 65536 + unat b * 256 + unat c"
  let ?g = "[b64_char (?n div 262144), b64_char (?n div 4096), b64_char (?n div 64), b64_char ?n]"
  have "urlsafe_b64encode (a # b # c # bs) = (?g @ cs) @ ''=''" using cs(1) by (simp add: Let_def)
  moreover have "set (?g @ cs) \<subseteq> set b64_alphabet" using cs(2) by simp
  moreover have "3 * Suc (length (?g @ cs)) = 4 * Suc (length (a # b # c # bs))" using cs(3) by simp
  ultimately show ?case by blast
qed simp_all

lemma b64_inj: "length bs mod 3 = 2 \<Longrightarrow> length bs' = length bs
    \<Longrightarrow> urlsafe_b64encode bs = urlsafe_b64encode bs' \<Longrightarrow> bs = bs'"
proof (induction bs arbitrary: bs' rule: urlsafe_b64encode.induct)
  case (3 a b)
  then obtain a' b' where bs': "bs' = [a', b']" by (auto simp: length_Suc_conv)
  let ?m = "unat a * 65536 + unat b * 256 + unat (0 :: byte)"
  let ?n = "unat a' * 65536 + unat b' * 256 + unat (0 :: byte)"
  have low: "(x * 65536 + y * 256 + unat (0 :: byte)) mod 64 = 0" for x y :: nat
  proof -
    have "x * 65536 + y * 256 + unat (0 :: byte) = 64 * (x * 1024 + y * 4)" by simp
    then show ?thesis by (metis mod_mult_self1_is_0)
  qed
  have enc: "?m div 262144 mod 64 = ?n div 262144 mod 64" "?m div 4096 mod 64 = ?n div 4096 mod 64"
    "?m div 64 mod 64 = ?n div 64 mod 64" using 3(3) bs' by (simp_all add: Let_def)
  have "?m = ?n" by (rule six_bits [OF enc _ group_bound group_bound]) (simp only: low)
  then show ?case using three_bytes [of a b 0 a' b' 0] bs' by simp
next
  case (4 a b c bs)
  then obtain a' b' c' ds where bs': "bs' = a' # b' # c' # ds" "length ds = length bs"
    by (auto simp: length_Suc_conv)
  let ?m = "unat a * 65536 + unat b * 256 + unat c"
  let ?n = "unat a' * 65536 + unat b' * 256 + unat c'"
  from 4(4) bs'(1) have enc: "?m div 262144 mod 64 = ?n div 262144 mod 64" "?m div 4096 mod 64 = ?n div 4096 mod 64"
    "?m div 64 mod 64 = ?n div 64 mod 64" "?m mod 64 = ?n mod 64"
    and rest: "urlsafe_b64encode bs = urlsafe_b64encode ds" by (simp_all add: Let_def)
  have "?m = ?n" by (rule six_bits [OF enc group_bound group_bound])
  then have "a = a' \<and> b = b' \<and> c = c'" by (rule three_bytes)
  moreover have "length bs mod 3 = 2" using 4(2) by (simp add: mod_Suc split: if_splits)
  then have "bs = ds" by (rule 4(1) [OF HOL.refl _ bs'(2) rest])
  ultimately show ?case using bs'(1) by simp
qed simp_all


lemma digest_key_text:
  assumes "length bs = 32"
  shows "length (rstrip_eq (urlsafe_b64encode bs)) = 43" "set (rstrip_eq (urlsafe_b64encode bs)) \<subseteq> set b64_alphabet"
    "urlsafe_b64encode bs = rstrip_eq (urlsafe_b64encode bs) @ ''=''"
proof -
  from b64_one_padding [of bs] assms obtain cs where cs: "urlsafe_b64encode bs = cs @ ''=''"
    "set cs \<subseteq> set b64_alphabet" "length cs = 43" by auto
  have "dropWhile (\<lambda>c. c = CHR ''='') (rev cs) = rev cs"
  proof (cases "rev cs")
    case (Cons c ds)
    then have "c \<in> set cs" by (metis list.set_intros(1) set_rev)
    with cs(2) no_padding_sign have "c \<noteq> CHR ''=''" by blast
    with Cons show ?thesis by simp
  qed simp
  then have "rstrip_eq (urlsafe_b64encode bs) = cs" by (simp add: rstrip_eq_def cs(1))
  with cs show "length (rstrip_eq (urlsafe_b64encode bs)) = 43"
    "set (rstrip_eq (urlsafe_b64encode bs)) \<subseteq> set b64_alphabet"
    "urlsafe_b64encode bs = rstrip_eq (urlsafe_b64encode bs) @ ''=''" by simp_all
qed

section \<open>Canonical text\<close>

text \<open>
  C11. Canonicalization accepts exactly the values that every process encodes alike: finite floats,
  text keys, built-in containers, all the way down. It names its own error for a value that is not
  reproducible; a registered container that is not built in passes validation and makes the encoder
  raise \<open>TypeError\<close>.
\<close>

theorem canonical_json_accepts:
  "case canonical_json v of
     Inr t \<Rightarrow> reproducible v \<and> builtin v
   | Inl (CanonicalizationError f) \<Rightarrow> \<not> reproducible v
   | Inl e \<Rightarrow> reproducible v \<and> \<not> builtin v \<and> e = PyError ''TypeError''"
proof (cases "reproducible v")
  case True
  then have valid: "validate v ''$'' = None" by (simp add: validate_iff)
  show ?thesis
  proof (cases "json_dumps v")
    case (Inl e)
    with True dumps_type_error(1) [OF True Inl] dumps_defined(1) [OF True] valid
    show ?thesis by (simp add: canonical_json_def)
  next
    case (Inr t)
    with True dumps_defined(1) [OF True] valid show ?thesis by (simp add: canonical_json_def)
  qed
next
  case False
  then obtain f where "validate v ''$'' = Some f" using validate_iff(1) [of v "''$''"] by auto
  with False show ?thesis by (simp add: canonical_json_def)
qed

text \<open>
  C12. Canonical text is a complete invariant: two values have the same canonical text exactly when
  they denote the same JSON value, whatever the insertion order of their dictionaries.
\<close>

theorem canonical_text_complete:
  assumes "wf_val v" and "wf_val w" and "canonical_json v = Inr t" and "canonical_json w = Inr u"
  shows "t = u \<longleftrightarrow> meaning v = meaning w"
  using assms text_of_eq_iff [of v w] by (simp add: canonical_json_encodes)

definition left_order :: pyval where
  "left_order = VDict [(VStr ''a'', VInt 1), (VStr ''b'', VTuple [VNone, VBool True])]"

definition right_order :: pyval where
  "right_order = VDict [(VStr ''b'', VList [VNone, VBool True]), (VStr ''a'', VInt 1)]"

lemma orders: "encodable left_order" "encodable right_order" "meaning left_order = meaning right_order"
proof -
  show "encodable left_order" "encodable right_order"
    by (simp_all add: left_order_def right_order_def encodable_item_def)
  have "fmap_of_list [(''a'', JInt 1), (''b'', JArray [JNull, JBool True])] =
      fmap_of_list [(''b'', JArray [JNull, JBool True]), (''a'', JInt 1)]"
    by (rule fmap_ext) (auto simp: fmlookup_of_list)
  then show "meaning left_order = meaning right_order"
    by (simp add: left_order_def right_order_def key_text_def)
qed

theorem canonical_text_complete_witness:
  "\<exists>t u. canonical_json left_order = Inr t \<and> canonical_json right_order = Inr u \<and> t = u"
  using canonical_text_complete [of left_order right_order "text_of left_order" "text_of right_order"] orders
    canonical_json_encodable [of left_order] canonical_json_encodable [of right_order]
  by (simp add: encodable_def)

section \<open>Request hashes and downstream keys\<close>

definition payload_text :: "string \<Rightarrow> json_object \<Rightarrow> string \<Rightarrow> string \<Rightarrow> string" where
  "payload_text tn args name ver = text_of (fingerprint_payload tn args name ver)"

lemma payload_encodable: "encodable (fingerprint_payload tn args name ver) \<longleftrightarrow> encodable (VDict args)"
  by (simp add: fingerprint_payload_def encodable_item_def)

lemma payload_meaning:
  "meaning (fingerprint_payload tn args name ver) = meaning (fingerprint_payload tn' args' name' ver')
     \<longleftrightarrow> tn = tn' \<and> meaning (VDict args) = meaning (VDict args') \<and> name = name' \<and> ver = ver'"
proof
  let ?m = "\<lambda>tn args name ver. fmap_of_list [(''tool'', JStr tn), (''arguments'', meaning (VDict args)),
      (''contract_name'', JStr name), (''contract_version'', JStr ver)]"
  assume "meaning (fingerprint_payload tn args name ver) = meaning (fingerprint_payload tn' args' name' ver')"
  then have eq: "?m tn args name ver = ?m tn' args' name' ver'"
    by (simp add: fingerprint_payload_def key_text_def)
  from arg_cong [OF eq, of "\<lambda>m. fmlookup m ''tool''"] arg_cong [OF eq, of "\<lambda>m. fmlookup m ''arguments''"]
    arg_cong [OF eq, of "\<lambda>m. fmlookup m ''contract_name''"] arg_cong [OF eq, of "\<lambda>m. fmlookup m ''contract_version''"]
  show "tn = tn' \<and> meaning (VDict args) = meaning (VDict args') \<and> name = name' \<and> ver = ver'"
    by (simp add: fmlookup_of_list del: meaning.simps)
qed (simp add: fingerprint_payload_def key_text_def)

lemma request_hash_text:
  assumes "wf_val (VDict args)"
  shows "request_hash tn args name ver = Inr h \<longleftrightarrow>
     encodable (VDict args) \<and> h = hex_text (sha256 (utf8_encode (payload_text tn args name ver)))"
proof -
  have wf: "wf_val (fingerprint_payload tn args name ver)"
    using assms by (simp add: fingerprint_payload_def)
  show ?thesis
  proof (cases "canonical_json (fingerprint_payload tn args name ver)")
    case (Inl e)
    with canonical_json_encodable [of "fingerprint_payload tn args name ver"]
    have "\<not> encodable (fingerprint_payload tn args name ver)" by auto
    with Inl show ?thesis by (simp add: request_hash_def payload_encodable del: encodable_simps)
  next
    case (Inr t)
    with canonical_json_encodes [OF wf, of t] show ?thesis
      by (auto simp: request_hash_def payload_encodable payload_text_def simp del: encodable_simps)
  qed
qed

text \<open>
  C13. A request hash binds the request: unless the SHA-256 digests of the two canonical texts at hand
  collide, two requests have the same hash exactly when tool, contract name, contract version and
  the JSON value of the arguments are the same.
\<close>

theorem request_hash_binds:
  assumes "request_hash tn args name ver = Inr h" and "request_hash tn' args' name' ver' = Inr h'"
    and "wf_val (VDict args)" and "wf_val (VDict args')"
    and "inj_on sha256 (utf8_encode ` {payload_text tn args name ver, payload_text tn' args' name' ver'})"
  shows "h = h' \<longleftrightarrow> tn = tn' \<and> meaning (VDict args) = meaning (VDict args') \<and> name = name' \<and> ver = ver'"
proof -
  let ?t = "payload_text tn args name ver" and ?t' = "payload_text tn' args' name' ver'"
  from assms(1-4) have enc: "encodable (VDict args)" "encodable (VDict args')"
    and h: "h = hex_text (sha256 (utf8_encode ?t))" "h' = hex_text (sha256 (utf8_encode ?t'))"
    by (simp_all only: request_hash_text)
  have "h = h' \<longleftrightarrow> sha256 (utf8_encode ?t) = sha256 (utf8_encode ?t')" by (simp add: h)
  also have "\<dots> \<longleftrightarrow> utf8_encode ?t = utf8_encode ?t'" by (rule inj_on_eq_iff [OF assms(5)]) blast+
  also have "\<dots> \<longleftrightarrow> ?t = ?t'" by (rule utf8_encode_inj)
  also have "\<dots> \<longleftrightarrow> meaning (fingerprint_payload tn args name ver) = meaning (fingerprint_payload tn' args' name' ver')"
    unfolding payload_text_def using enc by (intro text_of_eq_iff) (simp_all only: payload_encodable)
  finally show ?thesis by (simp only: payload_meaning)
qed

theorem request_hash_binds_witness:
  "\<exists>h h'. request_hash ''t'' [(VStr ''a'', VInt 1), (VStr ''b'', VNone)] ''c'' ''v'' = Inr h
     \<and> request_hash ''t'' [(VStr ''b'', VNone), (VStr ''a'', VInt 1)] ''c'' ''v'' = Inr h' \<and> h = h'"
proof -
  let ?a = "[(VStr ''a'', VInt 1), (VStr ''b'', VNone)]" and ?b = "[(VStr ''b'', VNone), (VStr ''a'', VInt 1)]"
  have enc: "encodable (VDict ?a)" "encodable (VDict ?b)" "wf_val (VDict ?a)" "wf_val (VDict ?b)"
    by (simp_all add: encodable_item_def)
  have "fmap_of_list [(''a'', JInt 1), (''b'', JNull)] = fmap_of_list [(''b'', JNull), (''a'', JInt 1)]"
    by (rule fmap_ext) (auto simp: fmlookup_of_list)
  then have same: "meaning (VDict ?a) = meaning (VDict ?b)" by (simp add: key_text_def)
  then have "payload_text ''t'' ?a ''c'' ''v'' = payload_text ''t'' ?b ''c'' ''v''"
    unfolding payload_text_def
    using enc by (subst text_of_eq_iff) (simp_all only: payload_encodable payload_meaning)
  then have one: "inj_on sha256 (utf8_encode ` {payload_text ''t'' ?a ''c'' ''v'', payload_text ''t'' ?b ''c'' ''v''})"
    by simp
  have "\<exists>h. request_hash ''t'' ?a ''c'' ''v'' = Inr h" "\<exists>h. request_hash ''t'' ?b ''c'' ''v'' = Inr h"
    using enc(1,2) request_hash_text [OF enc(3)] request_hash_text [OF enc(4)] by blast+
  then obtain h h' where h: "request_hash ''t'' ?a ''c'' ''v'' = Inr h" "request_hash ''t'' ?b ''c'' ''v'' = Inr h'"
    by blast
  from request_hash_binds [OF h enc(3,4) one] same h show ?thesis by blast
qed

text \<open>
  C14. A downstream key is 43 characters of the URL-safe alphabet; it is the same at every attempt, and
  unless the two digests at hand collide it binds the tenant and the operation key, for tenants
  whose names hold no NUL.
\<close>

theorem downstream_key_binds:
  fixes key :: "byte list"
  assumes "CHR 0x00 \<notin> set tenant" and "CHR 0x00 \<notin> set tenant'"
    and "inj_on (hmac_sha256 key) (utf8_encode ` {key_message tenant k, key_message tenant' k'})"
  shows "length (downstream_key key tenant k) = 43 \<and> set (downstream_key key tenant k) \<subseteq> set b64_alphabet
    \<and> (downstream_key key tenant k = downstream_key key tenant' k' \<longleftrightarrow> tenant = tenant' \<and> k = k')"
proof -
  let ?d = "\<lambda>tenant k. hmac_sha256 key (utf8_encode (key_message tenant k))"
  have cut: "takeWhile (\<lambda>c. c \<noteq> CHR 0x00) (key_message t q) = t" "drop (Suc (length t)) (key_message t q) = q"
    if "CHR 0x00 \<notin> set t" for t q
  proof -
    have "\<forall>c \<in> set t. c \<noteq> CHR 0x00" using that by auto
    then show "takeWhile (\<lambda>c. c \<noteq> CHR 0x00) (key_message t q) = t" by (simp add: key_message_def)
  qed (simp add: key_message_def)
  have "downstream_key key tenant k = downstream_key key tenant' k' \<longleftrightarrow> ?d tenant k = ?d tenant' k'"
  proof
    assume "downstream_key key tenant k = downstream_key key tenant' k'"
    then have "urlsafe_b64encode (?d tenant k) = urlsafe_b64encode (?d tenant' k')"
      using digest_key_text(3) [of "?d tenant k"] digest_key_text(3) [of "?d tenant' k'"]
      by (simp add: downstream_key_def)
    then show "?d tenant k = ?d tenant' k'" by (rule b64_inj [rotated -1]) simp_all
  qed (simp add: downstream_key_def)
  also have "\<dots> \<longleftrightarrow> utf8_encode (key_message tenant k) = utf8_encode (key_message tenant' k')"
    by (rule inj_on_eq_iff [OF assms(3)]) blast+
  also have "\<dots> \<longleftrightarrow> key_message tenant k = key_message tenant' k'" by (rule utf8_encode_inj)
  also have "\<dots> \<longleftrightarrow> tenant = tenant' \<and> k = k'" using cut assms(1,2) by metis
  finally show ?thesis
    using digest_key_text(1,2) [of "?d tenant k"] by (simp add: downstream_key_def)
qed

theorem downstream_key_binds_witness:
  "downstream_key [1] ''acme'' ''op'' = downstream_key [1] ''acme'' ''op'' \<and> length (downstream_key [1] ''acme'' ''op'') = 43"
  using downstream_key_binds [of "''acme''" "''acme''" "[1]" "''op''" "''op''"] by simp

end
