(* ===== verification/Frame.thy ===== *)
theory Frame
  imports Engine
begin

text \<open>
  A fact of the ledger that every store operation keeps is kept by the whole process: worker,
  reconciler and service touch the ledger through those operations only. The locale takes the
  four facts of a store and gives the fact for every \<open>broker_run\<close>, whatever the adapters do.
\<close>

lemma keeps_on_ledger: "keeps P m \<Longrightarrow> keeps (\<lambda>s. P (ledger s)) (on_ledger m)"
  by (auto simp: keeps_def on_ledger_def split: prod.split)

lemma keeps_process [keeps_intros]:
  "keeps (\<lambda>s. P (ledger s)) read_env" "keeps (\<lambda>s. P (ledger s)) (measure_with f)"
  "keeps (\<lambda>s. P (ledger s)) (raise_or_return x)" "keeps (\<lambda>s. P (ledger s)) (on_target m)"
  by (simp_all add: keeps_def run_simps on_target_def split: prod.split)

lemma keeps_observe [keeps_intros]:
  "keeps (\<lambda>s. P (ledger s)) m \<Longrightarrow> keeps (\<lambda>s. P (ledger s)) (observe_latency op m)"
  by (simp add: keeps_def observe_latency_def split: prod.split) (metis snd_conv)

lemma keeps_try_else [keeps_intros]:
  assumes "keeps I m" and "\<And>e. keeps I (h e)" and "\<And>x. keeps I (k x)"
  shows "keeps I (try_else m h k)"
proof (rule keepsI)
  fix s r t
  assume s: "I s" and run: "try_else m h k s = (r, t)"
  obtain y u where m: "m s = (y, u)" by (cases "m s")
  with assms(1) s have "I u" by (rule keepsD)
  with run m assms(2,3) show "I t" by (cases y) (auto simp: try_else_def dest: keepsD)
qed

lemma keeps_error_cases [keeps_intros]:
  "(\<And>i. x = VersionConflictError i \<Longrightarrow> keeps I m) \<Longrightarrow> keeps I m' \<Longrightarrow>
     keeps I (case x of VersionConflictError i \<Rightarrow> m | _ \<Rightarrow> m')"
  "(\<And>a b c. x = PayloadConflictError a b c \<Longrightarrow> keeps I m) \<Longrightarrow> keeps I m' \<Longrightarrow>
     keeps I (case x of PayloadConflictError a b c \<Rightarrow> m | _ \<Rightarrow> m')"
  "(\<And>i. x = AdapterError i \<Longrightarrow> keeps I m) \<Longrightarrow> keeps I m' \<Longrightarrow>
     keeps I (case x of AdapterError i \<Rightarrow> m | _ \<Rightarrow> m')"
  by (simp_all split: error.split)

locale ledger_frame =
  fixes ops :: "'s store_ops"
    and P :: "'s \<Rightarrow> bool"
  assumes reserve_keeps: "keeps P (reserve_op ops e tenant req c)"
    and claim_keeps: "keeps P (claim_op ops w now lf lim)"
    and start_keeps: "keeps P (start_op ops e eid v w)"
    and transition_keeps: "keeps P (transition_op ops e eid v goal d)"
begin

abbreviation inv :: "('s, 'w) world \<Rightarrow> bool" where
  "inv \<equiv> \<lambda>s. P (ledger s)"

lemmas store_keeps = keeps_on_ledger [OF reserve_keeps] keeps_on_ledger [OF claim_keeps]
  keeps_on_ledger [OF start_keeps] keeps_on_ledger [OF transition_keeps]

lemma recorded_keeps: "keeps inv (transition_and_record ops r goal d)"
  unfolding transition_and_record_def by (intro keeps_intros store_keeps)

lemma settle_keeps: "keeps inv (settle_dispatch ops adapters r aid)"
  unfolding settle_dispatch_def call_adapter_def transition_committed_def transition_proven_non_commit_def Let_def
  by (intro keeps_intros recorded_keeps)

lemma dispatch_effect_keeps: "keeps inv (dispatch_effect ops adapters w r)"
  unfolding dispatch_effect_def by (intro keeps_intros store_keeps recorded_keeps settle_keeps)

lemma dispatch_all_keeps: "keeps inv (dispatch_all ops adapters w rs done)"
  by (induction rs arbitrary: "done")
    (simp_all add: keeps_ret keeps_and_then dispatch_effect_keeps)

lemma dispatch_once_keeps: "keeps inv (dispatch_once ops adapters w now lf lim)"
  unfolding dispatch_once_def by (intro keeps_intros store_keeps dispatch_all_keeps)

lemma redispatch_keeps: "keeps inv (redispatch ops adapters r)"
  unfolding redispatch_def redispatch_with_def redispatch_call_defs reconcile_committed_def
  by (intro keeps_intros store_keeps recorded_keeps)

lemma probe_keeps: "keeps inv (probe_target ops adapters r)"
  unfolding probe_target_def probe_answered_def call_probe_def by (intro keeps_intros recorded_keeps)

lemma operator_keeps: "keeps inv (to_operator ops r outcome reason)"
  unfolding to_operator_def by (intro keeps_intros recorded_keeps)

lemma reconcile_once_keeps: "keeps inv (reconcile_once ops adapters r)"
  unfolding reconcile_once_def reconcile_body_def Let_def
  by (intro keeps_intros redispatch_keeps probe_keeps operator_keeps)

lemma get_keeps: "keeps inv (broker_get b tenant eid)"
  by (simp add: keeps_def broker_get_def split: option.split)

lemma service_keeps:
  assumes "store b = ops"
  shows "keeps inv (submit b tenant req)" "keeps inv (reconcile b tenant eid)"
    "keeps inv (cancel b tenant eid v actor reason)" "keeps inv (resolve b tenant eid goal ev)"
proof -
  show "keeps inv (submit b tenant req)"
    unfolding submit_def assms by (intro keeps_intros store_keeps)
  show "keeps inv (reconcile b tenant eid)"
    unfolding reconcile_def assms
    by (cases "adapter_for b") (simp_all add: keeps_throw keeps_and_then get_keeps reconcile_once_keeps)
  show "keeps inv (cancel b tenant eid v actor reason)"
    unfolding cancel_def assms by (intro keeps_intros store_keeps get_keeps)
  show "keeps inv (resolve b tenant eid goal ev)"
    unfolding resolve_def assms by (intro keeps_intros store_keeps get_keeps)
qed

theorem broker_run_keeps:
  assumes "broker_run b s t" and "store b = ops" and "P (ledger s)"
  shows "P (ledger t)"
  using assms
proof (induction rule: broker_run.induct)
  case (submitted t tenant req x u)
  with keepsD [OF service_keeps(1) [OF assms(2)], of t] show ?case by simp
next
  case (worked t adapters w now lf lim y u)
  with keepsD [OF dispatch_once_keeps, of t] assms(2) show ?case by simp
next
  case (reconciled t tenant eid z u)
  with keepsD [OF service_keeps(2) [OF assms(2)], of t] show ?case by simp
next
  case (cancelled t tenant eid v actor reason z u)
  with keepsD [OF service_keeps(3) [OF assms(2)], of t] show ?case by simp
next
  case (resolved t tenant eid goal ev z u)
  with keepsD [OF service_keeps(4) [OF assms(2)], of t] show ?case by simp
qed simp_all

end

end
