(* ===== verification/History_Properties.thy ===== *)
theory History_Properties
  imports Scenario Frame
begin

text \<open>
  Properties of the event logs of the in-memory ledger and of what is read off them: every log is a
  history of its effect, logs only grow, a receipt exists exactly for a success and never changes.
\<close>

section \<open>Logs only grow\<close>

lemma mem_ok_extends_keeps:
  "keeps (\<lambda>l. mem_ok l \<and> extends l0 l) (mem_reserve key e tenant req c)"
  "keeps (\<lambda>l. mem_ok l \<and> extends l0 l) (mem_claim_due w now lf lim)"
  "keeps (\<lambda>l. mem_ok l \<and> extends l0 l) (mem_start_attempt e eid v w)"
  "keeps (\<lambda>l. mem_ok l \<and> extends l0 l) (mem_transition e eid v goal d)"
proof -
  show "keeps (\<lambda>l. mem_ok l \<and> extends l0 l) (mem_reserve key e tenant req c)"
  proof (rule keepsI)
    fix s x t assume s: "mem_ok s \<and> extends l0 s" and run: "mem_reserve key e tenant req c s = (x, t)"
    from s have ok: "mem_ok s" by simp
    from ok run show "mem_ok t \<and> extends l0 t"
    proof (cases rule: mem_reserve_cases)
      case (fresh r digest)
      have "effect_id r = memory_id (next_effect_id s)" using fresh(3) by (simp add: reserved_record_def)
      with extends_reserved [OF ok this] s mem_ok_reserved [OF ok fresh(1-3)] fresh(5)
      show ?thesis by (simp add: extends_trans [of l0 s])
    qed (use s in simp_all)
  qed
  show "keeps (\<lambda>l. mem_ok l \<and> extends l0 l) (mem_claim_due w now lf lim)"
  proof (rule keepsI)
    fix s x t assume s: "mem_ok s \<and> extends l0 s" and run: "mem_claim_due w now lf lim s = (x, t)"
    then have "t = claim_all w now lf (claim_pick s now lim) s" by (simp add: mem_claim_reference)
    moreover have "mem_ok t" using mem_claim_law [of s w now lf lim] s run by auto
    ultimately show "mem_ok t \<and> extends l0 t" using s extends_claims extends_trans by blast
  qed
  show "keeps (\<lambda>l. mem_ok l \<and> extends l0 l) (mem_start_attempt e eid v w)"
  proof (rule keepsI)
    fix s x t assume s: "mem_ok s \<and> extends l0 s" and run: "mem_start_attempt e eid v w s = (x, t)"
    have "mem_ok t"
      using mem.start_cases [of s key e eid v w x t] s run by (simp add: memory_ops_simps) blast
    with s run mem_start_extends extends_trans show "mem_ok t \<and> extends l0 t" by blast
  qed
  show "keeps (\<lambda>l. mem_ok l \<and> extends l0 l) (mem_transition e eid v goal d)"
  proof (rule keepsI)
    fix s x t assume s: "mem_ok s \<and> extends l0 s" and run: "mem_transition e eid v goal d s = (x, t)"
    have "mem_ok t"
      using mem.transition_invar [of s key e eid v goal d x t] s run by (simp add: memory_ops_simps)
    with s run mem_transition_extends extends_trans show "mem_ok t \<and> extends l0 t" by blast
  qed
qed

interpretation logs: ledger_frame "memory_ops key" "\<lambda>l. mem_ok l \<and> extends l0 l" for key l0
  by unfold_locales (simp_all add: mem_ok_extends_keeps)

text \<open>
  The event log of an effect is append-only: nothing a process does, in any order, removes or
  changes an event.
\<close>

theorem log_append_only:
  assumes "broker_run b s t" and "store b = memory_ops key" and "mem_ok (ledger s)"
  shows "\<exists>rest. mem_events eid (ledger t) = mem_events eid (ledger s) @ rest"
  using logs.broker_run_keeps [OF assms(1,2), of "ledger s"] assms(3) by (simp add: extends_def)

theorem log_append_only_witness:
  "\<exists>t rest. broker_run (demo_broker UNSAFE) (demo_world (demo_store UNSAFE)) t
     \<and> mem_events ''eff_000001'' (ledger t) = mem_events ''eff_000001'' (demo_store UNSAFE) @ rest"
proof -
  obtain out t where t: "broker_run (demo_broker UNSAFE) (demo_world (demo_store UNSAFE)) t"
    by (rule demo_pass)
  have "mem_ok (ledger (demo_world (demo_store UNSAFE)))" by (simp add: demo_store_ok)
  from log_append_only [OF t _ this, of demo_keys "''eff_000001''"] t show ?thesis by auto
qed

text \<open>
  C15. After any life of a process the log of every effect is a history of it: it starts with the
  reservation, its events are numbered from 1 and carry versions that never go down, every
  transition in it is an edge of the graph, and it ends in the status and version of the record.
\<close>

theorem log_is_history:
  assumes "broker_run b s t" and "store b = memory_ops key" and "ledger s = empty_store"
    and "mem_get tenant eid (ledger t) = Some r"
  shows "logged eid (mem_events eid (ledger t)) (status r) (version r)
    \<and> (\<forall>i < length (mem_events eid (ledger t)). ev_sequence (mem_events eid (ledger t) ! i) = int i + 1)
    \<and> sorted (map ev_version (mem_events eid (ledger t)))"
proof -
  have "mem_ok (ledger s)" using assms(3) by (simp add: mem_ok_empty)
  from broker_run_memory(1) [OF assms(1,2) this] have ok: "mem_ok (ledger t)" .
  from assms(4) have "map_of (records (ledger t)) eid = Some r" by (simp add: mem_get_Some mem_look_def)
  from mem_ok_known [OF ok this] obtain evs where
    "events (ledger t) eid = Some evs" "logged eid evs (status r) (version r)" by blast
  moreover from this(1) have "mem_events eid (ledger t) = evs" by (simp add: mem_events_def)
  ultimately show ?thesis using logged_sequence logged_versions by blast
qed

theorem log_is_history_witness:
  "\<exists>t r. broker_run (demo_broker UNSAFE) (demo_world empty_store) t
     \<and> mem_get ''acme'' ''eff_000001'' (ledger t) = Some r
     \<and> logged ''eff_000001'' (mem_events ''eff_000001'' (ledger t)) (status r) (version r)"
proof -
  obtain t r where t: "broker_run (demo_broker UNSAFE) (demo_world empty_store) t"
    "mem_get ''acme'' ''eff_000001'' (ledger t) = Some r"
    by (rule demo_worked [of UNSAFE]) blast
  from log_is_history [OF t(1) _ _ t(2), of demo_keys] t show ?thesis by auto
qed

section \<open>Receipts\<close>

text \<open>
  C16. A receipt exists exactly for an effect of the tenant that has succeeded, and it states what the
  log recorded when the effect moved to \<open>SUCCEEDED\<close>.
\<close>

theorem receipt_states_success:
  assumes "mem_ok s"
  shows "case mem_receipt tenant eid s of
      None \<Rightarrow> \<forall>r. mem_get tenant eid s = Some r \<longrightarrow> status r \<noteq> SUCCEEDED
    | Some d \<Rightarrow> \<exists>r ev old meta. mem_get tenant eid s = Some r \<and> status r = SUCCEEDED
        \<and> ev \<in> set (mem_events eid s) \<and> ev_data ev = transition_data old SUCCEEDED meta
        \<and> dict_get d ''effect_id'' = Some (VStr eid) \<and> dict_get d ''status'' = Some (VStr ''succeeded'')
        \<and> dict_get d ''contract'' = Some (VStr (contract_name (contract r)))
        \<and> dict_get d ''contract_version'' = Some (VStr (contract_version (contract r)))
        \<and> dict_get d ''downstream_key'' = Some (VStr (down_key r))
        \<and> dict_get d ''metadata'' = Some (VDict meta)
        \<and> dict_get d ''recorded_at'' = Some (VStr (isoformat (ev_at ev)))"
proof (cases "mem_receipt tenant eid s")
  case None
  with mem_receipt_iff [OF assms, of tenant eid] show ?thesis by auto
next
  case (Some d)
  from mem_receipt_iff [OF assms, of tenant eid] Some obtain q where
    q: "mem_get tenant eid s = Some q" "status q = SUCCEEDED" by auto
  from mem_receipt_content [OF assms Some] obtain r ev old meta where
    r: "mem_get tenant eid s = Some r" "ev \<in> set (mem_events eid s)" "ev_data ev = transition_data old SUCCEEDED meta"
    and d: "d = [(VStr ''effect_id'', VStr eid), (VStr ''status'', VStr ''succeeded''),
         (VStr ''contract'', VStr (contract_name (contract r))),
         (VStr ''contract_version'', VStr (contract_version (contract r))),
         (VStr ''downstream_key'', VStr (down_key r)), (VStr ''metadata'', VDict meta),
         (VStr ''recorded_at'', VStr (isoformat (ev_at ev)))]" by blast
  have "status r = SUCCEEDED" using q r(1) by simp
  with r have "mem_get tenant eid s = Some r \<and> status r = SUCCEEDED
        \<and> ev \<in> set (mem_events eid s) \<and> ev_data ev = transition_data old SUCCEEDED meta
        \<and> dict_get d ''effect_id'' = Some (VStr eid) \<and> dict_get d ''status'' = Some (VStr ''succeeded'')
        \<and> dict_get d ''contract'' = Some (VStr (contract_name (contract r)))
        \<and> dict_get d ''contract_version'' = Some (VStr (contract_version (contract r)))
        \<and> dict_get d ''downstream_key'' = Some (VStr (down_key r))
        \<and> dict_get d ''metadata'' = Some (VDict meta)
        \<and> dict_get d ''recorded_at'' = Some (VStr (isoformat (ev_at ev)))"
    by (simp add: d dict_get_def)
  with Some show ?thesis by (simp only: option.case) blast
qed

theorem receipt_states_success_witness:
  "\<exists>d. mem_receipt ''acme'' ''eff_000001'' succeeded_store = Some d \<and> dict_get d ''status'' = Some (VStr ''succeeded'')"
  using receipt_states_success [OF succeeded_store_ok(1), of "''acme''" "''eff_000001''"] succeeded_store_ok(2)
  by (auto split: option.splits)

text \<open>The event of a success stays the one a receipt is read from.\<close>

lemma logged_success_stays:
  "logged eid whole st v \<Longrightarrow> whole = evs @ rest \<Longrightarrow> find_success (rev evs) = Some ev \<Longrightarrow> find_success (rev whole) = Some ev"
proof (induction arbitrary: rest rule: logged.induct)
  case (reserved at)
  then show ?case by (cases evs) (auto split: if_splits)
next
  case (claimed log st v d at)
  then show ?case by (cases rest rule: rev_cases) auto
next
  case (attempted log st v d at)
  then show ?case by (cases rest rule: rev_cases) auto
next
  case (moved log st v goal d at)
  show ?case
  proof (cases rest rule: rev_cases)
    case (snoc rest' e)
    with moved have "find_success (rev log) = Some ev" by auto
    with logged_success [OF moved.hyps(1)] have "st = SUCCEEDED" by simp
    with moved.hyps(2) show ?thesis by (simp add: is_allowed_simps)
  qed (use moved in simp)
qed

text \<open>
  A receipt is final: once a tenant can read it, every later reading gives the same document,
  whatever the process does in between.
\<close>

theorem receipts_final:
  assumes "broker_run b s t" and "store b = memory_ops key" and "mem_ok (ledger s)"
    and "mem_receipt tenant eid (ledger s) = Some d"
  shows "mem_receipt tenant eid (ledger t) = Some d"
proof -
  from assms(4) mem_receipt_iff [OF assms(3), of tenant eid] obtain r where
    r: "mem_get tenant eid (ledger s) = Some r" "status r = SUCCEEDED" by auto
  then have look: "mem_look (ledger s) eid = Some r" by (simp add: mem_get_Some)
  have ok: "mem_ok (ledger t)" by (rule broker_run_memory(1) [OF assms(1-3)])
  from protocols_later [OF broker_run_memory(2) [OF assms(1-3)] look] r(2)
  have look': "mem_look (ledger t) eid = Some r" by (auto simp: later_def is_terminal_def terminal_statuses_def)
  from mem_ok_known [OF assms(3) look [unfolded mem_look_def]] obtain evs where
    evs: "events (ledger s) eid = Some evs" by blast
  from mem_ok_known [OF ok look' [unfolded mem_look_def]] obtain whole where
    whole: "events (ledger t) eid = Some whole" "logged eid whole (status r) (version r)" by blast
  from logs.broker_run_keeps [OF assms(1,2), of "ledger s"] assms(3) obtain rest where
    "mem_events eid (ledger t) = mem_events eid (ledger s) @ rest" by (auto simp: extends_def)
  with evs whole(1) have rest: "whole = evs @ rest" by (simp add: mem_events_def)
  obtain ev where ev: "find_success (rev evs) = Some ev"
    using assms(4) look evs by (cases "find_success (rev evs)") (auto simp: mem_receipt_def mem_look_def split: if_splits)
  have "find_success (rev whole) = Some ev" by (rule logged_success_stays [OF whole(2) rest ev])
  with assms(4) look look' evs whole(1) ev show ?thesis by (simp add: mem_receipt_def mem_look_def split: if_splits)
qed

theorem receipts_final_witness:
  "\<exists>t d. broker_run (demo_broker UNSAFE) (demo_world succeeded_store) t
     \<and> mem_receipt ''acme'' ''eff_000001'' (ledger t) = Some d \<and> mem_receipt ''acme'' ''eff_000001'' succeeded_store = Some d"
proof -
  obtain x t where "cancel (demo_broker UNSAFE) ''acme'' ''eff_000001'' 2 ''op'' ''late'' (demo_world succeeded_store) = (x, t)"
    by (cases "cancel (demo_broker UNSAFE) ''acme'' ''eff_000001'' 2 ''op'' ''late'' (demo_world succeeded_store)")
  then have t: "broker_run (demo_broker UNSAFE) (demo_world succeeded_store) t"
    by (rule broker_run.cancelled [OF broker_run.idle])
  obtain d where d: "mem_receipt ''acme'' ''eff_000001'' succeeded_store = Some d"
    using mem_receipt_iff [OF succeeded_store_ok(1), of "''acme''" "''eff_000001''"] succeeded_store_ok(2) by auto
  from receipts_final [OF t, of demo_keys "''acme''" "''eff_000001''" d] d succeeded_store_ok t
  show ?thesis by auto
qed

end
