(* ===== verification/Service_Properties.thy ===== *)
theory Service_Properties
  imports Scenario
begin

text \<open>
  Properties of the service \<open>EffectBroker\<close> over the in-memory ledger: tenants are isolated, pages of
  a listing partition it, and cancellation and operator resolution are guarded by version and
  status.
\<close>

section \<open>Tenants and listings\<close>

text \<open>
  C17. A tenant can neither see nor move another tenant's effect: every request about it is answered
  as if the effect did not exist, and changes nothing.
\<close>

theorem tenants_isolated:
  assumes "mem_look (ledger s) eid = Some r" and "tenant_id r \<noteq> tenant" and "store b = memory_ops key"
    and "adapter_for b = Some adapters"
  shows "broker_get b tenant eid s = (Inl (UnknownEffectError eid), s)
    \<and> replay_receipt b tenant eid s = (Inl (UnknownEffectError eid), s)
    \<and> reconcile b tenant eid s = (Inl (UnknownEffectError eid), s)
    \<and> cancel b tenant eid v actor reason s = (Inl (UnknownEffectError eid), s)
    \<and> resolve b tenant eid goal ev s = (Inl (UnknownEffectError eid), s)
    \<and> (\<exists>out. broker_list b tenant st lim offset s = (Inr out, s) \<and> (\<forall>q \<in> set out. tenant_id q = tenant))"
proof -
  have "mem_get tenant eid (ledger s) = None" using assms(1,2) by (simp add: mem_get_def mem_look_def)
  then have get: "broker_get b tenant eid s = (Inl (UnknownEffectError eid), s)"
    by (simp add: broker_get_def assms(3))
  have "mem_receipt tenant eid (ledger s) = None"
    using assms(1,2) by (simp add: mem_receipt_def mem_look_def)
  then have "replay_receipt b tenant eid s = (Inl (UnknownEffectError eid), s)"
    by (simp add: replay_receipt_def assms(3))
  moreover have "\<forall>q \<in> set (mem_list tenant st lim offset (ledger s)). tenant_id q = tenant"
    using mem_list_elements by blast
  then have "\<exists>out. broker_list b tenant st lim offset s = (Inr out, s) \<and> (\<forall>q \<in> set out. tenant_id q = tenant)"
    by (simp add: broker_list_def assms(3))
  ultimately show ?thesis
    using get by (simp add: reconcile_def cancel_def resolve_def and_then_def assms(4))
qed

theorem tenants_isolated_witness:
  "cancel (demo_broker UNSAFE) ''other'' ''eff_000001'' 0 ''op'' ''why'' (demo_world (demo_store UNSAFE)) =
     (Inl (UnknownEffectError ''eff_000001''), demo_world (demo_store UNSAFE))"
  using tenants_isolated [of "demo_world (demo_store UNSAFE)" "''eff_000001''" "demo_record UNSAFE" "''other''"
      "demo_broker UNSAFE" demo_keys default_adapter_for 0 "''op''" "''why''"] by simp

text \<open>The full listing of a tenant, and a page of it.\<close>

definition listing :: "string \<Rightarrow> effect_status option \<Rightarrow> memory_store \<Rightarrow> effect_record list" where
  "listing tenant st s = sort_key (\<lambda>r. (created_at r, effect_id r))
     (filter (\<lambda>r. tenant_id r = tenant \<and> (case st of None \<Rightarrow> True | Some x \<Rightarrow> status r = x)) (map snd (records s)))"

lemma mem_list_page:
  "mem_list tenant st (int n) (int k) s = take n (drop k (listing tenant st s))"
  by (auto simp: mem_list_def listing_def py_slice_def slice_bound_def Let_def drop_take nat_add_distrib min_def)

lemma pages_take: "concat (map (\<lambda>i. take n (drop (i * n) xs)) [0..<k]) = take (k * n) xs"
proof (induction k)
  case (Suc k)
  have "take (Suc k * n) xs = take (k * n) xs @ take n (drop (k * n) xs)"
    using take_add [of "k * n" n xs] by (simp add: add.commute)
  with Suc show ?case by simp
qed simp

lemma length_listing: "length (listing tenant st s) \<le> mem_count s"
proof -
  have "length (listing tenant st s) \<le> length (map snd (records s))"
    unfolding listing_def by (simp only: length_sort) (rule length_filter_le)
  then show ?thesis by (simp add: mem_count_def)
qed

text \<open>
  C24. The pages of a listing of the in-memory ledger partition it: read from an unchanged ledger with one page
  size until its count is reached, they give every effect of the tenant with the status asked for exactly once, ordered by
  creation time and id.
\<close>

theorem pages_partition:
  assumes "mem_ok s" and "mem_count s \<le> k * n"
  shows "concat (map (\<lambda>i. mem_list tenant st (int n) (int (i * n)) s) [0..<k]) = listing tenant st s
    \<and> distinct (listing tenant st s) \<and> sorted (map (\<lambda>r. (created_at r, effect_id r)) (listing tenant st s))
    \<and> set (listing tenant st s) = {r. (\<exists>eid. mem_get tenant eid s = Some r) \<and> (\<forall>x. st = Some x \<longrightarrow> status r = x)}"
proof -
  have dist: "distinct (map fst (records s))" by (rule mem_ok_distinct [OF assms(1)])
  have id: "effect_id r = eid" if "(eid, r) \<in> set (records s)" for eid r
    using mem_look_id [OF assms(1), of eid r] map_of_is_SomeI [OF dist that] by (simp add: mem_look_def)
  have "map effect_id (map snd (records s)) = map fst (records s)" using id by auto
  with dist have "distinct (map effect_id (map snd (records s)))" by metis
  then have "distinct (map snd (records s))" unfolding distinct_map by simp
  then have "distinct (listing tenant st s)" by (simp add: listing_def)
  moreover have "set (listing tenant st s) =
      {r. (\<exists>eid. mem_get tenant eid s = Some r) \<and> (\<forall>x. st = Some x \<longrightarrow> status r = x)}"
  proof -
    have "r \<in> snd ` set (records s) \<longleftrightarrow> (\<exists>eid. map_of (records s) eid = Some r)" for r
      using dist by (force simp: image_iff)
    then show ?thesis by (auto simp: listing_def mem_get_Some mem_look_def split: option.splits)
  qed
  moreover have "concat (map (\<lambda>i. mem_list tenant st (int n) (int (i * n)) s) [0..<k]) = listing tenant st s"
    unfolding mem_list_page pages_take using length_listing assms(2) by (meson order.trans take_all)
  ultimately show ?thesis by (simp add: listing_def)
qed

theorem pages_partition_witness:
  "mem_list ''acme'' (Some PREPARED) 1 0 (demo_store UNSAFE) @ mem_list ''acme'' (Some PREPARED) 1 1 (demo_store UNSAFE) =
     [demo_record UNSAFE]"
  using pages_partition [OF demo_store_ok, of UNSAFE 2 1 "''acme''" "Some PREPARED"]
  by (simp add: mem_count_def listing_def upt_rec)

section \<open>Cancellation and resolution\<close>

text \<open>
  A cancellation needs the version the caller saw and an effect that is still due; a claim by a
  worker, which raises the version, makes it fail. When it succeeds the effect is \<open>CANCELLED\<close>, and
  nothing else changes in the ledger.
\<close>

theorem cancel_guarded:
  assumes "mem_ok (ledger s)" and "store b = memory_ops key"
  shows "case mem_get tenant eid (ledger s) of
      None \<Rightarrow> cancel b tenant eid v actor reason s = (Inl (UnknownEffectError eid), s)
    | Some r \<Rightarrow>
        if version r \<noteq> v then cancel b tenant eid v actor reason s = (Inl (VersionConflictError eid), s)
        else if status r \<notin> {PREPARED, RETRYABLE}
        then cancel b tenant eid v actor reason s = (Inl (InvalidTransitionError (status r) CANCELLED), s)
        else \<exists>now t. cancel b tenant eid v actor reason s = (Inr (advance r CANCELLED now), t)
          \<and> mem_look (ledger t) = (mem_look (ledger s))(eid \<mapsto> advance r CANCELLED now) \<and> target t = target s"
proof (cases "mem_get tenant eid (ledger s)")
  case None
  then show ?thesis by (simp add: cancel_def and_then_def broker_get_def assms(2))
next
  case (Some r)
  then have get: "broker_get b tenant eid s = (Inr r, s)" by (simp add: broker_get_def assms(2))
  from Some have look: "mem_look (ledger s) eid = Some r" by (simp add: mem_get_Some)
  then have id: "effect_id r = eid" by (rule mem_look_id [OF assms(1)])
  show ?thesis
  proof (cases "version r = v \<and> status r \<in> {PREPARED, RETRYABLE}")
    case True
    then have ok: "version r = v" "is_allowed (status r) CANCELLED" by (auto simp: into_status)
    let ?e = "envs s (ticks s)" and ?d = "[(VStr ''actor'', VStr actor), (VStr ''reason'', VStr reason)]"
    from mem_transition_law [OF assms(1) look ok, of ?e ?d] obtain l where
      l: "mem_transition ?e eid v CANCELLED ?d (ledger s) = (Inr (advance r CANCELLED (env_now ?e)), l)"
        "mem_look l = (mem_look (ledger s))(eid \<mapsto> advance r CANCELLED (env_now ?e))" by blast
    obtain t where "cancel b tenant eid v actor reason s = (Inr (advance r CANCELLED (env_now ?e)), t)"
      "ledger t = l" "target t = target s"
      using get True l(1) id by (simp add: cancel_def and_then_def run_simps on_ledger_def assms(2))
    with l(2) Some True show ?thesis by auto
  next
    case False
    with get Some show ?thesis by (auto simp: cancel_def and_then_def)
  qed
qed

theorem cancel_guarded_witness:
  "\<exists>now t. cancel (demo_broker UNSAFE) ''acme'' ''eff_000001'' 0 ''op'' ''why'' (demo_world (demo_store UNSAFE)) =
     (Inr (advance (demo_record UNSAFE) CANCELLED now), t)"
proof -
  have "mem_ok (ledger (demo_world (demo_store UNSAFE)))" by (simp add: demo_store_ok)
  from cancel_guarded [OF this, of "demo_broker UNSAFE" demo_keys "''acme''" "''eff_000001''" 0 "''op''" "''why''"]
  show ?thesis by auto
qed

text \<open>
  C18. An operator's resolution applies to an effect in \<open>MANUAL_REVIEW\<close> only, and only to the three
  final statuses an operator may choose; every other request is refused and changes nothing.
\<close>

theorem resolve_guarded:
  assumes "mem_ok (ledger s)" and "store b = memory_ops key" and "mem_get tenant eid (ledger s) = Some r"
  shows "if status r = MANUAL_REVIEW \<and> goal \<in> {SUCCEEDED, FAILED_FINAL, COMPENSATED}
    then \<exists>now t. resolve b tenant eid goal ev s = (Inr (advance r goal now), t) \<and> is_terminal goal
      \<and> mem_look (ledger t) = (mem_look (ledger s))(eid \<mapsto> advance r goal now) \<and> target t = target s
    else resolve b tenant eid goal ev s = (Inl (InvalidTransitionError (status r) goal), s)"
proof -
  have get: "broker_get b tenant eid s = (Inr r, s)" by (simp add: broker_get_def assms(2,3))
  from assms(3) have look: "mem_look (ledger s) eid = Some r" by (simp add: mem_get_Some)
  then have id: "effect_id r = eid" by (rule mem_look_id [OF assms(1)])
  show ?thesis
  proof (cases "status r = MANUAL_REVIEW \<and> goal \<in> {SUCCEEDED, FAILED_FINAL, COMPENSATED}")
    case True
    then have ok: "is_allowed (status r) goal" by (auto simp: is_allowed_simps)
    let ?e = "envs s (ticks s)" and ?d = "[(VStr ''evidence'', VDict ev), (VStr ''actor'', VStr ''operator'')]"
    from mem_transition_law [OF assms(1) look HOL.refl ok, of ?e ?d] obtain l where
      l: "mem_transition ?e eid (version r) goal ?d (ledger s) = (Inr (advance r goal (env_now ?e)), l)"
        "mem_look l = (mem_look (ledger s))(eid \<mapsto> advance r goal (env_now ?e))" by blast
    obtain t where "resolve b tenant eid goal ev s = (Inr (advance r goal (env_now ?e)), t)"
      "ledger t = l" "target t = target s"
      using get True l(1) id by (simp add: resolve_def and_then_def run_simps on_ledger_def assms(2))
    with l(2) True show ?thesis by (auto simp: is_terminal_def terminal_statuses_def)
  next
    case False
    with get show ?thesis by (auto simp: resolve_def and_then_def)
  qed
qed

theorem resolve_guarded_witness:
  "resolve (demo_broker UNSAFE) ''acme'' ''eff_000001'' SUCCEEDED [] (demo_world (demo_store UNSAFE)) =
     (Inl (InvalidTransitionError PREPARED SUCCEEDED), demo_world (demo_store UNSAFE))"
proof -
  have "mem_ok (ledger (demo_world (demo_store UNSAFE)))" by (simp add: demo_store_ok)
  from resolve_guarded [OF this, of "demo_broker UNSAFE" demo_keys "''acme''" "''eff_000001''" "demo_record UNSAFE" SUCCEEDED "[]"]
  show ?thesis by simp
qed

end
