(* ===== verification/Target_Properties.thy ===== *)
theory Target_Properties
  imports Scenario
begin

text \<open>
  Properties of the simulated target and of the broker together with it: what deduplication, honest
  probes and the broker's recovery give end to end when responses are lost, and that the telemetry
  of unknown outcomes follows the transitions.
\<close>

section \<open>The target\<close>

text \<open>
  C19. However often an idempotent or transactional effect is delivered to the target, and whichever
  of the responses are lost, the target holds exactly one charge for its key.
\<close>

theorem one_charge_per_key:
  assumes "dedupes r" and "ds \<noteq> []"
  shows "charge_count (deliveries r ds (sim_init now)) (down_key r) = 1"
proof (rule deliveries_once [OF sim_ok_init assms(1) _ _ assms(2)])
  have none: "hash_of_key (sim_init now) (down_key r) = None"
    by (simp add: hash_of_key_def first_by_key_def sim_init_def)
  then show "hash_of_key (sim_init now) (down_key r) \<in> {None, Some (req_hash r)}" by simp
  show "charge_count (sim_init now) (down_key r) = (if hash_of_key (sim_init now) (down_key r) = None then 0 else 1)"
    using none by simp
qed

theorem one_charge_per_key_witness:
  "charge_count (deliveries (demo_record IDEMPOTENT) [(''a1'', True), (''a2'', True), (''a3'', False)] (sim_init 0))
     (down_key (demo_record IDEMPOTENT)) = 1"
  by (rule one_charge_per_key) (simp_all add: dedupes_def)

text \<open>
  A probe changes nothing and is honest: it says \<open>NOT_COMMITTED\<close> only for a reconcilable effect
  without a charge whose settlement bound has passed, and \<open>COMMITTED\<close> only when there is a charge,
  which it names.
\<close>

theorem probe_honest:
  assumes "sim_ok w" and "sim_probe r w = (Inr p, w')"
  shows "w' = w
    \<and> (probe_state p = NOT_COMMITTED \<longrightarrow> safety (contract r) = RECONCILABLE \<and> charge_count w (down_key r) = 0
         \<and> (\<exists>bound. settlement_bound (contract r) = Some bound \<and> created_at r + bound \<le> sim_now w))
    \<and> (probe_state p = COMMITTED \<longrightarrow> safety (contract r) \<noteq> UNSAFE
         \<and> (\<exists>c rest. charges_for_key (down_key r) w = Some c # rest \<and> probe_external_id p = Some (charge_id c)))"
proof (intro conjI impI)
  show "w' = w" using sim_probe_leaves [OF assms(1), of r] assms(2) by simp
next
  assume p: "probe_state p = NOT_COMMITTED"
  show "safety (contract r) = RECONCILABLE" "charge_count w (down_key r) = 0"
    "\<exists>bound. settlement_bound (contract r) = Some bound \<and> created_at r + bound \<le> sim_now w"
    by (rule sim_probe_not_committed [OF assms p])+
next
  assume p: "probe_state p = COMMITTED"
  show "safety (contract r) \<noteq> UNSAFE" by (rule sim_probe_committed(1) [OF assms p])
  from sim_probe_committed(3) [OF assms p] obtain c where
    c: "charges_for_key (down_key r) w \<noteq> []" "hd (charges_for_key (down_key r) w) = Some c"
      "probe_external_id p = Some (charge_id c)" by blast
  then have "charges_for_key (down_key r) w = Some c # tl (charges_for_key (down_key r) w)"
    by (metis list.collapse)
  with c(3) show "\<exists>c rest. charges_for_key (down_key r) w = Some c # rest \<and> probe_external_id p = Some (charge_id c)"
    by blast
qed

theorem probe_honest_witness:
  "\<exists>p. sim_probe (demo_record RECONCILABLE) (sim_init (seconds 160)) = (Inr p, sim_init (seconds 160))
     \<and> probe_state p = NOT_COMMITTED \<and> charge_count (sim_init (seconds 160)) (down_key (demo_record RECONCILABLE)) = 0"
proof -
  have "\<exists>p. sim_probe (demo_record RECONCILABLE) (sim_init (seconds 160)) = (Inr p, sim_init (seconds 160))
      \<and> probe_state p = NOT_COMMITTED"
    by (simp add: sim_probe_def and_then_def Let_def first_by_key_def settlement_elapsed_def sim_init_def)
  with probe_honest [OF sim_ok_init, of "demo_record RECONCILABLE" "seconds 160"] show ?thesis by blast
qed

section \<open>Recovery from a lost response\<close>

lemma no_charge_no_hash:
  assumes "sim_ok w" and "charge_count w key = 0"
  shows "hash_of_key w key = None"
  using assms(1)
proof (cases rule: first_by_key_ok [of _ key])
  case none
  then show ?thesis by (simp add: hash_of_key_def)
qed (use assms(2) in simp)

lemma default_answer: "adapter_answer default_adapter_for d aid w = sim_dispatch d aid w"
  by (simp add: adapter_answer_def default_adapter_for_def simulated_adapter_def)

text \<open>
  C20. The crash the broker is built for: the target commits an idempotent effect and the response is
  lost. The worker records \<open>OUTCOME_UNKNOWN\<close> with one charge made, and a reconciliation while the
  key is retained redispatches under the same key, records success, and there is still one charge.
\<close>

theorem lost_response_recovered:
  assumes "mem_ok (ledger s)" and "mem_get tenant eid (ledger s) = Some r" and "due r"
    and "safety (contract r) = IDEMPOTENT" and "sim_ok (target s)" and "lose_response (target s)"
    and "charge_count (target s) (down_key r) = 0"
  shows "\<exists>r' t. dispatch_effect (memory_ops key) default_adapter_for w r s = (Inr r', t)
    \<and> status r' = OUTCOME_UNKNOWN \<and> charge_count (target t) (down_key r) = 1
    \<and> (\<forall>u. ledger u = ledger t \<longrightarrow> target u = target t
        \<longrightarrow> key_retention_valid (env_now (envs u (Suc (ticks u)))) r
        \<longrightarrow> (\<exists>r'' v. reconcile_once (memory_ops key) default_adapter_for r' u = (Inr r'', v)
              \<and> status r'' = SUCCEEDED \<and> same_pins r r'' \<and> charge_count (target v) (down_key r) = 1))"
proof -
  have "mem_look (ledger s) eid = Some r" using assms(2) by (simp add: mem_get_Some)
  then have cur: "mem_look (ledger s) (effect_id r) = Some r" using mem_look_id [OF assms(1)] by metis
  have fresh: "hash_of_key (target s) (down_key r) = None" by (rule no_charge_no_hash [OF assms(5,7)])
  obtain r' t d aid ans now now' where run: "dispatch_effect (memory_ops key) default_adapter_for w r s = (Inr r', t)"
    "mem_ok (ledger t)" "mem_look (ledger t) = (mem_look (ledger s))(effect_id r \<mapsto> r')"
    "d = advance r DISPATCHING now" "adapter_answer default_adapter_for d aid (target s) = (ans, target t)"
    "r' = advance d (verdict (\<lambda>d. True) (retry_limit (contract r)) aid (Suc (mem_tries (ledger s) (effect_id r))) ans) now'"
    by (rule mem.dispatch_effect_verdict [OF assms(1) cur assms(3), of key default_adapter_for w])
  have d: "dedupes d" "down_key d = down_key r" "req_hash d = req_hash r"
    using assms(4) by (simp_all add: run(4) dedupes_def)
  have send: "sim_dispatch d aid (target s) = (ans, target t)" using run(5) by (simp add: default_answer)
  have hash: "hash_of_key (target s) (down_key d) \<in> {None, Some (req_hash d)}"
    and one: "charge_count (target s) (down_key d) = (if hash_of_key (target s) (down_key d) = None then 0 else 1)"
    using fresh assms(7) by (simp_all add: d)
  note sent = sim_dispatch_once [OF assms(5) d(1) hash one send]
  obtain m where ans: "ans = Inl (AmbiguousDispatchError m)" using sent(5) assms(6) by blast
  have r': "status r' = OUTCOME_UNKNOWN" "same_pins r r'" "effect_id r' = effect_id r" "safety (contract r') = IDEMPOTENT"
    "down_key r' = down_key r" "req_hash r' = req_hash r" "contract r' = contract r" "created_at r' = created_at r"
    using assms(4) by (simp_all add: run(4,6) ans verdict_def)
  then have valid: "key_retention_valid now'' r' = key_retention_valid now'' r" for now''
    by (simp add: key_retention_valid_def split: option.split)
  have again: "\<exists>r'' v. reconcile_once (memory_ops key) default_adapter_for r' u = (Inr r'', v)
      \<and> status r'' = SUCCEEDED \<and> same_pins r r'' \<and> charge_count (target v) (down_key r) = 1"
    if u: "ledger u = ledger t" "target u = target t" "key_retention_valid (env_now (envs u (Suc (ticks u)))) r" for u
  proof -
    have at: "mem_ok (ledger u)" "mem_look (ledger u) (effect_id r') = Some r'"
      "key_retention_valid (env_now (envs u (Suc (ticks u)))) r'"
      using run(2,3) r'(3) u valid by simp_all
    obtain v q aid2 ans2 now2 now3 where rec:
      "reconcile_once (memory_ops key) default_adapter_for r' u = (Inr (advance q (redispatch_verdict ans2) now3), v)"
      "q = advance r' DISPATCHING now2" "adapter_dispatch (simulated_adapter (contract q)) q aid2 (target u) = (ans2, target v)"
      by (rule mem.reconcile_redispatch [OF at(1,2) r'(1,4) at(3), of default_adapter_for "\<lambda>d. simulated_adapter (contract d)" key])
        (simp_all add: default_adapter_for_def)
    have q: "dedupes q" "down_key q = down_key r" "req_hash q = req_hash r"
      using r'(4,5,6) by (simp_all add: rec(2) dedupes_def)
    have "sim_dispatch q aid2 (target t) = (ans2, target v)"
      using rec(3) u(2) by (simp add: simulated_adapter_def)
    from sim_dispatch_once [OF sent(1) q(1) _ _ this] sent(2,3,6)
    have "charge_count (target v) (down_key r) = 1" "\<exists>c. ans2 = Inr c \<and> committed c"
      by (simp_all add: d q)
    moreover from this(2) have "redispatch_verdict ans2 = SUCCEEDED" by (auto simp: redispatch_verdict_def)
    moreover have "same_pins r q" using r'(2) by (simp add: rec(2))
    ultimately show ?thesis using rec(1) by simp
  qed
  have "charge_count (target t) (down_key r) = 1" using sent(2) by (simp add: d)
  with run(1) r'(1) again show ?thesis by blast
qed

text \<open>The demonstration process whose target will lose one response.\<close>

definition lossy_world :: "(memory_store, sim_target) world" where
  "lossy_world = (demo_world (demo_store IDEMPOTENT))\<lparr>target := lose_next_response (sim_init (seconds 100))\<rparr>"

theorem lost_response_recovered_witness:
  "\<exists>r' t r'' v. dispatch_effect (memory_ops demo_keys) default_adapter_for ''w'' (demo_record IDEMPOTENT) lossy_world = (Inr r', t)
     \<and> status r' = OUTCOME_UNKNOWN
     \<and> reconcile_once (memory_ops demo_keys) default_adapter_for r' (t\<lparr>envs := \<lambda>n. demo_env, ticks := 0\<rparr>) = (Inr r'', v)
     \<and> status r'' = SUCCEEDED \<and> charge_count (target v) (down_key (demo_record IDEMPOTENT)) = 1"
proof -
  have lossy: "ledger lossy_world = demo_store IDEMPOTENT" "target lossy_world = lose_next_response (sim_init (seconds 100))"
    by (simp_all add: lossy_world_def)
  have start: "mem_ok (ledger lossy_world)" "mem_get ''acme'' ''eff_000001'' (ledger lossy_world) = Some (demo_record IDEMPOTENT)"
    "sim_ok (target lossy_world)" "lose_response (target lossy_world)"
    "charge_count (target lossy_world) (down_key (demo_record IDEMPOTENT)) = 0"
    "safety (contract (demo_record IDEMPOTENT)) = IDEMPOTENT"
    by (simp_all add: lossy demo_store_ok sim_ok_init) (simp add: lose_next_response_def)
  have valid: "key_retention_valid (env_now demo_env) (demo_record IDEMPOTENT)"
    by (simp add: key_retention_valid_def demo_env_def)
  from lost_response_recovered [OF start(1,2) demo_due start(6,3,4,5), of demo_keys "''w''"] obtain r' t where
    t: "dispatch_effect (memory_ops demo_keys) default_adapter_for ''w'' (demo_record IDEMPOTENT) lossy_world = (Inr r', t)"
      "status r' = OUTCOME_UNKNOWN"
    and rec: "\<And>u. ledger u = ledger t \<Longrightarrow> target u = target t
        \<Longrightarrow> key_retention_valid (env_now (envs u (Suc (ticks u)))) (demo_record IDEMPOTENT)
        \<Longrightarrow> \<exists>r'' v. reconcile_once (memory_ops demo_keys) default_adapter_for r' u = (Inr r'', v)
              \<and> status r'' = SUCCEEDED \<and> same_pins (demo_record IDEMPOTENT) r''
              \<and> charge_count (target v) (down_key (demo_record IDEMPOTENT)) = 1" by blast
  from rec [of "t\<lparr>envs := \<lambda>n. demo_env, ticks := 0\<rparr>"] valid t show ?thesis by (simp del: demo_record_simps) blast
qed

section \<open>Telemetry\<close>

text \<open>
  C26. The gauge of unknown outcomes follows the transitions: if every gauge shows the number of
  tracked effects of its labels, it still does after a recorded transition, and the effect is
  tracked exactly when its outcome is now unknown.
\<close>

theorem gauges_follow:
  assumes "gauges_ok m" and "tracked_as m before" and "same_pins before after" and "status before \<noteq> status after"
    and "effect_id before \<in> fst ` set (unknown_by_effect m) \<longrightarrow> status before = OUTCOME_UNKNOWN"
  shows "gauges_ok (record_transition now before after m)
    \<and> (effect_id after \<in> fst ` set (unknown_by_effect (record_transition now before after m)) \<longleftrightarrow> status after = OUTCOME_UNKNOWN)
    \<and> tracked_as (record_transition now before after m) after"
proof -
  let ?m = "record_transition now before after m"
  have id: "effect_id after = effect_id before" and key: "unknown_key after = unknown_key before"
    using assms(3) by (simp_all add: same_pins_def unknown_key_def)
  have in_dom: "i \<in> fst ` set d \<longleftrightarrow> map_of d i \<noteq> None" for i and d :: "(string \<times> unknown_key) list"
    by (simp add: map_of_eq_None_iff)
  have same: "map_of (unknown_by_effect ?m) = map_of (unknown_by_effect m)"
    if "status before \<noteq> OUTCOME_UNKNOWN" "status after \<noteq> OUTCOME_UNKNOWN"
    using that by (simp add: record_transition_def track_unknown_def Let_def)
  note tracks = record_transition_tracks [OF assms(4) id]
  have "gauges_ok ?m" by (rule gauges_ok_transition [OF assms(1,2) id key])
  moreover have "effect_id after \<in> fst ` set (unknown_by_effect ?m) \<longleftrightarrow> status after = OUTCOME_UNKNOWN"
    and "tracked_as ?m after"
  proof -
    consider "status after = OUTCOME_UNKNOWN" | "status before = OUTCOME_UNKNOWN"
      | "status before \<noteq> OUTCOME_UNKNOWN" "status after \<noteq> OUTCOME_UNKNOWN" by blast
    then have "(effect_id after \<in> fst ` set (unknown_by_effect ?m) \<longleftrightarrow> status after = OUTCOME_UNKNOWN) \<and> tracked_as ?m after"
    proof cases
      case 1
      with tracks(1) show ?thesis by (simp add: in_dom tracked_as_def)
    next
      case 2
      with tracks(2) assms(4) show ?thesis by (auto simp: in_dom tracked_as_def)
    next
      case 3
      with assms(5) have "map_of (unknown_by_effect m) (effect_id before) = None" by (simp only: in_dom) blast
      with same [OF 3] id have "map_of (unknown_by_effect ?m) (effect_id after) = None" by simp
      with 3 show ?thesis by (simp add: in_dom tracked_as_def)
    qed
    then show "effect_id after \<in> fst ` set (unknown_by_effect ?m) \<longleftrightarrow> status after = OUTCOME_UNKNOWN"
      and "tracked_as ?m after" by simp_all
  qed
  ultimately show ?thesis by simp
qed

theorem gauges_follow_witness:
  "gauges_ok (record_transition 0 (advance (demo_record UNSAFE) DISPATCHING 0) (unknown_record UNSAFE) reset_for_tests)"
  using gauges_follow [OF gauges_ok_reset, of "advance (demo_record UNSAFE) DISPATCHING 0" "unknown_record UNSAFE" 0]
  by (simp add: tracked_as_def reset_for_tests_def unknown_record_def)

end
