(* ===== verification/Postgres_Store.thy ===== *)
theory Postgres_Store
  imports Store_Api Json_Parse Durations "HOL-Library.Product_Lexorder"
begin

text \<open>
  The Postgres ledger (\<open>store/postgres.py\<close>). \<open>pg_db\<close> is the database: its five tables are the lists of
  their rows in insertion order. The statements of the code are the \<open>insert\<close>, \<open>select\<close> and \<open>update\<close>
  operations with the constraints its tables declare; \<open>pg_begin\<close> is \<open>engine.begin()\<close>, which commits or, on
  any exception, undoes everything.

  What the driver and the column types do to a value is not in the repository and is a parameter,
  \<open>pg_driver\<close>: the texts a statement refuses (Postgres has no NUL in a text), the text a bound value
  becomes, and what a \<open>JSONB\<close> column returns of a value. \<open>Integer\<close> columns hold 32 bits.

  The database runs at \<open>READ COMMITTED\<close>. An operation is atomic in \<open>pg_ops\<close>; the two places where the
  statements of concurrent transactions interleave are kept visible: \<open>pg_claim_due\<close> takes the rows that
  other transactions hold locked, which \<open>SKIP LOCKED\<close> passes over, and \<open>pg_transition\<close>, whose read takes
  no lock, is a read followed by \<open>pg_transition_write\<close>.
\<close>

section \<open>Tables\<close>

record tenant_row =
  tn_id :: string
  tn_name :: "string option"
  tn_api_key_hash :: "string option"
  tn_hmac_key_id :: "string option"
  tn_disabled :: bool
  tn_created :: time
  tn_updated :: time

record intent_row =
  in_id :: string
  in_tenant :: string
  in_key :: string
  in_tool :: string
  in_arguments :: pyval                      \<comment> \<open>\<open>arguments_json JSONB\<close>\<close>
  in_requested_by :: string
  in_trace :: "string option"
  in_hash :: string
  in_downstream :: string
  in_contract :: string
  in_contract_version :: string
  in_safety :: string
  in_retry_limit :: int
  in_retention :: "int option"               \<comment> \<open>\<open>key_retention_seconds BIGINT\<close>\<close>
  in_settlement :: "int option"
  in_status :: string
  in_version :: int
  in_created :: time
  in_updated :: time
  in_worker :: "string option"
  in_lease :: "time option"                  \<comment> \<open>\<open>lease_until\<close>\<close>

record pg_attempt_row =
  pa_id :: string
  pa_effect :: string
  pa_ordinal :: int
  pa_worker :: string
  pa_version :: int
  pa_started :: time

record receipt_row =
  rc_id :: string
  rc_effect :: string
  rc_external :: "string option"
  rc_contract :: string
  rc_contract_version :: string
  rc_downstream :: string
  rc_metadata :: pyval
  rc_created :: time

record pg_event_row =
  pe_effect :: string
  pe_sequence :: int
  pe_type :: string
  pe_version :: int
  pe_at :: time
  pe_data :: pyval

record pg_db =
  pg_tenants :: "tenant_row list"
  pg_intents :: "intent_row list"
  pg_attempts :: "pg_attempt_row list"
  pg_receipts :: "receipt_row list"
  pg_events :: "pg_event_row list"

definition empty_pg :: pg_db where
  "empty_pg = \<lparr>pg_tenants = [], pg_intents = [], pg_attempts = [], pg_receipts = [], pg_events = []\<rparr>"

section \<open>The driver\<close>

record pg_driver =
  text_error :: "string \<Rightarrow> error option"
  bound_text :: "pyval \<Rightarrow> error + string option"
  jsonb :: "pyval \<Rightarrow> error + pyval"

abbreviation pg_data_error :: error where
  "pg_data_error \<equiv> PyError ''DataError''"

abbreviation pg_integrity_error :: error where
  "pg_integrity_error \<equiv> PyError ''IntegrityError''"

definition int4_error :: "int \<Rightarrow> error option" where
  "int4_error n = (if - (2 ^ 31) \<le> n \<and> n < 2 ^ 31 then None else Some pg_data_error)"

fun first_error :: "error option list \<Rightarrow> error option" where
  "first_error [] = None"
| "first_error (x # xs) = (case x of None \<Rightarrow> first_error xs | Some e \<Rightarrow> Some e)"

text \<open>A statement refused for one of its values has no effect.\<close>

definition bind_params :: "error option list \<Rightarrow> (pg_db, error, unit) prog" where
  "bind_params es = (case first_error es of None \<Rightarrow> ret () | Some x \<Rightarrow> throw x)"

definition pg_begin :: "(pg_db, error, 'a) prog \<Rightarrow> (pg_db, error, 'a) prog" where
  "pg_begin m = (\<lambda>s. case m s of
     (Inl x, t) \<Rightarrow> (Inl x, s)
   | (Inr y, t) \<Rightarrow> (Inr y, t))"

section \<open>Columns\<close>

text \<open>\<open>_json_value\<close>: the canonical text, parsed again.\<close>

definition json_value :: "pyval \<Rightarrow> error + pyval" where
  "json_value v = (case canonical_json v of Inl x \<Rightarrow> Inl x | Inr t \<Rightarrow> json_loads t)"

text \<open>\<open>int(x)\<close> of a finite float: towards zero.\<close>

definition int_of_dyadic :: "dyadic \<Rightarrow> int" where
  "int_of_dyadic x = (case x of (m, k) \<Rightarrow> sgn m * (\<bar>m\<bar> div 2 ^ k))"

definition pg_duration_seconds :: "timedelta option \<Rightarrow> int option" where
  "pg_duration_seconds = map_option (\<lambda>d. int_of_dyadic (total_seconds d))"

definition pg_seconds_to_duration :: "int option \<Rightarrow> timedelta option" where
  "pg_seconds_to_duration = map_option (\<lambda>n. 1000000 * n)"

definition record_values :: "effect_record \<Rightarrow> error + intent_row" where
  "record_values r = (case json_value (VDict (arguments (request r))) of
     Inl x \<Rightarrow> Inl x
   | Inr args \<Rightarrow> Inr
      \<lparr>in_id = effect_id r, in_tenant = tenant_id r, in_key = operation_key (request r),
       in_tool = tool (request r), in_arguments = args, in_requested_by = requested_by (request r),
       in_trace = trace_id (request r), in_hash = req_hash r, in_downstream = down_key r,
       in_contract = contract_name (contract r), in_contract_version = contract_version (contract r),
       in_safety = safety_value (safety (contract r)), in_retry_limit = retry_limit (contract r),
       in_retention = pg_duration_seconds (key_retention (contract r)),
       in_settlement = pg_duration_seconds (settlement_bound (contract r)),
       in_status = status_value (status r), in_version = version r,
       in_created = created_at r, in_updated = updated_at r, in_worker = None, in_lease = None\<rparr>)"

text \<open>\<open>dict(...)\<close> of what the column returned; a \<open>JSONB\<close> object is read as a dict.\<close>

definition column_dict :: "pyval \<Rightarrow> error + json_object" where
  "column_dict v = (case v of VDict d \<Rightarrow> Inr d | _ \<Rightarrow> Inl (PyError ''TypeError''))"

definition intent_to_record :: "intent_row \<Rightarrow> error + effect_record" where
  "intent_to_record row =
     (case column_dict (in_arguments row) of Inl x \<Rightarrow> Inl x | Inr args \<Rightarrow>
      case safety_of (in_safety row) of None \<Rightarrow> Inl (PyError ''ValueError'') | Some sc \<Rightarrow>
      case status_of (in_status row) of None \<Rightarrow> Inl (PyError ''ValueError'') | Some st \<Rightarrow> Inr
      \<lparr>effect_id = in_id row, tenant_id = in_tenant row,
       request = \<lparr>operation_key = in_key row, tool = in_tool row, arguments = args,
         requested_by = in_requested_by row, trace_id = in_trace row\<rparr>,
       req_hash = in_hash row, down_key = in_downstream row,
       contract = \<lparr>contract_name = in_contract row, contract_version = in_contract_version row,
         safety = sc, retry_limit = in_retry_limit row,
         key_retention = pg_seconds_to_duration (in_retention row),
         settlement_bound = pg_seconds_to_duration (in_settlement row)\<rparr>,
       status = st, version = in_version row, created_at = in_created row, updated_at = in_updated row\<rparr>)"

section \<open>Statements\<close>

text \<open>\<open>INSERT INTO tenants ... ON CONFLICT (tenant_id) DO NOTHING\<close>.\<close>

definition ensure_tenant :: "pg_driver \<Rightarrow> string \<Rightarrow> time \<Rightarrow> (pg_db, error, unit) prog" where
  "ensure_tenant drv tenant now = and_then (bind_params [text_error drv tenant]) (\<lambda>_ s.
     if tenant \<in> tn_id ` set (pg_tenants s) then (Inr (), s)
     else (Inr (), s\<lparr>pg_tenants := pg_tenants s @
       [\<lparr>tn_id = tenant, tn_name = None, tn_api_key_hash = None, tn_hmac_key_id = None, tn_disabled = False,
         tn_created = now, tn_updated = now\<rparr>]\<rparr>))"

definition intent_errors :: "pg_driver \<Rightarrow> intent_row \<Rightarrow> error option list" where
  "intent_errors drv row = map (text_error drv)
     ([in_id row, in_tenant row, in_key row, in_tool row, in_requested_by row]
      @ (case in_trace row of None \<Rightarrow> [] | Some t \<Rightarrow> [t])
      @ [in_hash row, in_downstream row, in_contract row, in_contract_version row, in_safety row, in_status row])
     @ [int4_error (in_retry_limit row), int4_error (in_version row)]"

text \<open>
  \<open>INSERT INTO effect_intents ... ON CONFLICT (tenant_id, operation_key) DO NOTHING RETURNING *\<close>: a row
  with the same identity is no error, one with the same id is.
\<close>

definition insert_intent :: "pg_driver \<Rightarrow> intent_row \<Rightarrow> (pg_db, error, intent_row option) prog" where
  "insert_intent drv row = and_then (bind_params (intent_errors drv row)) (\<lambda>_ s.
     case jsonb drv (in_arguments row) of
       Inl x \<Rightarrow> (Inl x, s)
     | Inr column \<Rightarrow>
         let stored = row\<lparr>in_arguments := column\<rparr>
         in if \<exists>x \<in> set (pg_intents s). in_tenant x = in_tenant row \<and> in_key x = in_key row then (Inr None, s)
            else if in_id row \<in> in_id ` set (pg_intents s) \<or> in_tenant row \<notin> tn_id ` set (pg_tenants s)
            then (Inl pg_integrity_error, s)
            else (Inr (Some stored), s\<lparr>pg_intents := pg_intents s @ [stored]\<rparr>))"

text \<open>\<open>UPDATE effect_intents SET ... WHERE ... RETURNING *\<close>.\<close>

definition update_intents :: "(intent_row \<Rightarrow> bool) \<Rightarrow> (intent_row \<Rightarrow> intent_row)
    \<Rightarrow> (pg_db, error, intent_row list) prog" where
  "update_intents p f = (\<lambda>s.
     let updated = map f (filter p (pg_intents s))
     in case first_error (map (\<lambda>row. int4_error (in_version row)) updated) of
          Some x \<Rightarrow> (Inl x, s)
        | None \<Rightarrow> (Inr updated, s\<lparr>pg_intents := map (\<lambda>row. if p row then f row else row) (pg_intents s)\<rparr>))"

definition insert_pg_attempt :: "pg_driver \<Rightarrow> pg_attempt_row \<Rightarrow> (pg_db, error, unit) prog" where
  "insert_pg_attempt drv a = and_then
     (bind_params (map (text_error drv) [pa_id a, pa_effect a, pa_worker a]
       @ map int4_error [pa_ordinal a, pa_version a])) (\<lambda>_ s.
     if (\<exists>x \<in> set (pg_attempts s). pa_id x = pa_id a
          \<or> pa_effect x = pa_effect a \<and> pa_ordinal x = pa_ordinal a)
        \<or> pa_effect a \<notin> in_id ` set (pg_intents s)
     then (Inl pg_integrity_error, s)
     else (Inr (), s\<lparr>pg_attempts := pg_attempts s @ [a]\<rparr>))"

definition insert_pg_event :: "pg_driver \<Rightarrow> pg_event_row \<Rightarrow> (pg_db, error, unit) prog" where
  "insert_pg_event drv ev = and_then
     (bind_params (map (text_error drv) [pe_effect ev, pe_type ev]
       @ map int4_error [pe_sequence ev, pe_version ev])) (\<lambda>_ s.
     case jsonb drv (pe_data ev) of
       Inl x \<Rightarrow> (Inl x, s)
     | Inr column \<Rightarrow>
         if (\<exists>x \<in> set (pg_events s). pe_effect x = pe_effect ev \<and> pe_sequence x = pe_sequence ev)
            \<or> pe_effect ev \<notin> in_id ` set (pg_intents s)
         then (Inl pg_integrity_error, s)
         else (Inr (), s\<lparr>pg_events := pg_events s @ [ev\<lparr>pe_data := column\<rparr>]\<rparr>))"

definition insert_receipt_row :: "pg_driver \<Rightarrow> receipt_row \<Rightarrow> (pg_db, error, unit) prog" where
  "insert_receipt_row drv rc = and_then
     (bind_params (map (text_error drv) [rc_id rc, rc_effect rc, rc_contract rc, rc_contract_version rc,
       rc_downstream rc])) (\<lambda>_ s.
     case jsonb drv (rc_metadata rc) of
       Inl x \<Rightarrow> (Inl x, s)
     | Inr column \<Rightarrow>
         if (\<exists>x \<in> set (pg_receipts s). rc_id x = rc_id rc \<or> rc_effect x = rc_effect rc)
            \<or> rc_effect rc \<notin> in_id ` set (pg_intents s)
         then (Inl pg_integrity_error, s)
         else (Inr (), s\<lparr>pg_receipts := pg_receipts s @ [rc\<lparr>rc_metadata := column\<rparr>]\<rparr>))"

text \<open>\<open>SELECT ... one_or_none()\<close> and its row as a record.\<close>

definition select_intent :: "error option list \<Rightarrow> (intent_row \<Rightarrow> bool)
    \<Rightarrow> (pg_db, error, effect_record option) prog" where
  "select_intent es p = and_then (bind_params es) (\<lambda>_ s. case find p (pg_intents s) of
     None \<Rightarrow> (Inr None, s)
   | Some row \<Rightarrow> (case intent_to_record row of Inl x \<Rightarrow> (Inl x, s) | Inr r \<Rightarrow> (Inr (Some r), s)))"

definition pg_select_by_identity :: "pg_driver \<Rightarrow> string \<Rightarrow> string \<Rightarrow> (pg_db, error, effect_record option) prog" where
  "pg_select_by_identity drv tenant op_key = select_intent (map (text_error drv) [tenant, op_key])
     (\<lambda>row. in_tenant row = tenant \<and> in_key row = op_key)"

definition pg_record_for_version :: "pg_driver \<Rightarrow> string \<Rightarrow> int \<Rightarrow> (pg_db, error, effect_record) prog" where
  "pg_record_for_version drv eid expected =
     and_then (select_intent [text_error drv eid] (\<lambda>row. in_id row = eid)) (\<lambda>found. case found of
       None \<Rightarrow> throw (UnknownEffectError eid)
     | Some r \<Rightarrow> if version r \<noteq> expected then throw (VersionConflictError eid) else ret r)"

definition next_sequence :: "string \<Rightarrow> pg_db \<Rightarrow> int" where
  "next_sequence eid s =
     (let ns = map pe_sequence (filter (\<lambda>ev. pe_effect ev = eid) (pg_events s))
      in (if ns = [] then 0 else Max (set ns)) + 1)"

definition pg_append_event ::
  "pg_driver \<Rightarrow> string \<Rightarrow> string \<Rightarrow> int \<Rightarrow> json_object \<Rightarrow> time \<Rightarrow> (pg_db, error, unit) prog" where
  "pg_append_event drv eid ty v d at = and_then (bind_params [text_error drv eid]) (\<lambda>_ s.
     case json_value (VDict d) of
       Inl x \<Rightarrow> (Inl x, s)
     | Inr j \<Rightarrow> insert_pg_event drv \<lparr>pe_effect = eid, pe_sequence = next_sequence eid s, pe_type = ty,
         pe_version = v, pe_at = at, pe_data = j\<rparr> s)"

definition pg_insert_receipt :: "pg_driver \<Rightarrow> env \<Rightarrow> effect_record \<Rightarrow> json_object \<Rightarrow> time \<Rightarrow> (pg_db, error, unit) prog"
where
  "pg_insert_receipt drv e r d at =
     (case json_value (VDict d) of
        Inl x \<Rightarrow> throw x
      | Inr j \<Rightarrow> (case bound_text drv (case dict_get d ''external_id'' of None \<Rightarrow> VNone | Some v \<Rightarrow> v) of
          Inl x \<Rightarrow> throw x
        | Inr ext \<Rightarrow> insert_receipt_row drv
            \<lparr>rc_id = ''rcpt_'' @ env_uuid e, rc_effect = effect_id r, rc_external = ext,
             rc_contract = contract_name (contract r), rc_contract_version = contract_version (contract r),
             rc_downstream = down_key r, rc_metadata = j, rc_created = at\<rparr>))"

section \<open>Operations\<close>

definition pg_id :: "string \<Rightarrow> string" where
  "pg_id uuid = ''eff_'' @ uuid"

definition pg_new_record ::
  "tenant_key_provider \<Rightarrow> env \<Rightarrow> string \<Rightarrow> effect_request \<Rightarrow> effect_contract \<Rightarrow> string \<Rightarrow> effect_record" where
  "pg_new_record tenant_key e tenant req c digest =
     \<lparr>effect_id = pg_id (env_uuid e), tenant_id = tenant, request = req, req_hash = digest,
      down_key = downstream_key (tenant_key tenant) tenant (operation_key req),
      contract = c, status = PREPARED, version = 0, created_at = env_now e, updated_at = env_now e\<rparr>"

definition pg_replay :: "pg_driver \<Rightarrow> string \<Rightarrow> string \<Rightarrow> string \<Rightarrow> (pg_db, error, reservation) prog" where
  "pg_replay drv tenant op_key digest =
     and_then (pg_select_by_identity drv tenant op_key) (\<lambda>found. case found of
       None \<Rightarrow> throw (VersionConflictError (tenant @ ''/'' @ op_key))
     | Some existing \<Rightarrow>
         if req_hash existing \<noteq> digest
         then throw (PayloadConflictError op_key (req_hash existing) digest)
         else ret \<lparr>res_effect = existing, created = False, replayed = True\<rparr>)"

definition pg_reserve :: "pg_driver \<Rightarrow> tenant_key_provider \<Rightarrow> env \<Rightarrow> string \<Rightarrow> effect_request \<Rightarrow> effect_contract
    \<Rightarrow> (pg_db, error, reservation) prog" where
  "pg_reserve drv tenant_key e tenant req c =
     (case request_hash (tool req) (arguments req) (contract_name c) (contract_version c) of
       Inl x \<Rightarrow> throw x
     | Inr digest \<Rightarrow>
       let r = pg_new_record tenant_key e tenant req c digest
       in pg_begin
            (and_then (ensure_tenant drv tenant (env_now e)) (\<lambda>_.
             and_then (case record_values r of Inl x \<Rightarrow> throw x | Inr row \<Rightarrow> insert_intent drv row) (\<lambda>inserted.
             case inserted of
               None \<Rightarrow> pg_replay drv tenant (operation_key req) digest
             | Some row \<Rightarrow>
                 and_then (pg_append_event drv (effect_id r) ''reserved'' (version r)
                     [(VStr ''status'', VStr (status_value (status r)))] (env_now e)) (\<lambda>_.
                 case intent_to_record row of
                   Inl x \<Rightarrow> throw x
                 | Inr kept \<Rightarrow> ret \<lparr>res_effect = kept, created = True, replayed = False\<rparr>)))))"

text \<open>The rows the claim selects: due, no lease that is not over, not locked by another transaction.\<close>

definition row_claimable :: "time \<Rightarrow> intent_row \<Rightarrow> bool" where
  "row_claimable now row \<longleftrightarrow> in_status row \<in> {status_value PREPARED, status_value RETRYABLE}
     \<and> (case in_lease row of None \<Rightarrow> True | Some until \<Rightarrow> until < now)"

definition intent_order :: "intent_row \<Rightarrow> time \<times> string" where
  "intent_order row = (in_created row, in_id row)"

definition select_claimable :: "string set \<Rightarrow> time \<Rightarrow> int \<Rightarrow> pg_db \<Rightarrow> intent_row list" where
  "select_claimable locked now lim s = take (nat lim)
     (filter (\<lambda>row. in_id row \<notin> locked) (sort_key intent_order (filter (row_claimable now) (pg_intents s))))"

definition lease_columns :: "string \<Rightarrow> time \<Rightarrow> time \<Rightarrow> intent_row \<Rightarrow> intent_row" where
  "lease_columns w until now row = row\<lparr>in_worker := Some w, in_lease := Some until,
     in_version := in_version row + 1, in_updated := now\<rparr>"

definition pg_claimed_data :: "string \<Rightarrow> time \<Rightarrow> json_object" where
  "pg_claimed_data w until =
     [(VStr ''worker_id'', VStr w), (VStr ''lease_expires_at'', VStr (isoformat until))]"

definition claim_intent :: "pg_driver \<Rightarrow> string \<Rightarrow> time \<Rightarrow> time \<Rightarrow> intent_row \<Rightarrow> (pg_db, error, effect_record) prog"
where
  "claim_intent drv w until now row =
     and_then (bind_params [text_error drv w]) (\<lambda>_.
     and_then (update_intents (\<lambda>x. in_id x = in_id row) (lease_columns w until now)) (\<lambda>rows. case rows of
       [updated] \<Rightarrow>
         and_then (pg_append_event drv (in_id updated) ''claimed'' (in_version updated)
             (pg_claimed_data w until) now)
           (\<lambda>_. case intent_to_record updated of Inl x \<Rightarrow> throw x | Inr r \<Rightarrow> ret r)
     | [] \<Rightarrow> throw (PyError ''NoResultFound'')
     | _ \<Rightarrow> throw (PyError ''MultipleResultsFound'')))"

fun claim_intents :: "pg_driver \<Rightarrow> string \<Rightarrow> time \<Rightarrow> time \<Rightarrow> intent_row list \<Rightarrow> effect_record list
    \<Rightarrow> (pg_db, error, effect_record list) prog" where
  "claim_intents drv w until now [] claimed = ret claimed"
| "claim_intents drv w until now (row # rows) claimed =
     and_then (claim_intent drv w until now row) (\<lambda>r. claim_intents drv w until now rows (claimed @ [r]))"

definition pg_claim_due :: "pg_driver \<Rightarrow> string set \<Rightarrow> string \<Rightarrow> time \<Rightarrow> timedelta \<Rightarrow> int
    \<Rightarrow> (pg_db, error, effect_record list) prog" where
  "pg_claim_due drv locked w now lease_for lim =
     (if lim \<le> 0 then ret []
      else pg_begin (\<lambda>s. claim_intents drv w (now + lease_for) now (select_claimable locked now lim s) [] s))"

definition pg_attempt_data :: "string \<Rightarrow> nat \<Rightarrow> string \<Rightarrow> json_object" where
  "pg_attempt_data aid ord w = [(VStr ''attempt_id'', VStr aid), (VStr ''ordinal'', VInt (int ord)),
     (VStr ''worker_id'', VStr w)]"

definition pg_tries :: "pg_db \<Rightarrow> string \<Rightarrow> nat" where
  "pg_tries s eid = length (filter (\<lambda>a. pa_effect a = eid) (pg_attempts s))"

definition pg_start_attempt :: "pg_driver \<Rightarrow> env \<Rightarrow> string \<Rightarrow> int \<Rightarrow> string \<Rightarrow> (pg_db, error, string) prog" where
  "pg_start_attempt drv e eid expected w = pg_begin
     (and_then (pg_record_for_version drv eid expected) (\<lambda>r s.
        let ord = pg_tries s eid + 1;
            aid = eid @ ''-attempt-'' @ nat_text ord
        in and_then
             (insert_pg_attempt drv \<lparr>pa_id = aid, pa_effect = eid, pa_ordinal = int ord, pa_worker = w,
                pa_version = expected, pa_started = env_now e\<rparr>)
             (\<lambda>_. and_then
                (pg_append_event drv eid ''attempt_started'' (version r) (pg_attempt_data aid ord w) (env_now e))
                (\<lambda>_. ret aid)) s))"

definition move_columns :: "effect_status \<Rightarrow> time \<Rightarrow> intent_row \<Rightarrow> intent_row" where
  "move_columns goal now row = row\<lparr>in_status := status_value goal, in_version := in_version row + 1,
     in_updated := now, in_worker := None, in_lease := None\<rparr>"

definition pg_transition_data :: "effect_status \<Rightarrow> effect_status \<Rightarrow> json_object \<Rightarrow> json_object" where
  "pg_transition_data old new d = [(VStr ''from'', VStr (status_value old)),
     (VStr ''to'', VStr (status_value new)), (VStr ''metadata'', VDict d)]"

text \<open>The compare-and-swap and what follows it, for the record \<open>r\<close> that was read.\<close>

definition pg_transition_write :: "pg_driver \<Rightarrow> env \<Rightarrow> string \<Rightarrow> int \<Rightarrow> effect_status \<Rightarrow> json_object \<Rightarrow> effect_record
    \<Rightarrow> (pg_db, error, effect_record) prog" where
  "pg_transition_write drv e eid expected goal d r =
     and_then (update_intents (\<lambda>row. in_id row = eid \<and> in_version row = expected)
         (move_columns goal (env_now e))) (\<lambda>rows. case rows of
       [] \<Rightarrow> throw (VersionConflictError eid)
     | [updated] \<Rightarrow>
         and_then (pg_append_event drv eid ''transition'' (in_version updated)
             (pg_transition_data (status r) goal d) (env_now e)) (\<lambda>_.
         case intent_to_record updated of
           Inl x \<Rightarrow> throw x
         | Inr after \<Rightarrow>
             if goal = SUCCEEDED
             then and_then (pg_insert_receipt drv e after d (env_now e)) (\<lambda>_. ret after)
             else ret after)
     | _ \<Rightarrow> throw (PyError ''MultipleResultsFound''))"

definition pg_transition :: "pg_driver \<Rightarrow> env \<Rightarrow> string \<Rightarrow> int \<Rightarrow> effect_status \<Rightarrow> json_object
    \<Rightarrow> (pg_db, error, effect_record) prog" where
  "pg_transition drv e eid expected goal d = pg_begin
     (and_then (pg_record_for_version drv eid expected) (\<lambda>r.
      case assert_transition (status r) goal of
        Inl x \<Rightarrow> throw x
      | Inr _ \<Rightarrow> pg_transition_write drv e eid expected goal d r))"

definition pg_get :: "pg_driver \<Rightarrow> string \<Rightarrow> string \<Rightarrow> pg_db \<Rightarrow> error + effect_record option" where
  "pg_get drv tenant eid s = fst (select_intent (map (text_error drv) [tenant, eid])
     (\<lambda>row. in_tenant row = tenant \<and> in_id row = eid) s)"

fun intents_to_records :: "intent_row list \<Rightarrow> error + effect_record list" where
  "intents_to_records [] = Inr []"
| "intents_to_records (row # rows) = (case intent_to_record row of
     Inl x \<Rightarrow> Inl x
   | Inr r \<Rightarrow> (case intents_to_records rows of Inl x \<Rightarrow> Inl x | Inr rs \<Rightarrow> Inr (r # rs)))"

text \<open>Postgres refuses a negative \<open>LIMIT\<close> or \<open>OFFSET\<close>.\<close>

definition pg_list :: "pg_driver \<Rightarrow> string \<Rightarrow> effect_status option \<Rightarrow> int \<Rightarrow> int \<Rightarrow> pg_db
    \<Rightarrow> error + effect_record list" where
  "pg_list drv tenant st lim offset s =
     (case first_error [text_error drv tenant] of Some x \<Rightarrow> Inl x | None \<Rightarrow>
      if lim < 0 \<or> offset < 0 then Inl pg_data_error
      else intents_to_records (take (nat lim) (drop (nat offset) (sort_key intent_order
        (filter (\<lambda>row. in_tenant row = tenant
           \<and> (case st of None \<Rightarrow> True | Some x \<Rightarrow> in_status row = status_value x)) (pg_intents s))))))"

text \<open>The join of a receipt with its intent, one row at most.\<close>

definition pg_receipt :: "pg_driver \<Rightarrow> string \<Rightarrow> string \<Rightarrow> pg_db \<Rightarrow> error + json_object option" where
  "pg_receipt drv tenant eid s =
     (case first_error (map (text_error drv) [tenant, eid]) of Some x \<Rightarrow> Inl x | None \<Rightarrow>
      case find (\<lambda>rc. rc_effect rc = eid
          \<and> (\<exists>row \<in> set (pg_intents s). in_id row = eid \<and> in_tenant row = tenant)) (pg_receipts s) of
        None \<Rightarrow> Inr None
      | Some rc \<Rightarrow> (case column_dict (rc_metadata rc) of
          Inl x \<Rightarrow> Inl x
        | Inr metadata \<Rightarrow> Inr (Some
            [(VStr ''effect_id'', VStr eid),
             (VStr ''status'', VStr (status_value SUCCEEDED)),
             (VStr ''contract'', VStr (rc_contract rc)),
             (VStr ''contract_version'', VStr (rc_contract_version rc)),
             (VStr ''downstream_key'', VStr (rc_downstream rc)),
             (VStr ''metadata'', VDict metadata),
             (VStr ''recorded_at'', VStr (isoformat (rc_created rc)))])))"

record pg_event =
  pv_effect :: string
  pv_sequence :: int
  pv_type :: string
  pv_version :: int
  pv_at :: time
  pv_data :: json_object

fun pg_events_of_rows :: "pg_event_row list \<Rightarrow> error + pg_event list" where
  "pg_events_of_rows [] = Inr []"
| "pg_events_of_rows (row # rows) = (case column_dict (pe_data row) of
     Inl x \<Rightarrow> Inl x
   | Inr d \<Rightarrow> (case pg_events_of_rows rows of
       Inl x \<Rightarrow> Inl x
     | Inr evs \<Rightarrow> Inr (\<lparr>pv_effect = pe_effect row, pv_sequence = pe_sequence row, pv_type = pe_type row,
         pv_version = pe_version row, pv_at = pe_at row, pv_data = d\<rparr> # evs)))"

definition pg_event_list :: "pg_driver \<Rightarrow> string \<Rightarrow> pg_db \<Rightarrow> error + pg_event list" where
  "pg_event_list drv eid s = (case text_error drv eid of Some x \<Rightarrow> Inl x | None \<Rightarrow>
     pg_events_of_rows (sort_key pe_sequence (filter (\<lambda>ev. pe_effect ev = eid) (pg_events s))))"

definition pg_attempt_count :: "pg_driver \<Rightarrow> string \<Rightarrow> pg_db \<Rightarrow> error + nat" where
  "pg_attempt_count drv eid s = (case text_error drv eid of Some x \<Rightarrow> Inl x | None \<Rightarrow> Inr (pg_tries s eid))"

definition pg_count :: "pg_db \<Rightarrow> nat" where
  "pg_count s = length (pg_intents s)"

text \<open>
  The ledger the broker sees. A reading operation raises for an id or tenant no statement accepts, of
  which nothing can be stored; the broker then sees nothing instead of the exception of the driver.
\<close>

definition pg_or_else :: "'a \<Rightarrow> error + 'a \<Rightarrow> 'a" where
  "pg_or_else dflt x = (case x of Inl _ \<Rightarrow> dflt | Inr y \<Rightarrow> y)"

definition pg_ops :: "pg_driver \<Rightarrow> tenant_key_provider \<Rightarrow> pg_db store_ops" where
  "pg_ops drv tenant_key = \<lparr>reserve_op = pg_reserve drv tenant_key, claim_op = pg_claim_due drv {},
     start_op = pg_start_attempt drv, transition_op = pg_transition drv,
     get_op = \<lambda>tenant eid s. pg_or_else None (pg_get drv tenant eid s),
     list_op = \<lambda>tenant st lim offset s. pg_or_else [] (pg_list drv tenant st lim offset s),
     receipt_op = \<lambda>tenant eid s. pg_or_else None (pg_receipt drv tenant eid s)\<rparr>"

text \<open>\<open>_async_dsn\<close>.\<close>

definition replace_prefix :: "string \<Rightarrow> string \<Rightarrow> string \<Rightarrow> string option" where
  "replace_prefix old new t = (if take (length old) t = old then Some (new @ drop (length old) t) else None)"

definition async_dsn :: "string \<Rightarrow> string" where
  "async_dsn dsn =
     (let dsn1 = (case replace_prefix ''postgres://'' ''postgresql://'' dsn of None \<Rightarrow> dsn | Some t \<Rightarrow> t)
      in case replace_prefix ''postgresql://'' ''postgresql+psycopg://'' dsn1 of None \<Rightarrow> dsn1 | Some t \<Rightarrow> t)"

end
