(* ===== verification/Postgres_Laws.thy ===== *)
theory Postgres_Laws
  imports Postgres_Store Tables Process_Refinement
begin

text \<open>
  The Postgres ledger keeps its invariant and is an \<open>effect_ledger\<close>, whatever the driver does to values
  and whichever statement it refuses. \<open>pg_ok\<close> says what the database holds between transactions: unique
  ids and identities, rows that decode, gapless attempt and event numbers, and one receipt for each
  succeeded effect and no other. As a statement may fail, an operation is described by what has happened
  when it returns (the \<open>_Inr\<close> lemmas); when it raises, \<open>pg_begin\<close> has undone it.
\<close>

section \<open>The invariant and the view\<close>

definition intent_ok :: "pg_driver \<Rightarrow> intent_row \<Rightarrow> bool" where
  "intent_ok drv row \<longleftrightarrow> \<not> isl (intent_to_record row)
     \<and> text_error drv (in_id row) = None \<and> text_error drv (in_tenant row) = None"

definition in_identity :: "intent_row \<Rightarrow> string \<times> string" where
  "in_identity row = (in_tenant row, in_key row)"

definition pg_attempts_ok :: "pg_db \<Rightarrow> bool" where
  "pg_attempts_ok s \<longleftrightarrow> (\<forall>a \<in> set (pg_attempts s). pa_effect a \<in> in_id ` set (pg_intents s))
     \<and> (\<forall>eid. gapless (map pa_ordinal (filter (\<lambda>a. pa_effect a = eid) (pg_attempts s))))"

definition pg_events_ok :: "pg_db \<Rightarrow> bool" where
  "pg_events_ok s \<longleftrightarrow> (\<forall>eid. gapless (map pe_sequence (filter (\<lambda>ev. pe_effect ev = eid) (pg_events s))))"

definition receipt_of :: "receipt_row \<Rightarrow> intent_row \<Rightarrow> bool" where
  "receipt_of rc row \<longleftrightarrow> in_id row = rc_effect rc \<and> in_status row = status_value SUCCEEDED
     \<and> rc_contract rc = in_contract row \<and> rc_contract_version rc = in_contract_version row
     \<and> rc_downstream rc = in_downstream row"

definition pg_receipts_ok :: "pg_db \<Rightarrow> bool" where
  "pg_receipts_ok s \<longleftrightarrow> distinct (map rc_effect (pg_receipts s))
     \<and> (\<forall>rc \<in> set (pg_receipts s). \<exists>row \<in> set (pg_intents s). receipt_of rc row)
     \<and> (\<forall>row \<in> set (pg_intents s). in_status row = status_value SUCCEEDED \<longrightarrow>
          in_id row \<in> rc_effect ` set (pg_receipts s))"

definition pg_core :: "pg_driver \<Rightarrow> pg_db \<Rightarrow> bool" where
  "pg_core drv s \<longleftrightarrow> distinct (map in_id (pg_intents s)) \<and> distinct (map in_identity (pg_intents s))
     \<and> (\<forall>row \<in> set (pg_intents s). intent_ok drv row) \<and> pg_attempts_ok s \<and> pg_events_ok s"

definition pg_ok :: "pg_driver \<Rightarrow> pg_db \<Rightarrow> bool" where
  "pg_ok drv s \<longleftrightarrow> pg_core drv s \<and> pg_receipts_ok s"

definition pg_look :: "pg_db \<Rightarrow> string \<Rightarrow> effect_record option" where
  "pg_look s eid = (case find (\<lambda>row. in_id row = eid) (pg_intents s) of
     None \<Rightarrow> None
   | Some row \<Rightarrow> (case intent_to_record row of Inl _ \<Rightarrow> None | Inr r \<Rightarrow> Some r))"

definition pg_pin :: "effect_contract \<Rightarrow> effect_contract" where
  "pg_pin c = c\<lparr>key_retention := pg_seconds_to_duration (pg_duration_seconds (key_retention c)),
     settlement_bound := pg_seconds_to_duration (pg_duration_seconds (settlement_bound c))\<rparr>"

lemma pg_ok_empty: "pg_ok drv empty_pg"
  by (simp add: pg_ok_def pg_core_def empty_pg_def pg_attempts_ok_def pg_events_ok_def pg_receipts_ok_def gapless_def)

lemmas pg_core_parts = pg_core_def pg_attempts_ok_def pg_events_ok_def

lemma pg_ok_core: "pg_ok drv s \<Longrightarrow> pg_core drv s"
  by (simp add: pg_ok_def)

section \<open>Statements that return\<close>

lemma bind_params_Inr: "bind_params es s = (Inr u, t) \<longleftrightarrow> t = s \<and> first_error es = None"
  by (auto simp: bind_params_def split: option.splits)

lemma bound_then: "and_then (bind_params es) f s = (Inr x, t) \<longleftrightarrow> first_error es = None \<and> f () s = (Inr x, t)"
  by (auto simp: and_then_Inr bind_params_Inr)

lemma pg_begin_Inr: "pg_begin m s = (Inr x, t) \<longleftrightarrow> m s = (Inr x, t)"
  by (auto simp: pg_begin_def split: prod.splits sum.splits)

lemma pg_begin_Inl: "pg_begin m s = (Inl x, t) \<Longrightarrow> t = s"
  by (auto simp: pg_begin_def split: prod.splits sum.splits)

lemma intent_to_record_Inr:
  assumes "intent_to_record row = Inr r"
  shows "effect_id r = in_id row" "tenant_id r = in_tenant row" "operation_key (request r) = in_key row"
    "req_hash r = in_hash row" "version r = in_version row" "in_status row = status_value (status r)"
    "created_at r = in_created row" "contract_name (contract r) = in_contract row"
    "contract_version (contract r) = in_contract_version row" "down_key r = in_downstream row"
  using assms by (auto simp: intent_to_record_def status_of_Some split: sum.splits option.splits)

lemma intent_leased: "intent_to_record row = Inr r \<Longrightarrow>
    intent_to_record (lease_columns w until now row) = Inr (claim_record r now)"
  by (auto simp: intent_to_record_def lease_columns_def claim_record_def split: sum.splits option.splits)

lemma intent_moved: "intent_to_record row = Inr r \<Longrightarrow>
    intent_to_record (move_columns goal now row) = Inr (advance r goal now)"
  by (auto simp: intent_to_record_def move_columns_def advance_def split: sum.splits option.splits)

lemma columns_kept [simp]:
  "in_id (lease_columns w until now row) = in_id row" "in_identity (lease_columns w until now row) = in_identity row"
  "in_status (lease_columns w until now row) = in_status row"
  "in_id (move_columns goal now row) = in_id row" "in_identity (move_columns goal now row) = in_identity row"
  "in_version (lease_columns w until now row) = in_version row + 1"
  "in_version (move_columns goal now row) = in_version row + 1"
  "in_status (move_columns goal now row) = status_value goal"
  by (simp_all add: lease_columns_def move_columns_def in_identity_def)

lemma intent_okE:
  assumes "intent_ok drv row"
  obtains r where "intent_to_record row = Inr r"
  using assms by (cases "intent_to_record row") (auto simp: intent_ok_def)

lemma intent_ok_leased: "intent_ok drv row \<Longrightarrow> intent_ok drv (lease_columns w until now row)"
  by (frule intent_okE) (auto simp: intent_ok_def intent_leased, simp_all add: lease_columns_def)

lemma intent_ok_moved: "intent_ok drv row \<Longrightarrow> intent_ok drv (move_columns goal now row)"
  by (frule intent_okE) (auto simp: intent_ok_def intent_moved, simp_all add: move_columns_def)

lemma status_succeeded: "status_value x = status_value y \<longleftrightarrow> x = y"
  by (rule status_value_inj)

section \<open>Reading\<close>

lemma pg_look_row:
  assumes "pg_core drv s" and "row \<in> set (pg_intents s)" and "intent_to_record row = Inr r"
  shows "pg_look s (in_id row) = Some r"
  using find_unique [of in_id, OF _ assms(2)] assms(1,3) by (simp add: pg_core_def pg_look_def)

lemma intent_in_ok:
  assumes "pg_core drv s" and "row \<in> set (pg_intents s)"
  obtains r where "intent_to_record row = Inr r" "pg_look s (in_id row) = Some r"
proof -
  from assms have "intent_ok drv row" by (simp add: pg_core_def)
  then obtain r where "intent_to_record row = Inr r" by (rule intent_okE)
  with pg_look_row [OF assms this] show thesis by (intro that)
qed

lemma pg_look_SomeE:
  assumes "pg_look s eid = Some r"
  obtains row where "row \<in> set (pg_intents s)" "in_id row = eid" "intent_to_record row = Inr r"
    "find (\<lambda>row. in_id row = eid) (pg_intents s) = Some row"
  using assms by (auto simp: pg_look_def split: option.splits sum.splits dest!: find_key)

lemma pg_look_None:
  assumes "pg_core drv s"
  shows "pg_look s eid = None \<longleftrightarrow> eid \<notin> in_id ` set (pg_intents s)"
proof
  assume none: "pg_look s eid = None"
  show "eid \<notin> in_id ` set (pg_intents s)"
  proof
    assume "eid \<in> in_id ` set (pg_intents s)"
    then obtain row where row: "row \<in> set (pg_intents s)" "eid = in_id row" by blast
    obtain r where "pg_look s (in_id row) = Some r" by (rule intent_in_ok [OF assms row(1)])
    with none row(2) show False by simp
  qed
qed (simp add: pg_look_def find_no_key [THEN iffD2])

lemma pg_look_id: "pg_look s eid = Some r \<Longrightarrow> effect_id r = eid"
  by (erule pg_look_SomeE) (simp add: intent_to_record_Inr)

lemma pg_look_cong: "pg_intents t = pg_intents s \<Longrightarrow> pg_look t = pg_look s"
  by (simp add: pg_look_def fun_eq_iff)

lemma pg_tries_none:
  assumes "pg_core drv s" and "pg_look s eid = None"
  shows "pg_tries s eid = 0"
  using assms pg_look_None [OF assms(1), of eid]
  by (auto simp: pg_tries_def filter_empty_conv pg_core_parts)

lemma select_intent_run:
  assumes "pg_core drv s" and "select_intent es p s = (Inr found, t)"
  shows "t = s \<and> (case found of None \<Rightarrow> \<forall>row \<in> set (pg_intents s). \<not> p row
    | Some r \<Rightarrow> \<exists>row \<in> set (pg_intents s). p row \<and> intent_to_record row = Inr r \<and> pg_look s (in_id row) = Some r)"
proof (cases "find p (pg_intents s)")
  case None
  with assms(2) show ?thesis by (auto simp: select_intent_def bound_then find_None_iff)
next
  case (Some row)
  then have row: "row \<in> set (pg_intents s)" "p row" by (auto simp: find_Some_iff)
  obtain r where "intent_to_record row = Inr r" "pg_look s (in_id row) = Some r" by (rule intent_in_ok [OF assms(1) row(1)])
  moreover from this Some assms(2) have "found = Some r" "t = s" by (auto simp: select_intent_def bound_then)
  ultimately show ?thesis using row by auto
qed

lemma pg_record_for_version_Inr:
  assumes "pg_core drv s" and "pg_record_for_version drv eid v s = (Inr r, t)"
  shows "t = s" "pg_look s eid = Some r" "version r = v"
  using assms select_intent_run [OF assms(1), of "[text_error drv eid]" "\<lambda>row. in_id row = eid"]
  by (auto simp: pg_record_for_version_def and_then_Inr split: option.splits if_splits)

section \<open>Writing\<close>

lemma next_sequence_numbered:
  assumes "pg_core drv s"
  shows "next_sequence eid s = int (length (filter (\<lambda>ev. pe_effect ev = eid) (pg_events s))) + 1"
proof -
  have "gapless (map pe_sequence (filter (\<lambda>ev. pe_effect ev = eid) (pg_events s)))"
    using assms by (simp add: pg_core_parts)
  from gapless_Max [OF this] show ?thesis by (simp add: next_sequence_def Let_def)
qed

lemma pg_append_event_Inr:
  assumes ok: "pg_core drv s" and run: "pg_append_event drv eid ty v d at s = (Inr u, t)"
  obtains ev where "t = s\<lparr>pg_events := pg_events s @ [ev]\<rparr>" "pg_core drv t" "pe_effect ev = eid" "pe_type ev = ty"
    "pe_version ev = v" "pe_at ev = at"
proof -
  from run obtain j column where j: "json_value (VDict d) = Inr j" "jsonb drv j = Inr column"
    and t: "t = s\<lparr>pg_events := pg_events s @ [\<lparr>pe_effect = eid, pe_sequence = next_sequence eid s, pe_type = ty,
      pe_version = v, pe_at = at, pe_data = column\<rparr>]\<rparr>"
    by (auto simp: pg_append_event_def insert_pg_event_def bound_then split: sum.splits if_splits)
  have num: "gapless (map pe_sequence (filter (\<lambda>ev. pe_effect ev = i) (pg_events s)))" for i
    using ok by (simp add: pg_core_parts)
  have "gapless (map pe_sequence (filter (\<lambda>ev. pe_effect ev = i) (pg_events t)))" for i
    using num [of i] gapless_snoc [OF num [of eid]]
    by (cases "i = eid") (auto simp: t next_sequence_numbered [OF ok])
  then have "pg_core drv t" using ok by (simp add: pg_core_parts t)
  with t show thesis by (rule that) simp_all
qed

text \<open>One row of \<open>effect_intents\<close> replaced by another with the same keys.\<close>

abbreviation replace_intent :: "string \<Rightarrow> (intent_row \<Rightarrow> intent_row) \<Rightarrow> pg_db \<Rightarrow> pg_db" where
  "replace_intent eid f s \<equiv> s\<lparr>pg_intents := replaced in_id eid f (pg_intents s)\<rparr>"

lemma replace_intent_look:
  assumes "\<And>row. in_id (f row) = in_id row" and "pg_look s eid = Some r"
    and "\<And>row. intent_to_record row = Inr r \<Longrightarrow> intent_to_record (f row) = Inr r'"
  shows "pg_look (replace_intent eid f s) = (pg_look s)(eid \<mapsto> r')"
proof
  fix i
  from assms(2) obtain row where row: "in_id row = eid" "intent_to_record row = Inr r"
    "find (\<lambda>row. in_id row = eid) (pg_intents s) = Some row" by (rule pg_look_SomeE)
  show "pg_look (replace_intent eid f s) i = ((pg_look s)(eid \<mapsto> r')) i"
  proof (cases "i = eid")
    case True
    with row assms(3) [OF row(2)] show ?thesis by (simp add: pg_look_def replaced_find assms(1))
  next
    case False
    then show ?thesis by (auto simp: pg_look_def replaced_find assms(1) split: option.split dest!: find_key)
  qed
qed

lemma replace_intent_core:
  assumes ok: "pg_core drv s" and keep: "\<And>row. in_id (f row) = in_id row" "\<And>row. in_identity (f row) = in_identity row"
    and good: "\<And>row. intent_ok drv row \<Longrightarrow> intent_ok drv (f row)"
  shows "pg_core drv (replace_intent eid f s)"
proof -
  have "\<forall>row \<in> set (replaced in_id eid f (pg_intents s)). intent_ok drv row"
    using ok good by (auto simp: replaced_def pg_core_def)
  moreover have "pg_attempts_ok (replace_intent eid f s)"
    using ok replaced_image [of in_id f in_id eid "pg_intents s", OF keep(1)] by (simp add: pg_core_parts)
  ultimately show ?thesis
    using ok replaced_keys [of in_id f in_id eid "pg_intents s", OF keep(1)]
      replaced_keys [of in_identity f in_id eid "pg_intents s", OF keep(2)]
    by (simp add: pg_core_def pg_events_ok_def)
qed

text \<open>An \<open>UPDATE\<close> that names the row by its id returns that row.\<close>

lemma update_intents_Inr:
  assumes ok: "pg_core drv s" and p: "\<And>row. p row \<Longrightarrow> in_id row = eid"
    and run: "update_intents p f s = (Inr rows, t)"
  obtains (missed) "rows = []" "t = s" "\<forall>row \<in> set (pg_intents s). \<not> p row"
  | (hit) row where "row \<in> set (pg_intents s)" "p row" "rows = [f row]" "t = replace_intent eid f s"
proof (cases "\<exists>row \<in> set (pg_intents s). p row")
  case False
  then have "filter p (pg_intents s) = []" "map (\<lambda>row. if p row then f row else row) (pg_intents s) = pg_intents s"
    by (auto simp: filter_empty_conv intro: map_idI)
  with run False show ?thesis by (intro that(1)) (simp_all add: update_intents_def)
next
  case True
  then obtain row where row: "row \<in> set (pg_intents s)" "p row" by blast
  have dist: "distinct (map in_id (pg_intents s))" using ok by (simp add: pg_core_def)
  have same: "x \<in> set (pg_intents s) \<Longrightarrow> p x \<longleftrightarrow> in_id x = eid" for x
    using same_key [OF dist _ row(1), of x] p [of x] p [OF row(2)] row(2) by auto
  then have "filter p (pg_intents s) = filter (\<lambda>x. in_id x = in_id row) (pg_intents s)"
    using p [OF row(2)] by (intro filter_cong) simp_all
  then have one: "filter p (pg_intents s) = [row]" using filter_unique [OF dist row(1)] by simp
  have "map (\<lambda>row. if p row then f row else row) (pg_intents s) = replaced in_id eid f (pg_intents s)"
    using same by (simp add: replaced_def)
  with run one row show ?thesis
    by (intro that(2) [OF row]) (auto simp: update_intents_def split: option.splits)
qed

section \<open>Transitions\<close>

lemma not_succeeded:
  assumes "pg_core drv s" and "pg_look s eid = Some r" and "status r \<noteq> SUCCEEDED"
    and "x \<in> set (pg_intents s)" and "in_id x = eid"
  shows "in_status x \<noteq> status_value SUCCEEDED"
proof -
  obtain q where q: "intent_to_record x = Inr q" "pg_look s (in_id x) = Some q" by (rule intent_in_ok [OF assms(1,4)])
  with assms(2,5) have "q = r" by simp
  with intent_to_record_Inr(6) [OF q(1)] assms(3) show ?thesis by (simp del: status_value.simps)
qed

lemma kept_receipt:
  assumes "pg_ok drv s" and "pg_look s eid = Some r" and "status r \<noteq> SUCCEEDED" and "rc \<in> set (pg_receipts s)"
  shows "rc_effect rc \<noteq> eid \<and> (\<exists>x \<in> set (replaced in_id eid f (pg_intents s)). receipt_of rc x)"
proof -
  from assms(1,4) obtain x where x: "x \<in> set (pg_intents s)" "receipt_of rc x"
    by (auto simp: pg_ok_def pg_receipts_ok_def)
  then have "in_id x \<noteq> eid" using not_succeeded [OF pg_ok_core [OF assms(1)] assms(2,3) x(1)] by (auto simp: receipt_of_def)
  with x show ?thesis by (force simp: replaced_def receipt_of_def)
qed

lemma receipts_other_status:
  assumes "pg_ok drv s" and "pg_look s eid = Some r" and "status r \<noteq> SUCCEEDED" and "goal \<noteq> SUCCEEDED"
  shows "pg_receipts_ok (replace_intent eid (move_columns goal now) s)"
proof -
  have "in_id x \<in> rc_effect ` set (pg_receipts s)"
    if "x \<in> set (replaced in_id eid (move_columns goal now) (pg_intents s))" "in_status x = status_value SUCCEEDED" for x
    using that assms(1,4)
    by (auto simp: replaced_def pg_ok_def pg_receipts_ok_def simp del: status_value.simps split: if_splits)
  then show ?thesis
    using assms(1) kept_receipt [OF assms(1-3)] by (simp add: pg_ok_def pg_receipts_ok_def)
qed

text \<open>A success and its receipt, written together.\<close>

lemma receipts_success:
  assumes ok: "pg_ok drv s" and look: "pg_look s eid = Some r" and st: "status r \<noteq> SUCCEEDED"
    and rc: "rc_effect rc = eid" "rc_contract rc = contract_name (contract r)"
      "rc_contract_version rc = contract_version (contract r)" "rc_downstream rc = down_key r"
  shows "pg_receipts_ok (s\<lparr>pg_intents := replaced in_id eid (move_columns SUCCEEDED now) (pg_intents s),
    pg_receipts := pg_receipts s @ [rc]\<rparr>)"
proof -
  let ?rows = "replaced in_id eid (move_columns SUCCEEDED now) (pg_intents s)"
  from look obtain row where row: "row \<in> set (pg_intents s)" "in_id row = eid" "intent_to_record row = Inr r"
    by (rule pg_look_SomeE)
  have new: "\<exists>x \<in> set ?rows. receipt_of rc x"
  proof
    show "move_columns SUCCEEDED now row \<in> set ?rows" using row(1,2) by (force simp: replaced_def)
    show "receipt_of rc (move_columns SUCCEEDED now row)"
      using rc row(2) intent_to_record_Inr [OF row(3)] by (simp add: receipt_of_def move_columns_def)
  qed
  have "eid \<notin> rc_effect ` set (pg_receipts s)"
    using kept_receipt [OF ok look st, where f = "\<lambda>x. x"] by auto
  moreover have "in_id x \<in> insert eid (rc_effect ` set (pg_receipts s))"
    if "x \<in> set ?rows" "in_status x = status_value SUCCEEDED" for x
    using that ok by (auto simp: replaced_def pg_ok_def pg_receipts_ok_def split: if_splits)
  ultimately show ?thesis
    using ok kept_receipt [OF ok look st] new rc(1) by (auto simp: pg_receipts_ok_def pg_ok_def)
qed

lemma other_tables [simp]:
  "pg_receipts_ok (s\<lparr>pg_events := evs\<rparr>) = pg_receipts_ok s"
  "pg_receipts_ok (s\<lparr>pg_attempts := as\<rparr>) = pg_receipts_ok s"
  "pg_core drv (s\<lparr>pg_receipts := rcs\<rparr>) = pg_core drv s"
  "pg_look (s\<lparr>pg_events := evs\<rparr>) = pg_look s" "pg_look (s\<lparr>pg_receipts := rcs\<rparr>) = pg_look s"
  "pg_look (s\<lparr>pg_attempts := as\<rparr>) = pg_look s"
  by (simp_all add: pg_core_parts pg_receipts_ok_def pg_look_def fun_eq_iff)

lemma pg_insert_receipt_Inr:
  assumes "pg_insert_receipt drv e r d at s = (Inr u, t)"
  obtains rc where "t = s\<lparr>pg_receipts := pg_receipts s @ [rc]\<rparr>" "rc_effect rc = effect_id r"
    "rc_contract rc = contract_name (contract r)" "rc_contract_version rc = contract_version (contract r)"
    "rc_downstream rc = down_key r" "rc_created rc = at"
    "\<exists>j. json_value (VDict d) = Inr j \<and> jsonb drv j = Inr (rc_metadata rc)"
proof -
  from assms obtain j ext column where "json_value (VDict d) = Inr j" "jsonb drv j = Inr column"
    "t = s\<lparr>pg_receipts := pg_receipts s @ [\<lparr>rc_id = ''rcpt_'' @ env_uuid e, rc_effect = effect_id r, rc_external = ext,
       rc_contract = contract_name (contract r), rc_contract_version = contract_version (contract r),
       rc_downstream = down_key r, rc_metadata = column, rc_created = at\<rparr>]\<rparr>"
    by (auto simp: pg_insert_receipt_def insert_receipt_row_def bound_then split: sum.splits if_splits)
  then show thesis by (intro that) auto
qed

text \<open>
  The write phase, from any state of the database and for any record that was read before: it returns
  only if the row still has the expected version.
\<close>

lemma pg_transition_write_Inr:
  assumes ok: "pg_ok drv s" and run: "pg_transition_write drv e eid v goal d r s = (Inr r', t)"
    and open_: "\<And>q. pg_look s eid = Some q \<Longrightarrow> version q = v \<Longrightarrow> status q \<noteq> SUCCEEDED"
  obtains q where "pg_look s eid = Some q" "version q = v" "r' = advance q goal (env_now e)" "pg_ok drv t"
    "pg_look t = (pg_look s)(eid \<mapsto> r')" "pg_attempts t = pg_attempts s" "pg_tenants t = pg_tenants s"
proof -
  let ?f = "move_columns goal (env_now e)" and ?p = "\<lambda>row. in_id row = eid \<and> in_version row = v"
  from run obtain rows u where rows: "update_intents ?p ?f s = (Inr rows, u)"
    by (auto simp: pg_transition_write_def and_then_Inr)
  have "in_id row = eid" if "?p row" for row using that by simp
  from update_intents_Inr [OF pg_ok_core [OF ok] this rows] run rows
  obtain row where row: "row \<in> set (pg_intents s)" "?p row" "rows = [?f row]" "u = replace_intent eid ?f s"
    by (auto simp: pg_transition_write_def and_then_Inr split: list.splits)
  obtain q where q: "intent_to_record row = Inr q" "pg_look s (in_id row) = Some q"
    by (rule intent_in_ok [OF pg_ok_core [OF ok] row(1)])
  then have cur: "pg_look s eid = Some q" "version q = v" using row(2) intent_to_record_Inr(5) [OF q(1)] by simp_all
  have after: "intent_to_record (?f row) = Inr (advance q goal (env_now e))" by (rule intent_moved [OF q(1)])
  from run obtain w where ev: "pg_append_event drv eid ''transition'' (in_version (?f row))
      (pg_transition_data (status r) goal d) (env_now e) u = (Inr (), w)"
    and last: "(if goal = SUCCEEDED
       then and_then (pg_insert_receipt drv e (advance q goal (env_now e)) d (env_now e)) (\<lambda>_. ret (advance q goal (env_now e)))
       else ret (advance q goal (env_now e))) w = (Inr r', t)"
    using rows row after by (auto simp: pg_transition_write_def and_then_Inr)
  have "pg_core drv u" unfolding row(4)
    by (rule replace_intent_core [OF pg_ok_core [OF ok]]) (simp_all add: intent_ok_moved)
  from this ev obtain j where w: "w = u\<lparr>pg_events := pg_events u @ [j]\<rparr>" "pg_core drv w"
    by (rule pg_append_event_Inr)
  have r': "r' = advance q goal (env_now e)" using last by (auto simp: and_then_Inr split: if_splits)
  have look: "pg_look u = (pg_look s)(eid \<mapsto> r')"
    unfolding r' row(4) by (rule replace_intent_look [OF _ cur(1) intent_moved]) simp
  have open': "status q \<noteq> SUCCEEDED" by (rule open_ [OF cur])
  show thesis
  proof (cases "goal = SUCCEEDED")
    case True
    with last obtain x where "pg_insert_receipt drv e (advance q goal (env_now e)) d (env_now e) w = (Inr x, t)"
      by (auto simp: and_then_Inr)
    then obtain rc where rc: "t = w\<lparr>pg_receipts := pg_receipts w @ [rc]\<rparr>" "rc_effect rc = effect_id q"
      "rc_contract rc = contract_name (contract q)" "rc_contract_version rc = contract_version (contract q)"
      "rc_downstream rc = down_key q" by (rule pg_insert_receipt_Inr) simp
    have "rc_effect rc = eid" using rc(2) pg_look_id [OF cur(1)] by simp
    from receipts_success [OF ok cur(1) open' this rc(3-5)] have "pg_receipts_ok t"
      by (simp add: rc(1) w(1) row(4) True pg_receipts_ok_def)
    moreover have "pg_core drv t" using w(2) by (simp add: rc(1))
    ultimately show thesis using look by (intro that [OF cur r']) (simp_all add: pg_ok_def rc(1) w(1) row(4))
  next
    case False
    with last have t: "t = w" by simp
    have "pg_receipts_ok u" unfolding row(4) by (rule receipts_other_status [OF ok cur(1) open' False])
    then show thesis using look w by (intro that [OF cur r']) (simp_all add: pg_ok_def t row(4))
  qed
qed

lemma pg_transition_Inr:
  assumes ok: "pg_ok drv s" and run: "pg_transition drv e eid v goal d s = (Inr r', t)"
  obtains r where "pg_look s eid = Some r" "version r = v" "is_allowed (status r) goal"
    "r' = advance r goal (env_now e)" "pg_ok drv t" "pg_look t = (pg_look s)(eid \<mapsto> r')"
    "pg_attempts t = pg_attempts s" "pg_transition_write drv e eid v goal d r s = (Inr r', t)"
proof -
  from run obtain r u where r: "pg_record_for_version drv eid v s = (Inr r, u)"
    and rest: "(case assert_transition (status r) goal of Inl x \<Rightarrow> throw x
      | Inr _ \<Rightarrow> pg_transition_write drv e eid v goal d r) u = (Inr r', t)"
    by (auto simp: pg_transition_def pg_begin_Inr and_then_Inr)
  note read = pg_record_for_version_Inr [OF pg_ok_core [OF ok] r]
  from rest read(1) have allowed: "is_allowed (status r) goal"
    and wrote: "pg_transition_write drv e eid v goal d r s = (Inr r', t)"
    by (simp_all add: assert_transition_def split: if_splits)
  have open': "status q \<noteq> SUCCEEDED" if "pg_look s eid = Some q" for q
    using that read(2) allowed by (auto simp: is_allowed_simps)
  obtain q where "pg_look s eid = Some q" "r' = advance q goal (env_now e)" "pg_ok drv t"
    "pg_look t = (pg_look s)(eid \<mapsto> r')" "pg_attempts t = pg_attempts s"
    by (rule pg_transition_write_Inr [OF ok wrote open']) assumption
  then show thesis using read(2,3) allowed wrote by (intro that [of r]) simp_all
qed

section \<open>Attempts\<close>

lemma pg_start_Inr:
  assumes ok: "pg_ok drv s" and run: "pg_start_attempt drv e eid v w s = (Inr aid, t)"
  obtains r where "pg_look s eid = Some r" "version r = v" "aid = attempt_name eid (Suc (pg_tries s eid))"
    "pg_ok drv t" "pg_look t = pg_look s" "pg_tries t = (pg_tries s)(eid := Suc (pg_tries s eid))"
proof -
  let ?n = "Suc (pg_tries s eid)"
  let ?a = "\<lparr>pa_id = attempt_name eid ?n, pa_effect = eid, pa_ordinal = int ?n, pa_worker = w, pa_version = v,
    pa_started = env_now e\<rparr>"
  from run obtain r u where r: "pg_record_for_version drv eid v s = (Inr r, u)"
    and rest: "and_then (insert_pg_attempt drv \<lparr>pa_id = attempt_name eid (Suc (pg_tries u eid)), pa_effect = eid,
        pa_ordinal = int (Suc (pg_tries u eid)), pa_worker = w, pa_version = v, pa_started = env_now e\<rparr>)
      (\<lambda>_. and_then (pg_append_event drv eid ''attempt_started'' (version r)
          (pg_attempt_data (attempt_name eid (Suc (pg_tries u eid))) (Suc (pg_tries u eid)) w) (env_now e))
        (\<lambda>_. ret (attempt_name eid (Suc (pg_tries u eid))))) u = (Inr aid, t)"
    by (auto simp: pg_start_attempt_def pg_begin_Inr and_then_Inr Let_def attempt_name_def)
  note read = pg_record_for_version_Inr [OF pg_ok_core [OF ok] r]
  let ?u = "s\<lparr>pg_attempts := pg_attempts s @ [?a]\<rparr>"
  from rest read(1) obtain ua where ins: "insert_pg_attempt drv ?a s = (Inr (), ua)"
    and ev': "pg_append_event drv eid ''attempt_started'' (version r) (pg_attempt_data (attempt_name eid ?n) ?n w)
      (env_now e) ua = (Inr (), t)" and aid: "aid = attempt_name eid ?n"
    by (auto simp: and_then_Inr)
  from ins have "ua = ?u" by (auto simp: insert_pg_attempt_def bound_then split: if_splits)
  with ev' have ev: "pg_append_event drv eid ''attempt_started'' (version r) (pg_attempt_data (attempt_name eid ?n) ?n w)
      (env_now e) ?u = (Inr (), t)" by simp
  have known: "eid \<in> in_id ` set (pg_intents s)" using pg_look_None [OF pg_ok_core [OF ok], of eid] read(2) by simp
  have num: "gapless (map pa_ordinal (filter (\<lambda>a. pa_effect a = i) (pg_attempts s)))" for i
    using ok by (simp add: pg_ok_def pg_core_parts)
  have "gapless (map pa_ordinal (filter (\<lambda>a. pa_effect a = i) (pg_attempts ?u)))" for i
    using num [of i] gapless_snoc [OF num [of eid]] by (cases "i = eid") (auto simp: pg_tries_def add.commute)
  then have "pg_core drv ?u" using ok known by (simp add: pg_ok_def pg_core_parts)
  from this ev obtain j where t: "t = ?u\<lparr>pg_events := pg_events ?u @ [j]\<rparr>" "pg_core drv t"
    by (rule pg_append_event_Inr)
  have "pg_receipts_ok t" using ok by (simp add: t(1) pg_ok_def)
  then show thesis using t(2) aid
    by (intro that [OF read(2,3)]) (auto simp: pg_ok_def t(1) pg_tries_def fun_eq_iff)
qed

section \<open>Claims\<close>

lemma receipts_leased:
  assumes "pg_receipts_ok s"
  shows "pg_receipts_ok (replace_intent eid (lease_columns w until now) s)"
proof -
  let ?f = "\<lambda>x. if in_id x = eid then lease_columns w until now x else x"
  have "receipt_of rc (?f x) = receipt_of rc x" "in_status (?f x) = in_status x" "in_id (?f x) = in_id x" for rc x
    by (simp_all add: receipt_of_def lease_columns_def)
  then show ?thesis
    using assms by (simp add: pg_receipts_ok_def replaced_def del: if_image_distrib)
qed

lemma claim_intent_Inr:
  assumes ok: "pg_ok drv s" and row: "row \<in> set (pg_intents s)"
    and run: "claim_intent drv w until now row s = (Inr c, t)"
  obtains r where "pg_look s (in_id row) = Some r" "c = claim_record r now" "pg_ok drv t"
    "pg_look t = (pg_look s)(in_id row \<mapsto> c)" "pg_attempts t = pg_attempts s"
    "pg_intents t = replaced in_id (in_id row) (lease_columns w until now) (pg_intents s)"
proof -
  let ?f = "lease_columns w until now"
  obtain r where r: "intent_to_record row = Inr r" "pg_look s (in_id row) = Some r"
    by (rule intent_in_ok [OF pg_ok_core [OF ok] row])
  from run have run': "and_then (update_intents (\<lambda>x. in_id x = in_id row) ?f) (\<lambda>rows. case rows of
       [updated] \<Rightarrow>
         and_then (pg_append_event drv (in_id updated) ''claimed'' (in_version updated)
             (pg_claimed_data w until) now)
           (\<lambda>_. case intent_to_record updated of Inl x \<Rightarrow> throw x | Inr r \<Rightarrow> ret r)
     | [] \<Rightarrow> throw (PyError ''NoResultFound'')
     | _ \<Rightarrow> throw (PyError ''MultipleResultsFound'')) s = (Inr c, t)"
    by (simp add: claim_intent_def bound_then)
  then obtain rows u where rows: "update_intents (\<lambda>x. in_id x = in_id row) ?f s = (Inr rows, u)"
    by (auto simp: and_then_Inr)
  have same: "x \<in> set (pg_intents s) \<Longrightarrow> in_id x = in_id row \<Longrightarrow> x = row" for x
    by (rule same_key [of in_id "pg_intents s"]) (use ok row in \<open>simp_all add: pg_ok_def pg_core_def\<close>)
  from update_intents_Inr [OF pg_ok_core [OF ok] _ rows, of "in_id row"] row same
  have u: "rows = [?f row]" "u = replace_intent (in_id row) ?f s" by metis+
  from run' rows u(1) intent_leased [OF r(1)]
  have ev: "pg_append_event drv (in_id (?f row)) ''claimed'' (in_version (?f row)) (pg_claimed_data w until) now u
      = (Inr (), t)" and c: "c = claim_record r now"
    by (auto simp: and_then_Inr)
  have "pg_core drv u" unfolding u(2)
    by (rule replace_intent_core [OF pg_ok_core [OF ok]]) (simp_all add: intent_ok_leased)
  from this ev obtain j where t: "t = u\<lparr>pg_events := pg_events u @ [j]\<rparr>" "pg_core drv t"
    by (rule pg_append_event_Inr)
  have "pg_receipts_ok u" unfolding u(2) by (rule receipts_leased) (use ok in \<open>simp add: pg_ok_def\<close>)
  moreover have "pg_look u = (pg_look s)(in_id row \<mapsto> c)"
    unfolding u(2) c by (rule replace_intent_look [OF _ r(2) intent_leased]) simp
  ultimately show thesis using t(2) u(2) by (intro that [OF r(2) c]) (simp_all add: t(1) pg_ok_def)
qed

text \<open>The whole loop, over distinct rows of the table.\<close>

definition leased_rows :: "string \<Rightarrow> time \<Rightarrow> time \<Rightarrow> intent_row list \<Rightarrow> intent_row list \<Rightarrow> intent_row list" where
  "leased_rows w until now rows =
     map (\<lambda>x. if in_id x \<in> in_id ` set rows then lease_columns w until now x else x)"

lemma leased_rows_Cons:
  "in_id row \<notin> in_id ` set rows \<Longrightarrow> leased_rows w until now rows (replaced in_id (in_id row) (lease_columns w until now) xs)
     = leased_rows w until now (row # rows) xs"
  by (auto simp: leased_rows_def replaced_def)

lemma claim_intents_Inr:
  assumes "pg_ok drv s" and "set rows \<subseteq> set (pg_intents s)" and "distinct (map in_id rows)"
    and "claim_intents drv w until now rows claimed s = (Inr out, t)"
  shows "\<exists>cs. out = claimed @ cs \<and> map effect_id cs = map in_id rows
    \<and> (\<forall>c \<in> set cs. \<exists>r. pg_look s (effect_id c) = Some r \<and> c = claim_record r now)
    \<and> pg_ok drv t \<and> pg_look t = pg_look s ++ map_of (map (\<lambda>c. (effect_id c, c)) cs)
    \<and> pg_attempts t = pg_attempts s \<and> pg_intents t = leased_rows w until now rows (pg_intents s)"
  using assms
proof (induction rows arbitrary: s claimed)
  case Nil
  then show ?case by (simp add: leased_rows_def)
next
  case (Cons row rows)
  from Cons.prems(4) obtain c u where c: "claim_intent drv w until now row s = (Inr c, u)"
    and rest: "claim_intents drv w until now rows (claimed @ [c]) u = (Inr out, t)"
    by (auto simp: and_then_Inr)
  from Cons.prems(2) have "row \<in> set (pg_intents s)" by simp
  from Cons.prems(1) this c obtain r where r: "pg_look s (in_id row) = Some r" "c = claim_record r now" "pg_ok drv u"
    "pg_look u = (pg_look s)(in_id row \<mapsto> c)" "pg_attempts u = pg_attempts s"
    "pg_intents u = replaced in_id (in_id row) (lease_columns w until now) (pg_intents s)" by (rule claim_intent_Inr)
  have new: "in_id row \<notin> in_id ` set rows" using Cons.prems(3) by simp
  have "x \<in> set (pg_intents u)" if "x \<in> set rows" for x
  proof -
    have "in_id x \<noteq> in_id row" using new imageI [OF that, of in_id] by auto
    moreover have "x \<in> set (pg_intents s)" using that Cons.prems(2) by auto
    ultimately show ?thesis by (force simp: r(6) replaced_def)
  qed
  then have "set rows \<subseteq> set (pg_intents u)" by blast
  with Cons.IH [OF r(3) _ _ rest] Cons.prems(3) obtain cs where cs: "out = (claimed @ [c]) @ cs"
    "map effect_id cs = map in_id rows" "\<forall>c \<in> set cs. \<exists>r. pg_look u (effect_id c) = Some r \<and> c = claim_record r now"
    "pg_ok drv t" "pg_look t = pg_look u ++ map_of (map (\<lambda>c. (effect_id c, c)) cs)" "pg_attempts t = pg_attempts u"
    "pg_intents t = leased_rows w until now rows (pg_intents u)" by auto
  have id: "effect_id c = in_id row" using r(2) pg_look_id [OF r(1)] by simp
  have "in_id row \<notin> effect_id ` set cs"
    using new arg_cong [OF cs(2), of set] by simp
  then have none: "map_of (map (\<lambda>c. (effect_id c, c)) cs) (in_id row) = None"
    by (simp add: map_of_eq_None_iff image_image)
  have old: "pg_look s (effect_id x) = pg_look u (effect_id x)" if "x \<in> set cs" for x
    using imageI [OF that, of effect_id] \<open>in_id row \<notin> effect_id ` set cs\<close> by (auto simp: r(4))
  have "pg_look t
    = pg_look s ++ map_of (map (\<lambda>c. (effect_id c, c)) (c # cs))"
    using none by (auto simp: cs(5) r(4) id fun_eq_iff map_add_def split: option.split)
  moreover have "\<exists>r. pg_look s (effect_id x) = Some r \<and> x = claim_record r now" if "x \<in> set (c # cs)" for x
    using that cs(3) old r(1,2) id by auto
  moreover have "out = claimed @ c # cs" "map effect_id (c # cs) = map in_id (row # rows)"
    "pg_attempts t = pg_attempts s" "pg_intents t = leased_rows w until now (row # rows) (pg_intents s)"
    using cs(1,2,6,7) r(5) id by (simp_all add: r(6) leased_rows_Cons [OF new])
  ultimately show ?case using cs(4) by blast
qed

lemma select_claimable_rows:
  assumes "row \<in> set (select_claimable locked now lim s)"
  shows "row \<in> set (pg_intents s)" "row_claimable now row" "in_id row \<notin> locked"
  using in_set_takeD [OF assms [unfolded select_claimable_def]] by auto

lemma distinct_map_take_filter_sort:
  "distinct (map f xs) \<Longrightarrow> distinct (map f (take n (filter p (sort_key k (filter q xs)))))"
  by (simp add: distinct_map inj_on_def distinct_take) (auto dest!: in_set_takeD)

lemma claimable_due:
  assumes "intent_to_record row = Inr r" and "row_claimable now row"
  shows "due r"
  using assms(2) intent_to_record_Inr(6) [OF assms(1)] status_value_inj [of "status r"]
  by (simp add: row_claimable_def due_def del: status_value.simps)

lemma pg_claim_Inr:
  assumes ok: "pg_ok drv s" and run: "pg_claim_due drv locked w now lease lim s = (Inr cs, t)"
  shows "pg_ok drv t \<and> pg_attempts t = pg_attempts s \<and> map effect_id cs = map in_id (select_claimable locked now lim s)
    \<and> (\<forall>c \<in> set cs. \<exists>r. pg_look s (effect_id c) = Some r \<and> due r \<and> c = claim_record r now)
    \<and> pg_look t = pg_look s ++ map_of (map (\<lambda>c. (effect_id c, c)) cs)
    \<and> pg_intents t = leased_rows w (now + lease) now (select_claimable locked now lim s) (pg_intents s)"
proof (cases "lim \<le> 0")
  case True
  with run ok show ?thesis by (simp add: pg_claim_due_def select_claimable_def leased_rows_def)
next
  case False
  let ?rows = "select_claimable locked now lim s"
  have due: "due r" if "row \<in> set ?rows" "pg_look s (in_id row) = Some r" for row r
  proof -
    have "row \<in> set (pg_intents s)" by (rule select_claimable_rows(1) [OF that(1)])
    then obtain q where "intent_to_record row = Inr q" "pg_look s (in_id row) = Some q"
      by (rule intent_in_ok [OF pg_ok_core [OF ok]])
    with that claimable_due [OF _ select_claimable_rows(2) [OF that(1)]] show ?thesis by simp
  qed
  have sub: "set ?rows \<subseteq> set (pg_intents s)" using select_claimable_rows(1) by blast
  moreover have "distinct (map in_id ?rows)"
    unfolding select_claimable_def
    by (rule distinct_map_take_filter_sort) (use ok in \<open>simp add: pg_ok_def pg_core_def\<close>)
  moreover from run False have "claim_intents drv w (now + lease) now ?rows [] s = (Inr cs, t)"
    by (simp add: pg_claim_due_def pg_begin_Inr)
  ultimately obtain "map effect_id cs = map in_id ?rows" "pg_ok drv t" "pg_attempts t = pg_attempts s"
    "pg_look t = pg_look s ++ map_of (map (\<lambda>c. (effect_id c, c)) cs)"
    "pg_intents t = leased_rows w (now + lease) now ?rows (pg_intents s)"
    and each: "\<forall>c \<in> set cs. \<exists>r. pg_look s (effect_id c) = Some r \<and> c = claim_record r now"
    using claim_intents_Inr [OF ok, of ?rows w "now + lease" now "[]" cs t] by auto
  moreover have "\<exists>r. pg_look s (effect_id c) = Some r \<and> due r \<and> c = claim_record r now" if "c \<in> set cs" for c
  proof -
    from each that obtain r where r: "pg_look s (effect_id c) = Some r" "c = claim_record r now" by blast
    have "effect_id c \<in> in_id ` set ?rows"
      using that arg_cong [OF \<open>map effect_id cs = map in_id ?rows\<close>, of set] by auto
    with due r(1) have "due r" by auto
    with r show ?thesis by blast
  qed
  ultimately show ?thesis by simp
qed

section \<open>Reservations\<close>

lemma ensure_tenant_Inr:
  assumes "ensure_tenant drv tenant now s = (Inr u, t)"
  obtains ts where "t = s\<lparr>pg_tenants := ts\<rparr>"
  using assms by (auto simp: ensure_tenant_def bound_then split: if_splits intro: that [of "pg_tenants s"])

lemma tenants_irrelevant [simp]:
  "pg_ok drv (s\<lparr>pg_tenants := ts\<rparr>) = pg_ok drv s" "pg_look (s\<lparr>pg_tenants := ts\<rparr>) = pg_look s"
  "pg_tries (s\<lparr>pg_tenants := ts\<rparr>) = pg_tries s" "pg_tries (s\<lparr>pg_events := evs\<rparr>) = pg_tries s"
  "pg_tries (s\<lparr>pg_intents := rows\<rparr>) = pg_tries s"
  by (simp_all add: pg_ok_def pg_core_parts pg_receipts_ok_def pg_look_def pg_tries_def fun_eq_iff)

text \<open>What a record becomes on its way through the columns.\<close>

lemma record_values_back:
  assumes "record_values r = Inr row" and "intent_to_record (row\<lparr>in_arguments := column\<rparr>) = Inr kept"
  shows "effect_id kept = effect_id r" "tenant_id kept = tenant_id r"
    "operation_key (request kept) = operation_key (request r)" "tool (request kept) = tool (request r)"
    "req_hash kept = req_hash r" "down_key kept = down_key r" "contract kept = pg_pin (contract r)"
    "status kept = status r" "version kept = version r" "created_at kept = created_at r"
    "in_id row = effect_id r" "in_tenant row = tenant_id r" "in_status row = status_value (status r)"
  using assms by (auto simp: record_values_def intent_to_record_def pg_pin_def split: sum.splits)

lemma insert_intent_Inr:
  assumes "insert_intent drv row s = (Inr found, t)"
  obtains (exists) "found = None" "t = s"
    "\<exists>x \<in> set (pg_intents s). in_tenant x = in_tenant row \<and> in_key x = in_key row"
  | (fresh) column where "found = Some (row\<lparr>in_arguments := column\<rparr>)" "jsonb drv (in_arguments row) = Inr column"
    "t = s\<lparr>pg_intents := pg_intents s @ [row\<lparr>in_arguments := column\<rparr>]\<rparr>"
    "in_id row \<notin> in_id ` set (pg_intents s)" "in_identity row \<notin> in_identity ` set (pg_intents s)"
    "text_error drv (in_id row) = None" "text_error drv (in_tenant row) = None"
proof -
  let ?dup = "\<exists>x \<in> set (pg_intents s). in_tenant x = in_tenant row \<and> in_key x = in_key row"
  from assms obtain column where bound: "first_error (intent_errors drv row) = None"
    and column: "jsonb drv (in_arguments row) = Inr column"
    and body: "(if ?dup then (Inr None, s)
      else if in_id row \<in> in_id ` set (pg_intents s) \<or> in_tenant row \<notin> tn_id ` set (pg_tenants s)
      then (Inl pg_integrity_error, s)
      else (Inr (Some (row\<lparr>in_arguments := column\<rparr>)),
        s\<lparr>pg_intents := pg_intents s @ [row\<lparr>in_arguments := column\<rparr>]\<rparr>)) = (Inr found, t)"
    by (cases "jsonb drv (in_arguments row)") (simp_all add: insert_intent_def bound_then Let_def)
  show ?thesis
  proof (cases ?dup)
    case True
    with body that(1) show ?thesis by simp
  next
    case False
    then have "in_identity row \<notin> in_identity ` set (pg_intents s)" by (auto simp: in_identity_def)
    moreover have "text_error drv (in_id row) = None" "text_error drv (in_tenant row) = None"
      using bound by (simp_all add: intent_errors_def split: option.splits)
    moreover from body False have "found = Some (row\<lparr>in_arguments := column\<rparr>)"
      "t = s\<lparr>pg_intents := pg_intents s @ [row\<lparr>in_arguments := column\<rparr>]\<rparr>"
      "in_id row \<notin> in_id ` set (pg_intents s)" by (auto split: if_splits)
    ultimately show ?thesis using column by (intro that(2))
  qed
qed

text \<open>A new row.\<close>

lemma pg_ok_insert:
  assumes ok: "pg_ok drv s" and "in_id row \<notin> in_id ` set (pg_intents s)"
    and "in_identity row \<notin> in_identity ` set (pg_intents s)" and "intent_ok drv row"
    and "in_status row \<noteq> status_value SUCCEEDED"
  shows "pg_ok drv (s\<lparr>pg_intents := pg_intents s @ [row]\<rparr>)"
proof -
  have "pg_core drv (s\<lparr>pg_intents := pg_intents s @ [row]\<rparr>)"
    using assms by (auto simp: pg_ok_def pg_core_parts)
  moreover have "pg_receipts_ok (s\<lparr>pg_intents := pg_intents s @ [row]\<rparr>)"
    using ok assms(5) by (auto simp: pg_ok_def pg_receipts_ok_def simp del: status_value.simps)
  ultimately show ?thesis by (simp add: pg_ok_def)
qed

lemma pg_look_insert:
  assumes "in_id row \<notin> in_id ` set (pg_intents s)" and "intent_to_record row = Inr r"
  shows "pg_look (s\<lparr>pg_intents := pg_intents s @ [row]\<rparr>) = (pg_look s)(in_id row \<mapsto> r)"
proof
  fix i
  have append: "find p (xs @ [row]) = (case find p xs of None \<Rightarrow> if p row then Some row else None | Some x \<Rightarrow> Some x)"
    for p xs by (induction xs) simp_all
  show "pg_look (s\<lparr>pg_intents := pg_intents s @ [row]\<rparr>) i = ((pg_look s)(in_id row \<mapsto> r)) i"
    using assms find_no_key [of in_id "in_id row" "pg_intents s"]
    by (auto simp: pg_look_def append split: option.split)
qed

lemma pg_replay_Inr:
  assumes ok: "pg_ok drv s" and run: "pg_replay drv tenant key digest s = (Inr res, t)"
  shows "t = s \<and> \<not> created res \<and> replayed res \<and> req_hash (res_effect res) = digest
    \<and> tenant_id (res_effect res) = tenant \<and> operation_key (request (res_effect res)) = key
    \<and> pg_look s (effect_id (res_effect res)) = Some (res_effect res)"
proof -
  from run obtain found u where found: "pg_select_by_identity drv tenant key s = (Inr found, u)"
    by (auto simp: pg_replay_def and_then_Inr)
  from select_intent_run [OF pg_ok_core [OF ok] found [unfolded pg_select_by_identity_def]] run found
  show ?thesis
    by (auto simp: pg_replay_def and_then_Inr intent_to_record_Inr split: option.splits if_splits)
qed

lemma pg_reserve_Inr:
  assumes ok: "pg_ok drv s" and run: "pg_reserve drv key e tenant req c s = (Inr res, t)"
  shows "pg_ok drv t \<and> pg_tries t = pg_tries s \<and> replayed res = (\<not> created res)
    \<and> tenant_id (res_effect res) = tenant \<and> operation_key (request (res_effect res)) = operation_key req
    \<and> request_hash (tool req) (arguments req) (contract_name c) (contract_version c) = Inr (req_hash (res_effect res))
    \<and> (if created res
       then pg_look s (effect_id (res_effect res)) = None
         \<and> pg_look t = (pg_look s)(effect_id (res_effect res) \<mapsto> res_effect res)
         \<and> status (res_effect res) = PREPARED \<and> version (res_effect res) = 0 \<and> contract (res_effect res) = pg_pin c
       else pg_look t = pg_look s \<and> pg_look s (effect_id (res_effect res)) = Some (res_effect res))"
proof -
  obtain digest where hash: "request_hash (tool req) (arguments req) (contract_name c) (contract_version c) = Inr digest"
    using run by (auto simp: pg_reserve_def split: sum.splits)
  let ?r = "pg_new_record key e tenant req c digest"
  from run hash obtain row ts found u where row: "record_values ?r = Inr row"
    and found: "insert_intent drv row (s\<lparr>pg_tenants := ts\<rparr>) = (Inr found, u)"
    and rest: "(case found of None \<Rightarrow> pg_replay drv tenant (operation_key req) digest
      | Some row \<Rightarrow> and_then (pg_append_event drv (effect_id ?r) ''reserved'' (version ?r)
            [(VStr ''status'', VStr (status_value (status ?r)))] (env_now e)) (\<lambda>_.
          case intent_to_record row of Inl x \<Rightarrow> throw x
          | Inr kept \<Rightarrow> ret \<lparr>res_effect = kept, created = True, replayed = False\<rparr>)) u = (Inr res, t)"
    by (auto simp: pg_reserve_def Let_def pg_begin_Inr and_then_Inr split: sum.splits elim!: ensure_tenant_Inr)
  let ?s = "s\<lparr>pg_tenants := ts\<rparr>"
  from found show ?thesis
  proof (cases rule: insert_intent_Inr)
    case exists
    with rest have "pg_replay drv tenant (operation_key req) digest ?s = (Inr res, t)" by simp
    from pg_replay_Inr [OF _ this] ok hash show ?thesis by auto
  next
    case (fresh column)
    let ?row = "row\<lparr>in_arguments := column\<rparr>"
    from rest fresh(1) obtain kept where kept: "intent_to_record ?row = Inr kept"
      and ev: "pg_append_event drv (effect_id ?r) ''reserved'' (version ?r)
        [(VStr ''status'', VStr (status_value (status ?r)))] (env_now e) u = (Inr (), t)"
      and res: "res = \<lparr>res_effect = kept, created = True, replayed = False\<rparr>"
      by (auto simp: and_then_Inr split: sum.splits)
    note cols = record_values_back [OF row kept]
    have prepared: "status ?r = PREPARED" "version ?r = 0" "contract ?r = c" "tenant_id ?r = tenant"
      "request ?r = req" "req_hash ?r = digest" by (simp_all add: pg_new_record_def)
    have okr: "pg_ok drv (?s\<lparr>pg_intents := pg_intents ?s @ [?row]\<rparr>)"
      by (rule pg_ok_insert) (use ok fresh kept prepared cols in \<open>simp_all add: intent_ok_def in_identity_def\<close>)
    then obtain j where t: "t = u\<lparr>pg_events := pg_events u @ [j]\<rparr>" "pg_core drv t"
      using pg_append_event_Inr [OF pg_ok_core ev] fresh(3) by metis
    have look: "pg_look u = (pg_look s)(effect_id kept \<mapsto> kept)"
      using pg_look_insert [of ?row ?s kept] fresh(3,4) kept cols by simp
    have "pg_look s (effect_id kept) = None"
      using pg_look_None [OF pg_ok_core [OF ok]] fresh(4) cols by simp
    moreover have "pg_ok drv t" using okr t(2) fresh(3) by (simp add: pg_ok_def t(1))
    moreover have "pg_tries t = pg_tries s" by (simp add: t(1) fresh(3))
    ultimately show ?thesis using cols prepared look hash by (simp add: res t(1))
  qed
qed

lemma pg_get_law:
  assumes ok: "pg_ok drv s"
  shows "pg_or_else None (pg_get drv tenant eid s)
    = (case pg_look s eid of Some r \<Rightarrow> if tenant_id r = tenant then Some r else None | None \<Rightarrow> None)"
proof (cases "fst (select_intent (map (text_error drv) [tenant, eid])
    (\<lambda>row. in_tenant row = tenant \<and> in_id row = eid) s)")
  case (Inl x)
  have "\<not> (\<exists>row \<in> set (pg_intents s). in_id row = eid \<and> in_tenant row = tenant)"
  proof
    assume "\<exists>row \<in> set (pg_intents s). in_id row = eid \<and> in_tenant row = tenant"
    then obtain row where row: "row \<in> set (pg_intents s)" "in_id row = eid" "in_tenant row = tenant" by blast
    then have "text_error drv eid = None" "text_error drv tenant = None"
      using ok by (auto simp: pg_ok_def pg_core_def intent_ok_def)
    moreover obtain x where x: "find (\<lambda>row. in_tenant row = tenant \<and> in_id row = eid) (pg_intents s) = Some x"
      using row by (metis (mono_tags, lifting) find_None_iff not_None_eq)
    moreover from x have "x \<in> set (pg_intents s)" by (auto simp: find_Some_iff)
    then obtain r where "intent_to_record x = Inr r" by (rule intent_in_ok [OF pg_ok_core [OF ok]])
    ultimately show False using Inl by (simp add: select_intent_def and_then_def bind_params_def)
  qed
  then show ?thesis using Inl by (auto simp: pg_get_def pg_or_else_def intent_to_record_Inr elim!: pg_look_SomeE split: option.split)
next
  case (Inr found)
  then obtain t where "select_intent (map (text_error drv) [tenant, eid])
    (\<lambda>row. in_tenant row = tenant \<and> in_id row = eid) s = (Inr found, t)" by (metis prod.collapse)
  note run = select_intent_run [OF pg_ok_core [OF ok] this]
  show ?thesis
  proof (cases found)
    case None
    with run Inr show ?thesis
      by (auto simp: pg_get_def pg_or_else_def intent_to_record_Inr elim!: pg_look_SomeE split: option.split)
  next
    case (Some r)
    with run obtain row where "in_tenant row = tenant" "in_id row = eid" "intent_to_record row = Inr r"
      "pg_look s (in_id row) = Some r" by auto
    then show ?thesis using Inr Some by (simp add: pg_get_def pg_or_else_def intent_to_record_Inr)
  qed
qed

section \<open>The ledger\<close>

lemma pg_errors:
  "pg_reserve drv key e tenant req c s = (Inl x, t) \<Longrightarrow> t = s"
  "pg_claim_due drv locked w now lease lim s = (Inl x, t) \<Longrightarrow> t = s"
  "pg_start_attempt drv e eid v w s = (Inl x, t) \<Longrightarrow> t = s"
  "pg_transition drv e eid v goal d s = (Inl x, t) \<Longrightarrow> t = s"
  by (auto simp: pg_reserve_def pg_claim_due_def pg_start_attempt_def pg_transition_def Let_def
      split: sum.splits if_splits dest: pg_begin_Inl)

lemma pg_ops_simps:
  "reserve_op (pg_ops drv key) = pg_reserve drv key" "claim_op (pg_ops drv key) = pg_claim_due drv {}"
  "start_op (pg_ops drv key) = pg_start_attempt drv" "transition_op (pg_ops drv key) = pg_transition drv"
  "get_op (pg_ops drv key) = (\<lambda>tenant eid s. pg_or_else None (pg_get drv tenant eid s))"
  by (simp_all add: pg_ops_def)

lemma pg_tries_attempts: "pg_attempts t = pg_attempts s \<Longrightarrow> pg_tries t = pg_tries s"
  by (simp add: pg_tries_def fun_eq_iff)

lemma pg_claim_law:
  assumes ok: "pg_ok drv s" and run: "pg_claim_due drv locked w now lease lim s = (Inr cs, t)"
  shows "pg_ok drv t \<and> pg_tries t = pg_tries s \<and> distinct (map effect_id cs) \<and> int (length cs) \<le> max 0 lim
    \<and> (\<forall>c \<in> set cs. \<exists>r. pg_look s (effect_id c) = Some r \<and> due r \<and> c = claim_record r now)
    \<and> pg_look t = pg_look s ++ map_of (map (\<lambda>c. (effect_id c, c)) cs)"
proof -
  note law = pg_claim_Inr [OF ok run]
  then have ids: "map effect_id cs = map in_id (select_claimable locked now lim s)" by blast
  have "distinct (map in_id (select_claimable locked now lim s))"
    unfolding select_claimable_def
    by (rule distinct_map_take_filter_sort) (use ok in \<open>simp add: pg_ok_def pg_core_def\<close>)
  moreover have "int (length cs) \<le> max 0 lim"
    using arg_cong [OF ids, of length] by (simp add: select_claimable_def)
  ultimately show ?thesis using law ids pg_tries_attempts [of t s] by simp
qed

interpretation pg: effect_ledger "pg_ops drv key" "pg_ok drv" pg_look pg_tries pg_pin for drv key
proof (unfold_locales, unfold pg_ops_simps)
  fix s eid r assume "pg_ok drv s" "pg_look s eid = Some r"
  then show "effect_id r = eid" by (intro pg_look_id)
next
  fix s eid assume "pg_ok drv s" "pg_look s eid = None"
  then show "pg_tries s eid = 0" by (intro pg_tries_none [OF pg_ok_core])
next
  fix s e eid v goal d r' t
  assume "pg_ok drv s" "pg_transition drv e eid v goal d s = (Inr r', t)"
  then obtain r where "pg_look s eid = Some r" "version r = v" "is_allowed (status r) goal"
    "r' = advance r goal (env_now e)" "pg_ok drv t" "pg_look t = (pg_look s)(eid \<mapsto> r')"
    "pg_attempts t = pg_attempts s" by (rule pg_transition_Inr) blast
  then show "\<exists>r. pg_look s eid = Some r \<and> version r = v \<and> is_allowed (status r) goal
      \<and> r' = advance r goal (env_now e) \<and> pg_ok drv t \<and> pg_look t = (pg_look s)(eid \<mapsto> r') \<and> pg_tries t = pg_tries s"
    using pg_tries_attempts [of t s] by blast
next
  fix s e eid v w aid t
  assume "pg_ok drv s" "pg_start_attempt drv e eid v w s = (Inr aid, t)"
  then show "(\<exists>r. pg_look s eid = Some r \<and> version r = v) \<and> aid = attempt_name eid (Suc (pg_tries s eid))
      \<and> pg_ok drv t \<and> pg_look t = pg_look s \<and> pg_tries t = (pg_tries s)(eid := Suc (pg_tries s eid))"
    by (rule pg_start_Inr) blast
next
  fix s w now lease lim cs t
  assume "pg_ok drv s" "pg_claim_due drv {} w now lease lim s = (Inr cs, t)"
  then show "pg_ok drv t \<and> pg_tries t = pg_tries s \<and> distinct (map effect_id cs) \<and> int (length cs) \<le> max 0 lim
      \<and> (\<forall>c \<in> set cs. \<exists>r. pg_look s (effect_id c) = Some r \<and> due r \<and> c = claim_record r now)
      \<and> pg_look t = pg_look s ++ map_of (map (\<lambda>c. (effect_id c, c)) cs)" by (rule pg_claim_law)
next
  fix s tenant eid
  assume "pg_ok drv s"
  then show "pg_or_else None (pg_get drv tenant eid s)
    = (case pg_look s eid of Some r \<Rightarrow> if tenant_id r = tenant then Some r else None | None \<Rightarrow> None)"
    by (rule pg_get_law)
next
  fix s req e tenant c res t
  assume "pg_ok drv s" "pg_reserve drv key e tenant req c s = (Inr res, t)"
  from pg_reserve_Inr [OF this] show "pg_ok drv t \<and> pg_tries t = pg_tries s
      \<and> (if created res
         then \<exists>r. pg_look s (effect_id r) = None \<and> pg_look t = (pg_look s)(effect_id r \<mapsto> r)
           \<and> effect_id r = effect_id (res_effect res) \<and> status r = PREPARED \<and> version r = 0
           \<and> contract r = pg_pin c \<and> tenant_id r = tenant \<and> operation_key (request r) = operation_key req
         else pg_look t = pg_look s \<and> pg_look s (effect_id (res_effect res)) = Some (res_effect res))" by auto
next
  fix c show "safety (pg_pin c) = safety c \<and> retry_limit (pg_pin c) = retry_limit c" by (simp add: pg_pin_def)
qed (blast intro: pg_errors)+

end
