(* ===== verification/Postgres_Runs.thy ===== *)
theory Postgres_Runs
  imports Postgres_Laws
begin

text \<open>
  When the operations of the Postgres ledger return. A transition is settled for every driver: the write
  either takes place as a whole or stops at the first value that a column or the driver refuses
  (\<open>transition_refusal\<close>). A reservation and a claim are run for \<open>easy_driver\<close>, the driver of the examples.
\<close>

section \<open>The driver of the examples\<close>

text \<open>What a driver does with the texts and the objects of the examples, none of which holds a NUL.\<close>

definition easy_driver :: pg_driver where
  "easy_driver = \<lparr>text_error = \<lambda>t. None,
     bound_text = \<lambda>v. (case v of VNone \<Rightarrow> Inr None | VStr t \<Rightarrow> Inr (Some t) | _ \<Rightarrow> Inl (PyError ''ProgrammingError'')),
     jsonb = \<lambda>v. Inr v\<rparr>"

lemma easy_driver_simps [simp]: "text_error easy_driver t = None" "jsonb easy_driver v = Inr v"
  by (simp_all add: easy_driver_def)

lemma first_error_none: "\<forall>x \<in> set xs. x = None \<Longrightarrow> first_error xs = None"
  by (induction xs) simp_all

lemma bind_params_run: "\<forall>x \<in> set es. x = None \<Longrightarrow> and_then (bind_params es) f s = f () s"
  by (simp add: bind_params_def first_error_none and_then_def ret_def)

lemma bind_params_ok: "\<forall>x \<in> set es. x = None \<Longrightarrow> bind_params es s = (Inr (), s)"
  by (simp add: bind_params_def first_error_none ret_def)

lemma json_value_object:
  assumes "encodable (VDict d)"
  obtains d' where "json_value (VDict d) = Inr (VDict d')"
  using json_loads_text [OF assms] by (auto simp: json_value_def canonical_json_encodable [OF assms] intro: that)

section \<open>Events\<close>

lemma append_event_done:
  assumes ok: "pg_core easy_driver s" and eid: "eid \<in> in_id ` set (pg_intents s)"
    and d: "encodable (VDict d)" and room: "int4_error v = None" "int (length (pg_events s)) < 2 ^ 31 - 1"
  obtains ev where "pg_append_event easy_driver eid ty v d at s = (Inr (), s\<lparr>pg_events := pg_events s @ [ev]\<rparr>)"
proof -
  let ?mine = "filter (\<lambda>ev. pe_effect ev = eid) (pg_events s)"
  obtain j where j: "json_value (VDict d) = Inr (VDict j)" by (rule json_value_object [OF d])
  have "int (length ?mine) < 2 ^ 31 - 1"
    using room(2) length_filter_le [of "\<lambda>ev. pe_effect ev = eid" "pg_events s"] by linarith
  then have seq: "int4_error (next_sequence eid s) = None"
    by (simp add: next_sequence_numbered [OF ok] int4_error_def)
  have "gapless (map pe_sequence ?mine)" using ok by (simp add: pg_core_parts)
  from gapless_bound [OF this] have "pe_sequence x < next_sequence eid s" if "x \<in> set ?mine" for x
    using that by (fastforce simp: next_sequence_numbered [OF ok])
  then have fresh: "\<not> (\<exists>x \<in> set (pg_events s). pe_effect x = eid \<and> pe_sequence x = next_sequence eid s)" by fastforce
  show thesis
    by (rule that) (use eid fresh seq room(1) in \<open>simp add: pg_append_event_def insert_pg_event_def bind_params_run j\<close>)
qed

section \<open>Transitions on every branch\<close>

lemma pg_record_for_version_run:
  assumes ok: "pg_core drv s" and "text_error drv eid = None"
  shows "pg_record_for_version drv eid v s = (case pg_look s eid of
      None \<Rightarrow> (Inl (UnknownEffectError eid), s)
    | Some r \<Rightarrow> if version r \<noteq> v then (Inl (VersionConflictError eid), s) else (Inr r, s))"
proof (cases "find (\<lambda>row. in_id row = eid) (pg_intents s)")
  case None
  with assms(2) show ?thesis
    by (simp add: pg_record_for_version_def select_intent_def bind_params_def pg_look_def and_then_def)
next
  case (Some row)
  then have "row \<in> set (pg_intents s)" by (auto simp: find_Some_iff)
  from intent_in_ok [OF ok this] obtain r where "intent_to_record row = Inr r" by blast
  with Some assms(2) show ?thesis
    by (simp add: pg_record_for_version_def select_intent_def bind_params_def pg_look_def and_then_def)
qed

text \<open>The update of a row that has the expected version.\<close>

lemma update_run:
  assumes ok: "pg_core drv s" and row: "row \<in> set (pg_intents s)" "in_id row = eid" "in_version row = v"
  shows "update_intents (\<lambda>row. in_id row = eid \<and> in_version row = v) f s =
    (case int4_error (in_version (f row)) of Some x \<Rightarrow> (Inl x, s) | None \<Rightarrow> (Inr [f row], replace_intent eid f s))"
proof -
  let ?p = "\<lambda>row. in_id row = eid \<and> in_version row = v"
  have dist: "distinct (map in_id (pg_intents s))" using ok by (simp add: pg_core_def)
  have same: "?p x \<longleftrightarrow> in_id x = eid" if "x \<in> set (pg_intents s)" for x
    using same_key [OF dist that row(1)] row(2,3) by auto
  then have "filter ?p (pg_intents s) = filter (\<lambda>x. in_id x = in_id row) (pg_intents s)"
    unfolding row(2) by (rule filter_cong [OF HOL.refl])
  then have "filter ?p (pg_intents s) = [row]" using filter_unique [OF dist row(1)] by simp
  moreover have "map (\<lambda>x. if ?p x then f x else x) (pg_intents s) = replaced in_id eid f (pg_intents s)"
    using same by (simp add: replaced_def)
  ultimately show ?thesis by (simp add: update_intents_def split: option.split)
qed

text \<open>What a column or the driver refuses of an event, of a receipt and of a whole transition, in this order.\<close>

definition event_refusals :: "pg_driver \<Rightarrow> pg_db \<Rightarrow> string \<Rightarrow> json_object \<Rightarrow> error option list" where
  "event_refusals drv s eid d = (case json_value (VDict d) of
     Inl x \<Rightarrow> [Some x]
   | Inr j \<Rightarrow> [text_error drv ''transition'', int4_error (next_sequence eid s),
       (case jsonb drv j of Inl x \<Rightarrow> Some x | Inr _ \<Rightarrow> None)])"

definition receipt_refusals :: "pg_driver \<Rightarrow> env \<Rightarrow> pg_db \<Rightarrow> effect_record \<Rightarrow> json_object \<Rightarrow> error option list" where
  "receipt_refusals drv e s r d = (case json_value (VDict d) of
     Inl x \<Rightarrow> [Some x]
   | Inr j \<Rightarrow> (case bound_text drv (case dict_get d ''external_id'' of None \<Rightarrow> VNone | Some v \<Rightarrow> v) of
       Inl x \<Rightarrow> [Some x]
     | Inr _ \<Rightarrow> map (text_error drv) [''rcpt_'' @ env_uuid e, effect_id r, contract_name (contract r),
           contract_version (contract r), down_key r]
         @ [(case jsonb drv j of Inl x \<Rightarrow> Some x | Inr _ \<Rightarrow> None),
            (if ''rcpt_'' @ env_uuid e \<in> rc_id ` set (pg_receipts s) then Some pg_integrity_error else None)]))"

definition transition_refusal ::
  "pg_driver \<Rightarrow> env \<Rightarrow> pg_db \<Rightarrow> effect_record \<Rightarrow> effect_status \<Rightarrow> json_object \<Rightarrow> error option" where
  "transition_refusal drv e s r goal d = first_error
     (int4_error (version r + 1) # event_refusals drv s (effect_id r) (pg_transition_data (status r) goal d)
      @ (if goal = SUCCEEDED then receipt_refusals drv e s r d else []))"

lemma receipt_refusals_cong:
  assumes "pg_receipts t = pg_receipts s" and "effect_id q = effect_id r" and "contract q = contract r"
    and "down_key q = down_key r"
  shows "receipt_refusals drv e t q d = receipt_refusals drv e s r d"
  unfolding receipt_refusals_def assms ..

lemma first_error_append:
  "first_error (xs @ ys) = (case first_error xs of None \<Rightarrow> first_error ys | Some x \<Rightarrow> Some x)"
  by (induction xs) (simp_all split: option.split)

lemma bind_params_eq: "bind_params es s = (case first_error es of None \<Rightarrow> (Inr (), s) | Some x \<Rightarrow> (Inl x, s))"
  by (simp add: bind_params_def ret_def throw_def split: option.split)

lemma append_event_settled:
  assumes ok: "pg_core drv s" and eid: "eid \<in> in_id ` set (pg_intents s)" and "text_error drv eid = None"
    and "int4_error v = None"
  shows "\<exists>ev. pg_append_event drv eid ''transition'' v d at s = (case first_error (event_refusals drv s eid d) of
      Some x \<Rightarrow> (Inl x, s) | None \<Rightarrow> (Inr (), s\<lparr>pg_events := pg_events s @ [ev]\<rparr>))"
proof -
  have "gapless (map pe_sequence (filter (\<lambda>ev. pe_effect ev = eid) (pg_events s)))" using ok by (simp add: pg_core_parts)
  from gapless_bound [OF this] have "pe_sequence x < next_sequence eid s" if "x \<in> set (pg_events s)" "pe_effect x = eid" for x
    using that by (fastforce simp: next_sequence_numbered [OF ok])
  then have fresh: "\<not> (\<exists>x \<in> set (pg_events s). pe_effect x = eid \<and> pe_sequence x = next_sequence eid s)" by fastforce
  show ?thesis
    using assms(2-4) fresh
    by (auto simp: pg_append_event_def insert_pg_event_def and_then_def bind_params_eq event_refusals_def
        split: sum.split option.split)
qed

lemma insert_receipt_settled:
  assumes eid: "effect_id r \<in> in_id ` set (pg_intents s)" and new: "effect_id r \<notin> rc_effect ` set (pg_receipts s)"
  shows "\<exists>rc. pg_insert_receipt drv e r d at s = (case first_error (receipt_refusals drv e s r d) of
      Some x \<Rightarrow> (Inl x, s) | None \<Rightarrow> (Inr (), s\<lparr>pg_receipts := pg_receipts s @ [rc]\<rparr>))"
proof -
  have "(\<exists>x \<in> set (pg_receipts s). rc_id x = i \<or> rc_effect x = effect_id r) \<longleftrightarrow> i \<in> rc_id ` set (pg_receipts s)" for i
    using new by force
  with eid show ?thesis
    by (auto simp: pg_insert_receipt_def insert_receipt_row_def and_then_def bind_params_eq receipt_refusals_def throw_def
        split: sum.split option.split)
qed

text \<open>The write after a read that found the expected version and an allowed edge.\<close>

lemma transition_settled:
  assumes ok: "pg_ok drv s" and look: "pg_look s eid = Some r" and allowed: "is_allowed (status r) goal"
  shows "\<exists>t. pg_transition drv e eid (version r) goal d s = (case transition_refusal drv e s r goal d of
      Some x \<Rightarrow> (Inl x, s) | None \<Rightarrow> (Inr (advance r goal (env_now e)), t))"
proof -
  let ?f = "move_columns goal (env_now e)" and ?a = "advance r goal (env_now e)"
  let ?d = "pg_transition_data (status r) goal d"
  from look obtain row where row: "row \<in> set (pg_intents s)" "in_id row = eid" "intent_to_record row = Inr r"
    by (rule pg_look_SomeE)
  have ver: "in_version row = version r" using intent_to_record_Inr(5) [OF row(3)] by simp
  have bindable: "text_error drv eid = None" using ok row(1,2) by (auto simp: pg_ok_def pg_core_def intent_ok_def)
  have upd: "update_intents (\<lambda>row. in_id row = eid \<and> in_version row = version r) ?f s =
      (case int4_error (version r + 1) of Some x \<Rightarrow> (Inl x, s) | None \<Rightarrow> (Inr [?f row], replace_intent eid ?f s))"
    using update_run [OF pg_ok_core [OF ok] row(1,2) ver, of ?f] ver by simp
  let ?u = "replace_intent eid ?f s"
  have core: "pg_core drv ?u"
    by (rule replace_intent_core [OF pg_ok_core [OF ok]]) (simp_all add: intent_ok_moved)
  have "in_id ` set (pg_intents ?u) = in_id ` set (pg_intents s)"
    using replaced_image [of in_id ?f in_id eid "pg_intents s"] by simp
  then have known: "eid \<in> in_id ` set (pg_intents ?u)" using row(1,2) by auto
  have id: "effect_id r = eid" using pg_look_id [OF look] by simp
  have "status r \<noteq> SUCCEEDED" using allowed by (auto simp: is_allowed_simps)
  then have new: "eid \<notin> rc_effect ` set (pg_receipts s)" using kept_receipt [OF ok look] by blast
  have seq: "next_sequence eid ?u = next_sequence eid s" by (simp add: next_sequence_def)
  have same: "event_refusals drv ?u eid ?d = event_refusals drv s eid ?d"
    unfolding event_refusals_def seq ..
  have "\<exists>t. pg_transition_write drv e eid (version r) goal d r s = (case transition_refusal drv e s r goal d of
      Some x \<Rightarrow> (Inl x, t) | None \<Rightarrow> (Inr ?a, t))"
  proof (cases "int4_error (version r + 1)")
    case (Some x)
    then show ?thesis by (simp add: pg_transition_write_def and_then_def [of "update_intents _ _"] upd transition_refusal_def)
  next
    case None
    from append_event_settled [OF core known bindable None, of ?d "env_now e"] obtain ev where
      ev: "pg_append_event drv eid ''transition'' (version r + 1) ?d (env_now e) ?u =
        (case first_error (event_refusals drv s eid ?d) of
          Some x \<Rightarrow> (Inl x, ?u) | None \<Rightarrow> (Inr (), ?u\<lparr>pg_events := pg_events ?u @ [ev]\<rparr>))" unfolding same by blast
    let ?w = "?u\<lparr>pg_events := pg_events ?u @ [ev]\<rparr>"
    have "receipt_refusals drv e ?w ?a d = receipt_refusals drv e s r d" by (rule receipt_refusals_cong) simp_all
    with insert_receipt_settled [of ?a ?w drv e d "env_now e"] obtain rc where
      rc: "pg_insert_receipt drv e ?a d (env_now e) ?w = (case first_error (receipt_refusals drv e s r d) of
          Some x \<Rightarrow> (Inl x, ?w) | None \<Rightarrow> (Inr (), ?w\<lparr>pg_receipts := pg_receipts ?w @ [rc]\<rparr>))"
      using id known new by auto
    have "pg_transition_write drv e eid (version r) goal d r s =
        and_then (pg_append_event drv eid ''transition'' (version r + 1) ?d (env_now e)) (\<lambda>_.
          if goal = SUCCEEDED then and_then (pg_insert_receipt drv e ?a d (env_now e)) (\<lambda>_. ret ?a) else ret ?a) ?u"
      using intent_moved [OF row(3), of goal "env_now e"] ver
      by (simp add: pg_transition_write_def and_then_def [of "update_intents _ _"] upd None)
    then show ?thesis
      by (cases "first_error (event_refusals drv s eid ?d)"; cases "goal = SUCCEEDED";
          cases "first_error (receipt_refusals drv e s r d)")
        (use None ev rc in \<open>simp_all add: id transition_refusal_def first_error_append and_then_def ret_def\<close>)
  qed
  then show ?thesis
    using look allowed
    by (auto simp: pg_transition_def pg_begin_def and_then_def pg_record_for_version_run [OF pg_ok_core [OF ok] bindable]
        assert_transition_def split: option.splits)
qed

section \<open>Claims\<close>

lemma claim_intent_done:
  assumes ok: "pg_ok easy_driver s" and row: "row \<in> set (pg_intents s)"
    and room: "int4_error (in_version row + 1) = None" "int (length (pg_events s)) < 2 ^ 31 - 1"
  obtains c t where "claim_intent easy_driver w until now row s = (Inr c, t)"
proof -
  let ?f = "lease_columns w until now" and ?u = "replace_intent (in_id row) (lease_columns w until now) s"
  obtain r where r: "intent_to_record row = Inr r" by (rule intent_in_ok [OF pg_ok_core [OF ok] row])
  have dist: "distinct (map in_id (pg_intents s))" using ok by (simp add: pg_ok_def pg_core_def)
  have upd: "update_intents (\<lambda>x. in_id x = in_id row) ?f s = (Inr [?f row], ?u)"
    using room(1) by (simp add: update_intents_def filter_unique [OF dist row] replaced_def)
  have core: "pg_core easy_driver ?u"
    by (rule replace_intent_core [OF pg_ok_core [OF ok]]) (simp_all add: intent_ok_leased)
  have known: "in_id row \<in> in_id ` set (pg_intents ?u)"
    using replaced_image [of in_id ?f in_id "in_id row" "pg_intents s"] row by simp
  have data: "encodable (VDict (pg_claimed_data w until))" by (simp add: pg_claimed_data_def encodable_item_def)
  obtain ev where ev: "pg_append_event easy_driver (in_id row) ''claimed'' (in_version row + 1) (pg_claimed_data w until) now ?u
      = (Inr (), ?u\<lparr>pg_events := pg_events ?u @ [ev]\<rparr>)"
    by (rule append_event_done [OF core known data room(1)]) (use room(2) in simp_all)
  show thesis
    using that ev by (simp add: claim_intent_def bind_params_ok and_then_def upd intent_leased [OF r] ret_def)
qed

section \<open>A reservation on an unused key\<close>

lemma record_values_encodable:
  assumes "encodable (VDict (arguments (request r)))"
  obtains row j where "record_values r = Inr row" "in_arguments row = VDict j" "in_id row = effect_id r"
    "in_tenant row = tenant_id r" "in_key row = operation_key (request r)" "in_retry_limit row = retry_limit (contract r)"
    "in_version row = version r" "in_lease row = None" "in_status row = status_value (status r)"
    "\<forall>d. \<exists>r'. intent_to_record (row\<lparr>in_arguments := VDict d\<rparr>) = Inr r'"
proof -
  obtain j where j: "json_value (VDict (arguments (request r))) = Inr (VDict j)" by (rule json_value_object [OF assms])
  then obtain row where row: "record_values r = Inr row" by (simp add: record_values_def)
  with j show thesis
    by (intro that [of row j])
      (auto simp: record_values_def intent_to_record_def column_dict_def safety_of_value status_of_value)
qed

lemma reserve_done:
  assumes ok: "pg_ok easy_driver s" and wf: "wf_request req"
    and hash: "request_hash (tool req) (arguments req) (contract_name c) (contract_version c) = Inr digest"
    and room: "int4_error (retry_limit c) = None" "int (length (pg_events s)) < 2 ^ 31 - 1"
    and new: "pg_id (env_uuid e) \<notin> in_id ` set (pg_intents s)"
      "(tenant, operation_key req) \<notin> in_identity ` set (pg_intents s)"
  obtains r row t where "pg_reserve easy_driver key e tenant req c s = (Inr \<lparr>res_effect = r, created = True, replayed = False\<rparr>, t)"
    "pg_ok easy_driver t" "pg_look t = (pg_look s)(pg_id (env_uuid e) \<mapsto> r)" "effect_id r = pg_id (env_uuid e)"
    "tenant_id r = tenant" "status r = PREPARED" "version r = 0" "contract r = pg_pin c" "pg_receipts t = pg_receipts s"
    "pg_attempts t = pg_attempts s" "length (pg_events t) = Suc (length (pg_events s))"
    "pg_intents t = pg_intents s @ [row]" "in_id row = pg_id (env_uuid e)" "in_lease row = None"
    "in_status row = status_value PREPARED"
proof -
  let ?r = "pg_new_record key e tenant req c digest"
  have simps: "request ?r = req" "effect_id ?r = pg_id (env_uuid e)" "tenant_id ?r = tenant" "contract ?r = c"
    "version ?r = 0" "status ?r = PREPARED" by (simp_all add: pg_new_record_def)
  have "encodable (VDict (arguments (request ?r)))"
    unfolding simps by (rule hashed_arguments [OF wf hash])
  then obtain row j where row: "record_values ?r = Inr row" "in_arguments row = VDict j" "in_id row = effect_id ?r"
    "in_tenant row = tenant_id ?r" "in_key row = operation_key (request ?r)" "in_retry_limit row = retry_limit (contract ?r)"
    "in_version row = version ?r" "in_lease row = None" "in_status row = status_value (status ?r)"
    "\<forall>d. \<exists>r'. intent_to_record (row\<lparr>in_arguments := VDict d\<rparr>) = Inr r'" by (rule record_values_encodable)
  let ?row = "row\<lparr>in_arguments := VDict j\<rparr>"
  obtain r where r: "intent_to_record ?row = Inr r" using row(10) by blast
  obtain ts where ts: "ensure_tenant easy_driver tenant (env_now e) s = (Inr (), s\<lparr>pg_tenants := ts\<rparr>)" "tenant \<in> tn_id ` set ts"
  proof (cases "tenant \<in> tn_id ` set (pg_tenants s)")
    case True
    then show thesis by (intro that [of "pg_tenants s"]) (simp_all add: ensure_tenant_def bind_params_run)
  next
    case False
    then show thesis
      by (intro that [of "pg_tenants s @ [\<lparr>tn_id = tenant, tn_name = None, tn_api_key_hash = None,
          tn_hmac_key_id = None, tn_disabled = False, tn_created = env_now e, tn_updated = env_now e\<rparr>]"])
        (simp_all add: ensure_tenant_def bind_params_run)
  qed
  let ?s = "s\<lparr>pg_tenants := ts\<rparr>" and ?u = "s\<lparr>pg_tenants := ts, pg_intents := pg_intents s @ [?row]\<rparr>"
  have "\<forall>x \<in> set (intent_errors easy_driver row). x = None"
    using room(1) by (auto simp: intent_errors_def row simps int4_error_def split: option.splits)
  moreover have "\<not> (\<exists>x \<in> set (pg_intents s). in_tenant x = tenant \<and> in_key x = operation_key req)"
    using new(2) by (force simp: in_identity_def)
  ultimately have ins: "insert_intent easy_driver row ?s = (Inr (Some ?row), ?u)"
    using new(1) ts(2) by (simp add: insert_intent_def bind_params_run row simps Let_def)
  have "pg_ok easy_driver ?s" using ok by simp
  then have "pg_core easy_driver (?s\<lparr>pg_intents := pg_intents ?s @ [?row]\<rparr>)"
    by (intro pg_ok_core pg_ok_insert) (use new in \<open>simp_all add: intent_ok_def r row simps in_identity_def\<close>)
  then have core: "pg_core easy_driver ?u" by simp
  obtain ev where ev: "pg_append_event easy_driver (effect_id ?r) ''reserved'' 0 [(VStr ''status'', VStr (status_value PREPARED))]
      (env_now e) ?u = (Inr (), ?u\<lparr>pg_events := pg_events ?u @ [ev]\<rparr>)"
    by (rule append_event_done [OF core, where eid = "effect_id ?r" and v = 0
          and d = "[(VStr ''status'', VStr (status_value PREPARED))]" and ty = "''reserved''" and at = "env_now e"])
      (use room(2) in \<open>simp_all add: row simps int4_error_def encodable_item_def\<close>)
  let ?t = "?u\<lparr>pg_events := pg_events ?u @ [ev]\<rparr>" and ?res = "\<lparr>res_effect = r, created = True, replayed = False\<rparr>"
  have run: "pg_reserve easy_driver key e tenant req c s = (Inr ?res, ?t)"
    using ev ins by (simp add: pg_reserve_def hash pg_begin_def and_then_def ts(1) row(1) simps r ret_def Let_def)
  from pg_reserve_Inr [OF ok run] record_values_back [OF row(1) r] show thesis
    by (intro that [of r ?t ?row, OF run]) (simp_all add: simps row)
qed

end
