(* ===== verification/Postgres_Properties.thy ===== *)
theory Postgres_Properties
  imports Postgres_Runs Scenario
begin

text \<open>
  Properties of the Postgres ledger: the life of a broker process over it, claims and transitions when
  other transactions run at the same time, the receipts table, every branch of a transition, and what
  the columns keep of a contract.
\<close>

section \<open>A process over Postgres\<close>

definition pg_broker :: "safety_class \<Rightarrow> (pg_db, sim_target) broker" where
  "pg_broker cls = \<lparr>store = pg_ops easy_driver demo_keys, contracts = [(''send'', demo_contract cls)],
     adapter_for = Some default_adapter_for\<rparr>"

definition pg_world :: "pg_db \<Rightarrow> (pg_db, sim_target) world" where
  "pg_world s = \<lparr>ledger = s, target = sim_init (seconds 100), metrics = reset_for_tests, envs = (\<lambda>n. demo_env), ticks = 0\<rparr>"

lemma pg_broker_simps [simp]:
  "store (pg_broker cls) = pg_ops easy_driver demo_keys" "contracts (pg_broker cls) = [(''send'', demo_contract cls)]"
  "adapter_for (pg_broker cls) = Some default_adapter_for" "ledger (pg_world s) = s"
  by (simp_all add: pg_broker_def pg_world_def)

lemma pg_demo_wf: "wf_request (demo_request n)"
  by (simp add: wf_request_def demo_request_def)

lemma pg_reserved:
  obtains r row t where "pg_reserve easy_driver demo_keys demo_env ''acme'' (demo_request 10) (demo_contract cls) empty_pg =
      (Inr \<lparr>res_effect = r, created = True, replayed = False\<rparr>, t)"
    "pg_ok easy_driver t" "pg_look t ''eff_u'' = Some r" "effect_id r = ''eff_u''" "tenant_id r = ''acme''" "status r = PREPARED"
    "version r = 0" "contract r = pg_pin (demo_contract cls)" "pg_receipts t = []" "pg_attempts t = []"
    "length (pg_events t) = 1" "pg_intents t = [row]" "in_id row = ''eff_u''" "in_lease row = None"
    "in_status row = status_value PREPARED"
proof -
  have env: "pg_id (env_uuid demo_env) = ''eff_u''" by (simp add: pg_id_def demo_env_def)
  have room: "int4_error (retry_limit (demo_contract cls)) = None" "int (length (pg_events empty_pg)) < 2 ^ 31 - 1"
    "pg_id (env_uuid demo_env) \<notin> in_id ` set (pg_intents empty_pg)"
    "(''acme'', operation_key (demo_request 10)) \<notin> in_identity ` set (pg_intents empty_pg)"
    by (simp_all add: int4_error_def empty_pg_def)
  have none: "pg_receipts empty_pg = []" "pg_attempts empty_pg = []" "length (pg_events empty_pg) = 0" "pg_intents empty_pg = []"
    by (simp_all add: empty_pg_def)
  show thesis
    by (rule reserve_done [OF pg_ok_empty pg_demo_wf demo_request_hash room, of demo_keys], rule that)
      (simp_all add: env none del: status_value.simps)
qed

lemma pg_submitted:
  obtains u r where "broker_run (pg_broker cls) (pg_world empty_pg) u" "pg_ok easy_driver (ledger u)"
    "pg_look (ledger u) ''eff_u'' = Some r" "tenant_id r = ''acme''" "contract r = pg_pin (demo_contract cls)"
proof -
  obtain x u where u: "submit (pg_broker cls) ''acme'' (demo_request 10) (pg_world empty_pg) = (x, u)"
    by (cases "submit (pg_broker cls) ''acme'' (demo_request 10) (pg_world empty_pg)")
  obtain r row t where t: "pg_reserve easy_driver demo_keys demo_env ''acme'' (demo_request 10) (demo_contract cls) empty_pg =
      (Inr \<lparr>res_effect = r, created = True, replayed = False\<rparr>, t)"
    "pg_ok easy_driver t" "pg_look t ''eff_u'' = Some r" "tenant_id r = ''acme''" "contract r = pg_pin (demo_contract cls)"
    by (rule pg_reserved) blast
  from u t(1) have "ledger u = t"
    by (auto simp: submit_def and_then_def raise_or_return_def registry_get_def observe_latency_def pg_broker_def
        pg_world_def pg_ops_simps read_env_def on_error_def on_ledger_def measure_with_def)
  then show thesis using broker_run.submitted [OF broker_run.idle pg_demo_wf u] t by (intro that [of u r]) simp_all
qed

lemma broker_run_pg:
  assumes "broker_run b s t" and "store b = pg_ops drv key" and "pg_ok drv (ledger s)"
  shows "pg_ok drv (ledger t)"
    and "protocols (\<lambda>c. \<exists>name d. registry_get (contracts b) name = Inr d \<and> c = pg_pin d)
      (pg_look (ledger s), pg_tries (ledger s)) (pg_look (ledger t), pg_tries (ledger t))"
  using pg.broker_run_advances [OF assms, of "\<lambda>c. \<exists>name d. registry_get (contracts b) name = Inr d \<and> c = pg_pin d"]
  by (auto simp: pg.advances_def)

lemma pg_get_Some:
  assumes ok: "pg_ok drv s"
  shows "pg_get drv tenant eid s = Inr (Some r) \<longleftrightarrow> pg_look s eid = Some r \<and> tenant_id r = tenant"
proof
  assume "pg_get drv tenant eid s = Inr (Some r)"
  with pg_get_law [OF ok, of tenant eid] show "pg_look s eid = Some r \<and> tenant_id r = tenant"
    by (auto simp: pg_or_else_def split: option.splits if_splits)
next
  assume r: "pg_look s eid = Some r \<and> tenant_id r = tenant"
  with pg_get_law [OF ok, of tenant eid] show "pg_get drv tenant eid s = Inr (Some r)"
    by (auto simp: pg_or_else_def split: sum.splits)
qed

text \<open>A receipt is there exactly for a succeeded effect of the tenant.\<close>

lemma pg_receipt_some:
  assumes ok: "pg_ok drv s" and look: "pg_look s eid = Some r" "tenant_id r = tenant"
  shows "pg_receipt drv tenant eid s \<noteq> Inr None \<longleftrightarrow> status r = SUCCEEDED"
proof -
  from look(1) obtain row where row: "row \<in> set (pg_intents s)" "in_id row = eid" "intent_to_record row = Inr r"
    by (rule pg_look_SomeE)
  note cols = intent_to_record_Inr [OF row(3)]
  have mine: "\<exists>row \<in> set (pg_intents s). in_id row = eid \<and> in_tenant row = tenant"
    using row(1,2) cols(2) look(2) by auto
  have plain: "text_error drv eid = None" "text_error drv tenant = None"
    using ok row(1,2) cols(2) look(2) by (auto simp: pg_ok_def pg_core_def intent_ok_def)
  have dist: "distinct (map in_id (pg_intents s))" using ok by (simp add: pg_ok_def pg_core_def)
  have "pg_receipt drv tenant eid s \<noteq> Inr None \<longleftrightarrow> find (\<lambda>rc. rc_effect rc = eid) (pg_receipts s) \<noteq> None"
    using mine by (auto simp: pg_receipt_def plain split: option.splits sum.splits)
  also have "\<dots> \<longleftrightarrow> eid \<in> rc_effect ` set (pg_receipts s)"
    using find_no_key [of rc_effect eid "pg_receipts s"] by simp
  also have "\<dots> \<longleftrightarrow> in_status row = status_value SUCCEEDED"
  proof
    assume "eid \<in> rc_effect ` set (pg_receipts s)"
    then obtain rc x where "x \<in> set (pg_intents s)" "receipt_of rc x" "rc_effect rc = eid"
      using ok by (auto simp: pg_ok_def pg_receipts_ok_def)
    with same_key [OF dist _ row(1), of x] row(2) show "in_status row = status_value SUCCEEDED"
      by (auto simp: receipt_of_def)
  next
    assume "in_status row = status_value SUCCEEDED"
    with ok row(1,2) show "eid \<in> rc_effect ` set (pg_receipts s)" by (auto simp: pg_ok_def pg_receipts_ok_def)
  qed
  also have "\<dots> \<longleftrightarrow> status r = SUCCEEDED" by (simp add: cols(6) status_succeeded del: status_value.simps)
  finally show ?thesis .
qed

text \<open>
  C30. The life of an effect in the Postgres ledger, whatever the driver does to values and whichever
  statement the database refuses, along any sequence of submissions, worker passes with any adapters,
  reconciliations, cancellations and resolutions: identity, request, keys and pinned contract never
  change, the version grows with every change and the status moves along the transition graph, a terminal
  record is final, an unsafe effect has at most one attempt, and a receipt is there exactly when the
  effect has succeeded.
\<close>

theorem pg_lifecycle:
  assumes "broker_run b s t" and "broker_run b t u" and "store b = pg_ops drv key" and "ledger s = empty_pg"
    and "sound_registry (contracts b)" and "pg_get drv tenant eid (ledger t) = Inr (Some r)"
  shows "\<exists>r'. pg_get drv tenant eid (ledger u) = Inr (Some r') \<and> same_pins r r'
    \<and> (r' = r \<or> version r < version r') \<and> moves (status r) (status r')
    \<and> (is_terminal (status r) \<longrightarrow> r' = r)
    \<and> (safety (contract r) = UNSAFE \<longrightarrow> pg_attempt_count drv eid (ledger u) \<in> {Inr 0, Inr 1})
    \<and> (pg_receipt drv tenant eid (ledger u) \<noteq> Inr None \<longleftrightarrow> status r' = SUCCEEDED)"
proof -
  have start: "pg_ok drv (ledger s)" "pg_look (ledger s) = Map.empty"
    using assms(4) by (simp_all add: pg_ok_empty) (simp add: empty_pg_def pg_look_def fun_eq_iff)
  have "pg_ok drv (ledger t)" by (rule broker_run_pg(1) [OF assms(1,3) start(1)])
  from assms(6) have r: "pg_look (ledger t) eid = Some r" "tenant_id r = tenant"
    by (simp_all add: pg_get_Some [OF \<open>pg_ok drv (ledger t)\<close>])
  from pg.effect_life [OF assms(1-3) start assms(5) r(1)] obtain r' where
    r': "pg_ok drv (ledger u)" "pg_look (ledger u) eid = Some r'" "later r r'"
    "safety (contract r) = UNSAFE \<longrightarrow> pg_tries (ledger u) eid \<le> 1" by blast
  have tenant: "tenant_id r' = tenant" using r'(3) r(2) by (simp add: later_def same_pins_def)
  from r'(2) obtain row where "row \<in> set (pg_intents (ledger u))" "in_id row = eid" by (rule pg_look_SomeE)
  then have "text_error drv eid = None" using r'(1) by (auto simp: pg_ok_def pg_core_def intent_ok_def)
  then have "pg_attempt_count drv eid (ledger u) = Inr (pg_tries (ledger u) eid)" by (simp add: pg_attempt_count_def)
  with r' tenant pg_receipt_some [OF r'(1,2) tenant] show ?thesis
    by (auto simp: later_def pg_get_Some [OF r'(1)] le_Suc_eq)
qed

theorem pg_lifecycle_witness:
  "\<exists>u v x r. broker_run (pg_broker UNSAFE) (pg_world empty_pg) u
     \<and> dispatch_once (pg_ops easy_driver demo_keys) default_adapter_for ''w'' 0 (seconds 30) 10 u = (x, v)
     \<and> pg_get easy_driver ''acme'' ''eff_u'' (ledger v) = Inr (Some r)
     \<and> pg_attempt_count easy_driver ''eff_u'' (ledger v) \<in> {Inr 0, Inr 1}"
proof -
  obtain u r where u: "broker_run (pg_broker UNSAFE) (pg_world empty_pg) u" "pg_ok easy_driver (ledger u)"
    "pg_look (ledger u) ''eff_u'' = Some r" "tenant_id r = ''acme''" "contract r = pg_pin (demo_contract UNSAFE)"
    by (rule pg_submitted)
  obtain x v where v: "dispatch_once (pg_ops easy_driver demo_keys) default_adapter_for ''w'' 0 (seconds 30) 10 u = (x, v)"
    by (cases "dispatch_once (pg_ops easy_driver demo_keys) default_adapter_for ''w'' 0 (seconds 30) 10 u")
  have step: "broker_run (pg_broker UNSAFE) u v" by (rule broker_run.worked [OF broker_run.idle]) (use v in simp)
  have get: "pg_get easy_driver ''acme'' ''eff_u'' (ledger u) = Inr (Some r)" using u by (simp add: pg_get_Some)
  have "safety (contract r) = UNSAFE" by (simp add: u(5) pg_pin_def)
  moreover have "sound_registry (contracts (pg_broker UNSAFE))" by (simp add: sound_registry_def demo_sound)
  ultimately obtain r' where "pg_get easy_driver ''acme'' ''eff_u'' (ledger v) = Inr (Some r')"
    "pg_attempt_count easy_driver ''eff_u'' (ledger v) \<in> {Inr 0, Inr 1}"
    using pg_lifecycle [OF u(1) step _ _ _ get, of demo_keys] by auto
  with u(1) v show ?thesis by blast
qed

section \<open>Claims\<close>

lemma leased_not_claimable:
  assumes "x \<in> set (leased_rows w until now rows xs)" and "in_id x \<in> in_id ` set rows" and "now' \<le> until"
  shows "\<not> row_claimable now' x"
proof -
  from assms(1) obtain y where y: "x = (if in_id y \<in> in_id ` set rows then lease_columns w until now y else y)"
    unfolding leased_rows_def set_map by blast
  with assms(2) have "x = lease_columns w until now y" by (auto split: if_splits)
  with assms(3) show ?thesis by (simp add: row_claimable_def lease_columns_def)
qed

lemma claimed_ids:
  assumes "pg_ok drv s" and "pg_claim_due drv locked w now lf lim s = (Inr cs, t)"
  shows "effect_id ` set cs = in_id ` set (select_claimable locked now lim s)"
  using pg_claim_Inr [OF assms] by (metis set_map)

text \<open>
  C31. \<open>claim_due\<close> on Postgres while other transactions hold rows locked: it returns the first \<open>limit\<close>
  effects, in the order of \<open>created_at\<close> and id, that are due, have no lease with time left and are not
  locked, each with its version raised by one. No effect goes to two workers: not to one whose transaction
  runs at the same time and skips the rows locked here, and not to one that claims later, up to and
  including the instant at which the lease ends.
\<close>

theorem pg_claims:
  assumes "pg_ok drv s" and "pg_claim_due drv locked w now lf lim s = (Inr cs, t)"
    and "pg_claim_due drv locked' w' now' lf' lim' x = (Inr cs', u)"
    and "x = s \<and> effect_id ` set cs \<subseteq> locked' \<or> x = t \<and> now' \<le> now + lf"
  shows "map effect_id cs = map in_id (take (nat lim) (filter (\<lambda>row. in_id row \<notin> locked)
      (sort_key intent_order (filter (row_claimable now) (pg_intents s)))))
    \<and> (\<forall>c \<in> set cs. \<exists>r. pg_look s (effect_id c) = Some r \<and> due r \<and> c = claim_record r now)
    \<and> effect_id ` set cs \<inter> effect_id ` set cs' = {}"
proof (intro conjI)
  note law = pg_claim_Inr [OF assms(1,2)]
  from law show "map effect_id cs = map in_id (take (nat lim) (filter (\<lambda>row. in_id row \<notin> locked)
      (sort_key intent_order (filter (row_claimable now) (pg_intents s)))))"
    by (simp add: select_claimable_def)
  from law show "\<forall>c \<in> set cs. \<exists>r. pg_look s (effect_id c) = Some r \<and> due r \<and> c = claim_record r now" by blast
  have ok: "pg_ok drv x" using assms(1,4) law by auto
  have apart: "in_id row \<notin> effect_id ` set cs" if row: "row \<in> set (select_claimable locked' now' lim' x)" for row
    using assms(4)
  proof
    assume "x = s \<and> effect_id ` set cs \<subseteq> locked'"
    with select_claimable_rows(3) [OF row] show ?thesis by blast
  next
    assume x: "x = t \<and> now' \<le> now + lf"
    then have "row \<in> set (leased_rows w (now + lf) now (select_claimable locked now lim s) (pg_intents s))"
      using select_claimable_rows(1) [OF row] law by simp
    from leased_not_claimable [OF this _ conjunct2 [OF x]] select_claimable_rows(2) [OF row]
    show ?thesis unfolding claimed_ids [OF assms(1,2)] by blast
  qed
  have "effect_id ` set cs \<inter> in_id ` set (select_claimable locked' now' lim' x) = {}"
  proof (rule equals0I)
    fix i assume "i \<in> effect_id ` set cs \<inter> in_id ` set (select_claimable locked' now' lim' x)"
    then obtain row where "row \<in> set (select_claimable locked' now' lim' x)" "in_id row \<in> effect_id ` set cs"
      by (elim IntE imageE) simp
    from apart [OF this(1)] this(2) show False ..
  qed
  then show "effect_id ` set cs \<inter> effect_id ` set cs' = {}" by (simp only: claimed_ids [OF ok assms(3)])
qed

lemma pg_claimed:
  obtains r s t c where "pg_ok easy_driver s" "pg_claim_due easy_driver {} ''w'' 0 (seconds 30) 5 s = (Inr [c], t)"
    "effect_id c = ''eff_u''" "select_claimable {''eff_u''} 0 5 s = []" "select_claimable {} (seconds 30) 5 t = []"
    "pg_look s ''eff_u'' = Some r" "version r = 0" "status r = PREPARED"
    "pg_receipts s = []" "length (pg_events s) = 1"
proof -
  obtain r row s where s: "pg_ok easy_driver s" "length (pg_events s) = 1" "pg_intents s = [row]" "in_id row = ''eff_u''"
    "in_lease row = None" "in_status row = status_value PREPARED" "version r = 0" "status r = PREPARED" "pg_receipts s = []" "pg_look s ''eff_u'' = Some r"
    by (rule pg_reserved [of UNSAFE]) blast
  then have due: "row_claimable now row" for now by (simp add: row_claimable_def)
  then have rows: "select_claimable {} now 5 s = [row]" "select_claimable {''eff_u''} now 5 s = []" for now
    using s(3,4) by (simp_all add: select_claimable_def)
  have "intent_to_record row = Inr r" using s(3,4,10) by (simp add: pg_look_def split: sum.splits)
  then have "in_version row = 0" using intent_to_record_Inr(5) s(7) by simp
  then obtain c t where ct: "claim_intent easy_driver ''w'' (seconds 30) 0 row s = (Inr c, t)"
    by (elim claim_intent_done [OF s(1), of row "''w''" "seconds 30" 0, rotated 3])
      (use s(2,3) in \<open>simp_all add: int4_error_def\<close>)
  then have first: "pg_claim_due easy_driver {} ''w'' 0 (seconds 30) 5 s = (Inr [c], t)"
    by (simp add: pg_claim_due_def pg_begin_def rows and_then_def ret_def)
  then have "effect_id c = ''eff_u''" "pg_intents t = leased_rows ''w'' (seconds 30) 0 [row] [row]"
    using pg_claim_Inr [OF s(1) first] by (simp_all add: rows s(3,4))
  then have late: "select_claimable {} (seconds 30) 5 t = []"
    by (simp add: select_claimable_def leased_rows_def row_claimable_def lease_columns_def)
  with s first \<open>effect_id c = ''eff_u''\<close> show thesis by (intro that [of s c t r]) (simp_all add: rows)
qed

text \<open>A claim of the demonstration effect; nobody else can take it, at the same time or until the lease ends.\<close>

theorem pg_claims_witness:
  "\<exists>s t c. pg_claim_due easy_driver {} ''w'' 0 (seconds 30) 5 s = (Inr [c], t) \<and> effect_id c = ''eff_u''
     \<and> pg_claim_due easy_driver {''eff_u''} ''v'' 0 (seconds 30) 5 s = (Inr [], s)
     \<and> pg_claim_due easy_driver {} ''v'' (seconds 30) (seconds 30) 5 t = (Inr [], t)
     \<and> effect_id ` set [c] \<inter> effect_id ` set [] = {}"
proof -
  obtain r s t c where s: "pg_ok easy_driver s" "pg_claim_due easy_driver {} ''w'' 0 (seconds 30) 5 s = (Inr [c], t)"
    "effect_id c = ''eff_u''" "select_claimable {''eff_u''} 0 5 s = []" "select_claimable {} (seconds 30) 5 t = []"
    by (rule pg_claimed)
  have late: "pg_claim_due easy_driver {} ''v'' (seconds 30) (seconds 30) 5 t = (Inr [], t)"
    using s(5) by (simp add: pg_claim_due_def pg_begin_def ret_def)
  have "pg_claim_due easy_driver {''eff_u''} ''v'' 0 (seconds 30) 5 s = (Inr [], s)"
    using s(4) by (simp add: pg_claim_due_def pg_begin_def ret_def)
  with pg_claims [OF s(1,2) late] late s(2,3) show ?thesis by auto
qed

section \<open>Transitions among other transactions\<close>

text \<open>One committed or undone transaction of any process, with the exception it raised, if any.\<close>

inductive pg_call :: "pg_driver \<Rightarrow> tenant_key_provider \<Rightarrow> pg_db \<Rightarrow> error option \<Rightarrow> pg_db \<Rightarrow> bool" for drv key s where
  reserve: "pg_reserve drv key e tenant req c s = (w, t) \<Longrightarrow> pg_call drv key s (raised w) t"
| claim: "pg_claim_due drv locked w now lf lim s = (x, t) \<Longrightarrow> pg_call drv key s (raised x) t"
| start: "pg_start_attempt drv e eid v w s = (y, t) \<Longrightarrow> pg_call drv key s (raised y) t"
| transition: "pg_transition drv e eid v goal d s = (z, t) \<Longrightarrow> pg_call drv key s (raised z) t"

text \<open>A record may be replaced by one of a higher version; it never goes away.\<close>

definition newer :: "(string \<Rightarrow> effect_record option) \<Rightarrow> (string \<Rightarrow> effect_record option) \<Rightarrow> bool" where
  "newer rs rs' \<longleftrightarrow> (\<forall>i r. rs i = Some r \<longrightarrow> (\<exists>r'. rs' i = Some r' \<and> (r' = r \<or> version r < version r')))"

lemma newer_refl [simp]: "newer rs rs"
  by (simp add: newer_def)

lemma newerE:
  assumes "newer rs rs'" and "rs i = Some r"
  obtains r' where "rs' i = Some r'" "r' = r \<or> version r < version r'"
  using assms by (auto simp: newer_def)

lemma newer_trans:
  assumes "newer rs rs'" and "newer rs' rs''"
  shows "newer rs rs''"
  unfolding newer_def
proof (intro allI impI)
  fix i r
  assume "rs i = Some r"
  with assms(1) obtain r1 where r1: "rs' i = Some r1" "r1 = r \<or> version r < version r1" by (rule newerE)
  from assms(2) r1(1) obtain r2 where "rs'' i = Some r2" "r2 = r1 \<or> version r1 < version r2" by (rule newerE)
  with r1(2) show "\<exists>r'. rs'' i = Some r' \<and> (r' = r \<or> version r < version r')" by auto
qed

lemma newer_upd: "rs i = None \<or> (\<exists>r. rs i = Some r \<and> version r < version r') \<Longrightarrow> newer rs (rs(i \<mapsto> r'))"
  by (auto simp: newer_def)

lemma newer_claims:
  assumes "\<forall>c \<in> set cs. \<exists>r. rs (effect_id c) = Some r \<and> c = claim_record r now"
  shows "newer rs (rs ++ map_of (map (\<lambda>c. (effect_id c, c)) cs))"
  unfolding newer_def
proof (intro allI impI)
  fix i r
  assume r: "rs i = Some r"
  show "\<exists>r'. (rs ++ map_of (map (\<lambda>c. (effect_id c, c)) cs)) i = Some r' \<and> (r' = r \<or> version r < version r')"
  proof (cases "map_of (map (\<lambda>c. (effect_id c, c)) cs) i")
    case (Some c)
    then have "c \<in> set cs" "effect_id c = i" by (auto dest!: map_of_SomeD)
    with assms r have "c = claim_record r now" by auto
    then have "version r < version c" by simp
    with Some show ?thesis by (auto simp: map_add_def)
  qed (use r in \<open>simp add: map_add_def\<close>)
qed

lemma pg_call_newer:
  assumes "pg_call drv key s err t" and ok: "pg_ok drv s"
  shows "pg_ok drv t \<and> newer (pg_look s) (pg_look t)"
  using assms(1)
proof cases
  case (reserve e tenant req c w)
  show ?thesis
  proof (cases w)
    case (Inl x)
    from pg_errors(1) [OF reserve(2) [unfolded Inl]] ok show ?thesis by simp
  next
    case (Inr res)
    from pg_reserve_Inr [OF ok reserve(2) [unfolded Inr]] show ?thesis
      by (cases "created res") (auto intro: newer_upd)
  qed
next
  case (claim locked w now lf lim x)
  show ?thesis
  proof (cases x)
    case (Inl y)
    from pg_errors(2) [OF claim(2) [unfolded Inl]] ok show ?thesis by simp
  next
    case (Inr cs)
    from pg_claim_Inr [OF ok claim(2) [unfolded Inr]] show ?thesis by (auto intro!: newer_claims)
  qed
next
  case (start e eid v w y)
  show ?thesis
  proof (cases y)
    case (Inl x)
    from pg_errors(3) [OF start(2) [unfolded Inl]] ok show ?thesis by simp
  next
    case (Inr aid)
    from ok start(2) [unfolded Inr] show ?thesis by (rule pg_start_Inr) simp
  qed
next
  case (transition e eid v goal d z)
  show ?thesis
  proof (cases z)
    case (Inl x)
    from pg_errors(4) [OF transition(2) [unfolded Inl]] ok show ?thesis by simp
  next
    case (Inr r')
    from ok transition(2) [unfolded Inr] show ?thesis by (rule pg_transition_Inr) (auto intro!: newer_upd)
  qed
qed

definition others :: "pg_driver \<Rightarrow> tenant_key_provider \<Rightarrow> pg_db \<Rightarrow> pg_db \<Rightarrow> bool" where
  "others drv key = (\<lambda>a b. \<exists>err. pg_call drv key a err b)\<^sup>*\<^sup>*"

lemma others_newer:
  assumes "others drv key s t" and "pg_ok drv s"
  shows "pg_ok drv t \<and> newer (pg_look s) (pg_look t)"
  using assms(1) unfolding others_def
proof (induction rule: rtranclp_induct)
  case base
  with assms(2) show ?case by simp
next
  case (step t u)
  then obtain err where "pg_call drv key t err u" by blast
  with pg_call_newer [OF this] step.IH show ?case by (blast intro: newer_trans)
qed

text \<open>The compare-and-swap on a row whose version has moved on.\<close>

lemma update_missed:
  assumes ok: "pg_core drv s" and look: "pg_look s eid = Some q" "version q \<noteq> v"
  shows "update_intents (\<lambda>row. in_id row = eid \<and> in_version row = v) f s = (Inr [], s)"
proof -
  have "in_version row \<noteq> v" if row: "row \<in> set (pg_intents s)" "in_id row = eid" for row
  proof -
    obtain r where "intent_to_record row = Inr r" "pg_look s (in_id row) = Some r" by (rule intent_in_ok [OF ok row(1)])
    with look row(2) intent_to_record_Inr(5) [of row r] show ?thesis by simp
  qed
  then have none: "\<forall>row \<in> set (pg_intents s). \<not> (in_id row = eid \<and> in_version row = v)" by blast
  then have "filter (\<lambda>row. in_id row = eid \<and> in_version row = v) (pg_intents s) = []" by (simp add: filter_empty_conv)
  moreover have "map (\<lambda>row. if in_id row = eid \<and> in_version row = v then f row else row) (pg_intents s) = pg_intents s"
    using none by (intro map_idI) auto
  ultimately show ?thesis by (simp add: update_intents_def)
qed

text \<open>
  C32. \<open>transition\<close> on Postgres under \<open>READ COMMITTED\<close>: it reads the record without a lock, and any number
  of transactions of other processes may commit before it writes. It still behaves as if it ran as a whole
  at the moment of the write: same result, same database, and a version conflict with nothing written when
  one of them has changed the effect.
\<close>

theorem pg_transition_linearizable:
  assumes "pg_ok drv s" and "pg_record_for_version drv eid v s = (Inr r, s')" and "is_allowed (status r) goal"
    and "others drv key s t"
  shows "pg_begin (pg_transition_write drv e eid v goal d r) t = pg_transition drv e eid v goal d t
    \<and> (pg_look t eid \<noteq> Some r \<longrightarrow> pg_transition drv e eid v goal d t = (Inl (VersionConflictError eid), t))"
proof -
  note read = pg_record_for_version_Inr [OF pg_ok_core [OF assms(1)] assms(2)]
  from others_newer [OF assms(4,1)] have ok: "pg_ok drv t" and "newer (pg_look s) (pg_look t)" by simp_all
  with read(2) obtain q where q: "pg_look t eid = Some q" "q = r \<or> version r < version q" by (auto simp: newer_def)
  obtain row where "row \<in> set (pg_intents s)" "in_id row = eid" by (rule pg_look_SomeE [OF read(2)])
  then have bindable: "text_error drv eid = None" using assms(1) by (auto simp: pg_ok_def pg_core_def intent_ok_def)
  show ?thesis
  proof (cases "q = r")
    case True
    then show ?thesis
      using q(1) read(3) assms(3) pg_record_for_version_run [OF pg_ok_core [OF ok] bindable, of v]
      by (simp add: pg_transition_def pg_begin_def and_then_def assert_transition_def)
  next
    case False
    with q(2) read(3) have "version q \<noteq> v" by simp
    then show ?thesis
      using q(1) pg_record_for_version_run [OF pg_ok_core [OF ok] bindable, of v] update_missed [OF pg_ok_core [OF ok] q(1)]
      by (simp add: pg_transition_def pg_transition_write_def pg_begin_def and_then_def throw_def)
  qed
qed

theorem pg_transition_linearizable_witness:
  "\<exists>s t r. pg_record_for_version easy_driver ''eff_u'' 0 s = (Inr r, s) \<and> others easy_driver demo_keys s t
     \<and> pg_begin (pg_transition_write easy_driver demo_env ''eff_u'' 0 CANCELLED [] r) t
       = (Inl (VersionConflictError ''eff_u''), t)"
proof -
  obtain r s t c where s: "pg_ok easy_driver s" "pg_claim_due easy_driver {} ''w'' 0 (seconds 30) 5 s = (Inr [c], t)"
    "effect_id c = ''eff_u''" "pg_look s ''eff_u'' = Some r" "version r = 0" "status r = PREPARED" by (rule pg_claimed)
  have read: "pg_record_for_version easy_driver ''eff_u'' 0 s = (Inr r, s)"
    using pg_record_for_version_run [OF pg_ok_core [OF s(1)] easy_driver_simps(1), of "''eff_u''" 0] s(4,5) by simp
  have "others easy_driver demo_keys s t"
    using pg_call.claim [OF s(2), of demo_keys] unfolding others_def by blast
  moreover have "is_allowed (status r) CANCELLED" using s(6) by (simp add: is_allowed_simps)
  moreover have "pg_look t ''eff_u'' \<noteq> Some r"
  proof -
    have "pg_look t ''eff_u'' = Some c" "c = claim_record r 0"
      using pg_claim_Inr [OF s(1,2)] s(3,4) by (simp_all add: map_add_def)
    from this(2) have "version c \<noteq> version r" by simp
    with \<open>pg_look t ''eff_u'' = Some c\<close> show ?thesis by auto
  qed
  ultimately have "pg_begin (pg_transition_write easy_driver demo_env ''eff_u'' 0 CANCELLED [] r) t
      = (Inl (VersionConflictError ''eff_u''), t)" "others easy_driver demo_keys s t"
    using pg_transition_linearizable [OF s(1) read] by simp_all
  with read show ?thesis by blast
qed

section \<open>Every branch of a transition\<close>

text \<open>
  C33. What \<open>transition\<close> on Postgres does on every branch, for any driver, data and clock: an id the driver
  refuses, an unknown effect, a stale version and an edge that is not in the graph raise in this order; then,
  with nothing written, the first value of the event and (on a success) of the receipt that cannot be
  written: a version or sequence number that does not fit its \<open>INTEGER\<close> column, data that is not JSON, a text
  or an object the driver refuses (Postgres refuses NUL), an external id it cannot bind, a receipt id in
  use. Otherwise it returns the advanced record, and the database holds exactly that change.
\<close>

theorem pg_transition_branches:
  assumes "pg_ok drv s"
  shows "case text_error drv eid of
      Some x \<Rightarrow> pg_transition drv e eid v goal d s = (Inl x, s)
    | None \<Rightarrow> (case pg_look s eid of
        None \<Rightarrow> pg_transition drv e eid v goal d s = (Inl (UnknownEffectError eid), s)
      | Some r \<Rightarrow>
          if version r \<noteq> v then pg_transition drv e eid v goal d s = (Inl (VersionConflictError eid), s)
          else if \<not> is_allowed (status r) goal
          then pg_transition drv e eid v goal d s = (Inl (InvalidTransitionError (status r) goal), s)
          else case transition_refusal drv e s r goal d of
              Some x \<Rightarrow> pg_transition drv e eid v goal d s = (Inl x, s)
            | None \<Rightarrow> \<exists>t. pg_transition drv e eid v goal d s = (Inr (advance r goal (env_now e)), t) \<and> pg_ok drv t
                \<and> pg_look t = (pg_look s)(eid \<mapsto> advance r goal (env_now e)) \<and> pg_tries t = pg_tries s)"
proof (cases "text_error drv eid")
  case (Some x)
  then show ?thesis
    by (simp add: pg_transition_def pg_begin_def and_then_def pg_record_for_version_def select_intent_def bind_params_eq)
next
  case bindable: None
  note read = pg_record_for_version_run [OF pg_ok_core [OF assms] bindable, of v]
  show ?thesis
  proof (cases "\<exists>r. pg_look s eid = Some r \<and> version r = v \<and> is_allowed (status r) goal")
    case False
    with bindable show ?thesis
      by (auto simp: pg_transition_def pg_begin_def and_then_def read throw_def assert_transition_def split: option.split)
  next
    case True
    then obtain r where r: "pg_look s eid = Some r" "version r = v" "is_allowed (status r) goal" by blast
    from transition_settled [OF assms r(1,3), of e d] obtain t where
      t: "pg_transition drv e eid v goal d s = (case transition_refusal drv e s r goal d of
        Some x \<Rightarrow> (Inl x, s) | None \<Rightarrow> (Inr (advance r goal (env_now e)), t))" unfolding r(2) by blast
    show ?thesis
    proof (cases "transition_refusal drv e s r goal d")
      case None
      with t have run: "pg_transition drv e eid v goal d s = (Inr (advance r goal (env_now e)), t)" by simp
      with bindable r None pg.ledger_transition [OF assms, unfolded pg_ops_simps, OF run] show ?thesis by auto
    qed (use bindable r t in simp)
  qed
qed

text \<open>
  A driver that refuses NUL in a text and in the text of an object, as Postgres does: with such a text in the reason,
  the cancellation of the claimed effect is refused; without it the effect is cancelled.
\<close>

definition has_nul :: "string \<Rightarrow> bool" where
  "has_nul t \<longleftrightarrow> CHR 0x00 \<in> set t"

fun holds_nul :: "pyval \<Rightarrow> bool" where
  "holds_nul (VStr t) \<longleftrightarrow> has_nul t"
| "holds_nul (VDict kvs) \<longleftrightarrow> (\<exists>(k, v) \<in> set kvs. holds_nul k \<or> holds_nul v)"
| "holds_nul (VList vs) \<longleftrightarrow> (\<exists>v \<in> set vs. holds_nul v)"
| "holds_nul (VTuple vs) \<longleftrightarrow> (\<exists>v \<in> set vs. holds_nul v)"
| "holds_nul _ \<longleftrightarrow> False"

definition nul_driver :: pg_driver where
  "nul_driver = \<lparr>text_error = \<lambda>t. if has_nul t then Some pg_data_error else None,
     bound_text = \<lambda>v. (case v of VNone \<Rightarrow> Inr None
       | VStr t \<Rightarrow> if has_nul t then Inl pg_data_error else Inr (Some t) | _ \<Rightarrow> Inl (PyError ''ProgrammingError'')),
     jsonb = \<lambda>v. if holds_nul v then Inl (PyError ''UntranslatableCharacter'') else Inr v\<rparr>"

lemma pg_ok_driver:
  assumes "pg_ok drv s" and "\<forall>row \<in> set (pg_intents s). text_error drv' (in_id row) = None \<and> text_error drv' (in_tenant row) = None"
  shows "pg_ok drv' s"
  using assms by (simp add: pg_ok_def pg_core_def intent_ok_def)

lemma nul_cancel_refusal:
  assumes "status r = PREPARED" and "version r = 0" and "length (pg_events s) = 1" and "pg_ok nul_driver s" and "encodable v"
  shows "transition_refusal nul_driver e s r CANCELLED [(VStr ''reason'', v)] =
    (if holds_nul (restored v) then Some (PyError ''UntranslatableCharacter'') else None)"
proof -
  let ?d = "pg_transition_data PREPARED CANCELLED [(VStr ''reason'', v)]"
  have enc: "encodable (VDict ?d)" using assms(5) by (simp add: pg_transition_data_def encodable_item_def)
  have column: "json_value (VDict ?d) = Inr (restored (VDict ?d))"
    using json_loads_text [OF enc] by (simp add: json_value_def canonical_json_encodable [OF enc])
  have nul: "holds_nul (restored (VDict ?d)) = holds_nul (restored v)"
    by (auto simp: pg_transition_data_def has_nul_def)
  have "length (filter (\<lambda>ev. pe_effect ev = effect_id r) (pg_events s)) \<le> 1"
    using length_filter_le [of "\<lambda>ev. pe_effect ev = effect_id r" "pg_events s"] assms(3) by simp
  then have seq: "int4_error (next_sequence (effect_id r) s) = None"
    by (simp add: next_sequence_numbered [OF pg_ok_core [OF assms(4)]] int4_error_def)
  have "event_refusals nul_driver s (effect_id r) ?d = [None, None, if holds_nul (restored v)
      then Some (PyError ''UntranslatableCharacter'') else None]"
    unfolding event_refusals_def column sum.case seq by (simp add: nul_driver_def has_nul_def nul del: restored.simps)
  then show ?thesis
    using assms(1,2) by (simp add: transition_refusal_def int4_error_def)
qed

theorem pg_transition_branches_witness:
  "\<exists>s t r. pg_look s ''eff_u'' = Some r
     \<and> pg_transition nul_driver demo_env ''eff_u'' 0 CANCELLED [(VStr ''reason'', VStr ''stop'')] s =
         (Inr (advance r CANCELLED (seconds 100)), t)
     \<and> pg_transition nul_driver demo_env ''eff_u'' 0 CANCELLED [(VStr ''reason'', VStr [CHR 0x00])] s =
         (Inl (PyError ''UntranslatableCharacter''), s)
     \<and> pg_transition nul_driver demo_env [CHR 0x00] 0 CANCELLED [] s = (Inl pg_data_error, s)"
proof -
  obtain r row s where s: "pg_ok easy_driver s" "length (pg_events s) = 1" "pg_intents s = [row]" "in_id row = ''eff_u''"
    "tenant_id r = ''acme''" "version r = 0" "status r = PREPARED" "pg_look s ''eff_u'' = Some r"
    by (rule pg_reserved [of UNSAFE]) blast
  have "intent_to_record row = Inr r" using s(3,4,8) by (simp add: pg_look_def split: sum.splits)
  then have "in_tenant row = ''acme''" using intent_to_record_Inr s(5) by simp
  with s(1,3,4) have ok: "pg_ok nul_driver s"
    by (intro pg_ok_driver [OF s(1)]) (simp add: nul_driver_def has_nul_def)
  note refusal = nul_cancel_refusal [OF s(7,6,2) ok]
  have texts: "text_error nul_driver ''eff_u'' = None" "text_error nul_driver [CHR 0x00] = Some pg_data_error"
    by (simp_all add: nul_driver_def has_nul_def)
  note branches = pg_transition_branches [OF ok]
  from branches [of demo_env "''eff_u''" 0 CANCELLED "[(VStr ''reason'', VStr ''stop'')]"]
    branches [of demo_env "''eff_u''" 0 CANCELLED "[(VStr ''reason'', VStr [CHR 0x00])]"]
    branches [of demo_env "[CHR 0x00]" 0 CANCELLED "[]"] s(6-8) texts show ?thesis
    by (auto simp: refusal has_nul_def is_allowed_simps demo_env_def)
qed

section \<open>What the columns keep of a contract\<close>

lemma floor_bracket:
  fixes m x q r j :: int
  assumes "2 * \<bar>m * 1000000 - x\<bar> \<le> 1000000" and "x = q * 1000000 + r" and "0 \<le> r" and "r \<le> 999999 * j"
  shows "q \<le> m" and "500000 < j \<Longrightarrow> m < q + j"
proof -
  have bounds: "m * 1000000 \<le> x + 500000" "x \<le> m * 1000000 + 500000"
    using assms(1) abs_ge_self [of "m * 1000000 - x"] abs_ge_minus_self [of "m * 1000000 - x"] by simp_all
  show "q \<le> m" using bounds(2) assms(2,3) by linarith
  show "m < q + j" if "500000 < j" using bounds(1) assms(2,4) that by linarith
qed

lemma whole_seconds:
  assumes "0 \<le> d" and "d < 2 ^ 33 * 1000000"
  shows "int_of_dyadic (total_seconds d) = d div 1000000"
proof (cases "d = 0")
  case True
  then show ?thesis by (simp add: total_seconds_def int_of_dyadic_def)
next
  case False
  with assms obtain m k where m: "nearest d 1000000 = (m, k)" "2 * \<bar>m * 1000000 - d * 2 ^ k\<bar> \<le> 1000000" "19 < k" "0 \<le> m"
    using nearest_error [of d 1000000 33] by auto
  have K: "(2::int) ^ 20 \<le> 2 ^ k" using m(3) by (intro power_increasing) simp_all
  let ?q = "d div 1000000" and ?r = "d mod 1000000"
  have r: "0 \<le> ?r" "?r < 1000000" by simp_all
  have "d * 2 ^ k = (?q * 1000000 + ?r) * 2 ^ k" by simp
  then have d: "d * 2 ^ k = ?q * 2 ^ k * 1000000 + ?r * 2 ^ k" by (simp only: ring_distribs ac_simps)
  have top: "?r * 2 ^ k \<le> 999999 * 2 ^ k" using r(2) by (intro mult_right_mono) simp_all
  have "0 \<le> ?r * 2 ^ k" using r(1) by simp
  from floor_bracket [OF m(2) d this top] K have low: "?q * 2 ^ k \<le> m" and high: "m < ?q * 2 ^ k + 2 ^ k" by simp_all
  have "m div 2 ^ k = ?q"
    using low high by (intro int_div_pos_eq [of m "2 ^ k" ?q "m - ?q * 2 ^ k"]) (simp_all add: algebra_simps)
  moreover have "sgn m * (m div 2 ^ k) = m div 2 ^ k" using m(4) by (cases "m = 0") simp_all
  ultimately show ?thesis using m(1,4) by (simp add: total_seconds_def int_of_dyadic_def)
qed

definition ranged :: "timedelta option \<Rightarrow> bool" where
  "ranged d \<longleftrightarrow> (case d of None \<Rightarrow> True | Some t \<Rightarrow> 0 \<le> t \<and> t < 2 ^ 33 * 1000000)"

text \<open>
  C34. The bounds a Postgres ledger keeps of a contract: the \<open>BIGINT\<close> columns hold whole seconds, so a key
  retention or settlement bound below \<open>2 ^ 33\<close> seconds comes out as the largest number of seconds that is
  not above it: never more than the contract says, less by under a second, and the same exactly when it was
  whole. A bound of less than one second is kept as zero.
\<close>

theorem pg_contract_bounds:
  assumes "ranged (settlement_bound c)" and "ranged (key_retention c)"
  shows "settlement_bound (pg_pin c) = map_option (\<lambda>d. d - d mod seconds 1) (settlement_bound c)
    \<and> key_retention (pg_pin c) = map_option (\<lambda>d. d - d mod seconds 1) (key_retention c)
    \<and> (\<forall>d. settlement_bound c = Some d \<longrightarrow> (\<exists>d'. settlement_bound (pg_pin c) = Some d' \<and> d' \<le> d \<and> d < d' + seconds 1
        \<and> (d' = d \<longleftrightarrow> seconds 1 dvd d) \<and> (d < seconds 1 \<longrightarrow> d' = 0)))"
proof -
  have column: "pg_seconds_to_duration (pg_duration_seconds x) = map_option (\<lambda>d. d - d mod seconds 1) x" if "ranged x" for x
    using that by (cases x)
      (simp_all add: ranged_def pg_seconds_to_duration_def pg_duration_seconds_def whole_seconds minus_mod_eq_mult_div)
  have "d - d mod seconds 1 \<le> d \<and> d < d - d mod seconds 1 + seconds 1 \<and> (d - d mod seconds 1 = d \<longleftrightarrow> seconds 1 dvd d)
    \<and> (d < seconds 1 \<longrightarrow> d - d mod seconds 1 = 0)" if "0 \<le> d" for d :: int
    using that by (auto simp: mod_pos_pos_trivial dvd_eq_mod_eq_0)
  then show ?thesis
    using assms by (auto simp: pg_pin_def column ranged_def)
qed

theorem pg_contract_bounds_witness:
  "settlement_bound (pg_pin ((demo_contract RECONCILABLE)\<lparr>settlement_bound := Some 500000\<rparr>)) = Some 0
     \<and> key_retention (pg_pin ((demo_contract RECONCILABLE)\<lparr>settlement_bound := Some 500000\<rparr>)) = Some (seconds 3600)"
proof -
  let ?c = "(demo_contract RECONCILABLE)\<lparr>settlement_bound := Some 500000\<rparr>"
  have "ranged (settlement_bound ?c)" "ranged (key_retention ?c)" by (simp_all add: ranged_def)
  from pg_contract_bounds [OF this] show ?thesis by simp
qed

end
