(* ===== verification/Postgres_Schema.thy ===== *)
theory Postgres_Schema
  imports Postgres_Store
begin

text \<open>
  The schema of the Postgres ledger, in its two forms: the table objects of \<open>store/postgres.py\<close>, created by
  \<open>create_schema\<close>, and the statements of the migration
  \<open>store/migrations/versions/0001_initial_postgres_store.py\<close>. A column, constraint, index, function or
  trigger is data (of the trigger function the exception its body raises, of the trigger when it fires);
  \<open>run_ddl\<close> says when a statement is refused and what it leaves. The order in which
  \<open>create_all\<close> visits the tables is the library's choice and an argument.
\<close>

section \<open>Tables and statements\<close>

datatype sql_type = SqlText | SqlBoolean | SqlTimestamptz | SqlJsonb | SqlInteger | SqlBigint

record column =
  col_name :: string
  col_type :: sql_type
  col_nullable :: bool
  col_primary :: bool
  col_unique :: bool
  col_default :: "string option"
  col_ref :: "(string \<times> string \<times> string) option"   \<comment> \<open>table, column, \<open>ON DELETE\<close>\<close>

datatype table_constraint = UniqueKey string "string list" | PrimaryKey string "string list"

record table_def =
  tab_name :: string
  tab_columns :: "column list"
  tab_constraints :: "table_constraint list"

record index_def =
  idx_name :: string
  idx_table :: string
  idx_columns :: "string list"

definition nullable :: "string \<Rightarrow> sql_type \<Rightarrow> column" where
  "nullable n ty = \<lparr>col_name = n, col_type = ty, col_nullable = True, col_primary = False, col_unique = False,
     col_default = None, col_ref = None\<rparr>"

definition required :: "string \<Rightarrow> sql_type \<Rightarrow> column" where
  "required n ty = (nullable n ty)\<lparr>col_nullable := False\<rparr>"

definition primary :: "string \<Rightarrow> sql_type \<Rightarrow> column" where
  "primary n ty = (required n ty)\<lparr>col_primary := True\<rparr>"

definition foreign :: "string \<Rightarrow> string \<Rightarrow> string \<Rightarrow> string \<Rightarrow> column" where
  "foreign n tab c act = (required n SqlText)\<lparr>col_ref := Some (tab, c, act)\<rparr>"

definition default :: "string \<Rightarrow> column \<Rightarrow> column" where
  "default t c = c\<lparr>col_default := Some t\<rparr>"

record schema =
  sc_tables :: "table_def list"
  sc_indexes :: "index_def list"
  sc_functions :: "(string \<times> string) list"            \<comment> \<open>name, body\<close>
  sc_triggers :: "(string \<times> string \<times> string \<times> string) list"   \<comment> \<open>name, table, function, when\<close>

datatype ddl =
    CreateTable table_def | CreateIndex index_def | DropTable string | DropIndex string string
  | CreateFunction string string | CreateTrigger string string string string
  | DropTriggerIfExists string string | DropFunctionIfExists string

abbreviation table_names :: "schema \<Rightarrow> string set" where
  "table_names s \<equiv> tab_name ` set (sc_tables s)"

definition ref_ok :: "schema \<Rightarrow> column \<Rightarrow> bool" where
  "ref_ok s c = (case col_ref c of None \<Rightarrow> True
   | Some (t, k, _) \<Rightarrow> \<exists>tab \<in> set (sc_tables s). tab_name tab = t
       \<and> (\<exists>c' \<in> set (tab_columns tab). col_name c' = k \<and> (col_primary c' \<or> col_unique c')))"

definition refers :: "string \<Rightarrow> table_def \<Rightarrow> bool" where
  "refers n t = (\<exists>c \<in> set (tab_columns t). case col_ref c of None \<Rightarrow> False | Some (m, _) \<Rightarrow> m = n)"

definition refuse :: "bool \<Rightarrow> schema \<Rightarrow> error + schema" where
  "refuse bad s = (if bad then Inl (PyError ''ProgrammingError'') else Inr s)"

fun run_ddl :: "ddl \<Rightarrow> schema \<Rightarrow> error + schema" where
  "run_ddl (CreateTable t) s =
     refuse (tab_name t \<in> table_names s \<or> tab_name t \<in> idx_name ` set (sc_indexes s)
         \<or> \<not> (\<forall>c \<in> set (tab_columns t). ref_ok s c))
       (s\<lparr>sc_tables := sc_tables s @ [t]\<rparr>)"
| "run_ddl (CreateIndex i) s =
     refuse (idx_name i \<in> table_names s \<or> idx_name i \<in> idx_name ` set (sc_indexes s)
         \<or> \<not> (\<exists>t \<in> set (sc_tables s). tab_name t = idx_table i \<and> set (idx_columns i) \<subseteq> col_name ` set (tab_columns t)))
       (s\<lparr>sc_indexes := sc_indexes s @ [i]\<rparr>)"
| "run_ddl (DropTable n) s =
     refuse (n \<notin> table_names s \<or> (\<exists>t \<in> set (sc_tables s). tab_name t \<noteq> n \<and> refers n t))
       (s\<lparr>sc_tables := filter (\<lambda>t. tab_name t \<noteq> n) (sc_tables s),
          sc_indexes := filter (\<lambda>i. idx_table i \<noteq> n) (sc_indexes s),
          sc_triggers := filter (\<lambda>g. fst (snd g) \<noteq> n) (sc_triggers s)\<rparr>)"
| "run_ddl (DropIndex n t) s =
     refuse (n \<notin> idx_name ` set (sc_indexes s)) (s\<lparr>sc_indexes := filter (\<lambda>i. idx_name i \<noteq> n) (sc_indexes s)\<rparr>)"
| "run_ddl (CreateFunction f body) s =
     Inr (s\<lparr>sc_functions := if f \<in> fst ` set (sc_functions s)
       then map (\<lambda>g. if fst g = f then (f, body) else g) (sc_functions s) else sc_functions s @ [(f, body)]\<rparr>)"
| "run_ddl (CreateTrigger n t f ev) s =
     refuse ((\<exists>g \<in> set (sc_triggers s). fst g = n \<and> fst (snd g) = t) \<or> t \<notin> table_names s \<or> f \<notin> fst ` set (sc_functions s))
       (s\<lparr>sc_triggers := sc_triggers s @ [(n, t, f, ev)]\<rparr>)"
| "run_ddl (DropTriggerIfExists n t) s =
     Inr (s\<lparr>sc_triggers := filter (\<lambda>g. \<not> (fst g = n \<and> fst (snd g) = t)) (sc_triggers s)\<rparr>)"
| "run_ddl (DropFunctionIfExists f) s =
     refuse (\<exists>g \<in> set (sc_triggers s). fst (snd (snd g)) = f)
       (s\<lparr>sc_functions := filter (\<lambda>g. fst g \<noteq> f) (sc_functions s)\<rparr>)"

text \<open>The statements of one transaction: all or none.\<close>

fun run_ddls :: "ddl list \<Rightarrow> schema \<Rightarrow> error + schema" where
  "run_ddls [] s = Inr s"
| "run_ddls (d # ds) s = (case run_ddl d s of Inl x \<Rightarrow> Inl x | Inr t \<Rightarrow> run_ddls ds t)"

section \<open>The table objects of the store\<close>

definition meta_tenants :: table_def where
  "meta_tenants = \<lparr>tab_name = ''tenants'', tab_columns =
     [primary ''tenant_id'' SqlText, nullable ''name'' SqlText, nullable ''api_key_hash'' SqlText,
      nullable ''hmac_key_id'' SqlText, default ''false'' (required ''disabled'' SqlBoolean),
      default ''now()'' (required ''created_at'' SqlTimestamptz),
      default ''now()'' (required ''updated_at'' SqlTimestamptz)],
     tab_constraints = []\<rparr>"

definition meta_intents :: table_def where
  "meta_intents = \<lparr>tab_name = ''effect_intents'', tab_columns =
     [primary ''effect_id'' SqlText, foreign ''tenant_id'' ''tenants'' ''tenant_id'' ''RESTRICT'',
      required ''operation_key'' SqlText, required ''tool'' SqlText, required ''arguments_json'' SqlJsonb,
      required ''requested_by'' SqlText, nullable ''trace_id'' SqlText, required ''request_hash'' SqlText,
      required ''downstream_key'' SqlText, required ''contract_name'' SqlText, required ''contract_version'' SqlText,
      required ''safety_class'' SqlText, required ''retry_limit'' SqlInteger,
      nullable ''key_retention_seconds'' SqlBigint, nullable ''settlement_bound_seconds'' SqlBigint,
      required ''status'' SqlText, required ''version'' SqlInteger, required ''created_at'' SqlTimestamptz,
      required ''updated_at'' SqlTimestamptz, nullable ''worker_id'' SqlText, nullable ''lease_until'' SqlTimestamptz],
     tab_constraints = [UniqueKey ''uq_effect_intents_tenant_operation_key'' [''tenant_id'', ''operation_key'']]\<rparr>"

definition meta_attempts :: table_def where
  "meta_attempts = \<lparr>tab_name = ''effect_attempts'', tab_columns =
     [primary ''attempt_id'' SqlText, foreign ''effect_id'' ''effect_intents'' ''effect_id'' ''CASCADE'',
      required ''ordinal'' SqlInteger, required ''worker_id'' SqlText, required ''version'' SqlInteger,
      required ''started_at'' SqlTimestamptz],
     tab_constraints = [UniqueKey ''uq_effect_attempts_ordinal'' [''effect_id'', ''ordinal'']]\<rparr>"

definition meta_receipts :: table_def where
  "meta_receipts = \<lparr>tab_name = ''effect_receipts'', tab_columns =
     [primary ''receipt_id'' SqlText,
      (foreign ''effect_id'' ''effect_intents'' ''effect_id'' ''CASCADE'')\<lparr>col_unique := True\<rparr>,
      nullable ''external_id'' SqlText, required ''contract_name'' SqlText, required ''contract_version'' SqlText,
      required ''downstream_key'' SqlText, required ''metadata_json'' SqlJsonb, required ''created_at'' SqlTimestamptz],
     tab_constraints = []\<rparr>"

definition meta_events :: table_def where
  "meta_events = \<lparr>tab_name = ''effect_events'', tab_columns =
     [foreign ''effect_id'' ''effect_intents'' ''effect_id'' ''CASCADE'', required ''sequence'' SqlInteger,
      required ''event_type'' SqlText, required ''version'' SqlInteger, required ''at'' SqlTimestamptz,
      required ''data_json'' SqlJsonb],
     tab_constraints = [PrimaryKey ''pk_effect_events'' [''effect_id'', ''sequence'']]\<rparr>"

definition meta_tables :: "table_def list" where
  "meta_tables = [meta_tenants, meta_intents, meta_attempts, meta_receipts, meta_events]"

definition ix_status_lease :: index_def where
  "ix_status_lease = \<lparr>idx_name = ''ix_effect_intents_status_lease'', idx_table = ''effect_intents'',
     idx_columns = [''status'', ''lease_until'']\<rparr>"

definition ix_tenant :: index_def where
  "ix_tenant = \<lparr>idx_name = ''ix_effect_intents_tenant_id'', idx_table = ''effect_intents'', idx_columns = [''tenant_id'']\<rparr>"

definition ix_attempts :: index_def where
  "ix_attempts = \<lparr>idx_name = ''ix_effect_attempts_effect_id'', idx_table = ''effect_attempts'', idx_columns = [''effect_id'']\<rparr>"

definition ix_receipts :: index_def where
  "ix_receipts = \<lparr>idx_name = ''ix_effect_receipts_effect_id'', idx_table = ''effect_receipts'', idx_columns = [''effect_id'']\<rparr>"

definition ix_events :: index_def where
  "ix_events = \<lparr>idx_name = ''ix_effect_events_effect_id'', idx_table = ''effect_events'', idx_columns = [''effect_id'']\<rparr>"

definition meta_indexes :: "index_def list" where
  "meta_indexes = [ix_status_lease, ix_tenant, ix_attempts, ix_receipts, ix_events]"

text \<open>\<open>create_all\<close>: each missing table in the order given, followed by its indexes; \<open>drop_all\<close>: the reverse.\<close>

definition create_missing :: "table_def \<Rightarrow> schema \<Rightarrow> error + schema" where
  "create_missing t s = (if tab_name t \<in> table_names s then Inr s
     else run_ddls (CreateTable t # map CreateIndex (filter (\<lambda>i. idx_table i = tab_name t) meta_indexes)) s)"

fun create_all :: "table_def list \<Rightarrow> schema \<Rightarrow> error + schema" where
  "create_all [] s = Inr s"
| "create_all (t # ts) s = (case create_missing t s of Inl x \<Rightarrow> Inl x | Inr u \<Rightarrow> create_all ts u)"

fun drop_all :: "table_def list \<Rightarrow> schema \<Rightarrow> error + schema" where
  "drop_all [] s = Inr s"
| "drop_all (t # ts) s = (case drop_all ts s of Inl x \<Rightarrow> Inl x
   | Inr u \<Rightarrow> if tab_name t \<in> table_names u then run_ddl (DropTable (tab_name t)) u else Inr u)"

definition receipt_immutability_sql :: "ddl list" where
  "receipt_immutability_sql = [CreateFunction ''effect_receipts_no_update'' ''RAISE EXCEPTION effect_receipts are immutable'',
     DropTriggerIfExists ''trg_effect_receipts_no_update'' ''effect_receipts'',
     CreateTrigger ''trg_effect_receipts_no_update'' ''effect_receipts'' ''effect_receipts_no_update''
       ''BEFORE UPDATE FOR EACH ROW'']"

definition create_schema :: "table_def list \<Rightarrow> bool \<Rightarrow> schema \<Rightarrow> error + schema" where
  "create_schema order reset s =
     (case (if reset then drop_all order s else Inr s) of Inl x \<Rightarrow> Inl x | Inr u \<Rightarrow>
      case create_all order u of Inl x \<Rightarrow> Inl x | Inr v \<Rightarrow> run_ddls receipt_immutability_sql v)"

section \<open>The migration\<close>

definition upgrade :: "ddl list" where
  "upgrade =
    [CreateTable \<lparr>tab_name = ''tenants'', tab_columns =
       [primary ''tenant_id'' SqlText,
        nullable ''name'' SqlText,
        nullable ''api_key_hash'' SqlText,
        nullable ''hmac_key_id'' SqlText,
        default ''false'' (required ''disabled'' SqlBoolean),
        default ''now()'' (required ''created_at'' SqlTimestamptz),
        default ''now()'' (required ''updated_at'' SqlTimestamptz)],
       tab_constraints = []\<rparr>,
     CreateTable \<lparr>tab_name = ''effect_intents'', tab_columns =
       [primary ''effect_id'' SqlText,
        foreign ''tenant_id'' ''tenants'' ''tenant_id'' ''RESTRICT'',
        required ''operation_key'' SqlText,
        required ''tool'' SqlText,
        required ''arguments_json'' SqlJsonb,
        required ''requested_by'' SqlText,
        nullable ''trace_id'' SqlText,
        required ''request_hash'' SqlText,
        required ''downstream_key'' SqlText,
        required ''contract_name'' SqlText,
        required ''contract_version'' SqlText,
        required ''safety_class'' SqlText,
        required ''retry_limit'' SqlInteger,
        nullable ''key_retention_seconds'' SqlBigint,
        nullable ''settlement_bound_seconds'' SqlBigint,
        required ''status'' SqlText,
        required ''version'' SqlInteger,
        required ''created_at'' SqlTimestamptz,
        required ''updated_at'' SqlTimestamptz,
        nullable ''worker_id'' SqlText,
        nullable ''lease_until'' SqlTimestamptz],
       tab_constraints = [UniqueKey ''uq_effect_intents_tenant_operation_key'' [''tenant_id'', ''operation_key'']]\<rparr>,
     CreateIndex \<lparr>idx_name = ''ix_effect_intents_status_lease'', idx_table = ''effect_intents'',
       idx_columns = [''status'', ''lease_until'']\<rparr>,
     CreateIndex \<lparr>idx_name = ''ix_effect_intents_tenant_id'', idx_table = ''effect_intents'', idx_columns = [''tenant_id'']\<rparr>,
     CreateTable \<lparr>tab_name = ''effect_attempts'', tab_columns =
       [primary ''attempt_id'' SqlText,
        foreign ''effect_id'' ''effect_intents'' ''effect_id'' ''CASCADE'',
        required ''ordinal'' SqlInteger,
        required ''worker_id'' SqlText,
        required ''version'' SqlInteger,
        required ''started_at'' SqlTimestamptz],
       tab_constraints = [UniqueKey ''uq_effect_attempts_ordinal'' [''effect_id'', ''ordinal'']]\<rparr>,
     CreateIndex \<lparr>idx_name = ''ix_effect_attempts_effect_id'', idx_table = ''effect_attempts'', idx_columns = [''effect_id'']\<rparr>,
     CreateTable \<lparr>tab_name = ''effect_receipts'', tab_columns =
       [primary ''receipt_id'' SqlText,
        (foreign ''effect_id'' ''effect_intents'' ''effect_id'' ''CASCADE'')\<lparr>col_unique := True\<rparr>,
        nullable ''external_id'' SqlText,
        required ''contract_name'' SqlText,
        required ''contract_version'' SqlText,
        required ''downstream_key'' SqlText,
        required ''metadata_json'' SqlJsonb,
        required ''created_at'' SqlTimestamptz],
       tab_constraints = []\<rparr>,
     CreateIndex \<lparr>idx_name = ''ix_effect_receipts_effect_id'', idx_table = ''effect_receipts'', idx_columns = [''effect_id'']\<rparr>,
     CreateTable \<lparr>tab_name = ''effect_events'', tab_columns =
       [foreign ''effect_id'' ''effect_intents'' ''effect_id'' ''CASCADE'',
        required ''sequence'' SqlInteger,
        required ''event_type'' SqlText,
        required ''version'' SqlInteger,
        required ''at'' SqlTimestamptz,
        required ''data_json'' SqlJsonb],
       tab_constraints = [PrimaryKey ''pk_effect_events'' [''effect_id'', ''sequence'']]\<rparr>,
     CreateIndex \<lparr>idx_name = ''ix_effect_events_effect_id'', idx_table = ''effect_events'', idx_columns = [''effect_id'']\<rparr>,
     CreateFunction ''effect_receipts_no_update'' ''RAISE EXCEPTION effect_receipts are immutable'',
     CreateTrigger ''trg_effect_receipts_no_update'' ''effect_receipts'' ''effect_receipts_no_update''
       ''BEFORE UPDATE FOR EACH ROW'']"

definition downgrade :: "ddl list" where
  "downgrade =
    [DropTriggerIfExists ''trg_effect_receipts_no_update'' ''effect_receipts'',
     DropFunctionIfExists ''effect_receipts_no_update'',
     DropIndex ''ix_effect_events_effect_id'' ''effect_events'',
     DropTable ''effect_events'',
     DropIndex ''ix_effect_receipts_effect_id'' ''effect_receipts'',
     DropTable ''effect_receipts'',
     DropIndex ''ix_effect_attempts_effect_id'' ''effect_attempts'',
     DropTable ''effect_attempts'',
     DropIndex ''ix_effect_intents_tenant_id'' ''effect_intents'',
     DropIndex ''ix_effect_intents_status_lease'' ''effect_intents'',
     DropTable ''effect_intents'',
     DropTable ''tenants'']"

text \<open>\<open>_database_url\<close> of \<open>store/migrations/env.py\<close>: the first non-empty of three variables, then the option.\<close>

definition env_or :: "string option \<Rightarrow> string option \<Rightarrow> string option" where
  "env_or a b = (case a of None \<Rightarrow> b | Some t \<Rightarrow> if t = [] then b else Some t)"

definition database_url :: "(string \<Rightarrow> string option) \<Rightarrow> string option \<Rightarrow> error + string" where
  "database_url env option_url =
     (case env_or (env ''EFFECT_BROKER_TEST_DSN'') (env_or (env ''EFFECT_BROKER_POSTGRES_DSN'')
        (env_or (env ''DATABASE_URL'') option_url)) of
        None \<Rightarrow> Inl (PyError ''AttributeError'')
      | Some url \<Rightarrow>
          let url1 = (case replace_prefix ''postgres://'' ''postgresql://'' url of None \<Rightarrow> url | Some t \<Rightarrow> t)
          in Inr (case replace_prefix ''postgresql://'' ''postgresql+psycopg://'' url1 of None \<Rightarrow> url1 | Some t \<Rightarrow> t))"

end
