(* ===== verification/Schema_Properties.thy ===== *)
theory Schema_Properties
  imports Postgres_Schema "HOL-Library.Multiset"
begin

text \<open>
  The two ways to the Postgres schema lead to the same one: the migration and \<open>create_schema\<close>, on any
  database that does not use their names yet; and \<open>downgrade\<close> undoes \<open>upgrade\<close>.
\<close>

section \<open>Databases that do not use the names\<close>

definition our_tables :: "string set" where
  "our_tables = {''tenants'', ''effect_intents'', ''effect_attempts'', ''effect_receipts'', ''effect_events''}"

definition our_indexes :: "string set" where
  "our_indexes = {''ix_effect_intents_status_lease'', ''ix_effect_intents_tenant_id'', ''ix_effect_attempts_effect_id'',
     ''ix_effect_receipts_effect_id'', ''ix_effect_events_effect_id''}"

definition unused :: "schema \<Rightarrow> bool" where
  "unused s \<longleftrightarrow> table_names s \<inter> (our_tables \<union> our_indexes) = {}
     \<and> idx_name ` set (sc_indexes s) \<inter> (our_tables \<union> our_indexes) = {}
     \<and> ''effect_receipts_no_update'' \<notin> fst ` set (sc_functions s)
     \<and> (\<forall>t \<in> set (sc_tables s). \<forall>n \<in> our_tables. \<not> refers n t)
     \<and> (\<forall>i \<in> set (sc_indexes s). idx_table i \<notin> our_tables)
     \<and> (\<forall>g \<in> set (sc_triggers s). fst (snd g) \<notin> our_tables \<and> fst (snd (snd g)) \<noteq> ''effect_receipts_no_update'')"

definition same_schema :: "schema \<Rightarrow> schema \<Rightarrow> bool" where
  "same_schema s t \<longleftrightarrow> mset (sc_tables s) = mset (sc_tables t) \<and> mset (sc_indexes s) = mset (sc_indexes t)
     \<and> mset (sc_functions s) = mset (sc_functions t) \<and> mset (sc_triggers s) = mset (sc_triggers t)"

definition our_schema :: "schema \<Rightarrow> table_def list \<Rightarrow> index_def list \<Rightarrow> schema" where
  "our_schema s ts is = \<lparr>sc_tables = sc_tables s @ ts, sc_indexes = sc_indexes s @ is,
     sc_functions = sc_functions s @ [(''effect_receipts_no_update'', ''RAISE EXCEPTION effect_receipts are immutable'')],
     sc_triggers = sc_triggers s @ [(''trg_effect_receipts_no_update'', ''effect_receipts'', ''effect_receipts_no_update'',
       ''BEFORE UPDATE FOR EACH ROW'')]\<rparr>"

lemmas meta_defs = meta_tenants_def meta_intents_def meta_attempts_def meta_receipts_def meta_events_def

lemmas ix_defs = ix_status_lease_def ix_tenant_def ix_attempts_def ix_receipts_def ix_events_def

lemmas column_defs = nullable_def required_def primary_def foreign_def default_def

lemma meta_names [simp]:
  "tab_name meta_tenants = ''tenants''" "tab_name meta_intents = ''effect_intents''"
  "tab_name meta_attempts = ''effect_attempts''" "tab_name meta_receipts = ''effect_receipts''"
  "tab_name meta_events = ''effect_events''"
  by (simp_all add: meta_defs)

lemma upgrade_statements:
  "upgrade = [CreateTable meta_tenants, CreateTable meta_intents, CreateIndex ix_status_lease, CreateIndex ix_tenant,
     CreateTable meta_attempts, CreateIndex ix_attempts, CreateTable meta_receipts, CreateIndex ix_receipts,
     CreateTable meta_events, CreateIndex ix_events,
     CreateFunction ''effect_receipts_no_update'' ''RAISE EXCEPTION effect_receipts are immutable'',
     CreateTrigger ''trg_effect_receipts_no_update'' ''effect_receipts'' ''effect_receipts_no_update''
       ''BEFORE UPDATE FOR EACH ROW'']"
  by (simp add: upgrade_def meta_defs ix_defs)

lemma meta_columns:
  "set (idx_columns ix_status_lease) \<subseteq> col_name ` set (tab_columns meta_intents)"
  "set (idx_columns ix_tenant) \<subseteq> col_name ` set (tab_columns meta_intents)"
  "set (idx_columns ix_attempts) \<subseteq> col_name ` set (tab_columns meta_attempts)"
  "set (idx_columns ix_receipts) \<subseteq> col_name ` set (tab_columns meta_receipts)"
  "set (idx_columns ix_events) \<subseteq> col_name ` set (tab_columns meta_events)"
  by (simp_all add: ix_defs meta_defs column_defs)

lemma meta_index_fields [simp]:
  "idx_name ix_status_lease = ''ix_effect_intents_status_lease''" "idx_table ix_status_lease = ''effect_intents''"
  "idx_name ix_tenant = ''ix_effect_intents_tenant_id''" "idx_table ix_tenant = ''effect_intents''"
  "idx_name ix_attempts = ''ix_effect_attempts_effect_id''" "idx_table ix_attempts = ''effect_attempts''"
  "idx_name ix_receipts = ''ix_effect_receipts_effect_id''" "idx_table ix_receipts = ''effect_receipts''"
  "idx_name ix_events = ''ix_effect_events_effect_id''" "idx_table ix_events = ''effect_events''"
  by (simp_all add: ix_defs)

lemma meta_refs:
  "\<forall>c \<in> set (tab_columns meta_tenants). ref_ok s c"
  "meta_tenants \<in> set (sc_tables s) \<Longrightarrow> \<forall>c \<in> set (tab_columns meta_intents). ref_ok s c"
  "meta_intents \<in> set (sc_tables s) \<Longrightarrow> t \<in> {meta_attempts, meta_receipts, meta_events}
     \<Longrightarrow> \<forall>c \<in> set (tab_columns t). ref_ok s c"
proof -
  show "\<forall>c \<in> set (tab_columns meta_tenants). ref_ok s c" by (simp add: meta_tenants_def column_defs ref_ok_def)
  show "\<forall>c \<in> set (tab_columns meta_intents). ref_ok s c" if "meta_tenants \<in> set (sc_tables s)"
  proof -
    have "\<exists>tab \<in> set (sc_tables s). tab_name tab = ''tenants''
        \<and> (\<exists>c' \<in> set (tab_columns tab). col_name c' = ''tenant_id'' \<and> (col_primary c' \<or> col_unique c'))"
      by (rule bexI [OF _ that]) (simp add: meta_tenants_def column_defs)
    then show ?thesis by (simp add: meta_intents_def column_defs ref_ok_def)
  qed
  show "\<forall>c \<in> set (tab_columns t). ref_ok s c" if "meta_intents \<in> set (sc_tables s)" "t \<in> {meta_attempts, meta_receipts, meta_events}"
  proof -
    have "\<exists>tab \<in> set (sc_tables s). tab_name tab = ''effect_intents''
        \<and> (\<exists>c' \<in> set (tab_columns tab). col_name c' = ''effect_id'' \<and> (col_primary c' \<or> col_unique c'))"
      by (rule bexI [OF _ that(1)]) (simp add: meta_intents_def column_defs)
    moreover have "\<forall>c \<in> set (tab_columns t). col_ref c = None \<or> col_ref c = Some (''effect_intents'', ''effect_id'', ''CASCADE'')"
      using that(2) by (elim insertE emptyE) (simp_all add: meta_attempts_def meta_receipts_def meta_events_def column_defs)
    ultimately show ?thesis unfolding ref_ok_def by fastforce
  qed
qed

lemmas leaf_refs = meta_refs(3) [of _ meta_attempts, simplified] meta_refs(3) [of _ meta_receipts, simplified]
  meta_refs(3) [of _ meta_events, simplified]

text \<open>Names that are not there.\<close>

lemma unused_names:
  assumes "unused s" and "n \<in> our_tables \<union> our_indexes"
  shows "n \<notin> table_names s" "n \<notin> idx_name ` set (sc_indexes s)"
  using assms by (auto simp: unused_def)

lemma create_table_run:
  assumes "tab_name t \<notin> table_names s" and "tab_name t \<notin> idx_name ` set (sc_indexes s)"
    and "\<forall>c \<in> set (tab_columns t). ref_ok s c"
  shows "run_ddl (CreateTable t) s = Inr (s\<lparr>sc_tables := sc_tables s @ [t]\<rparr>)"
  using assms by (simp add: refuse_def)

lemma create_index_run:
  assumes "idx_name i \<notin> table_names s" and "idx_name i \<notin> idx_name ` set (sc_indexes s)"
    and "\<exists>t \<in> set (sc_tables s). tab_name t = idx_table i \<and> set (idx_columns i) \<subseteq> col_name ` set (tab_columns t)"
  shows "run_ddl (CreateIndex i) s = Inr (s\<lparr>sc_indexes := sc_indexes s @ [i]\<rparr>)"
  using assms by (auto simp: refuse_def)

lemma refers_meta [simp]:
  "\<not> refers n meta_tenants" "refers n meta_intents \<longleftrightarrow> n = ''tenants''"
  "refers n meta_attempts \<longleftrightarrow> n = ''effect_intents''" "refers n meta_receipts \<longleftrightarrow> n = ''effect_intents''"
  "refers n meta_events \<longleftrightarrow> n = ''effect_intents''"
  by (auto simp: refers_def meta_defs column_defs)

lemma not_image: "n \<notin> f ` set xs \<Longrightarrow> filter (\<lambda>x. f x \<noteq> n) xs = xs"
  by (auto intro!: filter_True)

text \<open>What an unused database lacks, name by name.\<close>

lemma unused_facts:
  assumes "unused s"
  shows "\<forall>n \<in> our_tables \<union> our_indexes. n \<notin> table_names s \<and> n \<notin> idx_name ` set (sc_indexes s)"
    and "\<forall>n \<in> our_tables. n \<notin> idx_table ` set (sc_indexes s) \<and> n \<notin> (\<lambda>g. fst (snd g)) ` set (sc_triggers s)
      \<and> \<not> (\<exists>t \<in> set (sc_tables s). refers n t)"
    and "''effect_receipts_no_update'' \<notin> fst ` set (sc_functions s)"
    and "\<not> (\<exists>g \<in> set (sc_triggers s). fst (snd (snd g)) = ''effect_receipts_no_update'')"
  using assms by (auto simp: unused_def)

lemmas unused_simps = unused_facts [unfolded our_tables_def our_indexes_def, simplified]

lemma replace_absent: "n \<notin> fst ` set fs \<Longrightarrow> map (\<lambda>g. if fst g = n then (n, b) else g) fs = fs"
  by (rule map_idI) auto

lemma drop_own_trigger:
  "''effect_receipts'' \<notin> (\<lambda>g. fst (snd g)) ` set xs \<Longrightarrow>
     filter (\<lambda>g. fst g = ''trg_effect_receipts_no_update'' \<longrightarrow> fst (snd g) \<noteq> ''effect_receipts'') xs = xs
     \<and> \<not> (\<exists>g \<in> set xs. fst g = ''trg_effect_receipts_no_update'' \<and> fst (snd g) = ''effect_receipts'')"
proof -
  assume none: "''effect_receipts'' \<notin> (\<lambda>g. fst (snd g)) ` set xs"
  have "fst (snd g) \<noteq> ''effect_receipts''" if "g \<in> set xs" for g
  proof
    assume "fst (snd g) = ''effect_receipts''"
    with none imageI [OF that, of "\<lambda>g. fst (snd g)"] show False by simp
  qed
  then show ?thesis by (auto intro!: filter_True)
qed

section \<open>The migration, statement by statement\<close>

lemma upgrade_run:
  assumes "unused s"
  shows "run_ddls upgrade s = Inr (our_schema s meta_tables meta_indexes)"
  using unused_simps [OF assms] meta_columns drop_own_trigger [of "sc_triggers s"]
  by (simp add: refuse_def our_schema_def meta_tables_def meta_indexes_def upgrade_statements create_table_run
      create_index_run meta_refs(1,2) leaf_refs del: run_ddl.simps(1,2))

lemma downgrade_run:
  assumes "unused s"
  shows "run_ddls downgrade (our_schema s meta_tables meta_indexes) = Inr s"
  using unused_simps [OF assms] drop_own_trigger [of "sc_triggers s"]
  by (simp add: downgrade_def refuse_def our_schema_def meta_tables_def meta_indexes_def not_image)

section \<open>\<open>create_schema\<close>\<close>

definition indexes_of :: "table_def \<Rightarrow> index_def list" where
  "indexes_of t = filter (\<lambda>i. idx_table i = tab_name t) meta_indexes"

abbreviation leaves :: "table_def list" where
  "leaves \<equiv> [meta_attempts, meta_receipts, meta_events]"

text \<open>The orders in which every table comes after those it refers to.\<close>

definition creation_order :: "table_def list \<Rightarrow> bool" where
  "creation_order order \<longleftrightarrow> take 2 order = [meta_tenants, meta_intents] \<and> mset (drop 2 order) = mset leaves"

lemma meta_distinct [simp]: "distinct (map tab_name meta_tables)"
  by (simp add: meta_tables_def)

lemma indexes_of_meta [simp]:
  "indexes_of meta_tenants = []" "indexes_of meta_intents = [ix_status_lease, ix_tenant]"
  "indexes_of meta_attempts = [ix_attempts]" "indexes_of meta_receipts = [ix_receipts]" "indexes_of meta_events = [ix_events]"
  by (simp_all add: indexes_of_def meta_indexes_def)

lemma create_leaf:
  assumes "t \<in> set leaves" and "meta_intents \<in> set (sc_tables u)"
    and "tab_name t \<notin> table_names u" and "tab_name t \<notin> idx_name ` set (sc_indexes u)"
    and "\<forall>i \<in> set (indexes_of t). idx_name i \<notin> table_names u \<and> idx_name i \<notin> idx_name ` set (sc_indexes u)"
  shows "create_missing t u = Inr (u\<lparr>sc_tables := sc_tables u @ [t], sc_indexes := sc_indexes u @ indexes_of t\<rparr>)"
proof -
  have refs: "\<forall>c \<in> set (tab_columns t). ref_ok u c" using assms(1,2) meta_refs(3) [of u t] by simp
  show ?thesis
    using assms(1,3-5) refs meta_columns unfolding create_missing_def indexes_of_def [symmetric]
    by (elim set_ConsD [elim_format] disjE)
      (simp_all add: create_table_run create_index_run del: run_ddl.simps(1,2))
qed

lemma leaves_apart:
  assumes "t \<in> set leaves" and "t' \<in> set leaves" and "tab_name t \<noteq> tab_name t'"
  shows "tab_name t \<notin> idx_name ` set (indexes_of t')"
    and "i \<in> set (indexes_of t) \<Longrightarrow> idx_name i \<noteq> tab_name t' \<and> idx_name i \<notin> idx_name ` set (indexes_of t')"
  using assms by auto

definition creatable :: "schema \<Rightarrow> table_def \<Rightarrow> bool" where
  "creatable u t \<longleftrightarrow> tab_name t \<notin> table_names u \<and> tab_name t \<notin> idx_name ` set (sc_indexes u)
     \<and> (\<forall>i \<in> set (indexes_of t). idx_name i \<notin> table_names u \<and> idx_name i \<notin> idx_name ` set (sc_indexes u))"

lemma create_leaves:
  assumes "set ts \<subseteq> set leaves" and "distinct (map tab_name ts)" and "meta_intents \<in> set (sc_tables u)"
    and "\<forall>t \<in> set ts. creatable u t"
  shows "create_all ts u = Inr (u\<lparr>sc_tables := sc_tables u @ ts, sc_indexes := sc_indexes u @ concat (map indexes_of ts)\<rparr>)"
  using assms
proof (induction ts arbitrary: u)
  case (Cons t ts)
  let ?u = "u\<lparr>sc_tables := sc_tables u @ [t], sc_indexes := sc_indexes u @ indexes_of t\<rparr>"
  have t: "t \<in> set leaves" using Cons.prems(1) by simp
  have first: "create_missing t u = Inr ?u"
    by (rule create_leaf [OF t Cons.prems(3)]) (use Cons.prems(4) in \<open>simp_all add: creatable_def\<close>)
  have "creatable ?u t'" if t': "t' \<in> set ts" for t'
  proof -
    have "t' \<in> set leaves" "tab_name t' \<noteq> tab_name t" using Cons.prems(1,2) t' imageI [OF t', of tab_name] by auto
    note apart = leaves_apart [OF this(1) t this(2)]
    have "creatable u t'" using Cons.prems(4) t' by simp
    with apart \<open>tab_name t' \<noteq> tab_name t\<close> show ?thesis by (auto simp: creatable_def)
  qed
  then have "create_all ts ?u = Inr (?u\<lparr>sc_tables := sc_tables ?u @ ts, sc_indexes := sc_indexes ?u @ concat (map indexes_of ts)\<rparr>)"
    by (intro Cons.IH) (use Cons.prems in simp_all)
  with first show ?case by simp
qed simp

lemma create_all_run:
  assumes s: "unused s" and order: "creation_order order"
  shows "create_all order s = Inr (s\<lparr>sc_tables := sc_tables s @ order, sc_indexes := sc_indexes s @ concat (map indexes_of order)\<rparr>)"
proof -
  let ?rest = "drop 2 order"
  have shape: "order = meta_tenants # meta_intents # ?rest"
    using order append_take_drop_id [of 2 order] by (simp add: creation_order_def)
  have rest: "mset ?rest = mset leaves" using order by (simp add: creation_order_def)
  then have "set ?rest = set leaves" using mset_eq_setD by blast
  moreover have "distinct (map tab_name ?rest)"
  proof -
    have "mset (map tab_name ?rest) = mset (map tab_name leaves)" using rest by (simp add: mset_map)
    then show ?thesis using mset_eq_imp_distinct_iff by (metis (no_types) meta_distinct distinct.simps(2) meta_tables_def list.map)
  qed
  moreover let ?u = "s\<lparr>sc_tables := sc_tables s @ [meta_tenants, meta_intents], sc_indexes := sc_indexes s @ [ix_status_lease, ix_tenant]\<rparr>"
  have "creatable ?u t" if "t \<in> set leaves" for t
    using that unused_simps [OF s] by (elim set_ConsD [elim_format] disjE) (simp_all add: creatable_def image_Un)
  ultimately have "create_all ?rest ?u = Inr (?u\<lparr>sc_tables := sc_tables ?u @ ?rest,
      sc_indexes := sc_indexes ?u @ concat (map indexes_of ?rest)\<rparr>)"
    by (intro create_leaves) simp_all
  moreover have "create_missing meta_tenants s = Inr (s\<lparr>sc_tables := sc_tables s @ [meta_tenants]\<rparr>)"
    using unused_simps [OF s] unfolding create_missing_def indexes_of_def [symmetric]
    by (simp add: create_table_run meta_refs(1) del: run_ddl.simps(1,2))
  moreover have "create_missing meta_intents (s\<lparr>sc_tables := sc_tables s @ [meta_tenants]\<rparr>) = Inr ?u"
    using unused_simps [OF s] meta_columns unfolding create_missing_def indexes_of_def [symmetric]
    by (simp add: create_table_run create_index_run meta_refs(2) del: run_ddl.simps(1,2))
  ultimately show ?thesis by (subst shape, subst (2 3) shape) simp
qed

lemma create_all_present: "\<forall>t \<in> set ts. tab_name t \<in> table_names u \<Longrightarrow> create_all ts u = Inr u"
  by (induction ts) (simp_all add: create_missing_def)

lemma creation_order_mset:
  assumes "creation_order order"
  shows "mset order = mset meta_tables" "mset (concat (map indexes_of order)) = mset meta_indexes"
proof -
  have shape: "order = [meta_tenants, meta_intents] @ drop 2 order" "mset (drop 2 order) = mset leaves"
    using assms append_take_drop_id [of 2 order] by (simp_all add: creation_order_def)
  from arg_cong [OF shape(1), of mset] have "mset order = mset [meta_tenants, meta_intents] + mset (drop 2 order)"
    by (simp only: mset_append)
  then show order: "mset order = mset meta_tables" by (simp add: shape(2) meta_tables_def)
  have "mset (concat (map indexes_of order)) = sum_mset (image_mset (\<lambda>t. mset (indexes_of t)) (mset order))"
    by (simp add: mset_concat comp_def sum_mset_sum_list [symmetric])
  also have "\<dots> = mset meta_indexes" unfolding order by (simp add: meta_tables_def meta_indexes_def)
  finally show "mset (concat (map indexes_of order)) = mset meta_indexes" .
qed

text \<open>
  C35. The two ways to the Postgres schema agree. On a database that does not use their names the
  migration's \<open>upgrade\<close> and \<open>create_schema\<close>, whatever order \<open>create_all\<close> visits the tables in, both succeed and
  leave the same tables (columns, types, defaults, keys), indexes, trigger function (with its body) and trigger (with its event) beside what was there;
  \<open>downgrade\<close> then restores the database as it was; and running \<open>create_schema\<close> again, in any order, changes
  nothing.
\<close>

theorem schema_agrees:
  assumes "unused s" and "creation_order order" and "creation_order order'"
  shows "\<exists>up created. run_ddls upgrade s = Inr up \<and> create_schema order False s = Inr created
    \<and> same_schema up created \<and> run_ddls downgrade up = Inr s \<and> create_schema order' False created = Inr created
    \<and> set meta_tables \<subseteq> set (sc_tables up) \<and> set (sc_tables s) \<subseteq> set (sc_tables up)"
proof -
  let ?v = "s\<lparr>sc_tables := sc_tables s @ order, sc_indexes := sc_indexes s @ concat (map indexes_of order)\<rparr>"
  let ?created = "our_schema s order (concat (map indexes_of order))"
  note mset = creation_order_mset [OF assms(2)]
  have tables: "set order = set meta_tables" "set order' = set meta_tables"
    using mset_eq_setD creation_order_mset(1) assms(2,3) by blast+
  then have "meta_receipts \<in> set order" by (simp add: meta_tables_def)
  then have receipts: "''effect_receipts'' \<in> tab_name ` set order" by force
  have first: "create_schema order False s = Inr ?created"
    using create_all_run [OF assms(1,2)] unused_simps [OF assms(1)] drop_own_trigger [of "sc_triggers s"] receipts
    by (simp add: create_schema_def receipt_immutability_sql_def refuse_def our_schema_def image_Un)
  have "create_all order' ?created = Inr ?created"
    by (rule create_all_present) (use tables in \<open>auto simp: our_schema_def\<close>)
  then have "create_schema order' False ?created = Inr ?created"
    using unused_simps [OF assms(1)] drop_own_trigger [of "sc_triggers s"] receipts
    by (simp add: replace_absent create_schema_def receipt_immutability_sql_def refuse_def our_schema_def image_Un)
  moreover have "same_schema (our_schema s meta_tables meta_indexes) ?created"
    using mset by (simp add: same_schema_def our_schema_def)
  ultimately show ?thesis
    using upgrade_run [OF assms(1)] downgrade_run [OF assms(1)] first by (auto simp: our_schema_def)
qed

definition other_application :: schema where
  "other_application = \<lparr>sc_tables = [\<lparr>tab_name = ''users'', tab_columns = [primary ''id'' SqlText], tab_constraints = []\<rparr>],
     sc_indexes = [], sc_functions = [], sc_triggers = []\<rparr>"

theorem schema_agrees_witness:
  "\<exists>up. run_ddls upgrade other_application = Inr up \<and> run_ddls downgrade up = Inr other_application
     \<and> (\<exists>created. create_schema meta_tables False other_application = Inr created \<and> same_schema up created)"
proof -
  have "unused other_application"
    by (simp add: other_application_def unused_def our_tables_def our_indexes_def refers_def column_defs)
  moreover have "creation_order meta_tables" by (simp add: creation_order_def meta_tables_def)
  ultimately show ?thesis using schema_agrees [of other_application meta_tables meta_tables] by blast
qed

text \<open>The migration connects with the same driver prefix as the store.\<close>

lemma migration_url_agrees:
  "database_url env opt = (case env_or (env ''EFFECT_BROKER_TEST_DSN'') (env_or (env ''EFFECT_BROKER_POSTGRES_DSN'')
      (env_or (env ''DATABASE_URL'') opt)) of None \<Rightarrow> Inl (PyError ''AttributeError'') | Some url \<Rightarrow> Inr (async_dsn url))"
  by (simp add: database_url_def async_dsn_def Let_def split: option.split)

end
