(* ===== verification/Recovery_Steps.thy ===== *)
theory Recovery_Steps
  imports Process_Refinement
begin

text \<open>
  Recovery processes that run at the same time (\<open>examples/crash_matrix/runner.py\<close>, \<open>recover_one\<close>).

  A recovery reads one effect and reconciles it. Between two of its calls of the ledger or of the target
  any other process may run, so \<open>stage\<close> names the places between two calls and \<open>stage_step\<close> is the code
  from one to the next, one call at a time. \<open>agent\<close> is a process, with the clock and the metrics of its
  own; \<open>turn\<close> lets one of them take a step on the ledger and the target they share, and a schedule, any
  list of turns, is any interleaving.

  The lemmas: the steps of a process that is not interrupted are \<open>recover_one\<close> itself; a process ends
  after five of its own turns, whatever the others do.
\<close>

definition recover_one ::
  "'s store_ops \<Rightarrow> 'w adapter_for \<Rightarrow> string \<Rightarrow> string \<Rightarrow> ('s, 'w, effect_record) process" where
  "recover_one ops adapters tenant eid = (\<lambda>s. case get_op ops tenant eid (ledger s) of
     None \<Rightarrow> (Inl (PyError ''AssertionError''), s)
   | Some r \<Rightarrow> reconcile_once ops adapters r s)"

section \<open>The places between two calls\<close>

datatype stage =
    Opening
  | Routing effect_record
  | Starting effect_record
  | Calling effect_record string
  | Reporting effect_record string "error + dispatch_result"
  | Probing effect_record
  | Deciding effect_record probe_result
  | Ended "error + effect_record"

definition ending :: "('s, 'w, effect_record) process \<Rightarrow> ('s, 'w, stage) process" where
  "ending m = and_then m (\<lambda>r. ret (Ended (Inr r)))"

fun stage_step ::
  "'s store_ops \<Rightarrow> 'w adapter_for \<Rightarrow> string \<Rightarrow> string \<Rightarrow> stage \<Rightarrow> ('s, 'w, stage) process" where
  "stage_step ops adapters tenant eid Opening = (\<lambda>s. case get_op ops tenant eid (ledger s) of
     None \<Rightarrow> (Inl (PyError ''AssertionError''), s)
   | Some r \<Rightarrow> (Inr (Routing r), s))"
| "stage_step ops adapters tenant eid (Routing r) =
     (let route = route_unknown (safety (contract r))
      in if route = DISPATCHING then
           and_then read_env (\<lambda>e1.
           and_then (measure_with (record_retention_remaining (env_now e1) r)) (\<lambda>_.
           and_then read_env (\<lambda>e2.
           if \<not> key_retention_valid (env_now e2) r
           then ending (to_operator ops r ''retention_expired'' ''idempotency_key_retention_expired'')
           else and_then
             (transition_and_record ops r DISPATCHING [(VStr ''reason'', VStr ''idempotent_redispatch'')])
             (\<lambda>d. ret (Starting d)))))
         else if route = RECONCILING then
           and_then (transition_and_record ops r RECONCILING [(VStr ''reason'', VStr ''authoritative_probe'')])
             (\<lambda>q. ret (Probing q))
         else ending (to_operator ops r ''unsafe_unknown'' ''unsafe_unknown''))"
| "stage_step ops adapters tenant eid (Starting d) =
     and_then read_env (\<lambda>e.
     and_then (on_ledger (start_op ops e (effect_id d) (version d) ''reconciler'')) (\<lambda>aid.
     ret (Calling d aid)))"
| "stage_step ops adapters tenant eid (Calling d aid) =
     and_then (measure_with (record_dispatch_attempt d)) (\<lambda>_.
     and_then (raise_or_return (adapters d)) (\<lambda>a s.
     case observe_latency ''dispatch'' (on_target (adapter_dispatch a d aid)) s of
       (x, t) \<Rightarrow> (Inr (Reporting d aid x), t)))"
| "stage_step ops adapters tenant eid (Reporting d aid x) =
     ending (case x of Inl err \<Rightarrow> redispatch_failed ops d aid err | Inr res \<Rightarrow> redispatch_answered ops d aid res)"
| "stage_step ops adapters tenant eid (Probing q) =
     and_then (call_probe adapters q) (\<lambda>p. ret (Deciding q p))"
| "stage_step ops adapters tenant eid (Deciding q p) = ending (probe_answered ops q p)"
| "stage_step ops adapters tenant eid (Ended x) = ret (Ended x)"

text \<open>\<open>reconcile_once\<close> measures its latency on the way out, which \<open>Opening\<close> is not yet inside.\<close>

definition closed :: "stage \<Rightarrow> ('s, 'w) world \<Rightarrow> ('s, 'w) world" where
  "closed st s = (case st of Opening \<Rightarrow> s | _ \<Rightarrow> s\<lparr>metrics := count_latency ''reconcile'' (metrics s)\<rparr>)"

definition is_ended :: "stage \<Rightarrow> bool" where
  "is_ended st = (case st of Ended _ \<Rightarrow> True | _ \<Rightarrow> False)"

definition advance_stage ::
  "'s store_ops \<Rightarrow> 'w adapter_for \<Rightarrow> string \<Rightarrow> string \<Rightarrow> stage \<Rightarrow> ('s, 'w) world \<Rightarrow> stage \<times> ('s, 'w) world" where
  "advance_stage ops adapters tenant eid st s =
     (if is_ended st then (st, s)
      else case stage_step ops adapters tenant eid st s of
        (Inl x, t) \<Rightarrow> (Ended (Inl x), closed st t)
      | (Inr st', t) \<Rightarrow> (st', if is_ended st' then closed st t else t))"

section \<open>Without interruption, the steps are the function\<close>

text \<open>What is left of \<open>recover_one\<close> at each place.\<close>

fun remaining ::
  "'s store_ops \<Rightarrow> 'w adapter_for \<Rightarrow> string \<Rightarrow> string \<Rightarrow> stage \<Rightarrow> ('s, 'w, effect_record) process" where
  "remaining ops adapters tenant eid Opening = recover_one ops adapters tenant eid"
| "remaining ops adapters tenant eid (Routing r) = reconcile_once ops adapters r"
| "remaining ops adapters tenant eid (Starting d) = observe_latency ''reconcile''
     (and_then read_env (\<lambda>e.
      and_then (on_ledger (start_op ops e (effect_id d) (version d) ''reconciler'')) (\<lambda>aid.
      and_then (measure_with (record_dispatch_attempt d)) (\<lambda>_. redispatch_with ops adapters d aid))))"
| "remaining ops adapters tenant eid (Calling d aid) = observe_latency ''reconcile''
     (and_then (measure_with (record_dispatch_attempt d)) (\<lambda>_. redispatch_with ops adapters d aid))"
| "remaining ops adapters tenant eid (Reporting d aid x) = observe_latency ''reconcile''
     (case x of Inl err \<Rightarrow> redispatch_failed ops d aid err | Inr res \<Rightarrow> redispatch_answered ops d aid res)"
| "remaining ops adapters tenant eid (Probing q) = observe_latency ''reconcile''
     (and_then (call_probe adapters q) (probe_answered ops q))"
| "remaining ops adapters tenant eid (Deciding q p) = observe_latency ''reconcile'' (probe_answered ops q p)"
| "remaining ops adapters tenant eid (Ended x) = (\<lambda>s. (x, s))"

lemma ending_run: "ending m s = (case m s of (Inl x, t) \<Rightarrow> (Inl x, t) | (Inr r, t) \<Rightarrow> (Inr (Ended (Inr r)), t))"
  by (simp add: ending_def and_then_def split: prod.split sum.split)

lemma is_ended_simps [simp]:
  "is_ended (Ended x)" "\<not> is_ended Opening" "\<not> is_ended (Routing r)" "\<not> is_ended (Starting d)"
  "\<not> is_ended (Calling d aid)" "\<not> is_ended (Reporting d aid y)" "\<not> is_ended (Probing q)" "\<not> is_ended (Deciding q p)"
  by (simp_all add: is_ended_def)

lemma closed_inside: "st \<noteq> Opening \<Longrightarrow> closed st s = s\<lparr>metrics := count_latency ''reconcile'' (metrics s)\<rparr>"
  by (simp add: closed_def split: stage.split)

text \<open>One step, then the rest, is the rest from before.\<close>

lemma remaining_ending:
  assumes "stage_step ops adapters tenant eid st = ending m" and "\<not> is_ended st" and "st \<noteq> Opening"
    and "remaining ops adapters tenant eid st = observe_latency ''reconcile'' m"
    and "advance_stage ops adapters tenant eid st s = (st', t)"
  shows "remaining ops adapters tenant eid st' t = remaining ops adapters tenant eid st s"
  using assms(2,3,5) unfolding assms(1,4) advance_stage_def ending_run closed_def observe_latency_def
  by (cases st; auto simp: assms(1) ending_run split: prod.splits sum.splits)

lemma remaining_then:
  assumes "stage_step ops adapters tenant eid st s = and_then m (\<lambda>y. ret (next_stage y)) u"
    and "st \<noteq> Opening" and "\<not> is_ended st"
    and "\<And>y. \<not> is_ended (next_stage y)"
    and "remaining ops adapters tenant eid st s = observe_latency ''reconcile'' (and_then m f) u"
    and "\<And>y. remaining ops adapters tenant eid (next_stage y) = observe_latency ''reconcile'' (f y)"
    and "advance_stage ops adapters tenant eid st s = (st', t)"
  shows "remaining ops adapters tenant eid st' t = remaining ops adapters tenant eid st s"
proof (cases "m u")
  case (Pair x v)
  with assms show ?thesis
    by (cases x) (auto simp: advance_stage_def and_then_def observe_latency_def closed_inside)
qed

lemma remaining_routing:
  assumes "advance_stage ops adapters tenant eid (Routing r) s = (st', t)"
  shows "remaining ops adapters tenant eid st' t = remaining ops adapters tenant eid (Routing r) s"
proof -
  let ?u = "s\<lparr>metrics := record_retention_remaining (env_now (envs s (ticks s))) r (metrics s), ticks := Suc (Suc (ticks s))\<rparr>"
  consider (dispatch) "route_unknown (safety (contract r)) = DISPATCHING"
    | (probe) "route_unknown (safety (contract r)) = RECONCILING"
    | (operator) "route_unknown (safety (contract r)) \<notin> {DISPATCHING, RECONCILING}" by blast
  then show ?thesis
  proof cases
    case operator
    show ?thesis
      by (rule remaining_ending [OF _ _ _ _ assms]) (use operator in \<open>simp_all add: reconcile_once_def reconcile_body_def\<close>)
  next
    case probe
    show ?thesis
      by (rule remaining_then [OF _ _ _ _ _ _ assms, where u = s and next_stage = Probing
          and f = "\<lambda>q. and_then (call_probe adapters q) (probe_answered ops q)"])
        (use probe in \<open>simp_all add: reconcile_once_def reconcile_body_def probe_target_def\<close>)
  next
    case dispatch
    show ?thesis
    proof (cases "key_retention_valid (env_now (envs s (Suc (ticks s)))) r")
      case True
      show ?thesis
        by (rule remaining_then [OF _ _ _ _ _ _ assms, where u = ?u and next_stage = Starting])
          (use dispatch True in \<open>simp_all add: reconcile_once_def reconcile_body_def redispatch_def run_simps
            and_then_def observe_latency_def\<close>)
    next
      case False
      with dispatch have step: "stage_step ops adapters tenant eid (Routing r) s =
          ending (to_operator ops r ''retention_expired'' ''idempotency_key_retention_expired'') ?u"
        by (simp add: and_then_def run_simps)
      have rest: "remaining ops adapters tenant eid (Routing r) s = observe_latency ''reconcile''
          (to_operator ops r ''retention_expired'' ''idempotency_key_retention_expired'') ?u"
        using dispatch False by (simp add: reconcile_once_def reconcile_body_def run_simps and_then_def observe_latency_def)
      show ?thesis using assms unfolding advance_stage_def step rest observe_latency_def ending_run
        by (auto simp: closed_inside split: prod.splits sum.splits)
    qed
  qed
qed

lemma remaining_step:
  assumes "advance_stage ops adapters tenant eid st s = (st', t)"
  shows "remaining ops adapters tenant eid st' t = remaining ops adapters tenant eid st s"
proof (cases st)
  case (Reporting d aid x)
  show ?thesis by (rule remaining_ending [OF _ _ _ _ assms]) (simp_all add: Reporting)
next
  case (Deciding q p)
  show ?thesis by (rule remaining_ending [OF _ _ _ _ assms]) (simp_all add: Deciding)
next
  case Opening
  then show ?thesis using assms
    by (auto simp: advance_stage_def closed_def recover_one_def split: option.splits)
next
  case (Routing r)
  then show ?thesis using remaining_routing assms by simp
next
  case (Starting d)
  then show ?thesis using assms
    by (auto simp: advance_stage_def closed_def and_then_def run_simps observe_latency_def
        split: prod.splits sum.splits)
next
  case (Calling d aid)
  then show ?thesis using assms
    by (auto simp: advance_stage_def closed_def and_then_def run_simps observe_latency_def redispatch_with_def
        redispatch_call_def try_else_def split: prod.splits sum.splits)
next
  case (Probing q)
  then show ?thesis using assms
    by (auto simp: advance_stage_def closed_def and_then_def run_simps observe_latency_def
        split: prod.splits sum.splits)
next
  case (Ended x)
  then show ?thesis using assms by (simp add: advance_stage_def)
qed

section \<open>A process ends\<close>

fun rank :: "stage \<Rightarrow> nat" where
  "rank Opening = 5"
| "rank (Routing r) = 4"
| "rank (Starting d) = 3"
| "rank (Calling d aid) = 2"
| "rank (Probing q) = 2"
| "rank (Reporting d aid x) = 1"
| "rank (Deciding q p) = 1"
| "rank (Ended x) = 0"

lemma rank_step: "advance_stage ops adapters tenant eid st s = (st', t) \<Longrightarrow> rank st' \<le> rank st - 1"
  by (cases st) (auto simp: advance_stage_def Let_def and_then_def run_simps ending_run
      split: prod.splits sum.splits if_splits option.splits)

lemma rank_ended: "rank st = 0 \<longleftrightarrow> is_ended st"
  by (cases st) simp_all

text \<open>Five steps of its own, and nobody else's, are the whole function.\<close>

lemma stages_whole:
  assumes "recover_one ops adapters tenant eid s = (x, t)"
  shows "((\<lambda>(st, u). advance_stage ops adapters tenant eid st u) ^^ 5) (Opening, s) = (Ended x, t)"
proof -
  let ?step = "\<lambda>(st, u). advance_stage ops adapters tenant eid st u"
  have kept: "(case (?step ^^ n) (Opening, s) of (st, u) \<Rightarrow> remaining ops adapters tenant eid st u = (x, t)
      \<and> rank st \<le> 5 - n)" for n
  proof (induction n)
    case (Suc n)
    obtain st u where st: "(?step ^^ n) (Opening, s) = (st, u)" by (cases "(?step ^^ n) (Opening, s)")
    obtain st' u' where step: "advance_stage ops adapters tenant eid st u = (st', u')"
      by (cases "advance_stage ops adapters tenant eid st u")
    from Suc st remaining_step [OF step] rank_step [OF step] show ?case by (auto simp: step)
  qed (simp add: assms)
  obtain st u where st: "(?step ^^ 5) (Opening, s) = (st, u)" by (cases "(?step ^^ 5) (Opening, s)")
  with kept [of 5] have "remaining ops adapters tenant eid st u = (x, t)" "rank st = 0" by simp_all
  with rank_ended [of st] have "st = Ended x" "u = t" by (cases st; simp)+
  with st show ?thesis by simp
qed

section \<open>Several processes on one ledger and one target\<close>

record agent =
  agent_stage :: stage
  agent_metrics :: metrics
  agent_envs :: "nat \<Rightarrow> env"
  agent_ticks :: nat

record ('s, 'w) site =
  site_ledger :: 's
  site_target :: 'w
  agents :: "agent list"

definition new_agent :: "(nat \<Rightarrow> env) \<Rightarrow> agent" where
  "new_agent es = \<lparr>agent_stage = Opening, agent_metrics = reset_for_tests, agent_envs = es, agent_ticks = 0\<rparr>"

definition agent_world :: "('s, 'w) site \<Rightarrow> agent \<Rightarrow> ('s, 'w) world" where
  "agent_world m a = \<lparr>ledger = site_ledger m, target = site_target m, metrics = agent_metrics a,
     envs = agent_envs a, ticks = agent_ticks a\<rparr>"

definition turn ::
  "'s store_ops \<Rightarrow> 'w adapter_for \<Rightarrow> string \<Rightarrow> string \<Rightarrow> nat \<Rightarrow> ('s, 'w) site \<Rightarrow> ('s, 'w) site" where
  "turn ops adapters tenant eid i m =
     (if i < length (agents m) then
        case advance_stage ops adapters tenant eid (agent_stage (agents m ! i)) (agent_world m (agents m ! i)) of
          (st, t) \<Rightarrow> \<lparr>site_ledger = ledger t, site_target = target t,
            agents = (agents m)[i := (agents m ! i)
              \<lparr>agent_stage := st, agent_metrics := metrics t, agent_ticks := ticks t\<rparr>]\<rparr>
      else m)"

definition run_turns ::
  "'s store_ops \<Rightarrow> 'w adapter_for \<Rightarrow> string \<Rightarrow> string \<Rightarrow> nat list \<Rightarrow> ('s, 'w) site \<Rightarrow> ('s, 'w) site" where
  "run_turns ops adapters tenant eid is m = fold (turn ops adapters tenant eid) is m"

definition stages :: "('s, 'w) site \<Rightarrow> stage list" where
  "stages m = map agent_stage (agents m)"

lemma length_turn [simp]: "length (agents (turn ops adapters tenant eid i m)) = length (agents m)"
  by (simp add: turn_def split: prod.split)

lemma run_turns_simps [simp]:
  "run_turns ops adapters tenant eid [] m = m"
  "run_turns ops adapters tenant eid (i # is) m = run_turns ops adapters tenant eid is (turn ops adapters tenant eid i m)"
  by (simp_all add: run_turns_def)

lemma length_run_turns [simp]: "length (agents (run_turns ops adapters tenant eid is m)) = length (agents m)"
  by (induction "is" arbitrary: m) simp_all

text \<open>Each turn lowers the rank of the process it lets run, and no other.\<close>

lemma rank_turn:
  assumes "j < length (agents m)"
  shows "rank (agent_stage (agents (turn ops adapters tenant eid i m) ! j))
    \<le> rank (agent_stage (agents m ! j)) - (if i = j then 1 else 0)"
  using assms rank_step [of ops adapters tenant eid "agent_stage (agents m ! i)"]
  by (cases "i = j") (auto simp: turn_def nth_list_update split: prod.split)

lemma rank_run_turns:
  assumes "j < length (agents m)"
  shows "rank (agent_stage (agents (run_turns ops adapters tenant eid is m) ! j))
    \<le> rank (agent_stage (agents m ! j)) - count_list is j"
  using assms
proof (induction "is" arbitrary: m)
  case (Cons i js)
  from Cons.IH [of "turn ops adapters tenant eid i m"] rank_turn [OF Cons.prems, of ops adapters tenant eid i] Cons.prems
  show ?case by (auto split: if_splits)
qed simp

end
