(* ===== verification/Crash_Target.thy ===== *)
theory Crash_Target
  imports Simulated Json_Parse
begin

text \<open>
  The durable target of the crash matrix (\<open>examples/crash_matrix/target.py\<close>): an SQLite file of its
  own, with the effects it has committed and a log of the calls it received. \<open>target_commit\<close> is one
  transaction, idempotent by the downstream key. The readings the target makes of the clock are part of
  its state (\<open>target_clock\<close>, consumed in order). \<open>last_call\<close> is the counter of the AUTOINCREMENT column.
\<close>

section \<open>The tables\<close>

record target_row =
  tr_external :: string
  tr_key :: string
  tr_payload :: string
  tr_committed :: string

record call_row =
  cr_id :: nat
  cr_key :: string
  cr_payload :: string
  cr_called :: string

record durable_target =
  target_effects :: "target_row list"
  commit_calls :: "call_row list"
  last_call :: nat
  target_clock :: "nat \<Rightarrow> time"
  clock_reads :: nat

text \<open>\<open>open\<close> on a new file.\<close>

definition open_target :: "(nat \<Rightarrow> time) \<Rightarrow> durable_target" where
  "open_target clock = \<lparr>target_effects = [], commit_calls = [], last_call = 0, target_clock = clock,
     clock_reads = 0\<rparr>"

section \<open>Operations\<close>

definition read_target_clock :: "(durable_target, error, time) prog" where
  "read_target_clock = (\<lambda>w. (Inr (target_clock w (clock_reads w)), w\<lparr>clock_reads := Suc (clock_reads w)\<rparr>))"

definition insert_call :: "string \<Rightarrow> string \<Rightarrow> string \<Rightarrow> (durable_target, error, unit) prog" where
  "insert_call key payload called = modify (\<lambda>w. w\<lparr>last_call := Suc (last_call w),
     commit_calls := commit_calls w @
       [\<lparr>cr_id = Suc (last_call w), cr_key = key, cr_payload = payload, cr_called = called\<rparr>]\<rparr>)"

definition select_target :: "string \<Rightarrow> durable_target \<Rightarrow> target_row option" where
  "select_target key w = find (\<lambda>row. tr_key row = key) (target_effects w)"

text \<open>\<open>external_id\<close> is the primary key, \<open>downstream_key\<close> is unique.\<close>

definition insert_target :: "target_row \<Rightarrow> (durable_target, error, unit) prog" where
  "insert_target row = (\<lambda>w.
     if \<exists>old \<in> set (target_effects w). tr_external old = tr_external row \<or> tr_key old = tr_key row
     then (Inl (PyError ''IntegrityError''), w)
     else (Inr (), w\<lparr>target_effects := target_effects w @ [row]\<rparr>))"

definition next_id :: "durable_target \<Rightarrow> nat" where
  "next_id w = length (target_effects w) + 1"

text \<open>\<open>BEGIN IMMEDIATE\<close> ... \<open>COMMIT\<close>, with \<open>ROLLBACK\<close> on an exception.\<close>

definition target_transaction :: "(durable_target, error, 'a) prog \<Rightarrow> (durable_target, error, 'a) prog" where
  "target_transaction m = (\<lambda>w. case m w of (Inl x, _) \<Rightarrow> (Inl x, w) | (Inr y, v) \<Rightarrow> (Inr y, v))"

definition commit_body :: "string \<Rightarrow> string \<Rightarrow> string \<Rightarrow> (durable_target, error, string) prog" where
  "commit_body key payload now =
     and_then (insert_call key payload now) (\<lambda>_ w.
     case select_target key w of
       Some row \<Rightarrow> (Inr (tr_external row), w)
     | None \<Rightarrow>
         let ext = charge_name (next_id w)
         in and_then
              (insert_target \<lparr>tr_external = ext, tr_key = key, tr_payload = payload, tr_committed = now\<rparr>)
              (\<lambda>_. ret ext) w)"

definition target_commit :: "string \<Rightarrow> json_object \<Rightarrow> (durable_target, error, string) prog" where
  "target_commit key payload =
     and_then read_target_clock (\<lambda>now.
     case canonical_json (VDict payload) of
       Inl x \<Rightarrow> throw x
     | Inr payload_json \<Rightarrow> target_transaction (commit_body key payload_json (isoformat now)))"

definition target_count :: "string \<Rightarrow> durable_target \<Rightarrow> nat" where
  "target_count key w = length (filter (\<lambda>row. tr_key row = key) (target_effects w))"

definition commit_call_count :: "string \<Rightarrow> durable_target \<Rightarrow> nat" where
  "commit_call_count key w = length (filter (\<lambda>c. cr_key c = key) (commit_calls w))"

definition target_probe :: "string \<Rightarrow> durable_target \<Rightarrow> probe_result" where
  "target_probe key w = (case select_target key w of
     None \<Rightarrow> \<lparr>probe_state = NOT_COMMITTED, probe_external_id = None, probe_output = None,
       evidence = [(VStr ''downstream_key'', VStr key)]\<rparr>
   | Some row \<Rightarrow> \<lparr>probe_state = COMMITTED, probe_external_id = Some (tr_external row),
       probe_output = Some [(VStr ''external_id'', VStr (tr_external row))],
       evidence = [(VStr ''downstream_key'', VStr key)]\<rparr>)"

definition decode_payload :: "string \<Rightarrow> error + pyval" where
  "decode_payload payload_json = json_loads payload_json"

section \<open>The adapter\<close>

definition commit_payload :: "effect_record \<Rightarrow> json_object" where
  "commit_payload r = [(VStr ''request_hash'', VStr (req_hash r)),
     (VStr ''arguments'', VDict (arguments (request r)))]"

definition durable_dispatch :: "effect_record \<Rightarrow> string \<Rightarrow> (durable_target, error, dispatch_result) prog" where
  "durable_dispatch r aid =
     and_then (target_commit (down_key r) (commit_payload r)) (\<lambda>ext.
     ret \<lparr>external_id = Some ext, result_output = [(VStr ''external_id'', VStr ext)], committed = True\<rparr>)"

definition durable_probe :: "effect_record \<Rightarrow> (durable_target, error, probe_result) prog" where
  "durable_probe r = (\<lambda>w.
     if safety (contract r) = UNSAFE then
       (Inr \<lparr>probe_state = UNKNOWN, probe_external_id = None, probe_output = None,
         evidence = [(VStr ''reason'', VStr ''unsafe target has no authoritative lookup'')]\<rparr>, w)
     else
       let p = target_probe (down_key r) w
       in if probe_state p = NOT_COMMITTED \<and> safety (contract r) = IDEMPOTENT then
            (Inr \<lparr>probe_state = UNKNOWN, probe_external_id = None, probe_output = None,
              evidence = [(VStr ''reason'', VStr ''idempotent recovery redispatches by key'')]\<rparr>, w)
          else (Inr p, w))"

definition durable_adapter :: "effect_contract \<Rightarrow> durable_target adapter" where
  "durable_adapter c = \<lparr>adapter_contract = c, adapter_dispatch = durable_dispatch, adapter_probe = durable_probe\<rparr>"

section \<open>The target's invariant\<close>

text \<open>The ids are numbered in the order of the commits, the keys are distinct; so are the calls.\<close>

definition target_ok :: "durable_target \<Rightarrow> bool" where
  "target_ok w \<longleftrightarrow> map tr_external (target_effects w) = map charge_name [1..<next_id w]
     \<and> distinct (map tr_key (target_effects w)) \<and> map cr_id (commit_calls w) = [1..<Suc (last_call w)]"

lemma target_ok_open: "target_ok (open_target clock)"
  by (simp add: target_ok_def open_target_def next_id_def)

lemma target_count_open [simp]: "target_count key (open_target clock) = 0"
  by (simp add: target_count_def open_target_def)

lemma commit_call_count_open [simp]: "commit_call_count key (open_target clock) = 0"
  by (simp add: commit_call_count_def open_target_def)

lemma select_target_None: "select_target key w = None \<longleftrightarrow> target_count key w = 0"
  by (auto simp: select_target_def target_count_def find_None_iff filter_empty_conv)

lemma target_count_le: "target_ok w \<Longrightarrow> target_count key w \<le> 1"
proof -
  have "length (filter (\<lambda>row. tr_key row = key) rows) \<le> 1" if "distinct (map tr_key rows)" for rows :: "target_row list"
    using that
  proof (induction rows)
    case (Cons row rows)
    then have "tr_key row = key \<Longrightarrow> filter (\<lambda>row. tr_key row = key) rows = []"
      by (simp add: filter_empty_conv) (metis image_eqI)
    with Cons show ?case by auto
  qed simp
  then show "target_ok w \<Longrightarrow> target_count key w \<le> 1" by (simp add: target_ok_def target_count_def)
qed

lemma target_count_Some: "target_ok w \<Longrightarrow> select_target key w = Some row \<Longrightarrow> target_count key w = 1"
  using target_count_le [of w key] select_target_None [of key w] by simp

lemma fresh_charge:
  assumes "target_ok w" and "row \<in> set (target_effects w)"
  shows "tr_external row \<noteq> charge_name (next_id w)"
proof
  assume same: "tr_external row = charge_name (next_id w)"
  have "tr_external row \<in> set (map charge_name [1..<next_id w])"
    using assms unfolding target_ok_def by (metis image_eqI list.set_map)
  with same show False by auto
qed

section \<open>What a commit does\<close>

text \<open>
  The state after a commit: one more reading of the clock, one more call, and the effect of the key,
  which is the old one if there was one.
\<close>

lemma target_commit_run:
  assumes ok: "target_ok w" and js: "canonical_json (VDict payload) = Inr payload_json"
  obtains row v where "target_commit key payload w = (Inr (tr_external row), v)" "target_ok v"
    "select_target key v = Some row" "target_count key v = 1"
    "case select_target key w of None \<Rightarrow> target_effects v = target_effects w @ [row]
      | Some old \<Rightarrow> row = old \<and> target_effects v = target_effects w"
    "commit_call_count key v = Suc (commit_call_count key w)"
    "\<And>k. k \<noteq> key \<Longrightarrow> target_count k v = target_count k w \<and> commit_call_count k v = commit_call_count k w"
proof -
  let ?now = "isoformat (target_clock w (clock_reads w))"
  let ?u = "w\<lparr>clock_reads := Suc (clock_reads w), last_call := Suc (last_call w), commit_calls := commit_calls w @
    [\<lparr>cr_id = Suc (last_call w), cr_key = key, cr_payload = payload_json, cr_called = ?now\<rparr>]\<rparr>"
  let ?row = "\<lparr>tr_external = charge_name (next_id w), tr_key = key, tr_payload = payload_json, tr_committed = ?now\<rparr>"
  have u: "target_ok ?u" using ok by (simp add: target_ok_def next_id_def)
  note run = target_commit_def and_then_def read_target_clock_def js target_transaction_def commit_body_def
    insert_call_def modify_def Let_def next_id_def
  show thesis
  proof (cases "select_target key w")
    case (Some old)
    then have same: "select_target key ?u = Some old" by (simp add: select_target_def)
    then have "target_commit key payload w = (Inr (tr_external old), ?u)"
      by (simp add: run)
    then show thesis
      by (rule that [OF _ u same target_count_Some [OF u same]])
        (simp_all add: Some commit_call_count_def target_count_def)
  next
    case None
    let ?v = "?u\<lparr>target_effects := target_effects w @ [?row]\<rparr>"
    have none: "select_target key ?u = None" using None by (simp add: select_target_def)
    have new: "tr_key row \<noteq> key" if "row \<in> set (target_effects w)" for row
      using None that by (auto simp: select_target_def find_None_iff)
    then have ins: "insert_target ?row ?u = (Inr (), ?v)"
      using fresh_charge [OF ok] by (auto simp: insert_target_def)
    have ok': "target_ok ?v" using u new by (auto simp: target_ok_def next_id_def)
    have sel: "select_target key ?v = Some ?row"
    proof -
      have "find (\<lambda>row. tr_key row = key) (rows @ [?row]) = Some ?row"
        if "\<forall>row \<in> set rows. tr_key row \<noteq> key" for rows using that by (induction rows) simp_all
      with new show ?thesis by (simp add: select_target_def)
    qed
    have "target_commit key payload w = (Inr (tr_external ?row), ?v)"
      using ins none by (simp add: run)
    then show thesis
      by (rule that [OF _ ok' sel target_count_Some [OF ok' sel]])
        (simp_all add: None commit_call_count_def target_count_def)
  qed
qed

lemma target_commit_counts:
  assumes ok: "target_ok w" and js: "canonical_json (VDict payload) = Inr payload_json"
  obtains ext v where "target_commit key payload w = (Inr ext, v)" "target_ok v" "target_count key v = 1"
    "commit_call_count key v = Suc (commit_call_count key w)"
proof (rule target_commit_run [OF ok js, of key])
  fix row v
  assume "target_commit key payload w = (Inr (tr_external row), v)" "target_ok v" "target_count key v = 1"
    "commit_call_count key v = Suc (commit_call_count key w)"
  then show thesis by (rule that)
qed

text \<open>The payload column reads back as the payload.\<close>

lemma decode_commit_payload:
  "encodable (VDict payload) \<Longrightarrow> canonical_json (VDict payload) = Inr payload_json \<Longrightarrow>
     decode_payload payload_json = Inr (restored (VDict payload))"
  using json_loads_text [of "VDict payload"] canonical_json_encodable [of "VDict payload"]
  by (auto simp: decode_payload_def)

lemma target_commit_error:
  "canonical_json (VDict payload) = Inl x \<Longrightarrow>
     target_commit key payload w = (Inl x, w\<lparr>clock_reads := Suc (clock_reads w)\<rparr>)"
  by (simp add: target_commit_def and_then_def read_target_clock_def)

end
