(* ===== verification/Recovery_Contest.thy ===== *)
theory Recovery_Contest
  imports Recovery_Steps Crash_Target Sqlite_Laws
begin

text \<open>
  Several recoveries of one unknown effect at the same time, over any ledger that keeps the laws of
  \<open>effect_store\<close> and the durable target, which has already committed the effect. \<open>contest\<close> is the invariant
  of the interleaving: nobody has moved the effect yet, or exactly one recovery holds it and everybody
  else has only looked (\<open>onlooker\<close>), with a record the ledger no longer lets them move.
\<close>

definition durable_adapter_for :: "durable_target adapter_for" where
  "durable_adapter_for r = Inr (durable_adapter (contract r))"

text \<open>Where a recovery ends, by safety class.\<close>

definition settled_status :: "safety_class \<Rightarrow> effect_status" where
  "settled_status c = (if c = UNSAFE then MANUAL_REVIEW else SUCCEEDED)"

definition locked :: "effect_record \<Rightarrow> bool" where
  "locked q \<longleftrightarrow> \<not> is_allowed (status q) (route_unknown (safety (contract q)))"

definition onlooker :: "effect_record \<Rightarrow> stage \<Rightarrow> bool" where
  "onlooker now_held st = (case st of
     Opening \<Rightarrow> True
   | Routing q \<Rightarrow> same_pins now_held q \<and> (q = now_held \<or> version q < version now_held)
   | Ended x \<Rightarrow> isl x
   | _ \<Rightarrow> False)"

definition commit_answer :: "string \<Rightarrow> dispatch_result" where
  "commit_answer ext = \<lparr>external_id = Some ext, result_output = [(VStr ''external_id'', VStr ext)], committed = True\<rparr>"

definition found_answer :: "string \<Rightarrow> string \<Rightarrow> probe_result" where
  "found_answer key ext = \<lparr>probe_state = COMMITTED, probe_external_id = Some ext,
     probe_output = Some [(VStr ''external_id'', VStr ext)], evidence = [(VStr ''downstream_key'', VStr key)]\<rparr>"

definition winner :: "effect_record \<Rightarrow> stage \<Rightarrow> bool" where
  "winner q st = (case st of
     Starting d \<Rightarrow> d = q \<and> status q = DISPATCHING \<and> safety (contract q) = IDEMPOTENT
   | Calling d aid \<Rightarrow> d = q \<and> status q = DISPATCHING \<and> safety (contract q) = IDEMPOTENT
   | Reporting d aid x \<Rightarrow> d = q \<and> status q = DISPATCHING \<and> safety (contract q) = IDEMPOTENT
       \<and> (\<exists>ext. x = Inr (commit_answer ext))
   | Probing d \<Rightarrow> d = q \<and> status q = RECONCILING \<and> safety (contract q) \<in> {RECONCILABLE, TRANSACTIONAL}
   | Deciding d p \<Rightarrow> d = q \<and> status q = RECONCILING \<and> safety (contract q) \<in> {RECONCILABLE, TRANSACTIONAL}
       \<and> (\<exists>ext. p = found_answer (down_key q) ext)
   | Ended x \<Rightarrow> x = Inr q \<and> status q = settled_status (safety (contract q))
   | _ \<Rightarrow> False)"

lemma route_not_allowed:
  "is_allowed g (route_unknown c) \<Longrightarrow> g \<notin> {route_unknown c, SUCCEEDED}"
  by (cases g) (auto simp: is_allowed_simps)

lemma winner_locked: "winner q st \<Longrightarrow> locked q"
  by (cases st) (auto simp: winner_def locked_def settled_status_def route_unknown_def is_allowed_simps
      split: if_splits)

lemma onlooker_later:
  "onlooker q st \<Longrightarrow> same_pins q q' \<Longrightarrow> version q < version q' \<Longrightarrow> onlooker q' st"
  by (cases st) (auto simp: onlooker_def same_pins_def)

text \<open>What the contest is about: the effect, its contract, and the data its resolution writes.\<close>

definition recoverable :: "(json_object \<Rightarrow> bool) \<Rightarrow> effect_record \<Rightarrow> bool" where
  "recoverable storable r \<longleftrightarrow> \<not> isl (canonical_json (VDict (commit_payload r)))
     \<and> (\<forall>aid ext. storable [(VStr ''attempt_id'', VStr aid), (VStr ''external_id'', opt_str (Some ext)),
          (VStr ''output'', VDict [(VStr ''external_id'', VStr ext)])])
     \<and> (\<forall>ext. storable (probe_data (found_answer (down_key r) ext)))"

definition within_retention :: "(nat \<Rightarrow> env) \<Rightarrow> effect_record \<Rightarrow> bool" where
  "within_retention es r \<longleftrightarrow> (safety (contract r) = IDEMPOTENT \<longrightarrow> (\<forall>n. key_retention_valid (env_now (es n)) r))"

lemma recoverable_pins: "same_pins r q \<Longrightarrow> recoverable storable q = recoverable storable r"
  by (simp add: recoverable_def commit_payload_def same_pins_def)

lemma within_retention_pins: "same_pins r q \<Longrightarrow> within_retention es q = within_retention es r"
  by (auto simp: within_retention_def key_retention_valid_def same_pins_def split: option.splits)

lemma single_nth:
  assumes "i < length xs" and "P (xs ! i)" and "\<And>j. j < length xs \<Longrightarrow> j \<noteq> i \<Longrightarrow> \<not> P (xs ! j)"
  shows "length (filter P xs) = 1"
proof -
  have "{j. j < length xs \<and> P (xs ! j)} = {i}" using assms by auto
  then show ?thesis by (simp add: length_filter_conv_card)
qed

context effect_store begin

section \<open>Steps of those who only look\<close>

lemma refused_cases:
  assumes inv: "invar (ledger s)" and look: "look (ledger s) (effect_id q) = Some c" and lock: "locked c"
    and pins: "same_pins c q" and seen: "q = c \<or> version q < version c"
    and run: "transition_and_record ops q (route_unknown (safety (contract q))) d s = (x, t)"
  obtains err where "x = Inl err" "ledger t = ledger s" "target t = target s"
proof -
  note tgt = leaves_targetD [OF transition_and_record_target run]
  from inv run show thesis
  proof (cases rule: transition_and_record_cases)
    case (moved r now)
    with look have "r = c" by simp
    with moved seen have "q = c" by auto
    with moved \<open>r = c\<close> lock pins have False by (simp add: locked_def same_pins_def)
    then show ?thesis ..
  next
    case (failed err)
    with that tgt show ?thesis by blast
  qed
qed

text \<open>What \<open>Routing\<close> does: one transition, then the stage its goal stands for.\<close>

lemma routing_run:
  assumes "within_retention (envs s) q"
  obtains u d where "ledger u = ledger s" "target u = target s" "accepts d"
    "\<And>tenant eid. stage_step ops adapters tenant eid (Routing q) s =
      and_then (transition_and_record ops q (route_unknown (safety (contract q))) d)
        (\<lambda>r. ret (if route_unknown (safety (contract q)) = DISPATCHING then Starting r
           else if route_unknown (safety (contract q)) = RECONCILING then Probing r else Ended (Inr r))) u"
proof -
  consider (dispatch) "safety (contract q) = IDEMPOTENT"
    | (probe) "safety (contract q) \<in> {RECONCILABLE, TRANSACTIONAL}" | (operator) "safety (contract q) = UNSAFE"
    by (cases "safety (contract q)") auto
  then show thesis
  proof cases
    case dispatch
    with assms have "key_retention_valid (env_now (envs s (Suc (ticks s)))) q" by (simp add: within_retention_def)
    with dispatch show thesis
      by (intro that [of "s\<lparr>metrics := record_retention_remaining (env_now (envs s (ticks s))) q (metrics s),
            ticks := Suc (Suc (ticks s))\<rparr>", OF _ _ accepts_plain [OF plain_simps(4) [of "''idempotent_redispatch''"]]])
        (simp_all add: route_unknown_def and_then_def run_simps)
  next
    case probe
    then show thesis
      by (intro that [of s, OF _ _ accepts_plain [OF plain_simps(4) [of "''authoritative_probe''"]]])
        (auto simp: route_unknown_def)
  next
    case operator
    then show thesis
      by (intro that [of "s\<lparr>metrics := record_reconciliation_outcome ''unsafe_unknown'' (metrics s)\<rparr>",
            OF _ _ accepts_plain [OF plain_simps(4) [of "''unsafe_unknown''"]]])
        (simp_all add: route_unknown_def ending_def to_operator_def and_then_def run_simps)
  qed
qed

lemma onlooker_step:
  assumes inv: "invar (ledger s)" and look: "look (ledger s) eid = Some c" and lock: "locked c"
    and tenant: "tenant_id c = tenant" and id: "effect_id c = eid" and ret: "within_retention (envs s) c"
    and st: "onlooker c st" and run: "advance_stage ops adapters tenant eid st s = (st', t)"
  shows "onlooker c st' \<and> ledger t = ledger s \<and> target t = target s"
proof (cases st)
  case Opening
  with run have "st' = Routing c" "t = s"
    by (auto simp: advance_stage_def get_look [OF inv] look tenant)
  then show ?thesis by (simp add: onlooker_def)
next
  case (Routing q)
  with st have q: "same_pins c q" "q = c \<or> version q < version c" by (auto simp: onlooker_def)
  then have idq: "effect_id q = eid" using id by (simp add: same_pins_def)
  obtain u d where u: "ledger u = ledger s" "target u = target s"
    and step: "stage_step ops adapters tenant eid (Routing q) s =
      and_then (transition_and_record ops q (route_unknown (safety (contract q))) d)
        (\<lambda>r. ret (if route_unknown (safety (contract q)) = DISPATCHING then Starting r
           else if route_unknown (safety (contract q)) = RECONCILING then Probing r else Ended (Inr r))) u"
    by (rule routing_run [of s q adapters]) (use ret q(1) within_retention_pins in blast)+
  obtain x v where x: "transition_and_record ops q (route_unknown (safety (contract q))) d u = (x, v)"
    by (cases "transition_and_record ops q (route_unknown (safety (contract q))) d u")
  obtain err where "x = Inl err" "ledger v = ledger u" "target v = target u"
    by (rule refused_cases [OF _ _ lock q x]) (use inv look u idq in simp_all)
  with run Routing step x u show ?thesis
    by (auto simp: advance_stage_def and_then_def onlooker_def closed_def)
qed (use st run in \<open>auto simp: onlooker_def advance_stage_def split: sum.splits\<close>)

section \<open>Steps of the one that wins\<close>

text \<open>The first to move the effect.\<close>

lemma first_move:
  assumes inv: "invar (ledger s)" and look: "look (ledger s) eid = Some r" and id: "effect_id r = eid"
    and st: "status r = OUTCOME_UNKNOWN" and ret: "within_retention (envs s) r"
    and run: "advance_stage ops adapters tenant eid (Routing r) s = (st', t)"
  obtains now where "winner (advance r (route_unknown (safety (contract r))) now) st'" "invar (ledger t)"
    "look (ledger t) = (look (ledger s))(eid \<mapsto> advance r (route_unknown (safety (contract r))) now)"
    "tries (ledger t) = tries (ledger s)" "target t = target s"
proof -
  let ?g = "route_unknown (safety (contract r))"
  obtain u d where u: "ledger u = ledger s" "target u = target s" "accepts d"
    and step: "stage_step ops adapters tenant eid (Routing r) s =
      and_then (transition_and_record ops r ?g d) (\<lambda>r'. ret (if ?g = DISPATCHING then Starting r'
           else if ?g = RECONCILING then Probing r' else Ended (Inr r'))) u"
    by (rule routing_run [OF ret, of adapters]) blast
  have "invar (ledger u)" "look (ledger u) (effect_id r) = Some r" "is_allowed (status r) ?g"
    using inv look id st u by (auto simp: route_unknown_def is_allowed_simps)
  from transition_and_record_current [OF this u(3)] obtain v now where
    v: "transition_and_record ops r ?g d u = (Inr (advance r ?g now), v)" "invar (ledger v)"
      "look (ledger v) = (look (ledger u))(effect_id r \<mapsto> advance r ?g now)"
      "tries (ledger v) = tries (ledger u)" "target v = target u" .
  with run step have "ledger t = ledger v" "target t = target v"
    and "st' = (if ?g = DISPATCHING then Starting (advance r ?g now)
           else if ?g = RECONCILING then Probing (advance r ?g now) else Ended (Inr (advance r ?g now)))"
    by (auto simp: advance_stage_def and_then_def closed_def split: if_splits)
  moreover from this(3) have "winner (advance r ?g now) st'"
    by (cases "safety (contract r)") (simp_all add: winner_def settled_status_def route_unknown_def)
  ultimately show thesis using v u id by (intro that [of now]) simp_all
qed

text \<open>What the winner does from there: it keeps the effect until it has settled it.\<close>

definition keeps_target :: "effect_record \<Rightarrow> ('s, durable_target) world \<Rightarrow> ('s, durable_target) world \<Rightarrow> bool" where
  "keeps_target c s t \<longleftrightarrow> target_ok (target t) \<and> target_effects (target t) = target_effects (target s)
     \<and> (safety (contract c) \<noteq> IDEMPOTENT \<longrightarrow> target t = target s \<and> tries (ledger t) = tries (ledger s))"

lemma keeps_target_same:
  "target_ok (target s) \<Longrightarrow> target t = target s \<Longrightarrow> tries (ledger t) = tries (ledger s) \<Longrightarrow> keeps_target c s t"
  by (simp add: keeps_target_def)

lemma durable_call:
  assumes ok: "target_ok (target s)" and known: "target_count (down_key c) (target s) = 1"
    and payload: "\<not> isl (canonical_json (VDict (commit_payload c)))"
  obtains ext w where "durable_dispatch c aid (target s) = (Inr (commit_answer ext), w)" "target_ok w"
    "target_effects w = target_effects (target s)"
proof -
  from payload obtain js where js: "canonical_json (VDict (commit_payload c)) = Inr js"
    by (cases "canonical_json (VDict (commit_payload c))") simp_all
  obtain row v where v: "target_commit (down_key c) (commit_payload c) (target s) = (Inr (tr_external row), v)"
    "target_ok v" and old: "case select_target (down_key c) (target s) of
        None \<Rightarrow> target_effects v = target_effects (target s) @ [row]
      | Some old \<Rightarrow> row = old \<and> target_effects v = target_effects (target s)"
    by (rule target_commit_run [OF ok js]) blast
  from old known have "target_effects v = target_effects (target s)"
    using select_target_None [of "down_key c" "target s"] by (auto split: option.splits)
  with v show thesis
    by (intro that [of "tr_external row" v]) (simp_all add: durable_dispatch_def and_then_def commit_answer_def)
qed

text \<open>A settling transition of the record that is held.\<close>

lemma settling_step:
  assumes inv: "invar (ledger s)" and look: "look (ledger s) eid = Some c" and id: "effect_id c = eid"
    and st: "is_allowed (status c) SUCCEEDED" and safe: "safety (contract c) \<noteq> UNSAFE" and acc: "accepts d"
    and step: "stage_step ops adapters tenant eid st s = ending (transition_and_record ops c SUCCEEDED d) u"
    and u: "ledger u = ledger s" "target u = target s" and inside: "st \<noteq> Opening" "\<not> is_ended st"
    and run: "advance_stage ops adapters tenant eid st s = (st', t)"
  obtains now where "winner (advance c SUCCEEDED now) st'" "invar (ledger t)"
    "look (ledger t) = (look (ledger s))(eid \<mapsto> advance c SUCCEEDED now)"
    "tries (ledger t) = tries (ledger s)" "target t = target s"
proof -
  have "invar (ledger u)" "look (ledger u) (effect_id c) = Some c" using inv look id u by simp_all
  from transition_and_record_current [OF this st acc] obtain v now where
    v: "transition_and_record ops c SUCCEEDED d u = (Inr (advance c SUCCEEDED now), v)" "invar (ledger v)"
      "look (ledger v) = (look (ledger u))(effect_id c \<mapsto> advance c SUCCEEDED now)"
      "tries (ledger v) = tries (ledger u)" "target v = target u" .
  with run step inside have "ledger t = ledger v" "target t = target v" "st' = Ended (Inr (advance c SUCCEEDED now))"
    by (auto simp: advance_stage_def ending_run closed_inside)
  with v u id safe show thesis by (intro that [of now]) (simp_all add: winner_def settled_status_def)
qed

lemma winner_step:
  assumes inv: "invar (ledger s)" and look: "look (ledger s) eid = Some c" and id: "effect_id c = eid"
    and rec: "recoverable accepts c" and ok: "target_ok (target s)" and known: "target_count (down_key c) (target s) = 1"
    and win: "winner c st" and run: "advance_stage ops durable_adapter_for tenant eid st s = (st', t)"
  obtains c' where "winner c' st'" "same_pins c c'" "c' = c \<or> version c < version c'" "invar (ledger t)"
    "look (ledger t) = (look (ledger s))(eid \<mapsto> c')" "keeps_target c s t"
proof (cases st)
  case (Starting d)
  with win have d: "d = c" "status c = DISPATCHING" "safety (contract c) = IDEMPOTENT" by (simp_all add: winner_def)
  from start_done [OF inv look HOL.refl, of "envs s (ticks s)" "''reconciler''"] obtain l where
    l: "start_op ops (envs s (ticks s)) eid (version c) ''reconciler'' (ledger s) =
        (Inr (attempt_name eid (Suc (tries (ledger s) eid))), l)" "invar l" "look l = look (ledger s)" by blast
  with run Starting d id have "st' = Calling c (attempt_name eid (Suc (tries (ledger s) eid)))"
    "ledger t = l" "target t = target s"
    by (auto simp: advance_stage_def and_then_def run_simps on_ledger_def)
  with l look d ok show thesis
    by (intro that [of c]) (simp_all add: winner_def keeps_target_def fun_upd_idem)
next
  case (Calling d aid)
  with win have d: "d = c" "status c = DISPATCHING" "safety (contract c) = IDEMPOTENT" by (simp_all add: winner_def)
  obtain ext w where w: "durable_dispatch c aid (target s) = (Inr (commit_answer ext), w)" "target_ok w"
    "target_effects w = target_effects (target s)"
    by (rule durable_call [OF ok known, of aid]) (use rec in \<open>simp_all add: recoverable_def\<close>)
  with run Calling d have "st' = Reporting c aid (Inr (commit_answer ext))" "ledger t = ledger s" "target t = w"
    by (auto simp: advance_stage_def and_then_def run_simps on_target_def observe_latency_def durable_adapter_for_def
        durable_adapter_def)
  with w look d inv show thesis by (intro that [of c]) (auto simp: winner_def keeps_target_def fun_upd_idem)
next
  case (Reporting d aid x)
  with win obtain ext where d: "d = c" "status c = DISPATCHING" "safety (contract c) = IDEMPOTENT"
    "x = Inr (commit_answer ext)" by (auto simp: winner_def)
  let ?data = "[(VStr ''attempt_id'', VStr aid), (VStr ''external_id'', opt_str (Some ext)),
    (VStr ''output'', VDict [(VStr ''external_id'', VStr ext)])]"
  have acc: "accepts ?data" using rec by (simp add: recoverable_def)
  have step: "stage_step ops durable_adapter_for tenant eid st s = ending (transition_and_record ops c SUCCEEDED ?data)
      (s\<lparr>metrics := record_reconciliation_outcome ''redispatch_committed'' (metrics s)\<rparr>)"
    by (simp add: Reporting d redispatch_answered_def reconcile_committed_def commit_answer_def ending_def
        and_then_def run_simps)
  obtain now where "winner (advance c SUCCEEDED now) st'" "invar (ledger t)"
    "look (ledger t) = (look (ledger s))(eid \<mapsto> advance c SUCCEEDED now)"
    "tries (ledger t) = tries (ledger s)" "target t = target s"
    by (rule settling_step [OF inv look id _ _ acc step _ _ _ _ run])
      (use d Reporting in \<open>simp_all add: is_allowed_simps\<close>)
  with ok show thesis by (intro that [of "advance c SUCCEEDED now"]) (simp_all add: keeps_target_def)
next
  case (Probing q)
  with win have q: "q = c" "status c = RECONCILING" "safety (contract c) \<in> {RECONCILABLE, TRANSACTIONAL}"
    by (simp_all add: winner_def)
  obtain row where "select_target (down_key c) (target s) = Some row"
    using known select_target_None [of "down_key c" "target s"] by fastforce
  with q have "durable_probe c (target s) = (Inr (found_answer (down_key c) (tr_external row)), target s)"
    by (auto simp: durable_probe_def target_probe_def found_answer_def)
  with run Probing q have "st' = Deciding c (found_answer (down_key c) (tr_external row))" "ledger t = ledger s"
    "target t = target s"
    by (auto simp: advance_stage_def and_then_def run_simps on_target_def call_probe_def durable_adapter_for_def
        durable_adapter_def)
  with look q inv ok show thesis by (intro that [of c]) (auto simp: winner_def keeps_target_def fun_upd_idem)
next
  case (Deciding q p)
  with win obtain ext where q: "q = c" "status c = RECONCILING" "safety (contract c) \<in> {RECONCILABLE, TRANSACTIONAL}"
    "p = found_answer (down_key c) ext" by (auto simp: winner_def)
  have acc: "accepts (probe_data p)" using rec q(4) by (simp add: recoverable_def)
  have step: "stage_step ops durable_adapter_for tenant eid st s =
      ending (transition_and_record ops c SUCCEEDED (probe_data p))
        (s\<lparr>metrics := record_reconciliation_outcome (probe_value (probe_state p)) (metrics s)\<rparr>)"
    by (simp add: Deciding q probe_answered_def ending_def and_then_def run_simps) (simp add: found_answer_def)
  obtain now where "winner (advance c SUCCEEDED now) st'" "invar (ledger t)"
    "look (ledger t) = (look (ledger s))(eid \<mapsto> advance c SUCCEEDED now)"
    "tries (ledger t) = tries (ledger s)" "target t = target s"
    by (rule settling_step [OF inv look id _ _ acc step _ _ _ _ run])
      (use q Deciding in \<open>auto simp: is_allowed_simps\<close>)
  with ok show thesis by (intro that [of "advance c SUCCEEDED now"]) (simp_all add: keeps_target_def)
next
  case (Ended x)
  with run have "st' = st" "t = s" by (simp_all add: advance_stage_def)
  with win look inv ok show thesis by (intro that [of c]) (simp_all add: keeps_target_def fun_upd_idem)
qed (use win in \<open>simp_all add: winner_def\<close>)

section \<open>The invariant of the interleaving\<close>

definition held :: "effect_record \<Rightarrow> stage list \<Rightarrow> bool" where
  "held c sts \<longleftrightarrow> (\<exists>i < length sts. winner c (sts ! i) \<and> (\<forall>j < length sts. j \<noteq> i \<longrightarrow> onlooker c (sts ! j)))"

definition contest :: "effect_record \<Rightarrow> durable_target \<Rightarrow> (string \<Rightarrow> nat) \<Rightarrow> ('s, durable_target) site \<Rightarrow> bool" where
  "contest r w n m \<longleftrightarrow> invar (site_ledger m) \<and> (\<forall>a \<in> set (agents m). within_retention (agent_envs a) r)
     \<and> target_ok (site_target m) \<and> target_effects (site_target m) = target_effects w
     \<and> (safety (contract r) \<noteq> IDEMPOTENT \<longrightarrow> site_target m = w \<and> tries (site_ledger m) = n)
     \<and> (\<exists>c. look (site_ledger m) (effect_id r) = Some c \<and> same_pins r c
          \<and> (c = r \<and> set (stages m) \<subseteq> {Opening, Routing r} \<or> version r < version c \<and> held c (stages m)))"

lemma stages_turn:
  assumes "i < length (agents m)"
    and "advance_stage ops adapters tenant eid (stages m ! i) (agent_world m (agents m ! i)) = (st, t)"
  shows "stages (turn ops adapters tenant eid i m) = (stages m)[i := st]"
    "site_ledger (turn ops adapters tenant eid i m) = ledger t" "site_target (turn ops adapters tenant eid i m) = target t"
  using assms by (simp_all add: turn_def stages_def map_update)

lemma agents_turn: "map agent_envs (agents (turn ops adapters tenant eid i m)) = map agent_envs (agents m)"
  by (simp add: turn_def map_update split: prod.split) (metis list_update_id map_update)

lemma envs_turn: "agent_envs ` set (agents (turn ops adapters tenant eid i m)) = agent_envs ` set (agents m)"
  using arg_cong [OF agents_turn, of set] by simp

lemma target_count_effects: "target_effects v = target_effects w \<Longrightarrow> target_count key v = target_count key w"
  by (simp add: target_count_def)

lemma contest_turn:
  assumes st: "status r = OUTCOME_UNKNOWN" and tenant: "tenant_id r = tenant" and rec: "recoverable accepts r"
    and known: "target_count (down_key r) w = 1" and con: "contest r w n m"
  shows "contest r w n (turn ops durable_adapter_for tenant (effect_id r) i m)"
proof (cases "i < length (agents m)")
  case False
  with con show ?thesis by (simp add: turn_def)
next
  case i: True
  let ?a = "agents m ! i" and ?s = "agent_world m (agents m ! i)" and ?eid = "effect_id r"
  obtain st' t where run: "advance_stage ops durable_adapter_for tenant ?eid (stages m ! i) ?s = (st', t)"
    by (cases "advance_stage ops durable_adapter_for tenant ?eid (stages m ! i) ?s")
  note after = stages_turn [OF i run]
  have s [simp]: "ledger ?s = site_ledger m" "target ?s = site_target m" "envs ?s = agent_envs ?a"
    by (simp_all add: agent_world_def)
  have len: "length (stages m) = length (agents m)" by (simp add: stages_def)
  from con obtain c where c: "look (site_ledger m) ?eid = Some c" "same_pins r c"
    "c = r \<and> set (stages m) \<subseteq> {Opening, Routing r} \<or> version r < version c \<and> held c (stages m)"
    by (auto simp: contest_def)
  have inv: "invar (site_ledger m)" and ok: "target_ok (site_target m)"
    and same: "target_effects (site_target m) = target_effects w"
    and quiet: "safety (contract r) \<noteq> IDEMPOTENT \<longrightarrow> site_target m = w \<and> tries (site_ledger m) = n"
    and all: "\<forall>a \<in> set (agents m). within_retention (agent_envs a) r" using con by (simp_all add: contest_def)
  from all i have ret: "within_retention (envs ?s) r" by simp
  have "\<forall>e \<in> agent_envs ` set (agents (turn ops durable_adapter_for tenant ?eid i m)). within_retention e r"
    unfolding envs_turn using all by simp
  then have "\<forall>a \<in> set (agents (turn ops durable_adapter_for tenant ?eid i m)). within_retention (agent_envs a) r"
    by simp
  moreover have pinned: "effect_id c = ?eid" "tenant_id c = tenant" "down_key c = down_key r" "contract c = contract r"
    using c(2) tenant by (simp_all add: same_pins_def)
  ultimately have contestI: "contest r w n (turn ops durable_adapter_for tenant ?eid i m)"
    if "invar (ledger t)" "target_ok (target t)" "target_effects (target t) = target_effects (site_target m)"
      "safety (contract r) \<noteq> IDEMPOTENT \<longrightarrow> target t = site_target m \<and> tries (ledger t) = tries (site_ledger m)"
      "look (ledger t) ?eid = Some c'" "same_pins c c'"
      "c' = r \<and> set ((stages m)[i := st']) \<subseteq> {Opening, Routing r} \<or> version r < version c' \<and> held c' ((stages m)[i := st'])"
    for c'
    using that quiet same same_pins_trans [OF c(2) that(6)] unfolding contest_def after by auto
  show ?thesis
  proof (cases "c = r \<and> set (stages m) \<subseteq> {Opening, Routing r}")
    case True
    then have cr: "c = r" and sts: "set (stages m) \<subseteq> {Opening, Routing r}" by simp_all
    from sts i len have "stages m ! i \<in> {Opening, Routing r}" by (metis nth_mem subsetD)
    then show ?thesis
    proof (elim insertE emptyE)
      assume "stages m ! i = Opening"
      with run have "st' = Routing r" "t = ?s"
        using cr c(1) tenant by (auto simp: advance_stage_def get_look [OF inv])
      with inv ok cr c sts show ?thesis
        by (intro contestI [of r]) (simp_all, use set_update_subset_insert in fastforce)
    next
      assume routing: "stages m ! i = Routing r"
      obtain now where now: "winner (advance r (route_unknown (safety (contract r))) now) st'" "invar (ledger t)"
        "look (ledger t) = (look (ledger ?s))(?eid \<mapsto> advance r (route_unknown (safety (contract r))) now)"
        "tries (ledger t) = tries (ledger ?s)" "target t = target ?s"
        by (rule first_move [OF _ _ HOL.refl st ret run [unfolded routing]]) (use inv c cr in simp_all)
      let ?c = "advance r (route_unknown (safety (contract r))) now"
      have "onlooker ?c (stages m ! j)" if "j < length (stages m)" for j
      proof -
        have "stages m ! j \<in> {Opening, Routing r}" using that sts by (metis nth_mem subsetD)
        then show ?thesis by (auto simp: onlooker_def same_pins_def)
      qed
      then have "held ?c ((stages m)[i := st'])"
        unfolding held_def using now(1) i len by (intro exI [of _ i]) simp
      with now ok cr show ?thesis by (intro contestI [of ?c]) simp_all
    qed
  next
    case False
    with c(3) have up: "version r < version c" and held: "held c (stages m)" by blast+
    from held obtain k where k: "k < length (stages m)" "winner c (stages m ! k)"
      "\<And>j. j < length (stages m) \<Longrightarrow> j \<noteq> k \<Longrightarrow> onlooker c (stages m ! j)" by (auto simp: held_def)
    show ?thesis
    proof (cases "i = k")
      case True
      have win: "winner c (stages m ! i)" using k(2) True by simp
      obtain c' where c': "winner c' st'" "same_pins c c'" "c' = c \<or> version c < version c'" "invar (ledger t)"
        "look (ledger t) = (look (ledger ?s))(?eid \<mapsto> c')" "keeps_target c ?s t"
        by (rule winner_step [OF _ _ pinned(1) _ _ _ _ run])
          (use inv c(1) rec recoverable_pins [OF c(2)] ok known target_count_effects [OF same] pinned win in simp_all)
      have "onlooker c' (stages m ! j)" if "j < length (stages m)" "j \<noteq> k" for j
        using onlooker_later [OF k(3) [OF that] c'(2)] c'(3) k(3) [OF that] by blast
      then have "held c' ((stages m)[i := st'])"
        unfolding held_def using c'(1) k(1) True by (intro exI [of _ k]) simp
      with c' up pinned(4) show ?thesis by (intro contestI [of c']) (auto simp: keeps_target_def)
    next
      case other: False
      have "within_retention (envs ?s) c" using ret within_retention_pins [OF c(2)] by simp
      from onlooker_step [OF _ _ winner_locked [OF k(2)] pinned(2,1) this k(3) run]
      have st': "onlooker c st'" "ledger t = site_ledger m" "target t = site_target m"
        using inv c(1) i len other by simp_all
      then have "held c ((stages m)[i := st'])"
        unfolding held_def using k other i len by (intro exI [of _ k]) (auto simp: nth_list_update)
      with st' up inv ok c(1) show ?thesis by (intro contestI [of c]) simp_all
    qed
  qed
qed

lemma contest_turns:
  assumes "status r = OUTCOME_UNKNOWN" and "tenant_id r = tenant" and "recoverable accepts r"
    and "target_count (down_key r) w = 1" and "contest r w n m"
  shows "contest r w n (run_turns ops durable_adapter_for tenant (effect_id r) is m)"
  using assms(5) by (induction "is" arbitrary: m) (simp_all add: contest_turn [OF assms(1-4)])

section \<open>The outcome\<close>

text \<open>When everybody has ended, exactly one recovery has returned, with the record the ledger holds.\<close>

lemma contest_over:
  assumes con: "contest r w n m" and ended: "\<And>st. st \<in> set (stages m) \<Longrightarrow> is_ended st" and some: "agents m \<noteq> []"
  obtains c where "look (site_ledger m) (effect_id r) = Some c" "same_pins r c"
    "status c = settled_status (safety (contract r))" "version r < version c"
    "length (filter (\<lambda>st. st = Ended (Inr c)) (stages m)) = 1"
    "\<And>st. st \<in> set (stages m) \<Longrightarrow> st = Ended (Inr c) \<or> (\<exists>x. st = Ended (Inl x))"
proof -
  from con obtain c where c: "look (site_ledger m) (effect_id r) = Some c" "same_pins r c"
    "c = r \<and> set (stages m) \<subseteq> {Opening, Routing r} \<or> version r < version c \<and> held c (stages m)"
    by (auto simp: contest_def)
  have "stages m \<noteq> []" using some by (simp add: stages_def)
  then have "\<not> set (stages m) \<subseteq> {Opening, Routing r}"
    using ended [of "hd (stages m)"] by (cases "stages m") auto
  with c(3) have up: "version r < version c" and "held c (stages m)" by blast+
  then obtain i where i: "i < length (stages m)" "winner c (stages m ! i)"
    "\<And>j. j < length (stages m) \<Longrightarrow> j \<noteq> i \<Longrightarrow> onlooker c (stages m ! j)" by (auto simp: held_def)
  have "is_ended (stages m ! i)" using ended i(1) by simp
  with i(2) have top: "stages m ! i = Ended (Inr c)" "status c = settled_status (safety (contract c))"
    by (cases "stages m ! i"; simp add: winner_def)+
  have lost: "\<exists>x. stages m ! j = Ended (Inl x)" if j: "j < length (stages m)" "j \<noteq> i" for j
  proof -
    have "is_ended (stages m ! j)" using ended j(1) by simp
    with i(3) [OF j] show ?thesis
      by (cases "stages m ! j") (auto simp: onlooker_def isl_def)
  qed
  have one: "length (filter (\<lambda>st. st = Ended (Inr c)) (stages m)) = 1"
    by (rule single_nth [OF i(1)]) (use top(1) lost in force)+
  have each: "st = Ended (Inr c) \<or> (\<exists>x. st = Ended (Inl x))" if "st \<in> set (stages m)" for st
    using that top(1) lost by (metis in_set_conv_nth)
  have "contract c = contract r" using c(2) by (simp add: same_pins_def)
  with that [OF c(1,2) _ up one each] top(2) show thesis by simp
qed

text \<open>Fresh recoveries of an effect whose outcome is unknown, each given five turns of its own.\<close>

lemma one_recovery_returns:
  assumes r: "invar s" "look s eid = Some r" "status r = OUTCOME_UNKNOWN" "tenant_id r = tenant" "recoverable accepts r"
    and w: "target_ok w" "target_count (down_key r) w = 1"
    and es: "es \<noteq> []" "\<forall>e \<in> set es. within_retention e r"
    and fair: "\<forall>j < length es. 5 \<le> count_list is j"
    and run: "m = run_turns ops durable_adapter_for tenant eid is
      \<lparr>site_ledger = s, site_target = w, agents = map new_agent es\<rparr>"
  obtains c where "invar (site_ledger m)" "look (site_ledger m) eid = Some c" "same_pins r c"
    "status c = settled_status (safety (contract r))" "version r < version c"
    "length (filter (\<lambda>st. st = Ended (Inr c)) (stages m)) = 1" "length (stages m) = length es"
    "\<And>st. st \<in> set (stages m) \<Longrightarrow> st = Ended (Inr c) \<or> (\<exists>x. st = Ended (Inl x))"
    "target_effects (site_target m) = target_effects w"
    "safety (contract r) \<noteq> IDEMPOTENT \<Longrightarrow> site_target m = w \<and> tries (site_ledger m) = tries s"
proof -
  let ?m = "\<lparr>site_ledger = s, site_target = w, agents = map new_agent es\<rparr>"
  have id: "effect_id r = eid" using look_id [OF r(1,2)] .
  have "contest r w (tries s) ?m"
    using r w es by (auto simp: contest_def stages_def new_agent_def id intro!: exI [of _ r])
  from contest_turns [OF r(3-5) w(2) this, of "is"] have con: "contest r w (tries s) m" by (simp add: run id)
  have len: "length (agents m) = length es" by (simp add: run)
  have ended: "is_ended st" if "st \<in> set (stages m)" for st
  proof -
    from that len obtain j where j: "j < length es" "st = agent_stage (agents m ! j)"
      by (auto simp: stages_def in_set_conv_nth)
    have "rank st \<le> rank (agent_stage (agents ?m ! j)) - count_list is j"
      unfolding j(2) run by (rule rank_run_turns) (use j in simp)
    moreover have "rank (agent_stage (agents ?m ! j)) = 5" using j by (simp add: new_agent_def)
    ultimately have "rank st = 0" using fair j(1) by simp
    then show ?thesis by (simp add: rank_ended)
  qed
  have some: "agents m \<noteq> []" using len es(1) by auto
  obtain c where c: "look (site_ledger m) (effect_id r) = Some c" "same_pins r c"
    "status c = settled_status (safety (contract r))" "version r < version c"
    "length (filter (\<lambda>st. st = Ended (Inr c)) (stages m)) = 1"
    "\<And>st. st \<in> set (stages m) \<Longrightarrow> st = Ended (Inr c) \<or> (\<exists>x. st = Ended (Inl x))"
    by (rule contest_over [OF con ended some]) blast+
  from con have "invar (site_ledger m)" "target_effects (site_target m) = target_effects w"
    "safety (contract r) \<noteq> IDEMPOTENT \<Longrightarrow> site_target m = w \<and> tries (site_ledger m) = tries s"
    by (simp_all add: contest_def)
  moreover have "length (stages m) = length es" using len by (simp add: stages_def)
  ultimately show thesis using that [of c] c id by blast
qed

end

end
