(* ===== verification/Crash_Matrix.thy ===== *)
theory Crash_Matrix
  imports Recovery_Contest Postgres_Store
begin

text \<open>
  The crash matrix (\<open>examples/crash_matrix/worker.py\<close>, \<open>runner.py\<close>): a worker process that dies at a
  failpoint, the recovery processes that find its effect, a zombie that writes with an old version, and
  the runner that starts them and judges the outcome.

  A process ends by returning an exit status, by an exception (status 1), or by \<open>os._exit\<close>, which no
  handler sees: \<open>worker_end\<close>. Every process has readings of the clock of its own; what they share is the
  \<open>disk\<close>: the ledger file and the target file of the scenario, and the database server that \<open>BROKER_DSN\<close>
  names. The runner always submits to the file; the worker, the recoveries and the zombie open the server
  instead when \<open>BROKER_DSN\<close> is set. The \<open>host\<close> is the environment of all of them and what connecting gives, the
  driver or an exception; what the operating system decides, the readings and the order in which the
  recoveries run, is the argument \<open>scenario_inputs\<close>.
\<close>

type_synonym environ = "string \<Rightarrow> string option"

definition tenant_secret :: "byte list" where
  "tenant_secret = utf8_encode ''crash-matrix-tenant-secret''"

definition crash_tenant :: string where
  "crash_tenant = ''tenant-a''"

definition crash_tool :: string where
  "crash_tool = ''charge''"

definition crash_failpoint :: string where
  "crash_failpoint = ''after_target_commit_before_receipt''"

section \<open>The worker process\<close>

datatype broker_at = AtDsn string | AtPath string

record worker_settings =
  worker_broker :: broker_at
  worker_target :: string
  worker_failpoint :: string
  worker_name :: string

definition required_env :: "environ \<Rightarrow> string \<Rightarrow> error + string" where
  "required_env env name = (case env name of None \<Rightarrow> Inl (PyError ''RuntimeError'') | Some v \<Rightarrow> Inr v)"

definition nonempty :: "string option \<Rightarrow> bool" where
  "nonempty v = (case v of None \<Rightarrow> False | Some t \<Rightarrow> t \<noteq> [])"

definition env_default :: "environ \<Rightarrow> string \<Rightarrow> string \<Rightarrow> string" where
  "env_default env name d = (case env name of None \<Rightarrow> d | Some v \<Rightarrow> v)"

definition read_worker_settings :: "environ \<Rightarrow> int \<Rightarrow> error + worker_settings" where
  "read_worker_settings env pid = (case required_env env ''TARGET_DB'' of
     Inl x \<Rightarrow> Inl x
   | Inr target_path \<Rightarrow>
       let configured = (\<lambda>b. Inr \<lparr>worker_broker = b, worker_target = target_path,
             worker_failpoint = env_default env ''FAILPOINT'' ''none'',
             worker_name = env_default env ''WORKER_ID'' (''worker-'' @ int_text pid)\<rparr>)
       in if nonempty (env ''BROKER_DSN'') then configured (AtDsn (the (env ''BROKER_DSN'')))
          else if nonempty (env ''BROKER_DB'') then configured (AtPath (the (env ''BROKER_DB'')))
          else Inl (PyError ''RuntimeError''))"

datatype worker_end = Died int | Crashed error

type_synonym ('s, 'a) crash_process = "(('s, durable_target) world, worker_end, 'a) prog"

definition may_raise :: "('s, durable_target, 'a) process \<Rightarrow> ('s, 'a) crash_process" where
  "may_raise m = (\<lambda>s. case m s of (Inl x, t) \<Rightarrow> (Inl (Crashed x), t) | (Inr y, t) \<Rightarrow> (Inr y, t))"

text \<open>\<open>run_once\<close> between opening and closing the two files.\<close>

definition worker_outcome :: "'s store_ops \<Rightarrow> string \<Rightarrow> effect_record \<Rightarrow> string \<Rightarrow> ('s, int) crash_process" where
  "worker_outcome ops failpoint d aid =
     (if failpoint = ''before_target_commit'' then throw (Died 137)
      else
        and_then (may_raise (on_target (target_commit (down_key d) (commit_payload d)))) (\<lambda>ext.
        if failpoint = ''after_target_commit_before_receipt'' then throw (Died 137)
        else if failpoint \<noteq> ''none'' then throw (Crashed (PyError ''ValueError''))
        else
          and_then (may_raise read_env) (\<lambda>e.
          and_then (may_raise (on_ledger (transition_op ops e (effect_id d) (version d) SUCCEEDED
             [(VStr ''attempt_id'', VStr aid), (VStr ''external_id'', VStr ext),
              (VStr ''output'', VDict [(VStr ''external_id'', VStr ext)])]))) (\<lambda>_. ret 0))))"

definition worker_once :: "'s store_ops \<Rightarrow> string \<Rightarrow> string \<Rightarrow> ('s, int) crash_process" where
  "worker_once ops failpoint w =
     and_then (may_raise read_env) (\<lambda>e0.
     and_then (may_raise (on_ledger (claim_op ops w (env_now e0) (seconds 1) 1))) (\<lambda>claimed.
     case claimed of
       [] \<Rightarrow> ret 2
     | r # _ \<Rightarrow>
         and_then (may_raise read_env) (\<lambda>e1.
         and_then (may_raise (on_ledger (transition_op ops e1 (effect_id r) (version r) DISPATCHING
             [(VStr ''worker_id'', VStr w)]))) (\<lambda>d.
         and_then (may_raise read_env) (\<lambda>e2.
         and_then (may_raise (on_ledger (start_op ops e2 (effect_id d) (version d) w))) (\<lambda>aid.
         worker_outcome ops failpoint d aid))))))"

definition worker_status :: "worker_end + int \<Rightarrow> int" where
  "worker_status x = (case x of Inl (Died n) \<Rightarrow> n | Inl (Crashed _) \<Rightarrow> 1 | Inr n \<Rightarrow> n)"

section \<open>The runner\<close>

definition crash_contract :: "safety_class \<Rightarrow> effect_contract" where
  "crash_contract cls = \<lparr>contract_name = crash_tool, contract_version = ''v1'', safety = cls,
     retry_limit = (if cls \<noteq> UNSAFE then 3 else 0),
     key_retention = (if cls = IDEMPOTENT then Some (seconds 3600) else None),
     settlement_bound = (if cls = RECONCILABLE then Some (seconds 0) else None)\<rparr>"

definition crash_request :: "safety_class \<Rightarrow> effect_request" where
  "crash_request cls = \<lparr>operation_key = ''order:42:'' @ safety_value cls @ '':charge:v1'', tool = crash_tool,
     arguments = [(VStr ''amount'', VInt 4200), (VStr ''currency'', VStr ''usd'')],
     requested_by = ''crash-matrix'', trace_id = None\<rparr>"

definition no_adapter :: "durable_target adapter_for" where
  "no_adapter r = Inl (PyError ''AssertionError'')"

definition crash_broker :: "'s store_ops \<Rightarrow> safety_class \<Rightarrow> ('s, durable_target) broker" where
  "crash_broker ops cls = \<lparr>store = ops, contracts = [(crash_tool, crash_contract cls)], adapter_for = Some no_adapter\<rparr>"

definition submit_charge :: "'s store_ops \<Rightarrow> safety_class \<Rightarrow> ('s, durable_target, reservation) process" where
  "submit_charge ops cls = submit (crash_broker ops cls) crash_tenant (crash_request cls)"

definition mark_unknown :: "'s store_ops \<Rightarrow> effect_record \<Rightarrow> ('s, 'w, effect_record) process" where
  "mark_unknown ops r = (\<lambda>s. case get_op ops crash_tenant (effect_id r) (ledger s) of
     None \<Rightarrow> (Inl (PyError ''AssertionError''), s)
   | Some current \<Rightarrow>
       if status current \<noteq> DISPATCHING then (Inl (PyError ''AssertionError''), s)
       else and_then read_env (\<lambda>e. on_ledger (transition_op ops e (effect_id current) (version current)
              OUTCOME_UNKNOWN [(VStr ''reason'', VStr ''stale_dispatching_worker_died'')])) s)"

definition zombie_transition :: "'s store_ops \<Rightarrow> string \<Rightarrow> int \<Rightarrow> ('s, 'w, unit) process" where
  "zombie_transition ops eid expected =
     and_then read_env (\<lambda>e.
     and_then (on_ledger (transition_op ops e eid expected DISPATCHING [(VStr ''actor'', VStr ''zombie-worker'')]))
       (\<lambda>_. ret ()))"

text \<open>\<open>main\<close> on \<open>--recover-one\<close> and \<open>--zombie-transition\<close>: the exit status of the process.\<close>

definition exit_status :: "error + 'a \<Rightarrow> int" where
  "exit_status x = (case x of Inl (VersionConflictError _) \<Rightarrow> 23 | Inl _ \<Rightarrow> 1 | Inr _ \<Rightarrow> 0)"

definition stage_status :: "stage \<Rightarrow> int option" where
  "stage_status st = (case st of Ended x \<Rightarrow> Some (exit_status x) | _ \<Rightarrow> None)"

text \<open>The files the processes open.\<close>

definition open_store :: "environ \<Rightarrow> string \<Rightarrow> broker_at" where
  "open_store env path =
     (if nonempty (env ''BROKER_DSN'') then AtDsn (the (env ''BROKER_DSN'')) else AtPath path)"

definition worker_environ :: "environ \<Rightarrow> string \<Rightarrow> string \<Rightarrow> string \<Rightarrow> environ" where
  "worker_environ env broker_path target_path failpoint =
     env(''BROKER_DB'' \<mapsto> broker_path, ''TARGET_DB'' \<mapsto> target_path, ''FAILPOINT'' \<mapsto> failpoint)"

section \<open>A scenario\<close>

record scenario_result =
  scenario :: string
  failpoint :: string
  result_count :: nat
  broker_status :: effect_status
  passed :: bool
  detail :: string

definition judge :: "safety_class \<Rightarrow> effect_record \<Rightarrow> nat \<Rightarrow> nat \<Rightarrow> nat \<Rightarrow> bool \<times> string" where
  "judge cls r target_n calls attempts =
     (let detail = ''target_calls='' @ nat_text calls @ ''; attempts='' @ nat_text attempts
      in if cls = IDEMPOTENT then (target_n = 1 \<and> status r = SUCCEEDED, detail)
         else if cls = RECONCILABLE then (target_n = 1 \<and> calls = 1 \<and> status r = SUCCEEDED, detail)
         else (target_n \<le> 1 \<and> calls = 1 \<and> attempts = 1 \<and> status r = MANUAL_REVIEW, detail))"

definition int_list_text :: "int list \<Rightarrow> string" where
  "int_list_text ns = ''['' @ join '', '' (map int_text ns) @ '']''"

record scenario_inputs =
  runner_envs :: "nat \<Rightarrow> env"
  worker_envs :: "nat \<Rightarrow> env"
  recovery_envs :: "nat \<Rightarrow> nat \<Rightarrow> env"
  zombie_envs :: "nat \<Rightarrow> env"
  charge_clock :: "nat \<Rightarrow> time"
  recovery_turns :: "nat list"
  worker_pid :: int

record host =
  host_environ :: environ
  connect_dsn :: "string \<Rightarrow> error + pg_driver"
  scenario_root :: string

record disk =
  broker_file :: sqlite_db
  broker_server :: pg_db
  target_file :: durable_target

definition fresh_process :: "'s \<Rightarrow> 'w \<Rightarrow> (nat \<Rightarrow> env) \<Rightarrow> ('s, 'w) world" where
  "fresh_process l w es = \<lparr>ledger = l, target = w, metrics = reset_for_tests, envs = es, ticks = 0\<rparr>"

definition crash_ops :: "sqlite_db store_ops" where
  "crash_ops = sqlite_ops (tenant_key_provider_from_secret tenant_secret)"

definition crash_pg_ops :: "pg_driver \<Rightarrow> pg_db store_ops" where
  "crash_pg_ops drv = pg_ops drv (tenant_key_provider_from_secret tenant_secret)"

definition scenario_path :: "host \<Rightarrow> safety_class \<Rightarrow> string \<Rightarrow> string" where
  "scenario_path h cls name = scenario_root h @ ''/'' @ safety_value cls @ ''/'' @ name"

text \<open>The worker process and its exit status.\<close>

definition run_worker :: "host \<Rightarrow> scenario_inputs \<Rightarrow> string \<Rightarrow> string \<Rightarrow> string \<Rightarrow> disk \<Rightarrow> int \<times> disk" where
  "run_worker h inp broker_path target_path fp k =
     (case read_worker_settings (worker_environ (host_environ h) broker_path target_path fp) (worker_pid inp) of
       Inl x \<Rightarrow> (worker_status (Inl (Crashed x)), k)
     | Inr cfg \<Rightarrow> (case worker_broker cfg of
         AtPath _ \<Rightarrow> (case worker_once crash_ops (worker_failpoint cfg) (worker_name cfg)
             (fresh_process (broker_file k) (target_file k) (worker_envs inp)) of
           (x, t) \<Rightarrow> (worker_status x, k\<lparr>broker_file := ledger t, target_file := target t\<rparr>))
       | AtDsn dsn \<Rightarrow> (case connect_dsn h dsn of
           Inl x \<Rightarrow> (worker_status (Inl (Crashed x)), k)
         | Inr drv \<Rightarrow> (case worker_once (crash_pg_ops drv) (worker_failpoint cfg) (worker_name cfg)
               (fresh_process (broker_server k) (target_file k) (worker_envs inp)) of
             (x, t) \<Rightarrow> (worker_status x, k\<lparr>broker_server := ledger t, target_file := target t\<rparr>)))))"

text \<open>The three recovery processes and their exit statuses; \<open>None\<close> has not ended.\<close>

definition run_recoveries :: "'s store_ops \<Rightarrow> scenario_inputs \<Rightarrow> string \<Rightarrow> 's \<Rightarrow> durable_target
    \<Rightarrow> ('s, durable_target) site" where
  "run_recoveries ops inp eid l w = run_turns ops durable_adapter_for crash_tenant eid (recovery_turns inp)
     \<lparr>site_ledger = l, site_target = w, agents = map (\<lambda>j. new_agent (recovery_envs inp j)) [0..<3]\<rparr>"

definition run_recovery_processes :: "host \<Rightarrow> scenario_inputs \<Rightarrow> string \<Rightarrow> string \<Rightarrow> disk \<Rightarrow> int option list \<times> disk" where
  "run_recovery_processes h inp broker_path eid k = (case open_store (host_environ h) broker_path of
     AtPath _ \<Rightarrow>
       (let m = run_recoveries crash_ops inp eid (broker_file k) (target_file k)
        in (map stage_status (stages m), k\<lparr>broker_file := site_ledger m, target_file := site_target m\<rparr>))
   | AtDsn dsn \<Rightarrow> (case connect_dsn h dsn of
       Inl x \<Rightarrow> (replicate 3 (stage_status (Ended (Inl x))), k)
     | Inr drv \<Rightarrow>
         (let m = run_recoveries (crash_pg_ops drv) inp eid (broker_server k) (target_file k)
          in (map stage_status (stages m), k\<lparr>broker_server := site_ledger m, target_file := site_target m\<rparr>))))"

text \<open>The zombie process and its exit status; it opens no target.\<close>

definition run_zombie :: "host \<Rightarrow> scenario_inputs \<Rightarrow> string \<Rightarrow> string \<Rightarrow> int \<Rightarrow> disk \<Rightarrow> int \<times> disk" where
  "run_zombie h inp broker_path eid expected k = (case open_store (host_environ h) broker_path of
     AtPath _ \<Rightarrow> (case zombie_transition crash_ops eid expected
         (fresh_process (broker_file k) (target_file k) (zombie_envs inp)) of
       (z, t) \<Rightarrow> (exit_status z, k\<lparr>broker_file := ledger t\<rparr>))
   | AtDsn dsn \<Rightarrow> (case connect_dsn h dsn of
       Inl x \<Rightarrow> (exit_status (Inl x :: error + unit), k)
     | Inr drv \<Rightarrow> (case zombie_transition (crash_pg_ops drv) eid expected
           (fresh_process (broker_server k) (target_file k) (zombie_envs inp)) of
         (z, t) \<Rightarrow> (exit_status z, k\<lparr>broker_server := ledger t\<rparr>))))"

text \<open>The second half: recoveries, zombie, verdict. The verdict reads the file.\<close>

definition judge_recovery :: "host \<Rightarrow> scenario_inputs \<Rightarrow> safety_class \<Rightarrow> effect_record \<Rightarrow> disk
    \<Rightarrow> (error + scenario_result) \<times> disk" where
  "judge_recovery h inp cls unknown k =
     (let broker_path = scenario_path h cls ''broker.sqlite3'' in
      case run_recovery_processes h inp broker_path (effect_id unknown) k of
        (statuses, k1) \<Rightarrow>
          if None \<in> set statuses then (Inl (PyError ''TimeoutExpired''), k1)
          else
            let codes = map the statuses in
            case run_zombie h inp broker_path (effect_id unknown) (version unknown) k1 of
              (z, k2) \<Rightarrow> (case get_op crash_ops crash_tenant (effect_id unknown) (broker_file k2) of
                None \<Rightarrow> (Inl (PyError ''AssertionError''), k2)
              | Some current \<Rightarrow>
                  let n = target_count (down_key current) (target_file k2);
                      v = judge cls current n (commit_call_count (down_key current) (target_file k2))
                        (sql_attempt_count (effect_id current) (broker_file k2));
                      good = (count_list codes 0 = 1 \<and> z = 23)
                  in (Inr \<lparr>scenario = safety_value cls, failpoint = crash_failpoint, result_count = n,
                       broker_status = status current, passed = (fst v \<and> good),
                       detail = (if good then snd v else snd v @ ''; recovery='' @ int_list_text codes
                         @ ''; zombie='' @ int_text z)\<rparr>, k2)))"

text \<open>A scenario starts from new files; the server is what earlier scenarios and others have left.\<close>

definition run_scenario :: "host \<Rightarrow> scenario_inputs \<Rightarrow> safety_class \<Rightarrow> pg_db \<Rightarrow> (error + scenario_result) \<times> pg_db" where
  "run_scenario h inp cls srv =
     (case submit_charge crash_ops cls (fresh_process empty_db (open_target (charge_clock inp)) (runner_envs inp)) of
       (Inl x, _) \<Rightarrow> (Inl x, srv)
     | (Inr res, s1) \<Rightarrow>
         (case run_worker h inp (scenario_path h cls ''broker.sqlite3'') (scenario_path h cls ''target.sqlite3'')
             crash_failpoint \<lparr>broker_file = ledger s1, broker_server = srv, target_file = target s1\<rparr> of
           (returncode, k) \<Rightarrow>
             if returncode = 0
             then (Inr \<lparr>scenario = safety_value cls, failpoint = crash_failpoint,
               result_count = target_count (down_key (res_effect res)) (target_file k),
               broker_status = status (res_effect res), passed = False, detail = ''live''\<rparr>, broker_server k)
             else
               (case mark_unknown crash_ops (res_effect res) (s1\<lparr>ledger := broker_file k, target := target_file k\<rparr>) of
                 (Inl x, _) \<Rightarrow> (Inl x, broker_server k)
               | (Inr unknown, s3) \<Rightarrow>
                   (case judge_recovery h inp cls unknown (k\<lparr>broker_file := ledger s3, target_file := target s3\<rparr>) of
                     (x, k') \<Rightarrow> (x, broker_server k')))))"

section \<open>The matrix\<close>

fun run_scenarios :: "host \<Rightarrow> (safety_class \<Rightarrow> scenario_inputs) \<Rightarrow> safety_class list \<Rightarrow> pg_db
    \<Rightarrow> (error + scenario_result list) \<times> pg_db" where
  "run_scenarios h inp [] srv = (Inr [], srv)"
| "run_scenarios h inp (c # cs) srv = (case run_scenario h (inp c) c srv of
     (Inl x, srv1) \<Rightarrow> (Inl x, srv1)
   | (Inr r, srv1) \<Rightarrow> (case run_scenarios h inp cs srv1 of
       (Inl x, srv2) \<Rightarrow> (Inl x, srv2)
     | (Inr rs, srv2) \<Rightarrow> (Inr (r # rs), srv2)))"

definition run_matrix :: "host \<Rightarrow> (safety_class \<Rightarrow> scenario_inputs) \<Rightarrow> pg_db \<Rightarrow> (error + scenario_result list) \<times> pg_db" where
  "run_matrix h inp srv = run_scenarios h inp [IDEMPOTENT, RECONCILABLE, UNSAFE] srv"

definition table_row :: "scenario_result \<Rightarrow> string" where
  "table_row r = scenario r @ '' | '' @ failpoint r @ '' | '' @ nat_text (result_count r) @ '' | ''
     @ status_value (broker_status r) @ '' | ''
     @ (if passed r then ''PASS'' else ''FAIL ('' @ detail r @ '')'')"

definition table_lines :: "scenario_result list \<Rightarrow> string list" where
  "table_lines rs = [''scenario | failpoint | target_count | broker_status | result'', ''--- | --- | ---: | --- | ---'']
     @ map table_row rs @ (if \<forall>r \<in> set rs. passed r then [''ALL PASS''] else [])"

text \<open>\<open>main\<close> without arguments: what it prints on its standard output, and its exit status.\<close>

definition matrix_main :: "host \<Rightarrow> (safety_class \<Rightarrow> scenario_inputs) \<Rightarrow> pg_db \<Rightarrow> string list \<times> int" where
  "matrix_main h inp srv = (case fst (run_matrix h inp srv) of
     Inl _ \<Rightarrow> ([], 1)
   | Inr rs \<Rightarrow> (table_lines rs, if \<forall>r \<in> set rs. passed r then 0 else 1))"

section \<open>The worker over any ledger\<close>

lemma may_raise_run:
  "m s = (Inl x, t) \<Longrightarrow> may_raise m s = (Inl (Crashed x), t)" "m s = (Inr y, t) \<Longrightarrow> may_raise m s = (Inr y, t)"
  by (simp_all add: may_raise_def)

definition worker_result :: "string \<Rightarrow> worker_end + int" where
  "worker_result fp = (if fp = ''none'' then Inr 0
     else if fp \<in> {''before_target_commit'', ''after_target_commit_before_receipt''} then Inl (Died 137)
     else Inl (Crashed (PyError ''ValueError'')))"

context effect_store begin

text \<open>
  What is durable at each way out of the worker, once it has claimed an effect: the attempt is, the
  charge is unless it died before it, the receipt is only if it ended well.
\<close>

definition worker_left :: "string \<Rightarrow> effect_record \<Rightarrow> (string \<Rightarrow> nat) \<Rightarrow> ('s, durable_target) world \<Rightarrow> worker_end + int
    \<Rightarrow> ('s, durable_target) world \<Rightarrow> effect_record \<Rightarrow> bool" where
  "worker_left fp c n s x t r \<longleftrightarrow> invar (ledger t) \<and> target_ok (target t)
     \<and> look (ledger t) = (look (ledger s))(effect_id c \<mapsto> r)
     \<and> tries (ledger t) = n \<and> same_pins c r \<and> status r = (if fp = ''none'' then SUCCEEDED else DISPATCHING)
     \<and> x = worker_result fp
     \<and> (if fp = ''before_target_commit'' then target t = target s
        else target_count (down_key c) (target t) = 1
          \<and> commit_call_count (down_key c) (target t) = Suc (commit_call_count (down_key c) (target s)))"

lemma worker_outcome_run:
  assumes inv: "invar (ledger s)" and look: "look (ledger s) (effect_id d) = Some d" and st: "status d = DISPATCHING"
    and rec: "recoverable accepts d" and ok: "target_ok (target s)"
  obtains x t r where "worker_outcome ops fp d aid s = (x, t)" "worker_left fp d (tries (ledger s)) s x t r"
proof (cases "fp = ''before_target_commit''")
  case True
  show thesis
    by (rule that [of "Inl (Died 137)" s d]) (use True assms in \<open>simp_all add: worker_outcome_def worker_left_def worker_result_def fun_upd_idem\<close>)
next
  case past: False
  from rec obtain js where js: "canonical_json (VDict (commit_payload d)) = Inr js"
    unfolding recoverable_def by (cases "canonical_json (VDict (commit_payload d))") simp_all
  obtain ext v where v: "target_commit (down_key d) (commit_payload d) (target s) = (Inr ext, v)"
    "target_ok v" "target_count (down_key d) v = 1"
    "commit_call_count (down_key d) v = Suc (commit_call_count (down_key d) (target s))"
    by (rule target_commit_counts [OF ok js])
  let ?s = "s\<lparr>target := v\<rparr>"
  have call: "may_raise (on_target (target_commit (down_key d) (commit_payload d))) s = (Inr ext, ?s)"
    by (rule may_raise_run) (simp add: on_target_def v)
  show thesis
  proof (cases "fp = ''none''")
    case False
    then show thesis
      by (intro that [of "if fp = ''after_target_commit_before_receipt'' then Inl (Died 137)
          else Inl (Crashed (PyError ''ValueError''))" ?s d])
        (use past call v assms in \<open>simp_all add: worker_outcome_def worker_left_def worker_result_def and_then_def fun_upd_idem\<close>)
  next
    case True
    let ?data = "[(VStr ''attempt_id'', VStr aid), (VStr ''external_id'', VStr ext),
      (VStr ''output'', VDict [(VStr ''external_id'', VStr ext)])]"
    have "accepts ?data" using rec by (simp add: recoverable_def opt_str_def)
    moreover have "is_allowed (status d) SUCCEEDED" by (simp add: st is_allowed_simps)
    ultimately obtain l where l: "transition_op ops (envs s (ticks s)) (effect_id d) (version d) SUCCEEDED ?data (ledger s) =
        (Inr (advance d SUCCEEDED (env_now (envs s (ticks s)))), l)" "invar l"
      "look l = (look (ledger s))(effect_id d \<mapsto> advance d SUCCEEDED (env_now (envs s (ticks s))))"
      "tries l = tries (ledger s)"
      using transition_done [OF inv look HOL.refl] by blast
    have "worker_outcome ops fp d aid s = (Inr 0, ?s\<lparr>ticks := Suc (ticks s), ledger := l\<rparr>)"
      using True call l(1) by (simp add: worker_outcome_def and_then_def may_raise_run run_simps on_ledger_def)
    with True l v show thesis
      by (intro that [of "Inr 0" "?s\<lparr>ticks := Suc (ticks s), ledger := l\<rparr>"
            "advance d SUCCEEDED (env_now (envs s (ticks s)))"]) (simp_all add: worker_left_def worker_result_def)
  qed
qed

lemma worker_once_run:
  assumes inv: "invar l" and look: "look l (effect_id c) = Some c" and due: "due c" and rec: "recoverable accepts c"
    and ok: "target_ok (target s)"
    and claim: "claim_op ops w (env_now (envs s (ticks s))) (seconds 1) 1 (ledger s) = (Inr [c], l)"
  obtains x t r where "worker_once ops fp w s = (x, t)" "worker_left fp c ((tries l)(effect_id c := Suc (tries l (effect_id c)))) (s\<lparr>ledger := l\<rparr>) x t r"
proof -
  let ?e1 = "envs s (Suc (ticks s))" and ?e2 = "envs s (Suc (Suc (ticks s)))"
  let ?d = "advance c DISPATCHING (env_now ?e1)" and ?eid = "effect_id c"
  have "is_allowed (status c) DISPATCHING" using due by (auto simp: due_def is_allowed_simps)
  from transition_done [OF inv look HOL.refl this accepts_plain [OF plain_simps(1) [of w]], of ?e1] obtain l1 where
    l1: "transition_op ops ?e1 ?eid (version c) DISPATCHING [(VStr ''worker_id'', VStr w)] l = (Inr ?d, l1)"
      "invar l1" "look l1 = (look l)(?eid \<mapsto> ?d)" "tries l1 = tries l" by blast
  then have "look l1 ?eid = Some ?d" by simp
  from start_done [OF l1(2) this HOL.refl, of ?e2 w] obtain l2 where
    l2: "start_op ops ?e2 ?eid (version ?d) w l1 = (Inr (attempt_name ?eid (Suc (tries l1 ?eid))), l2)"
      "invar l2" "look l2 = look l1" "tries l2 = (tries l1)(?eid := Suc (tries l1 ?eid))" by blast
  let ?s = "s\<lparr>ticks := Suc (Suc (Suc (ticks s))), ledger := l2\<rparr>"
  have run: "worker_once ops fp w s = worker_outcome ops fp ?d (attempt_name ?eid (Suc (tries l1 ?eid))) ?s"
    using claim l1(1) l2(1) by (simp add: worker_once_def and_then_def may_raise_run run_simps on_ledger_def)
  have "recoverable accepts ?d" using rec recoverable_pins [of c ?d] by simp
  moreover have "invar (ledger ?s)" "look (ledger ?s) (effect_id ?d) = Some ?d" "status ?d = DISPATCHING"
    "target_ok (target ?s)" using l1 l2 ok by simp_all
  ultimately obtain x t r where out: "worker_outcome ops fp ?d (attempt_name ?eid (Suc (tries l1 ?eid))) ?s = (x, t)"
    "worker_left fp ?d (tries (ledger ?s)) ?s x t r"
    by (metis worker_outcome_run)
  have "same_pins c r" using out(2) by (simp add: worker_left_def same_pins_def)
  moreover have "look (ledger ?s) = (look l)(?eid \<mapsto> ?d)" "tries (ledger ?s) = (tries l)(?eid := Suc (tries l ?eid))"
    "target ?s = target s" using l1 l2 by simp_all
  ultimately have "worker_left fp c ((tries l)(?eid := Suc (tries l ?eid))) (s\<lparr>ledger := l\<rparr>) x t r"
    using out(2) unfolding worker_left_def by (simp split: if_split_asm)
  with out(1) run show thesis by (intro that [of x t r]) simp_all
qed

end

end
