(* ===== verification/Crash_Properties.thy ===== *)
theory Crash_Properties
  imports Crash_Matrix Sqlite_Properties
begin

text \<open>
  Properties of the crash matrix: recoveries that run at the same time, the worker at each failpoint, and
  the verdict of the runner on a worker killed between the commit and the receipt.
\<close>

section \<open>What the runner submits\<close>

lemma crash_wf: "wf_request (crash_request cls)"
  by (simp add: wf_request_def crash_request_def)

lemma crash_request_hash:
  obtains digest where "request_hash (tool (crash_request cls)) (arguments (crash_request cls))
    (contract_name (crash_contract cls)) (contract_version (crash_contract cls)) = Inr digest"
proof -
  have "encodable (fingerprint_payload crash_tool (arguments (crash_request cls)) crash_tool ''v1'')"
    by (simp add: fingerprint_payload_def crash_request_def encodable_item_def)
  from canonical_json_encodable [OF this] show thesis
    by (intro that) (simp add: request_hash_def crash_contract_def crash_request_def)
qed

lemma sql_recoverable:
  assumes "encodable (VDict (arguments (request r)))"
  shows "recoverable sql_accepts r"
proof -
  have enc: "\<not> isl (canonical_json v)" if "encodable v" for v using canonical_json_encodable [OF that] by simp
  have "encodable (VDict (commit_payload r))"
    using assms by (simp add: commit_payload_def encodable_item_def)
  moreover have "encodable (VDict [(VStr ''attempt_id'', VStr aid), (VStr ''external_id'', opt_str (Some ext)),
      (VStr ''output'', VDict [(VStr ''external_id'', VStr ext)])])" for aid ext
    by (simp add: encodable_item_def opt_str_def)
  moreover have "encodable (VDict (probe_data (found_answer (down_key r) ext)))" for ext
    by (simp add: probe_data_def found_answer_def encodable_item_def opt_str_def)
  ultimately show ?thesis by (auto simp: recoverable_def sql_accepts_def enc)
qed

text \<open>The reserved effect, as the ledger reads it back.\<close>

lemma crash_contract_kept: "sql_pin (crash_contract cls) = crash_contract cls"
  by (simp add: sql_pin_def crash_contract_def duration_columns short_duration_def)

lemma saved_simps [simp]:
  "effect_id (sql_saved r) = effect_id r" "tenant_id (sql_saved r) = tenant_id r" "status (sql_saved r) = status r"
  "contract (sql_saved r) = sql_pin (contract r)" "created_at (sql_saved r) = created_at r"
  "down_key (sql_saved r) = down_key r"
  "arguments (request (sql_saved r)) = object_items (restored (VDict (arguments (request r))))"
  by (simp_all add: sql_saved_def)

lemma submitted_charge:
  fixes es :: "nat \<Rightarrow> env"
  obtains r s row where "submit_charge crash_ops cls (fresh_process empty_db w es) =
      (Inr \<lparr>res_effect = r, created = True, replayed = False\<rparr>, s)"
    "sql_ok (ledger s)" "sql_look (ledger s) = [effect_id r \<mapsto> sql_saved r]" "attempts_table (ledger s) = []"
    "record_params r = Inr row" "effects_table (ledger s) = [row]" "target s = w"
    "status r = PREPARED" "tenant_id r = crash_tenant" "contract r = crash_contract cls"
    "created_at r = env_now (es 0)" "request r = crash_request cls"
proof -
  obtain digest where hash: "request_hash (tool (crash_request cls)) (arguments (crash_request cls))
    (contract_name (crash_contract cls)) (contract_version (crash_contract cls)) = Inr digest"
    by (rule crash_request_hash)
  let ?key = "tenant_key_provider_from_secret tenant_secret"
  let ?r = "sql_new_record ?key (es 0) crash_tenant (crash_request cls) (crash_contract cls) digest"
  obtain t row where t: "sql_reserve ?key (es 0) crash_tenant (crash_request cls) (crash_contract cls) empty_db =
      (Inr \<lparr>res_effect = ?r, created = True, replayed = False\<rparr>, t)"
    "sql_ok t" "sql_look t = (sql_look empty_db)(effect_id ?r \<mapsto> sql_saved ?r)"
    "attempts_table t = attempts_table empty_db" "record_params ?r = Inr row"
    "effects_table t = effects_table empty_db @ [row]"
    by (rule sql_reserve_fresh [OF sql_ok_empty crash_wf hash HOL.refl]) (simp_all add: empty_db_def)
  obtain s where s: "submit_charge crash_ops cls (fresh_process empty_db w es) =
      (Inr \<lparr>res_effect = ?r, created = True, replayed = False\<rparr>, s)" "ledger s = t" "target s = w"
    using t(1) by (simp add: submit_charge_def submit_def crash_broker_def crash_ops_def sqlite_ops_simps and_then_def
        run_simps registry_get_def observe_latency_def on_error_def on_ledger_def fresh_process_def)
      (simp add: crash_request_def)
  have "sql_look empty_db = Map.empty" by (simp add: empty_db_def sql_look_def fun_eq_iff)
  with t show thesis
    by (intro that [OF s(1)]) (simp_all add: s empty_db_def sql_new_record_def)
qed

section \<open>The worker\<close>

lemma crash_ops_simps:
  "claim_op crash_ops = sql_claim_due" "start_op crash_ops = sql_start_attempt" "transition_op crash_ops = sql_transition"
  by (simp_all add: crash_ops_def sqlite_ops_simps)

lemma crash_claim:
  assumes ok: "sql_ok l" and look: "sql_look l = [effect_id r \<mapsto> sql_saved r]"
    and row: "record_params r = Inr row" "effects_table l = [row]" and st: "status r = PREPARED"
  obtains t where "sql_claim_due w now lf 1 l = (Inr [claim_record (sql_saved r) now], t)" "sql_ok t"
    "sql_look t = [effect_id r \<mapsto> claim_record (sql_saved r) now]" "attempts_table t = attempts_table l"
proof -
  from row(1) have cols: "row_id row = effect_id r" "row_lease_until row = None" "row_due row"
    using st by (auto simp: record_params_def row_due_def split: sum.splits)
  have "sql_look l (effect_id r) = Some (sql_saved r)" using look by simp
  then have rec: "row_to_record row = Inr (sql_saved r)"
    by (simp add: sql_look_def row(2) cols(1) split: sum.splits)
  have batch: "sql_batch now 1 l = [row]"
    by (simp add: sql_batch_def pick_rows_def due_rows_def row_leased_def row(2) cols)
  from sql_claim_run [OF ok, of w now lf 1] obtain t where
    "sql_claim_due w now lf 1 l = (Inr [claimed_row now row], t)" "sql_ok t" "attempts_table t = attempts_table l"
    "sql_look t = sql_look l ++ [effect_id r \<mapsto> claimed_row now row]" by (auto simp: batch cols)
  then show thesis by (intro that [of t]) (simp_all add: claimed_row_Inr [OF rec] look)
qed

lemma crash_worker:
  assumes s: "sql_ok (ledger s)" "sql_look (ledger s) = [effect_id r \<mapsto> sql_saved r]" "attempts_table (ledger s) = []"
    "record_params r = Inr row" "effects_table (ledger s) = [row]" "status r = PREPARED"
    and enc: "encodable (VDict (arguments (request r)))" and ok: "target_ok (target s)"
  obtains x t d where "worker_once crash_ops fp w s = (x, t)" "x = worker_result fp" "sql_ok (ledger t)"
    "sql_look (ledger t) = [effect_id r \<mapsto> d]" "same_pins (sql_saved r) d"
    "status d = (if fp = ''none'' then SUCCEEDED else DISPATCHING)" "sql_attempt_count (effect_id r) (ledger t) = 1"
    "target_ok (target t)" "if fp = ''before_target_commit'' then target t = target s
     else target_count (down_key r) (target t) = 1
       \<and> commit_call_count (down_key r) (target t) = Suc (commit_call_count (down_key r) (target s))"
proof -
  let ?now = "env_now (envs s (ticks s))"
  let ?c = "claim_record (sql_saved r) ?now"
  obtain l where l: "sql_claim_due w ?now (seconds 1) 1 (ledger s) = (Inr [?c], l)" "sql_ok l"
    "sql_look l = [effect_id r \<mapsto> ?c]" "attempts_table l = attempts_table (ledger s)"
    by (rule crash_claim [OF s(1,2,4,5,6)])
  have enc': "encodable (VDict (arguments (request ?c)))"
    using restored_meaning [OF enc] by (simp only: claim_record_simps saved_simps restored_object)
  have id: "effect_id ?c = effect_id r" by simp
  have due: "due ?c" by (simp add: due_def s(6))
  have look: "sql_look l (effect_id ?c) = Some ?c" by (simp add: l(3))
  have claim: "claim_op crash_ops w ?now (seconds 1) 1 (ledger s) = (Inr [?c], l)"
    unfolding crash_ops_simps by (rule l)
  obtain x t d where out: "worker_once crash_ops fp w s = (x, t)"
    "sql.worker_left fp ?c ((\<lambda>i. sql_attempt_count i l)(effect_id ?c := Suc (sql_attempt_count (effect_id ?c) l)))
      (s\<lparr>ledger := l\<rparr>) x t d"
    by (rule sql.worker_once_run [OF l(2) look due sql_recoverable [OF enc'] ok claim [unfolded crash_ops_def],
          where fp = fp, folded crash_ops_def])
  have tries: "sql_attempt_count (effect_id ?c) l = 0" by (simp add: sql_attempt_count_def l(4) s(3))
  have "down_key ?c = down_key r" by simp
  moreover have "sql_attempt_count (effect_id r) (ledger t) = 1"
    using out(2) tries unfolding sql.worker_left_def id by (metis fun_upd_same One_nat_def)
  moreover have "same_pins (sql_saved r) d" using out(2) by (simp add: sql.worker_left_def same_pins_def)
  ultimately show thesis using out(2) unfolding sql.worker_left_def
    by (intro that [OF out(1)]) (auto simp: l(3) split: if_split_asm)
qed

lemma crash_enc: "encodable (VDict (arguments (crash_request cls)))"
  by (simp add: crash_request_def encodable_item_def)

text \<open>
  C25. The worker at its failpoints: killed before the target commits it leaves a \<open>DISPATCHING\<close> effect, one
  attempt and no charge; killed after it, or with an unknown failpoint, the same effect and attempt with
  the charge made and no receipt; without a failpoint the effect has succeeded. It never charges twice
  and always leaves exactly one attempt behind.
\<close>

theorem worker_failpoints:
  assumes "submit_charge crash_ops cls (fresh_process empty_db (open_target clock) es) = (Inr res, s)"
    and "worker_once crash_ops fp w (fresh_process (ledger s) (target s) ws) = (x, t)"
  shows "x = worker_result fp
    \<and> (\<exists>d. sql_look (ledger t) (effect_id (res_effect res)) = Some d
         \<and> status d = (if fp = ''none'' then SUCCEEDED else DISPATCHING))
    \<and> sql_attempt_count (effect_id (res_effect res)) (ledger t) = 1
    \<and> target_count (down_key (res_effect res)) (target t) = (if fp = ''before_target_commit'' then 0 else 1)"
proof -
  obtain r s' row where s': "submit_charge crash_ops cls (fresh_process empty_db (open_target clock) es) =
      (Inr \<lparr>res_effect = r, created = True, replayed = False\<rparr>, s')"
    "sql_ok (ledger s')" "sql_look (ledger s') = [effect_id r \<mapsto> sql_saved r]" "attempts_table (ledger s') = []"
    "record_params r = Inr row" "effects_table (ledger s') = [row]" "target s' = open_target clock"
    "status r = PREPARED" "request r = crash_request cls"
    by (rule submitted_charge [of cls "open_target clock" es])
  with assms(1) have r: "res_effect res = r" "s' = s" by auto
  let ?p = "fresh_process (ledger s) (target s) ws"
  note at = s'(2-6) [unfolded r]
  obtain x' t' d where out: "worker_once crash_ops fp w ?p = (x', t')" "x' = worker_result fp"
    "sql_look (ledger t') = [effect_id r \<mapsto> d]" "status d = (if fp = ''none'' then SUCCEEDED else DISPATCHING)"
    "sql_attempt_count (effect_id r) (ledger t') = 1"
    "if fp = ''before_target_commit'' then target t' = target ?p
     else target_count (down_key r) (target t') = 1
       \<and> commit_call_count (down_key r) (target t') = Suc (commit_call_count (down_key r) (target ?p))"
    by (rule crash_worker [where s = ?p and r = r and row = row and fp = fp and w = w])
      (use at s'(7-9) r crash_enc in \<open>simp_all add: fresh_process_def target_ok_open\<close>)
  moreover have "x' = x" "t' = t" using out(1) assms(2) by simp_all
  ultimately show ?thesis
    using s'(7) r by (simp add: fresh_process_def split: if_split_asm)
qed

theorem worker_failpoints_witness:
  "\<exists>res s x t. submit_charge crash_ops UNSAFE (fresh_process empty_db (open_target (\<lambda>_. 0)) (\<lambda>_. demo_env)) = (Inr res, s)
     \<and> worker_once crash_ops crash_failpoint ''w'' (fresh_process (ledger s) (target s) (\<lambda>_. demo_env)) = (x, t)
     \<and> x = Inl (Died 137) \<and> target_count (down_key (res_effect res)) (target t) = 1"
proof -
  obtain r s where s: "submit_charge crash_ops UNSAFE (fresh_process empty_db (open_target (\<lambda>_. 0)) (\<lambda>_. demo_env)) =
      (Inr \<lparr>res_effect = r, created = True, replayed = False\<rparr>, s)"
    by (rule submitted_charge [of UNSAFE "open_target (\<lambda>_. 0)" "\<lambda>_. demo_env"])
  obtain x t where t: "worker_once crash_ops crash_failpoint ''w'' (fresh_process (ledger s) (target s) (\<lambda>_. demo_env)) = (x, t)"
    by (cases "worker_once crash_ops crash_failpoint ''w'' (fresh_process (ledger s) (target s) (\<lambda>_. demo_env))")
  from worker_failpoints [OF s t] s t show ?thesis
    by (simp add: worker_result_def crash_failpoint_def)
qed

section \<open>Recoveries at the same time\<close>

lemma rank_le: "rank st \<le> 5"
  by (cases st) simp_all

text \<open>
  A recovery ends: five turns of its own are enough, whatever the ledger, the target and the adapters
  do, however many others run and whatever they do in between.
\<close>

theorem recovery_terminates:
  assumes "j < length (agents m)" and "5 \<le> count_list js j"
  shows "is_ended (stages (run_turns ops adapters tenant eid js m) ! j)"
proof -
  have "rank (agent_stage (agents (run_turns ops adapters tenant eid js m) ! j)) = 0"
    using rank_run_turns [OF assms(1), of ops adapters tenant eid js] rank_le [of "agent_stage (agents m ! j)"] assms(2)
    by simp
  then show ?thesis using assms(1) by (simp add: stages_def rank_ended)
qed

theorem recovery_terminates_witness:
  "is_ended (stages (run_turns crash_ops durable_adapter_for crash_tenant ''eff_u'' [0, 1, 0, 1, 0, 1, 0, 1, 0, 1]
     \<lparr>site_ledger = empty_db, site_target = open_target (\<lambda>_. 0),
        agents = [new_agent (\<lambda>_. demo_env), new_agent (\<lambda>_. demo_env)]\<rparr>) ! 1)"
  by (rule recovery_terminates) simp_all

text \<open>
  Without interruption the steps of a recovery are the code: from its first step on, five steps
  return what \<open>recover_one\<close> returns and leave the ledger, the target, the clock and the metrics as it does.
\<close>

theorem recovery_stepwise:
  assumes "recover_one ops adapters tenant eid s = (x, t)"
  shows "((\<lambda>(st, u). advance_stage ops adapters tenant eid st u) ^^ 5) (Opening, s) = (Ended x, t)"
  by (rule stages_whole [OF assms])

theorem recovery_stepwise_witness:
  "((\<lambda>(st, u). advance_stage crash_ops durable_adapter_for crash_tenant ''eff_u'' st u) ^^ 5)
     (Opening, fresh_process empty_db (open_target (\<lambda>_. 0)) (\<lambda>_. demo_env))
   = (Ended (Inl (PyError ''AssertionError'')), fresh_process empty_db (open_target (\<lambda>_. 0)) (\<lambda>_. demo_env))"
proof (rule recovery_stepwise)
  have "get_op crash_ops crash_tenant ''eff_u'' empty_db = None"
    unfolding crash_ops_def sql.get_look [OF sql_ok_empty] by (simp add: sql_look_def empty_db_def)
  then show "recover_one crash_ops durable_adapter_for crash_tenant ''eff_u''
      (fresh_process empty_db (open_target (\<lambda>_. 0)) (\<lambda>_. demo_env)) =
    (Inl (PyError ''AssertionError''), fresh_process empty_db (open_target (\<lambda>_. 0)) (\<lambda>_. demo_env))"
    by (simp add: recover_one_def fresh_process_def)
qed

text \<open>
  C22. Of any number of recoveries that work on the same unknown effect at the same time, in whatever order
  their steps fall, exactly one returns, and what it returns is what the ledger then holds: succeeded for
  an idempotent effect within the retention of its key and for a probed one, with an operator for an
  unsafe one. Every other recovery ends in an exception, and the target makes no second charge.
\<close>

theorem one_recovery_wins:
  assumes "sql_ok l" and "sql_look l eid = Some r" and "status r = OUTCOME_UNKNOWN" and "tenant_id r = tenant"
    and "encodable (VDict (arguments (request r)))" and "target_ok w" and "target_count (down_key r) w = 1"
    and "es \<noteq> []" and "\<forall>e \<in> set es. within_retention e r" and "\<forall>j < length es. 5 \<le> count_list js j"
    and "m = run_turns (sqlite_ops key) durable_adapter_for tenant eid js
      \<lparr>site_ledger = l, site_target = w, agents = map new_agent es\<rparr>"
  shows "\<exists>c. sql_look (site_ledger m) eid = Some c \<and> same_pins r c
    \<and> status c = settled_status (safety (contract r))
    \<and> length (filter (\<lambda>st. st = Ended (Inr c)) (stages m)) = 1
    \<and> (\<forall>st \<in> set (stages m). st = Ended (Inr c) \<or> (\<exists>x. st = Ended (Inl x)))
    \<and> target_effects (site_target m) = target_effects w"
  by (rule sql.one_recovery_returns [OF assms(1-4) sql_recoverable [OF assms(5)] assms(6-11)]) blast

section \<open>The whole scenario\<close>

text \<open>The first half: the charge was made, the worker is dead, and the runner has marked the effect.\<close>

lemma crash_marked:
  fixes inp :: scenario_inputs and w :: string
  obtains res s1 t2 r unknown s3 where
    "submit_charge crash_ops cls (fresh_process empty_db (open_target (charge_clock inp)) (runner_envs inp)) = (Inr res, s1)"
    "worker_once crash_ops crash_failpoint w
       (fresh_process (ledger s1) (target s1) (worker_envs inp)) = (Inl (Died 137), t2)"
    "mark_unknown crash_ops (res_effect res) (s1\<lparr>ledger := ledger t2, target := target t2\<rparr>) = (Inr unknown, s3)"
    "sql_ok (ledger s3)" "sql_look (ledger s3) (effect_id unknown) = Some unknown" "status unknown = OUTCOME_UNKNOWN"
    "same_pins (sql_saved r) unknown" "contract r = crash_contract cls" "request r = crash_request cls"
    "tenant_id r = crash_tenant" "created_at r = env_now (runner_envs inp 0)"
    "sql_attempt_count (effect_id unknown) (ledger s3) = 1" "target_ok (target s3)"
    "target_count (down_key r) (target s3) = 1" "commit_call_count (down_key r) (target s3) = 1"
proof -
  obtain r s1 row where s1: "submit_charge crash_ops cls
      (fresh_process empty_db (open_target (charge_clock inp)) (runner_envs inp)) =
      (Inr \<lparr>res_effect = r, created = True, replayed = False\<rparr>, s1)"
    "sql_ok (ledger s1)" "sql_look (ledger s1) = [effect_id r \<mapsto> sql_saved r]" "attempts_table (ledger s1) = []"
    "record_params r = Inr row" "effects_table (ledger s1) = [row]" "target s1 = open_target (charge_clock inp)"
    "status r = PREPARED" "tenant_id r = crash_tenant" "contract r = crash_contract cls"
    "created_at r = env_now (runner_envs inp 0)" "request r = crash_request cls"
    by (rule submitted_charge [of cls "open_target (charge_clock inp)" "runner_envs inp"])
  let ?p = "fresh_process (ledger s1) (target s1) (worker_envs inp)"
  obtain x t d where t: "worker_once crash_ops crash_failpoint w ?p = (x, t)" "x = worker_result crash_failpoint"
    "sql_ok (ledger t)" "sql_look (ledger t) = [effect_id r \<mapsto> d]" "same_pins (sql_saved r) d"
    "status d = (if crash_failpoint = ''none'' then SUCCEEDED else DISPATCHING)"
    "sql_attempt_count (effect_id r) (ledger t) = 1" "target_ok (target t)"
    "if crash_failpoint = ''before_target_commit'' then target t = target ?p
     else target_count (down_key r) (target t) = 1
       \<and> commit_call_count (down_key r) (target t) = Suc (commit_call_count (down_key r) (target ?p))"
    by (rule crash_worker [where s = ?p and r = r and row = row and fp = crash_failpoint and w = w])
      (use s1 crash_enc in \<open>simp_all add: fresh_process_def target_ok_open\<close>)
  have x: "x = Inl (Died 137)" and d: "status d = DISPATCHING" "tenant_id d = crash_tenant" "effect_id d = effect_id r"
    using t(2,5,6) s1(9) by (simp_all add: worker_result_def crash_failpoint_def same_pins_def)
  let ?s = "s1\<lparr>ledger := ledger t, target := target t\<rparr>" and ?e = "envs s1 (ticks s1)"
  have look: "sql_look (ledger t) (effect_id d) = Some d" using t(4) d(3) by simp
  have allowed: "is_allowed (status d) OUTCOME_UNKNOWN" by (simp add: d is_allowed_simps)
  obtain l where l: "transition_op crash_ops ?e (effect_id d) (version d) OUTCOME_UNKNOWN
      [(VStr ''reason'', VStr ''stale_dispatching_worker_died'')] (ledger t) =
      (Inr (advance d OUTCOME_UNKNOWN (env_now ?e)), l)" "sql_ok l"
    "sql_look l = (sql_look (ledger t))(effect_id d \<mapsto> advance d OUTCOME_UNKNOWN (env_now ?e))"
    "(\<lambda>i. sql_attempt_count i l) = (\<lambda>i. sql_attempt_count i (ledger t))"
    using sql.transition_done [OF t(3) look HOL.refl allowed sql_accepts_plain [OF plain_simps(4)]]
    unfolding crash_ops_def by blast
  let ?u = "advance d OUTCOME_UNKNOWN (env_now ?e)"
  have get: "get_op crash_ops crash_tenant (effect_id r) (ledger t) = Some d"
    unfolding crash_ops_def sql.get_look [OF t(3)] using t(4) d(2) by simp
  have mark: "mark_unknown crash_ops r ?s = (Inr ?u, ?s\<lparr>ticks := Suc (ticks s1), ledger := l\<rparr>)"
    using get d(1) l(1) by (simp add: mark_unknown_def and_then_def run_simps on_ledger_def)
  have counts: "target_count (down_key r) (target t) = 1" "commit_call_count (down_key r) (target t) = 1"
    using t(9) s1(7) by (simp_all add: crash_failpoint_def fresh_process_def)
  have "sql_attempt_count (effect_id r) l = 1" using l(4) t(7) by metis
  with counts t s1 l mark x d show thesis
    by (intro that [OF s1(1), of t ?u "?s\<lparr>ticks := Suc (ticks s1), ledger := l\<rparr>" r]) simp_all
qed

text \<open>Two recoveries of such an effect.\<close>

theorem one_recovery_wins_witness:
  "\<exists>l w r c m. sql_look l (effect_id r) = Some r \<and> status r = OUTCOME_UNKNOWN
     \<and> m = run_turns crash_ops durable_adapter_for crash_tenant (effect_id r) [0, 0, 0, 1, 1, 1, 1, 1, 0, 0]
       \<lparr>site_ledger = l, site_target = w, agents = map new_agent [\<lambda>_. demo_env, \<lambda>_. demo_env]\<rparr>
     \<and> sql_look (site_ledger m) (effect_id r) = Some c \<and> status c = MANUAL_REVIEW
     \<and> length (filter (\<lambda>st. st = Ended (Inr c)) (stages m)) = 1"
proof -
  obtain r unknown and s3 :: "(sqlite_db, durable_target) world" where
    at: "sql_ok (ledger s3)" "sql_look (ledger s3) (effect_id unknown) = Some unknown" "status unknown = OUTCOME_UNKNOWN"
      "same_pins (sql_saved r) unknown" "contract r = crash_contract UNSAFE" "request r = crash_request UNSAFE"
      "tenant_id r = crash_tenant" "target_ok (target s3)" "target_count (down_key r) (target s3) = 1"
    by (rule crash_marked [of UNSAFE "\<lparr>runner_envs = (\<lambda>_. demo_env), worker_envs = (\<lambda>_. demo_env),
      recovery_envs = (\<lambda>_ _. demo_env), zombie_envs = (\<lambda>_. demo_env), charge_clock = (\<lambda>_. 0),
      recovery_turns = [], worker_pid = 1\<rparr>"]) blast
  then have pins: "tenant_id unknown = crash_tenant" "safety (contract unknown) = UNSAFE" "down_key unknown = down_key r"
    "arguments (request unknown) = object_items (restored (VDict (arguments (crash_request UNSAFE))))"
    by (simp_all add: same_pins_def crash_contract_kept) (simp add: crash_contract_def)
  have enc: "encodable (VDict (arguments (request unknown)))"
    using restored_meaning [OF crash_enc [of UNSAFE]] by (simp only: pins(4) restored_object)
  let ?es = "[\<lambda>_. demo_env, \<lambda>_. demo_env] :: (nat \<Rightarrow> env) list" and ?js = "[0, 0, 0, 1, 1, 1, 1, 1, 0, 0] :: nat list"
  have more: "?es \<noteq> []" "\<forall>e \<in> set ?es. within_retention e unknown" "\<forall>j < length ?es. 5 \<le> count_list ?js j"
    using pins(2) by (auto simp: within_retention_def less_Suc_eq)
  have known: "target_count (down_key unknown) (target s3) = 1" using at(9) pins(3) by simp
  obtain m where m: "m = run_turns crash_ops durable_adapter_for crash_tenant (effect_id unknown) ?js
      \<lparr>site_ledger = ledger s3, site_target = target s3, agents = map new_agent ?es\<rparr>" by blast
  from one_recovery_wins [OF at(1-3) pins(1) enc at(8) known more m [unfolded crash_ops_def]] obtain c where
    "sql_look (site_ledger m) (effect_id unknown) = Some c" "status c = MANUAL_REVIEW"
    "length (filter (\<lambda>st. st = Ended (Inr c)) (stages m)) = 1" using pins(2) by (auto simp: settled_status_def)
  with at(2,3) m show ?thesis by blast
qed

lemma count_list_map: "count_list (map f xs) y = length (filter (\<lambda>x. f x = y) xs)"
  by (induction xs) auto

text \<open>The exit statuses of recoveries of which exactly one returned.\<close>

lemma recovery_statuses:
  assumes "length (filter (\<lambda>st. st = Ended (Inr c)) sts) = 1"
    and "\<And>st. st \<in> set sts \<Longrightarrow> st = Ended (Inr c) \<or> (\<exists>x. st = Ended (Inl x))"
  shows "None \<notin> set (map stage_status sts)" "count_list (map the (map stage_status sts)) 0 = 1"
proof -
  show "None \<notin> set (map stage_status sts)" using assms(2) by (force simp: stage_status_def)
  have "filter (\<lambda>st. the (stage_status st) = 0) sts = filter (\<lambda>st. st = Ended (Inr c)) sts"
  proof (rule filter_cong [OF HOL.refl])
    fix st
    assume "st \<in> set sts"
    from assms(2) [OF this] show "(the (stage_status st) = 0) = (st = Ended (Inr c))"
      by (auto simp: stage_status_def exit_status_def split: error.splits)
  qed
  with assms(1) show "count_list (map the (map stage_status sts)) 0 = 1"
    by (simp add: count_list_map o_def)
qed

text \<open>The second half, from the state the first one leaves.\<close>

lemma recovery_judged:
  assumes no_dsn: "\<not> nonempty (host_environ h ''BROKER_DSN'')" and cls: "cls \<in> {IDEMPOTENT, RECONCILABLE, UNSAFE}"
    and r: "sql_ok l" "sql_look l (effect_id r) = Some r" "status r = OUTCOME_UNKNOWN" "tenant_id r = crash_tenant"
      "safety (contract r) = cls" "encodable (VDict (arguments (request r)))"
    and attempts: "sql_attempt_count (effect_id r) l = 1"
    and w: "target_ok w" "target_count (down_key r) w = 1" "commit_call_count (down_key r) w = 1"
    and live: "\<forall>j < 3. within_retention (recovery_envs inp j) r"
    and fair: "\<forall>j < 3. 5 \<le> count_list (recovery_turns inp) j"
  obtains res k where "judge_recovery h inp cls r \<lparr>broker_file = l, broker_server = srv, target_file = w\<rparr> = (Inr res, k)"
    "broker_server k = srv" "passed res" "result_count res = 1"
    "broker_status res = settled_status cls" "scenario res = safety_value cls" "failpoint res = crash_failpoint"
proof -
  let ?eid = "effect_id r" and ?m = "run_recoveries crash_ops inp (effect_id r) l w"
  let ?es = "map (recovery_envs inp) [0..<3]"
  have m: "?m = run_turns crash_ops durable_adapter_for crash_tenant ?eid (recovery_turns inp)
      \<lparr>site_ledger = l, site_target = w, agents = map new_agent ?es\<rparr>"
    by (simp add: run_recoveries_def o_def)
  obtain c where c: "sql_ok (site_ledger ?m)" "sql_look (site_ledger ?m) ?eid = Some c" "same_pins r c"
    "status c = settled_status (safety (contract r))" "version r < version c"
    "length (filter (\<lambda>st. st = Ended (Inr c)) (stages ?m)) = 1"
    "\<And>st. st \<in> set (stages ?m) \<Longrightarrow> st = Ended (Inr c) \<or> (\<exists>x. st = Ended (Inl x))"
    "target_effects (site_target ?m) = target_effects w"
    "safety (contract r) \<noteq> IDEMPOTENT \<Longrightarrow> site_target ?m = w
       \<and> (\<lambda>i. sql_attempt_count i (site_ledger ?m)) = (\<lambda>i. sql_attempt_count i l)"
    by (rule sql.one_recovery_returns [OF r(1-4) sql_recoverable [OF r(6)] w(1,2) _ _ _ m [unfolded crash_ops_def],
          folded crash_ops_def]) (use live fair in \<open>auto simp: less_Suc_eq numeral_3_eq_3\<close>)
  note ended = recovery_statuses [OF c(6,7)]
  have c_pins: "effect_id c = ?eid" "tenant_id c = crash_tenant" "down_key c = down_key r"
    using c(3) r(4) by (simp_all add: same_pins_def)
  have count: "target_count (down_key c) (site_target ?m) = 1"
    using sql.target_count_effects [OF c(8)] w(2) c_pins(3) by simp
  let ?z = "fresh_process (site_ledger ?m) (site_target ?m) (zombie_envs inp)"
  have "transition_op crash_ops (envs ?z 0) ?eid (version r) DISPATCHING
      [(VStr ''actor'', VStr ''zombie-worker'')] (site_ledger ?m) = (Inl (VersionConflictError ?eid), site_ledger ?m)"
    by (rule sql.transition_fenced [OF c(1,2), where key = "tenant_key_provider_from_secret tenant_secret",
          folded crash_ops_def]) (use c(5) in simp)
  then obtain t where zombie: "zombie_transition crash_ops ?eid (version r) ?z = (Inl (VersionConflictError ?eid), t)"
    "ledger t = site_ledger ?m" "target t = site_target ?m"
    by (auto simp: zombie_transition_def and_then_def run_simps on_ledger_def fresh_process_def)
  have get: "get_op crash_ops crash_tenant ?eid (site_ledger ?m) = Some c"
    using sql.get_look [OF c(1), of "tenant_key_provider_from_secret tenant_secret", folded crash_ops_def]
    by (simp add: c(2) c_pins(2))
  have verdict: "fst (judge cls c (target_count (down_key c) (site_target ?m))
      (commit_call_count (down_key c) (site_target ?m)) (sql_attempt_count ?eid (site_ledger ?m)))"
  proof (cases "cls = IDEMPOTENT")
    case True
    then show ?thesis using c(4) r(5) count by (simp add: judge_def settled_status_def)
  next
    case False
    then have quiet: "site_target ?m = w" "sql_attempt_count ?eid (site_ledger ?m) = 1"
      using c(9) r(5) attempts by (auto dest: fun_cong [of _ _ ?eid])
    show ?thesis
      using False cls c(4) r(5) w(3) count c_pins(3) quiet by (auto simp: judge_def settled_status_def)
  qed
  have opens: "open_store (host_environ h) path = AtPath path" for path using no_dsn by (simp add: open_store_def)
  let ?k = "\<lparr>broker_file = l, broker_server = srv, target_file = w\<rparr>"
  let ?k1 = "?k\<lparr>broker_file := site_ledger ?m, target_file := site_target ?m\<rparr>"
  have rec: "run_recovery_processes h inp path ?eid ?k = (map stage_status (stages ?m), ?k1)" for path
    by (simp add: run_recovery_processes_def opens Let_def)
  have zom: "run_zombie h inp path ?eid (version r) ?k1 = (23, ?k1)" for path
    using zombie by (simp add: run_zombie_def opens exit_status_def)
  have "\<exists>d. judge_recovery h inp cls r ?k = (Inr \<lparr>scenario = safety_value cls, failpoint = crash_failpoint,
      result_count = 1, broker_status = status c, passed = True, detail = d\<rparr>, ?k1)"
    using ended rec zom get count verdict c_pins(1)
    by (simp add: judge_recovery_def Let_def del: set_map map_map)
  then show thesis using c(4) r(5) that [of _ ?k1] by auto
qed

text \<open>Which ledger the worker opens, and that it never ends with status 0 at the failpoint of the matrix.\<close>

lemma worker_opens:
  "env ''BROKER_DSN'' = Some dsn \<Longrightarrow> dsn \<noteq> [] \<Longrightarrow>
     \<exists>c. read_worker_settings (worker_environ env path target_path fp) pid = Inr c \<and> worker_broker c = AtDsn dsn
       \<and> worker_failpoint c = fp"
  "\<not> nonempty (env ''BROKER_DSN'') \<Longrightarrow> path \<noteq> [] \<Longrightarrow>
     \<exists>c. read_worker_settings (worker_environ env path target_path fp) pid = Inr c \<and> worker_broker c = AtPath path
       \<and> worker_target c = target_path \<and> worker_failpoint c = fp"
  by (simp_all add: read_worker_settings_def required_env_def worker_environ_def nonempty_def env_default_def Let_def)

lemma may_raise_Crashed: "may_raise m s = (Inl x, t) \<Longrightarrow> \<exists>err. x = Crashed err"
  by (auto simp: may_raise_def split: prod.splits sum.splits)

lemma worker_ends: "worker_once ops crash_failpoint w s = (x, t) \<Longrightarrow> worker_status x \<noteq> 0"
  by (auto simp: worker_once_def worker_outcome_def crash_failpoint_def and_then_def worker_status_def throw_def ret_def
      split: prod.splits sum.splits list.splits dest!: may_raise_Crashed)

lemma run_worker_file:
  assumes "\<not> nonempty (host_environ h ''BROKER_DSN'')" and "path \<noteq> []"
  obtains w where "\<forall>k. run_worker h inp path target_path fp k =
    (case worker_once crash_ops fp w (fresh_process (broker_file k) (target_file k) (worker_envs inp)) of
      (x, t) \<Rightarrow> (worker_status x, k\<lparr>broker_file := ledger t, target_file := target t\<rparr>))"
proof -
  obtain c where "read_worker_settings (worker_environ (host_environ h) path target_path fp) (worker_pid inp) = Inr c"
    "worker_broker c = AtPath path" "worker_failpoint c = fp"
    using worker_opens(2) [of "host_environ h", OF assms, of target_path fp "worker_pid inp"] by blast
  then show thesis by (intro that [of "worker_name c"]) (simp add: run_worker_def)
qed

text \<open>With a database address in the environment the worker never touches the file of the scenario.\<close>

lemma run_worker_server:
  assumes "nonempty (host_environ h ''BROKER_DSN'')" and "run_worker h inp path target_path crash_failpoint k = (code, k')"
  shows "code \<noteq> 0" and "broker_file k' = broker_file k"
proof -
  obtain dsn where "host_environ h ''BROKER_DSN'' = Some dsn" "dsn \<noteq> []"
    using assms(1) by (auto simp: nonempty_def split: option.splits)
  from worker_opens(1) [of "host_environ h", OF this, of path target_path crash_failpoint "worker_pid inp"] obtain c where
    c: "read_worker_settings (worker_environ (host_environ h) path target_path crash_failpoint) (worker_pid inp) = Inr c"
      "worker_broker c = AtDsn dsn" "worker_failpoint c = crash_failpoint" by blast
  show "code \<noteq> 0" "broker_file k' = broker_file k"
    using assms(2) c by (auto simp: run_worker_def worker_status_def [of "Inl (Crashed _)"] dest: worker_ends
        split: sum.splits prod.splits)
qed

lemma scenario_passes:
  assumes no_dsn: "\<not> nonempty (host_environ h ''BROKER_DSN'')" and cls: "cls \<in> {IDEMPOTENT, RECONCILABLE, UNSAFE}"
    and fair: "\<forall>j < 3. 5 \<le> count_list (recovery_turns inp) j"
    and live: "cls = IDEMPOTENT \<Longrightarrow>
      \<forall>j < 3. \<forall>n. env_now (recovery_envs inp j n) \<le> env_now (runner_envs inp 0) + seconds 3600"
  obtains res where "run_scenario h inp cls srv = (Inr res, srv)" "passed res" "result_count res = 1"
    "broker_status res = settled_status cls" "scenario res = safety_value cls" "failpoint res = crash_failpoint"
proof -
  have path: "scenario_path h cls ''broker.sqlite3'' \<noteq> []" by (simp add: scenario_path_def)
  obtain w where w: "\<forall>k. run_worker h inp (scenario_path h cls ''broker.sqlite3'') (scenario_path h cls ''target.sqlite3'')
      crash_failpoint k = (case worker_once crash_ops crash_failpoint w (fresh_process (broker_file k) (target_file k)
        (worker_envs inp)) of (x, t) \<Rightarrow> (worker_status x, k\<lparr>broker_file := ledger t, target_file := target t\<rparr>))"
    by (rule run_worker_file [OF no_dsn path, where inp = inp and fp = crash_failpoint
          and target_path = "scenario_path h cls ''target.sqlite3''"])
  obtain res s1 t2 r unknown s3 where
    first: "submit_charge crash_ops cls (fresh_process empty_db (open_target (charge_clock inp)) (runner_envs inp)) = (Inr res, s1)"
      "worker_once crash_ops crash_failpoint w
         (fresh_process (ledger s1) (target s1) (worker_envs inp)) = (Inl (Died 137), t2)"
      "mark_unknown crash_ops (res_effect res) (s1\<lparr>ledger := ledger t2, target := target t2\<rparr>) = (Inr unknown, s3)"
    and at: "sql_ok (ledger s3)" "sql_look (ledger s3) (effect_id unknown) = Some unknown" "status unknown = OUTCOME_UNKNOWN"
    and r: "same_pins (sql_saved r) unknown" "contract r = crash_contract cls" "request r = crash_request cls"
      "tenant_id r = crash_tenant" "created_at r = env_now (runner_envs inp 0)"
    and left: "sql_attempt_count (effect_id unknown) (ledger s3) = 1" "target_ok (target s3)"
      "target_count (down_key r) (target s3) = 1" "commit_call_count (down_key r) (target s3) = 1"
    by (rule crash_marked [of cls inp w])
  have pins: "tenant_id unknown = crash_tenant" "contract unknown = crash_contract cls" "down_key unknown = down_key r"
    "created_at unknown = env_now (runner_envs inp 0)"
    "arguments (request unknown) = object_items (restored (VDict (arguments (crash_request cls))))"
    using r by (simp_all add: same_pins_def crash_contract_kept)
  have enc: "encodable (VDict (arguments (request unknown)))"
    using restored_meaning [OF crash_enc [of cls]] by (simp only: pins(5) restored_object)
  have ret: "\<forall>j < 3. within_retention (recovery_envs inp j) unknown"
    using live by (auto simp: within_retention_def key_retention_valid_def pins crash_contract_def)
  obtain out k where out: "judge_recovery h inp cls unknown
      \<lparr>broker_file = ledger s3, broker_server = srv, target_file = target s3\<rparr> = (Inr out, k)" "passed out"
    "result_count out = 1" "broker_status out = settled_status cls" "scenario out = safety_value cls"
    "failpoint out = crash_failpoint" "broker_server k = srv"
    by (rule recovery_judged [OF no_dsn cls at pins(1) _ enc left(1,2) _ _ ret fair])
      (use pins left in \<open>simp_all add: crash_contract_def\<close>)
  have "run_scenario h inp cls srv = (Inr out, srv)"
    using first out(1,7) by (simp add: run_scenario_def w worker_status_def)
  with out show thesis by (intro that)
qed

text \<open>With a database address in the environment the runner finds its own effect untouched, and raises.\<close>

lemma scenario_raises:
  assumes "nonempty (host_environ h ''BROKER_DSN'')"
  obtains srv' where "run_scenario h inp cls srv = (Inl (PyError ''AssertionError''), srv')"
proof -
  obtain r s1 where s1: "submit_charge crash_ops cls
      (fresh_process empty_db (open_target (charge_clock inp)) (runner_envs inp)) =
      (Inr \<lparr>res_effect = r, created = True, replayed = False\<rparr>, s1)"
    "sql_ok (ledger s1)" "sql_look (ledger s1) = [effect_id r \<mapsto> sql_saved r]" "status r = PREPARED"
    "tenant_id r = crash_tenant"
    by (rule submitted_charge [of cls "open_target (charge_clock inp)" "runner_envs inp"])
  obtain code k where k: "run_worker h inp (scenario_path h cls ''broker.sqlite3'') (scenario_path h cls ''target.sqlite3'')
      crash_failpoint \<lparr>broker_file = ledger s1, broker_server = srv, target_file = target s1\<rparr> = (code, k)"
    by (cases "run_worker h inp (scenario_path h cls ''broker.sqlite3'') (scenario_path h cls ''target.sqlite3'')
      crash_failpoint \<lparr>broker_file = ledger s1, broker_server = srv, target_file = target s1\<rparr>")
  note left = run_worker_server [OF assms k]
  have "get_op crash_ops crash_tenant (effect_id r) (ledger s1) = Some (sql_saved r)"
    unfolding crash_ops_def sql.get_look [OF s1(2)] using s1(3,5) by simp
  then have "mark_unknown crash_ops r (s1\<lparr>ledger := broker_file k, target := target_file k\<rparr>) =
      (Inl (PyError ''AssertionError''), s1\<lparr>ledger := broker_file k, target := target_file k\<rparr>)"
    using left(2) s1(4) by (simp add: mark_unknown_def)
  with s1(1) k left(1) show thesis by (intro that [of "broker_server k"]) (simp add: run_scenario_def)
qed

text \<open>
  C21. The verdict of the crash matrix. In every scenario the worker is killed after the charge and before
  the receipt; three recoveries then run at the same time and a zombie writes with the version it
  remembers. Without \<open>BROKER_DSN\<close> in the environment all of them work on the SQLite file of the scenario, and
  the matrix passes, in whatever order the recoveries run, for any readings of any clock (as long as the recoveries
  of the idempotent effect read a time within its hour of retention) and as long as each gets to run five
  times: one charge in every scenario, the idempotent and the reconcilable effect succeeded, the unsafe one with
  an operator, exactly one recovery successful, the zombie refused; it prints the lines below and exits with 0.
  With a \<open>BROKER_DSN\<close> it never passes, whatever that database holds and whether or not it can be reached: the
  worker does not find the effect, which the runner has submitted to the file; the first scenario ends in
  \<open>AssertionError\<close>, nothing is printed, and the exit status is 1.
\<close>

theorem crash_matrix_passes:
  assumes "\<forall>cls. \<forall>j < 3. 5 \<le> count_list (recovery_turns (inp cls)) j"
    and "\<forall>j < 3. \<forall>n. env_now (recovery_envs (inp IDEMPOTENT) j n) \<le> env_now (runner_envs (inp IDEMPOTENT) 0) + seconds 3600"
  shows "if nonempty (host_environ h ''BROKER_DSN'')
    then fst (run_matrix h inp srv) = Inl (PyError ''AssertionError'') \<and> matrix_main h inp srv = ([], 1)
    else (\<exists>rs. run_matrix h inp srv = (Inr rs, srv) \<and> map broker_status rs = [SUCCEEDED, SUCCEEDED, MANUAL_REVIEW])
      \<and> matrix_main h inp srv =
        ([''scenario | failpoint | target_count | broker_status | result'',
          ''--- | --- | ---: | --- | ---'',
          ''idempotent | after_target_commit_before_receipt | 1 | succeeded | PASS'',
          ''reconcilable | after_target_commit_before_receipt | 1 | succeeded | PASS'',
          ''unsafe | after_target_commit_before_receipt | 1 | manual_review | PASS'',
          ''ALL PASS''], 0)"
proof (cases "nonempty (host_environ h ''BROKER_DSN'')")
  case True
  obtain srv' where "run_scenario h (inp IDEMPOTENT) IDEMPOTENT srv = (Inl (PyError ''AssertionError''), srv')"
    by (rule scenario_raises [OF True])
  with True show ?thesis by (simp add: matrix_main_def run_matrix_def)
next
  case no_dsn: False
  have fair: "\<forall>j < 3. 5 \<le> count_list (recovery_turns (inp cls)) j" for cls using assms(1) by blast
  obtain r1 where r1: "run_scenario h (inp IDEMPOTENT) IDEMPOTENT srv = (Inr r1, srv)" "passed r1" "result_count r1 = 1"
    "broker_status r1 = settled_status IDEMPOTENT" "scenario r1 = safety_value IDEMPOTENT" "failpoint r1 = crash_failpoint"
    by (rule scenario_passes [OF no_dsn _ fair, of IDEMPOTENT IDEMPOTENT]) (use assms(2) in simp_all)
  obtain r2 where r2: "run_scenario h (inp RECONCILABLE) RECONCILABLE srv = (Inr r2, srv)" "passed r2" "result_count r2 = 1"
    "broker_status r2 = settled_status RECONCILABLE" "scenario r2 = safety_value RECONCILABLE" "failpoint r2 = crash_failpoint"
    by (rule scenario_passes [OF no_dsn _ fair, of RECONCILABLE RECONCILABLE]) simp_all
  obtain r3 where r3: "run_scenario h (inp UNSAFE) UNSAFE srv = (Inr r3, srv)" "passed r3" "result_count r3 = 1"
    "broker_status r3 = settled_status UNSAFE" "scenario r3 = safety_value UNSAFE" "failpoint r3 = crash_failpoint"
    by (rule scenario_passes [OF no_dsn _ fair, of UNSAFE UNSAFE]) simp_all
  have rs: "run_matrix h inp srv = (Inr [r1, r2, r3], srv)" by (simp add: run_matrix_def r1(1) r2(1) r3(1))
  have one: "nat_text 1 = ''1''" by code_simp
  have "matrix_main h inp srv =
        ([''scenario | failpoint | target_count | broker_status | result'',
          ''--- | --- | ---: | --- | ---'',
          ''idempotent | after_target_commit_before_receipt | 1 | succeeded | PASS'',
          ''reconcilable | after_target_commit_before_receipt | 1 | succeeded | PASS'',
          ''unsafe | after_target_commit_before_receipt | 1 | manual_review | PASS'',
          ''ALL PASS''], 0)"
    by (simp add: matrix_main_def rs table_lines_def table_row_def r1(2-6) r2(2-6) r3(2-6) settled_status_def
        crash_failpoint_def one [simplified])
  with no_dsn rs r1(4) r2(4) r3(4) show ?thesis by (simp add: settled_status_def)
qed

definition demo_inputs :: scenario_inputs where
  "demo_inputs = \<lparr>runner_envs = (\<lambda>_. demo_env), worker_envs = (\<lambda>_. demo_env), recovery_envs = (\<lambda>_ _. demo_env),
     zombie_envs = (\<lambda>_. demo_env), charge_clock = (\<lambda>_. 0), recovery_turns = concat (replicate 5 [2, 0, 1]),
     worker_pid = 4711\<rparr>"

definition demo_host :: "string option \<Rightarrow> host" where
  "demo_host dsn = \<lparr>host_environ = (\<lambda>name. if name = ''BROKER_DSN'' then dsn else None),
     connect_dsn = (\<lambda>_. Inl (PyError ''OperationalError'')), scenario_root = ''/tmp''\<rparr>"

text \<open>On a host without a database address, and on one with an address that cannot be reached.\<close>

theorem crash_matrix_passes_witness:
  "snd (matrix_main (demo_host None) (\<lambda>_. demo_inputs) empty_pg) = 0
   \<and> snd (matrix_main (demo_host (Some ''postgresql://db'')) (\<lambda>_. demo_inputs) empty_pg) = 1"
proof -
  have "\<forall>j < 3. 5 \<le> count_list (recovery_turns demo_inputs) j"
    by (auto simp: demo_inputs_def numeral_eq_Suc less_Suc_eq)
  moreover have "\<forall>j < 3. \<forall>n. env_now (recovery_envs demo_inputs j n) \<le> env_now (runner_envs demo_inputs 0) + seconds 3600"
    by (simp add: demo_inputs_def)
  ultimately have both: "if nonempty (host_environ h ''BROKER_DSN'')
      then snd (matrix_main h (\<lambda>_. demo_inputs) empty_pg) = 1 else snd (matrix_main h (\<lambda>_. demo_inputs) empty_pg) = 0" for h
    using crash_matrix_passes [of "\<lambda>_. demo_inputs" h empty_pg] by (simp split: if_splits)
  from both [of "demo_host None"] both [of "demo_host (Some ''postgresql://db'')"] show ?thesis
    by (simp add: demo_host_def nonempty_def)
qed

end
