(* ===== verification/Worker_Steps.thy ===== *)
theory Worker_Steps
  imports Recovery_Steps
begin

text \<open>
  A pass of the worker (\<open>worker.py\<close>, \<open>dispatch_once\<close>) one call at a time. \<open>job\<close> names the places
  between two of its calls of the ledger or of the target, where any other process may run, with the
  locals that are alive there: the claimed effects still to be dispatched and the results so far.
  \<open>job_step\<close> is the code from one place to the next.

  The lemmas: the steps of a pass that is not interrupted are \<open>dispatch_once\<close> itself, and a pass ends
  after a number of its own steps bounded by its limit, whatever other processes do in between.
\<close>

section \<open>The two halves of the try statement\<close>

definition settle_answered ::
  "'s store_ops \<Rightarrow> effect_record \<Rightarrow> string \<Rightarrow> dispatch_result \<Rightarrow> ('s, 'w, effect_record) process" where
  "settle_answered ops d aid res =
     (if committed res then transition_committed ops d aid res
      else transition_and_record ops d OUTCOME_UNKNOWN
        [(VStr ''attempt_id'', VStr aid), (VStr ''reason'', VStr ''not_confirmed'')])"

definition settle_failed ::
  "'s store_ops \<Rightarrow> effect_record \<Rightarrow> string \<Rightarrow> error \<Rightarrow> ('s, 'w, effect_record) process" where
  "settle_failed ops d aid x = (case x of
     AdapterError _ \<Rightarrow> transition_proven_non_commit ops d aid x
   | _ \<Rightarrow> transition_and_record ops d OUTCOME_UNKNOWN
       [(VStr ''attempt_id'', VStr aid), (VStr ''error'', VStr (error_name x)),
        (VStr ''reason'', VStr ''ambiguous_dispatch'')])"

lemma settle_dispatch_parts:
  "settle_dispatch ops adapters d aid =
     on_error (and_then (call_adapter adapters d aid) (settle_answered ops d aid)) (settle_failed ops d aid)"
  unfolding settle_dispatch_def settle_answered_def [abs_def] settle_failed_def [abs_def] ..

section \<open>The places between two calls\<close>

datatype job =
    Claiming
  | Taking "effect_record list" "effect_record list"
  | Beginning effect_record "effect_record list" "effect_record list"
  | Dispatching effect_record string "effect_record list" "effect_record list"
  | Settling effect_record string "error + dispatch_result" "effect_record list" "effect_record list"
  | Over "error + effect_record list"

definition is_over :: "job \<Rightarrow> bool" where
  "is_over j = (case j of Over _ \<Rightarrow> True | _ \<Rightarrow> False)"

fun job_step ::
  "'s store_ops \<Rightarrow> 'w adapter_for \<Rightarrow> string \<Rightarrow> time \<Rightarrow> timedelta \<Rightarrow> int \<Rightarrow> job \<Rightarrow> ('s, 'w, job) process" where
  "job_step ops adapters w now lease_for lim Claiming =
     and_then (on_ledger (claim_op ops w now lease_for lim)) (\<lambda>claimed. ret (Taking claimed []))"
| "job_step ops adapters w now lease_for lim (Taking [] results) = ret (Over (Inr results))"
| "job_step ops adapters w now lease_for lim (Taking (r # rs) results) =
     and_then (transition_and_record ops r DISPATCHING [(VStr ''worker_id'', VStr w)])
       (\<lambda>d. ret (Beginning d rs results))"
| "job_step ops adapters w now lease_for lim (Beginning d rs results) =
     and_then read_env (\<lambda>e.
     and_then (on_ledger (start_op ops e (effect_id d) (version d) w)) (\<lambda>aid.
     ret (Dispatching d aid rs results)))"
| "job_step ops adapters w now lease_for lim (Dispatching d aid rs results) =
     and_then (measure_with (record_dispatch_attempt d)) (\<lambda>_ s.
     case call_adapter adapters d aid s of (x, t) \<Rightarrow> (Inr (Settling d aid x rs results), t))"
| "job_step ops adapters w now lease_for lim (Settling d aid (Inr res) rs results) = (\<lambda>s.
     case settle_answered ops d aid res s of
       (Inl x, t) \<Rightarrow> (Inr (Settling d aid (Inl x) rs results), t)
     | (Inr r, t) \<Rightarrow> (Inr (Taking rs (results @ [r])), t))"
| "job_step ops adapters w now lease_for lim (Settling d aid (Inl x) rs results) =
     and_then (settle_failed ops d aid x) (\<lambda>r. ret (Taking rs (results @ [r])))"
| "job_step ops adapters w now lease_for lim (Over x) = ret (Over x)"

definition advance_job ::
  "'s store_ops \<Rightarrow> 'w adapter_for \<Rightarrow> string \<Rightarrow> time \<Rightarrow> timedelta \<Rightarrow> int \<Rightarrow> job \<Rightarrow> ('s, 'w) world
     \<Rightarrow> job \<times> ('s, 'w) world" where
  "advance_job ops adapters w now lease_for lim j s =
     (case job_step ops adapters w now lease_for lim j s of (Inl x, t) \<Rightarrow> (Over (Inl x), t) | (Inr j', t) \<Rightarrow> (j', t))"

lemma advance_job_run:
  "advance_job ops adapters w now lease_for lim j s = (j', t) \<longleftrightarrow>
     (\<exists>x. job_step ops adapters w now lease_for lim j s = (Inl x, t) \<and> j' = Over (Inl x))
     \<or> job_step ops adapters w now lease_for lim j s = (Inr j', t)"
  by (auto simp: advance_job_def split: prod.splits sum.splits)

section \<open>Without interruption, the steps are the function\<close>

text \<open>What is left of \<open>dispatch_once\<close> at each place.\<close>

fun left_to_do ::
  "'s store_ops \<Rightarrow> 'w adapter_for \<Rightarrow> string \<Rightarrow> time \<Rightarrow> timedelta \<Rightarrow> int \<Rightarrow> job
     \<Rightarrow> ('s, 'w, effect_record list) process" where
  "left_to_do ops adapters w now lf lim Claiming = dispatch_once ops adapters w now lf lim"
| "left_to_do ops adapters w now lf lim (Taking rs results) = dispatch_all ops adapters w rs results"
| "left_to_do ops adapters w now lf lim (Beginning d rs results) =
     and_then (and_then read_env (\<lambda>e.
       and_then (on_ledger (start_op ops e (effect_id d) (version d) w)) (\<lambda>aid.
       and_then (measure_with (record_dispatch_attempt d)) (\<lambda>_. settle_dispatch ops adapters d aid))))
     (\<lambda>x. dispatch_all ops adapters w rs (results @ [x]))"
| "left_to_do ops adapters w now lf lim (Dispatching d aid rs results) =
     and_then (and_then (measure_with (record_dispatch_attempt d)) (\<lambda>_. settle_dispatch ops adapters d aid))
     (\<lambda>x. dispatch_all ops adapters w rs (results @ [x]))"
| "left_to_do ops adapters w now lf lim (Settling d aid (Inr res) rs results) =
     and_then (on_error (settle_answered ops d aid res) (settle_failed ops d aid))
     (\<lambda>x. dispatch_all ops adapters w rs (results @ [x]))"
| "left_to_do ops adapters w now lf lim (Settling d aid (Inl x) rs results) =
     and_then (settle_failed ops d aid x) (\<lambda>x. dispatch_all ops adapters w rs (results @ [x]))"
| "left_to_do ops adapters w now lf lim (Over x) = (\<lambda>s. (x, s))"

lemma left_to_do_step:
  assumes "advance_job ops adapters w now lf lim j s = (j', t)"
  shows "left_to_do ops adapters w now lf lim j' t = left_to_do ops adapters w now lf lim j s"
  using assms
  by (cases "(ops, adapters, w, now, lf, lim, j)" rule: job_step.cases)
    (auto simp: advance_job_run and_then_def run_simps dispatch_once_def dispatch_effect_def on_error_def
      settle_dispatch_parts split: prod.splits sum.splits)

section \<open>A pass ends\<close>

text \<open>The effects still to be taken, five steps each, and the steps of the one in hand.\<close>

fun to_take :: "job \<Rightarrow> effect_record list" where
  "to_take (Taking rs results) = rs"
| "to_take (Beginning d rs results) = rs"
| "to_take (Dispatching d aid rs results) = rs"
| "to_take (Settling d aid x rs results) = rs"
| "to_take _ = []"

fun job_rank :: "int \<Rightarrow> job \<Rightarrow> nat" where
  "job_rank lim Claiming = 5 * nat lim + 2"
| "job_rank lim (Taking rs results) = 5 * length rs + 1"
| "job_rank lim (Beginning d rs results) = 5 * length rs + 5"
| "job_rank lim (Dispatching d aid rs results) = 5 * length rs + 4"
| "job_rank lim (Settling d aid (Inr res) rs results) = 5 * length rs + 3"
| "job_rank lim (Settling d aid (Inl x) rs results) = 5 * length rs + 2"
| "job_rank lim (Over x) = 0"

lemma job_rank_over: "job_rank lim j = 0 \<longleftrightarrow> is_over j"
  by (cases "(lim, j)" rule: job_rank.cases) (simp_all add: is_over_def)

lemma Settling_rank: "job_rank lim (Settling d aid x rs results) \<le> 5 * length rs + 3"
  by (cases x) simp_all

lemma job_rank_claimed:
  assumes run: "advance_job ops adapters w now lf lim j s = (j', t)" and "j \<noteq> Claiming"
  shows "job_rank lim j' \<le> job_rank lim j - 1"
proof (cases "(ops, adapters, w, now, lf, lim, j)" rule: job_step.cases)
  case (5 ops adapters w now lf lim d aid rs results)
  with run show ?thesis
    by (auto simp: advance_job_run and_then_def run_simps intro: le_trans [OF Settling_rank] split: prod.splits)
qed (use assms in \<open>auto simp: advance_job_run and_then_def run_simps split: prod.splits sum.splits\<close>)

text \<open>A claim opens a pass no longer than what it returned.\<close>

lemma job_rank_claim:
  "advance_job ops adapters w now lf lim Claiming s = (j', t) \<Longrightarrow>
     \<exists>rs. j' = Taking rs [] \<and> (\<exists>l. claim_op ops w now lf lim (ledger s) = (Inr rs, l)) \<or> is_over j'"
  by (auto simp: advance_job_run and_then_def on_ledger_def is_over_def split: prod.splits sum.splits)

lemma over_stays: "advance_job ops adapters w now lf lim (Over x) s = (Over x, s)"
  by (simp add: advance_job_def)

text \<open>Enough steps of its own, and nobody else's, bring a pass to its end.\<close>

lemma job_steps_end:
  assumes "left_to_do ops adapters w now lf lim j s = (x, t)" and "j \<noteq> Claiming" and "job_rank lim j \<le> n"
  shows "((\<lambda>(j, u). advance_job ops adapters w now lf lim j u) ^^ n) (j, s) = (Over x, t)"
  using assms
proof (induction n arbitrary: j s)
  case 0
  then show ?case by (cases j) (auto simp: job_rank_over is_over_def)
next
  case (Suc n)
  obtain j' s' where step: "advance_job ops adapters w now lf lim j s = (j', s')"
    by (cases "advance_job ops adapters w now lf lim j s")
  have "j' \<noteq> Claiming"
    using step Suc.prems(2) by (cases "(ops, adapters, w, now, lf, lim, j)" rule: job_step.cases)
      (auto simp: advance_job_run and_then_def run_simps split: prod.splits sum.splits)
  moreover have "job_rank lim j' \<le> n" using job_rank_claimed [OF step Suc.prems(2)] Suc.prems(3) by simp
  ultimately have "((\<lambda>(j, u). advance_job ops adapters w now lf lim j u) ^^ n) (j', s') = (Over x, t)"
    using Suc.IH left_to_do_step [OF step] Suc.prems(1) by simp
  then show ?case by (simp add: funpow_Suc_right step del: funpow.simps)
qed

lemma job_steps_whole:
  assumes "dispatch_once ops adapters w now lf lim s = (x, t)"
  shows "\<exists>n. ((\<lambda>(j, u). advance_job ops adapters w now lf lim j u) ^^ n) (Claiming, s) = (Over x, t)"
proof -
  obtain j s' where step: "advance_job ops adapters w now lf lim Claiming s = (j, s')"
    by (cases "advance_job ops adapters w now lf lim Claiming s")
  have "j \<noteq> Claiming" using job_rank_claim [OF step] by (auto simp: is_over_def)
  moreover have "left_to_do ops adapters w now lf lim j s' = (x, t)" using left_to_do_step [OF step] assms by simp
  ultimately have "((\<lambda>(j, u). advance_job ops adapters w now lf lim j u) ^^ job_rank lim j) (j, s') = (Over x, t)"
    by (intro job_steps_end) simp_all
  then have "((\<lambda>(j, u). advance_job ops adapters w now lf lim j u) ^^ Suc (job_rank lim j)) (Claiming, s) = (Over x, t)"
    by (simp add: funpow_Suc_right step del: funpow.simps)
  then show ?thesis by blast
qed

context effect_ledger begin

lemma job_rank_step:
  assumes inv: "invar (ledger s)" and run: "advance_job ops adapters w now lf lim j s = (j', t)"
  shows "job_rank lim j' \<le> job_rank lim j - 1"
proof (cases "j = Claiming")
  case True
  with run consider "is_over j'" | rs l where "j' = Taking rs []" "claim_op ops w now lf lim (ledger s) = (Inr rs, l)"
    using job_rank_claim by blast
  then show ?thesis
  proof cases
    case 1
    then show ?thesis by (simp flip: job_rank_over [of lim])
  next
    case 2
    have "int (length rs) \<le> max 0 lim" using ledger_claim [OF inv 2(2)] by blast
    then have "length rs \<le> nat lim" by linarith
    with 2(1) True show ?thesis by simp
  qed
next
  case False
  with run show ?thesis by (rule job_rank_claimed)
qed

end

end
