(* ===== verification/Fleet_Invariant.thy ===== *)
theory Fleet_Invariant
  imports Fleet
begin

text \<open>
  The abstract specification of one step of one process of a fleet (\<open>place_move\<close>): what it may do to the
  ledger's view, to the log of dispatches and to the place of the process. \<open>fleet_ok\<close> is the invariant of
  all places together. A step keeps what the process itself relies on, and what every other process
  relies on, because a record is only moved by whoever holds its current version.
\<close>

definition strict :: "effect_record \<Rightarrow> bool" where
  "strict r \<longleftrightarrow> safety (contract r) = UNSAFE \<and> retry_limit (contract r) \<le> 0"

text \<open>The statuses a strict effect never reaches.\<close>

definition lax :: "effect_status set" where
  "lax = {PREPARED, RETRYABLE, RECONCILING}"

inductive place_move :: "view \<Rightarrow> place \<Rightarrow> dispatch_log \<Rightarrow> view \<Rightarrow> place \<Rightarrow> dispatch_log \<Rightarrow> bool" where
  waits: "set (in_hand p') \<subseteq> set (in_hand p) \<Longrightarrow> about_to_start p' = None \<Longrightarrow> about_to_call p' = None
    \<Longrightarrow> place_move v p k v p' k"
| reads: "fst v i = Some r \<Longrightarrow> in_hand p' = [r] \<Longrightarrow> effect_id r = i \<Longrightarrow> about_to_start p' = None \<Longrightarrow> about_to_call p' = None
    \<Longrightarrow> place_move v p k v p' k"
| claims: "distinct (map effect_id cs) \<Longrightarrow> \<forall>c \<in> set cs. \<exists>r. rs (effect_id c) = Some r \<and> due r \<and> c = claim_record r now
    \<Longrightarrow> in_hand p' = cs \<Longrightarrow> about_to_start p' = None \<Longrightarrow> about_to_call p' = None
    \<Longrightarrow> place_move (rs, n) p k (rs ++ map_of (map (\<lambda>c. (effect_id c, c)) cs), n) p' k"
| moves_on: "q \<in> set (in_hand p) \<Longrightarrow> rs (effect_id q) = Some q \<Longrightarrow> is_allowed (status q) goal
    \<Longrightarrow> (strict q \<Longrightarrow> goal \<notin> lax) \<Longrightarrow> q' = advance q goal now
    \<Longrightarrow> set (in_hand p') \<subseteq> insert q' (set (in_hand p))
    \<Longrightarrow> about_to_start p' = None
      \<or> about_to_start p' = Some q' \<and> q' \<in> set (in_hand p') \<and> goal = DISPATCHING \<and> (strict q \<longrightarrow> due q)
    \<Longrightarrow> about_to_call p' = None
    \<Longrightarrow> place_move (rs, n) p k (rs(effect_id q \<mapsto> q'), n) p' k"
| starts: "about_to_start p = Some d \<Longrightarrow> rs (effect_id d) = Some c \<Longrightarrow> version c = version d
    \<Longrightarrow> set (in_hand p') \<subseteq> set (in_hand p) \<Longrightarrow> about_to_start p' = None
    \<Longrightarrow> about_to_call p' = Some (effect_id d, attempt_name (effect_id d) (Suc (n (effect_id d))))
    \<Longrightarrow> place_move (rs, n) p k (rs, n(effect_id d := Suc (n (effect_id d)))) p' k"
| calls: "about_to_call p = Some i \<Longrightarrow> k' \<in> {k, k @ [i]} \<Longrightarrow> set (in_hand p') \<subseteq> set (in_hand p)
    \<Longrightarrow> about_to_start p' = None \<Longrightarrow> about_to_call p' = None
    \<Longrightarrow> place_move v p k v p' k'"

section \<open>How the view may change\<close>

lemma moves_allowed: "is_allowed s t \<Longrightarrow> moves s t"
  by (rule moves.step [OF moves.refl])

lemma later_successor: "successor r r' \<Longrightarrow> later r r'"
  using later_step [OF later_refl] .

lemma later_trans: "later r s \<Longrightarrow> later s t \<Longrightarrow> later r t"
  unfolding later_def by (metis moves_trans order.strict_trans same_pins_trans)

lemma later_current: "later r s \<Longrightarrow> version s \<le> version r \<Longrightarrow> s = r"
  by (auto simp: later_def)

lemma later_id: "later r s \<Longrightarrow> effect_id s = effect_id r \<and> contract s = contract r"
  by (simp add: later_def same_pins_def)

definition grows :: "view \<Rightarrow> view \<Rightarrow> bool" where
  "grows v v' \<longleftrightarrow> (\<forall>i r. fst v i = Some r \<longrightarrow> (\<exists>r'. fst v' i = Some r' \<and> later r r')) \<and> (\<forall>i. snd v i \<le> snd v' i)"

lemma grows_refl: "grows v v"
  by (simp add: grows_def later_refl)

lemma grows_update:
  assumes "rs i = Some q" and "successor q q'" and "\<forall>j. n j \<le> n' j"
  shows "grows (rs, n) (rs(i \<mapsto> q'), n')"
  using assms later_successor [OF assms(2)] by (auto simp: grows_def later_refl)

lemma place_move_grows: "place_move v p k v' p' k' \<Longrightarrow> grows v v'"
proof (induction rule: place_move.induct)
  case (claims cs rs now p' n p k)
  have "\<exists>r'. (rs ++ map_of (map (\<lambda>c. (effect_id c, c)) cs)) i = Some r' \<and> later r r'" if r: "rs i = Some r" for i r
  proof (cases "map_of (map (\<lambda>c. (effect_id c, c)) cs) i")
    case None
    with r show ?thesis by (simp add: map_add_dom_app_simps(3) domIff later_refl)
  next
    case (Some c)
    then have "c \<in> set cs" "effect_id c = i" by (auto dest: map_of_SomeD)
    with claims.hyps(2) r have "due r" "c = claim_record r now" by auto
    then have "later r c" using later_successor [OF successor_claim] by blast
    with Some show ?thesis by simp
  qed
  then show ?case by (simp add: grows_def)
next
  case (moves_on q p rs goal q' now p' n k)
  then show ?case using grows_update [OF _ successor_advance [OF moves_on.hyps(3)]] by simp
qed (auto simp: grows_refl grows_def later_refl)

section \<open>What a process relies on\<close>

definition ticketed :: "view \<Rightarrow> string \<times> string \<Rightarrow> bool" where
  "ticketed v t \<longleftrightarrow> (\<exists>n. snd t = attempt_name (fst t) n \<and> 1 \<le> n \<and> n \<le> snd v (fst t))"

definition place_ok :: "view \<Rightarrow> place \<Rightarrow> bool" where
  "place_ok v p \<longleftrightarrow> (\<forall>q \<in> set (in_hand p). \<exists>c. fst v (effect_id q) = Some c \<and> later q c)
     \<and> (\<forall>d. about_to_start p = Some d \<longrightarrow> d \<in> set (in_hand p) \<and> status d = DISPATCHING
          \<and> (strict d \<longrightarrow> fst v (effect_id d) = Some d \<longrightarrow> snd v (effect_id d) = 0))
     \<and> (\<forall>t. about_to_call p = Some t \<longrightarrow> ticketed v t)"

lemma growsE:
  assumes "grows v v'" and "fst v i = Some r"
  obtains r' where "fst v' i = Some r'" "later r r'"
  using assms unfolding grows_def by blast

lemma ticketed_grows: "grows v v' \<Longrightarrow> ticketed v t \<Longrightarrow> ticketed v' t"
  unfolding grows_def ticketed_def by (meson le_trans)

text \<open>The step of another process, unless it writes an attempt under the same version.\<close>

lemma place_ok_grows:
  assumes ok: "place_ok v p" and g: "grows v v'"
    and quiet: "\<And>d. about_to_start p = Some d \<Longrightarrow> strict d \<Longrightarrow> fst v (effect_id d) = Some d \<Longrightarrow>
      snd v' (effect_id d) = snd v (effect_id d)"
  shows "place_ok v' p"
proof -
  have held: "\<exists>c'. fst v' (effect_id q) = Some c' \<and> later q c'" if "q \<in> set (in_hand p)" for q
  proof -
    obtain c where c: "fst v (effect_id q) = Some c" "later q c" using ok \<open>q \<in> _\<close> by (auto simp: place_ok_def)
    from growsE [OF g c(1)] obtain c' where "fst v' (effect_id q) = Some c'" "later c c'" .
    with c(2) show ?thesis by (blast intro: later_trans)
  qed
  have "snd v' (effect_id d) = 0"
    if d: "about_to_start p = Some d" "strict d" "fst v' (effect_id d) = Some d" for d
  proof -
    have "d \<in> set (in_hand p)" using ok d(1) by (simp add: place_ok_def)
    then obtain c where c: "fst v (effect_id d) = Some c" "later d c" using ok by (auto simp: place_ok_def)
    from growsE [OF g c(1)] d(3) have "later c d" by auto
    then have "version c \<le> version d" by (auto simp: later_def)
    with c have cur: "fst v (effect_id d) = Some d" using later_current [OF c(2)] by simp
    with ok d(1,2) have "snd v (effect_id d) = 0" by (simp add: place_ok_def)
    with quiet [OF d(1,2) cur] show ?thesis by simp
  qed
  with held ok ticketed_grows [OF g] show ?thesis by (auto simp: place_ok_def)
qed

text \<open>The step of the process itself.\<close>

lemma kept_in_hand:
  "set (in_hand p') \<subseteq> set (in_hand p) \<Longrightarrow> place_ok v p \<Longrightarrow> about_to_start p' = None \<Longrightarrow> about_to_call p' = None
    \<Longrightarrow> place_ok v p'"
  unfolding place_ok_def by auto

lemma unsafe_ok_strict:
  "unsafe_ok v \<Longrightarrow> fst v i = Some r \<Longrightarrow> strict r \<Longrightarrow> snd v i \<le> 1 \<and> (due r \<longrightarrow> snd v i = 0) \<and> status r \<noteq> RECONCILING"
  by (simp add: unsafe_ok_def strict_def)

lemma place_ok_own: "place_move v p k v' p' k' \<Longrightarrow> unsafe_ok v \<Longrightarrow> place_ok v p \<Longrightarrow> place_ok v' p'"
proof (induction rule: place_move.induct)
  case (reads v i r p' p k)
  then show ?case by (auto simp: place_ok_def later_refl)
next
  case (claims cs rs now p' n p k)
  have "map_of (map (\<lambda>c. (effect_id c, c)) cs) (effect_id c) = Some c" if "c \<in> set cs" for c
    using that claims.hyps(1) by (intro map_of_is_SomeI) (auto simp: o_def)
  with claims.hyps show ?case by (auto simp: place_ok_def later_refl)
next
  case (moves_on q p rs goal q' now p' n k)
  let ?v = "(rs(effect_id q \<mapsto> q'), n)"
  have g: "grows (rs, n) ?v"
    using moves_on.hyps(2,5) grows_update [OF _ successor_advance [OF moves_on.hyps(3)]] by simp
  have held: "\<exists>c. fst ?v (effect_id h) = Some c \<and> later h c" if h: "h \<in> set (in_hand p')" for h
  proof (cases "h = q'")
    case True
    then show ?thesis using moves_on.hyps(5) by (simp add: later_refl)
  next
    case False
    with h moves_on.hyps(6) have "h \<in> set (in_hand p)" by blast
    with moves_on.prems(2) obtain c where c: "rs (effect_id h) = Some c" "later h c" by (auto simp: place_ok_def)
    then have "fst (rs, n) (effect_id h) = Some c" by simp
    from growsE [OF g this] obtain c' where "fst ?v (effect_id h) = Some c'" "later c c'" .
    with c(2) show ?thesis by (blast intro: later_trans)
  qed
  show ?case
  proof (cases "about_to_start p'")
    case None
    with held moves_on.hyps(8) show ?thesis by (simp add: place_ok_def)
  next
    case (Some d)
    with moves_on.hyps(7) have d: "d = q'" "q' \<in> set (in_hand p')" "goal = DISPATCHING" "strict q \<longrightarrow> due q" by simp_all
    have "n (effect_id q) = 0" if "strict q"
      using unsafe_ok_strict [OF moves_on.prems(1), of "effect_id q" q] moves_on.hyps(2) that d(4) by simp
    moreover have "strict q' = strict q" using moves_on.hyps(5) by (simp add: strict_def)
    ultimately show ?thesis using held Some d moves_on.hyps(5,8) by (simp add: place_ok_def)
  qed
next
  case (starts p d rs c p' n k)
  then show ?case by (auto simp: place_ok_def ticketed_def)
next
  case (calls p i k' k p' v)
  then show ?case by (intro kept_in_hand [of p' p])
qed (rule kept_in_hand)

section \<open>A strict effect\<close>

lemma unsafe_ok_update:
  assumes ok: "unsafe_ok (rs, n)" and "n' = n" and "rs i = Some q" and "contract q' = contract q"
    and "strict q \<Longrightarrow> due q' \<Longrightarrow> due q" and "strict q \<Longrightarrow> status q' \<noteq> RECONCILING"
  shows "unsafe_ok (rs(i \<mapsto> q'), n')"
  using assms unfolding unsafe_ok_def strict_def by (auto split: if_splits)

lemma unsafe_ok_move: "place_move v p k v' p' k' \<Longrightarrow> unsafe_ok v \<Longrightarrow> place_ok v p \<Longrightarrow> unsafe_ok v'"
proof (induction rule: place_move.induct)
  case (claims cs rs now p' n p k)
  let ?rs = "rs ++ map_of (map (\<lambda>c. (effect_id c, c)) cs)"
  have "n i \<le> 1 \<and> (due r \<longrightarrow> n i = 0) \<and> status r \<noteq> RECONCILING" if r: "?rs i = Some r" "strict r" for i r
  proof (cases "map_of (map (\<lambda>c. (effect_id c, c)) cs) i")
    case None
    with r(1) have "rs i = Some r" by (simp add: map_add_dom_app_simps(3) domIff)
    with unsafe_ok_strict [OF claims.prems(1), of i r] r(2) show ?thesis by simp
  next
    case (Some c)
    then have "c \<in> set cs" "effect_id c = i" by (auto dest: map_of_SomeD)
    with claims.hyps(2) obtain q where q: "rs i = Some q" "due q" "c = claim_record q now" by auto
    from Some r(1) have "r = c" by simp
    with q r(2) have "strict q" by (simp add: strict_def)
    with unsafe_ok_strict [OF claims.prems(1), of i q] q \<open>r = c\<close> show ?thesis by (auto simp: due_def)
  qed
  then show ?case by (simp add: unsafe_ok_def strict_def)
next
  case (moves_on q p rs goal q' now p' n k)
  then show ?case
    by (intro unsafe_ok_update [where q = q]) (auto simp: lax_def due_def)
next
  case (starts p d rs c p' n k)
  from starts.prems(2) starts.hyps(1) have d: "d \<in> set (in_hand p)" "status d = DISPATCHING"
    "strict d \<longrightarrow> rs (effect_id d) = Some d \<longrightarrow> n (effect_id d) = 0" by (simp_all add: place_ok_def)
  with starts.prems(2) starts.hyps(2) have "later d c" by (auto simp: place_ok_def)
  with starts.hyps(3) have "c = d" by (intro later_current) simp_all
  with starts.hyps(2) d show ?case using starts.prems(1) by (auto simp: unsafe_ok_def strict_def due_def)
qed

section \<open>The places together\<close>

text \<open>Two processes never start the same version of an effect, nor make the same attempt.\<close>

definition clash :: "place \<Rightarrow> place \<Rightarrow> bool" where
  "clash p q \<longleftrightarrow> (\<exists>d e. about_to_start p = Some d \<and> about_to_start q = Some e \<and> effect_id d = effect_id e
       \<and> version d = version e)
     \<or> (\<exists>t. about_to_call p = Some t \<and> about_to_call q = Some t)"

definition apart :: "place list \<Rightarrow> bool" where
  "apart ps \<longleftrightarrow> (\<forall>j < length ps. \<forall>k < length ps. j \<noteq> k \<longrightarrow> \<not> clash (ps ! j) (ps ! k))"

definition fleet_ok :: "view \<Rightarrow> place list \<Rightarrow> dispatch_log \<Rightarrow> bool" where
  "fleet_ok v ps log \<longleftrightarrow> unsafe_ok v \<and> (\<forall>p \<in> set ps. place_ok v p) \<and> apart ps
     \<and> distinct log \<and> (\<forall>t \<in> set log. ticketed v t) \<and> (\<forall>p \<in> set ps. \<forall>t \<in> set log. about_to_call p \<noteq> Some t)"

lemma clash_sym: "clash p q = clash q p"
  by (auto simp: clash_def)

lemma clash_idle: "about_to_start p = None \<Longrightarrow> about_to_call p = None \<Longrightarrow> \<not> clash p q"
  by (simp add: clash_def)

lemma apart_update:
  assumes "apart ps" and "\<And>k. k < length ps \<Longrightarrow> k \<noteq> i \<Longrightarrow> \<not> clash p (ps ! k)"
  shows "apart (ps[i := p])"
  unfolding apart_def
proof (intro allI impI)
  fix j k assume "j < length (ps[i := p])" "k < length (ps[i := p])" "j \<noteq> k"
  with assms show "\<not> clash (ps[i := p] ! j) (ps[i := p] ! k)"
    by (cases "j = i"; cases "k = i") (auto simp: apart_def clash_sym [of _ p])
qed

lemma apart_append:
  assumes "apart ps" and "about_to_start p = None" and "about_to_call p = None"
  shows "apart (ps @ [p])"
  using assms clash_idle [OF assms(2,3)] by (auto simp: apart_def nth_append less_Suc_eq clash_sym [of _ p])

text \<open>What the step of one process means to another that does not clash with it.\<close>

lemma place_ok_other:
  assumes step: "place_move v p k v' p' k'" and mover: "place_ok v p" and ok: "place_ok v q" and free: "\<not> clash p q"
  shows "place_ok v' q"
proof (rule place_ok_grows [OF ok place_move_grows [OF step]])
  fix e assume e: "about_to_start q = Some e" "strict e" "fst v (effect_id e) = Some e"
  from step show "snd v' (effect_id e) = snd v (effect_id e)"
  proof (cases rule: place_move.cases)
    case (starts d rs c n)
    have "effect_id d \<noteq> effect_id e"
    proof
      assume same: "effect_id d = effect_id e"
      with starts e(3) have "c = e" by simp
      with starts e(1) same free show False by (auto simp: clash_def)
    qed
    with starts show ?thesis by simp
  qed simp_all
qed

lemma place_move_apart:
  assumes step: "place_move v p k v' p' k'" and ok: "place_ok v q"
  shows "\<not> clash p' q"
  using step
proof (cases rule: place_move.cases)
  case (moves_on q0 rs goal q' now n)
  show ?thesis
  proof
    assume "clash p' q"
    with moves_on obtain e where e: "about_to_start q = Some e" "effect_id e = effect_id q0" "version e = version q0 + 1"
      by (auto simp: clash_def)
    with ok have "e \<in> set (in_hand q)" by (simp add: place_ok_def)
    with ok e(2) moves_on have "later e q0" by (auto simp: place_ok_def)
    with e(3) show False by (auto simp: later_def)
  qed
next
  case (starts d rs c n)
  show ?thesis
  proof
    assume "clash p' q"
    with starts have "about_to_call q = Some (effect_id d, attempt_name (effect_id d) (Suc (n (effect_id d))))"
      by (auto simp: clash_def)
    with ok starts show False by (auto simp: place_ok_def ticketed_def attempt_name_inj)
  qed
qed (simp_all add: clash_idle)

lemma log_kept:
  assumes step: "place_move v p k v' p' k'" and log: "distinct k" "\<forall>t \<in> set k. ticketed v t"
    and p: "place_ok v p" and free: "\<forall>t \<in> set k. about_to_call p \<noteq> Some t"
  shows "distinct k'" "\<forall>t \<in> set k'. ticketed v' t" "\<forall>t \<in> set k'. about_to_call p' \<noteq> Some t"
    and "set k' \<subseteq> set k \<union> set_option (about_to_call p)"
proof -
  have g: "ticketed v t \<Longrightarrow> ticketed v' t" for t by (rule ticketed_grows [OF place_move_grows [OF step]])
  from step have "distinct k' \<and> (\<forall>t \<in> set k'. ticketed v t) \<and> (\<forall>t \<in> set k'. about_to_call p' \<noteq> Some t)
      \<and> set k' \<subseteq> set k \<union> set_option (about_to_call p)"
  proof (cases rule: place_move.cases)
    case (starts d rs c n)
    then have "\<not> ticketed v (effect_id d, attempt_name (effect_id d) (Suc (n (effect_id d))))"
      by (auto simp: ticketed_def attempt_name_inj)
    with starts log show ?thesis by auto
  next
    case (calls i)
    with p have "ticketed v i" by (simp add: place_ok_def)
    with calls log free show ?thesis by auto
  qed (use log in auto)
  with g show "distinct k'" "\<forall>t \<in> set k'. ticketed v' t" "\<forall>t \<in> set k'. about_to_call p' \<noteq> Some t"
    "set k' \<subseteq> set k \<union> set_option (about_to_call p)" by blast+
qed

lemma fleet_ok_move:
  assumes ok: "fleet_ok v ps log" and i: "i < length ps" and step: "place_move v (ps ! i) log v' p' log'"
  shows "fleet_ok v' (ps[i := p']) log'"
proof -
  have each: "place_ok v (ps ! j)" "\<forall>t \<in> set log. about_to_call (ps ! j) \<noteq> Some t" if "j < length ps" for j
    using ok that by (simp_all add: fleet_ok_def)
  have free: "\<not> clash (ps ! i) (ps ! j)" if "j < length ps" "j \<noteq> i" for j
    using ok i that by (simp add: fleet_ok_def apart_def)
  have log: "distinct log" "\<forall>t \<in> set log. ticketed v t" and unsafe: "unsafe_ok v" and ap: "apart ps"
    using ok by (simp_all add: fleet_ok_def)
  note kept = log_kept [OF step log each [OF i]]
  have "place_ok v' p \<and> (\<forall>t \<in> set log'. about_to_call p \<noteq> Some t)" if "p \<in> set (ps[i := p'])" for p
  proof -
    from that obtain j where j: "j < length ps" "p = ps[i := p'] ! j" by (auto simp: in_set_conv_nth)
    show ?thesis
    proof (cases "j = i")
      case True
      with j kept(3) place_ok_own [OF step unsafe each(1) [OF i]] show ?thesis by simp
    next
      case False
      with j have p: "p = ps ! j" by simp
      have "about_to_call p \<noteq> Some t" if t: "t \<in> set log'" for t
      proof -
        from t kept(4) consider "t \<in> set log" | "about_to_call (ps ! i) = Some t" by (auto dest: subsetD)
        then show ?thesis using each(2) [OF j(1)] free [OF j(1) False] by cases (auto simp: p clash_def)
      qed
      with place_ok_other [OF step each(1) [OF i] each(1) [OF j(1)] free [OF j(1) False]] p show ?thesis by blast
    qed
  qed
  moreover have "apart (ps[i := p'])" by (rule apart_update [OF ap]) (use each place_move_apart [OF step] in blast)
  ultimately show ?thesis
    using kept(1,2) unsafe_ok_move [OF step unsafe each(1) [OF i]] by (auto simp: fleet_ok_def)
qed

text \<open>What happens at no place of the fleet.\<close>

lemma fleet_ok_outside:
  assumes ok: "fleet_ok (rs, n) ps log" and g: "grows (rs, n) (rs', n)" and unsafe: "unsafe_ok (rs', n)"
  shows "fleet_ok (rs', n) ps log"
proof -
  have "place_ok (rs', n) p" if "p \<in> set ps" for p
    by (rule place_ok_grows [OF _ g]) (use ok that in \<open>simp_all add: fleet_ok_def\<close>)
  with ok unsafe show ?thesis by (auto simp: fleet_ok_def ticketed_def)
qed

lemma fleet_ok_joined:
  assumes "fleet_ok v ps log" and "\<And>q. q \<in> set (in_hand p) \<Longrightarrow> fst v (effect_id q) = Some q"
    and "about_to_start p = None" and "about_to_call p = None"
  shows "fleet_ok v (ps @ [p]) log"
  using assms apart_append [OF _ assms(3,4)] by (auto simp: fleet_ok_def place_ok_def later_refl)

end
