(* ===== verification/Fleet_Refinement.thy ===== *)
theory Fleet_Refinement
  imports Fleet_Invariant
begin

text \<open>
  The code refines the specification: over every \<open>effect_ledger\<close>, and for all adapters, one step of a
  worker or of a recovery is a \<open>place_move\<close> (\<open>advance_place_move\<close>), whatever it raises. So the invariant
  holds along every run of a fleet (\<open>fleet_run_ok\<close>).
\<close>

lemma watched_simps [simp]:
  "adapter_dispatch (watched a) d aid s = (case adapter_dispatch a d aid (fst s) of
     (x, w) \<Rightarrow> (x, (w, snd s @ [(effect_id d, aid)])))"
  "adapter_probe (watched a) q s = (case adapter_probe a q (fst s) of (x, w) \<Rightarrow> (x, (w, snd s)))"
  by (simp_all add: watched_def split: prod.split)

text \<open>Work that ends in one recorded transition of a record, to a status a strict effect may reach.\<close>

definition settles_by ::
  "'s store_ops \<Rightarrow> effect_record \<Rightarrow> ('s, 'w, effect_record) process \<Rightarrow> ('s, 'w) world \<Rightarrow> bool" where
  "settles_by ops d m s \<longleftrightarrow> (\<exists>goal data u. m s = transition_and_record ops d goal data u
     \<and> ledger u = ledger s \<and> target u = target s \<and> (strict d \<longrightarrow> goal \<notin> lax))"

lemma settles_byI:
  "m s = transition_and_record ops d goal data u \<Longrightarrow> ledger u = ledger s \<Longrightarrow> target u = target s
    \<Longrightarrow> (strict d \<Longrightarrow> goal \<notin> lax) \<Longrightarrow> settles_by ops d m s"
  unfolding settles_by_def by blast

lemma not_strict: "safety (contract d) \<noteq> UNSAFE \<Longrightarrow> \<not> strict d"
  by (simp add: strict_def)

lemma settle_answered_settles: "settles_by ops d (settle_answered ops d aid res) s"
  by (cases "committed res")
    (auto simp: settle_answered_def transition_committed_def lax_def intro!: settles_byI [where u = s])

lemma settle_failed_settles:
  assumes "is_attempt d aid"
  shows "settles_by ops d (settle_failed ops d aid x) s"
proof (cases "\<exists>m. x = AdapterError m")
  case True
  from assms obtain n where "attempt_ordinal aid = int n" by (auto simp: is_attempt_def)
  with True show ?thesis
    by (auto simp: settle_failed_def transition_proven_non_commit_def Let_def strict_def lax_def
        intro!: settles_byI [where u = s])
next
  case False
  then show ?thesis
    by (auto simp: settle_failed_def lax_def intro!: settles_byI [where u = s] split: error.split)
qed

lemma redispatch_failed_settles:
  assumes "\<not> strict d"
  shows "settles_by ops d (redispatch_failed ops d aid x) s"
  using assms
  by (cases x) (auto simp: redispatch_failed_def and_then_def run_simps settles_by_def intro!: exI)

lemma redispatch_answered_settles:
  assumes "\<not> strict d"
  shows "settles_by ops d (redispatch_answered ops d aid res) s"
  using assms unfolding redispatch_answered_def reconcile_committed_def and_then_def run_simps settles_by_def
  by (auto intro!: exI)

lemma probe_answered_settles:
  assumes "\<not> strict q"
  shows "settles_by ops q (probe_answered ops q p) s"
  using assms unfolding probe_answered_def and_then_def run_simps settles_by_def by (auto intro!: exI)

lemma to_operator_settles: "settles_by ops r (to_operator ops r outcome reason) s"
  unfolding to_operator_def and_then_def run_simps settles_by_def by (auto simp: lax_def intro!: exI)

lemma call_adapter_watched:
  assumes "call_adapter (watch adapters) d aid s = (x, t)"
  shows "ledger t = ledger s" "snd (target t) \<in> {snd (target s), snd (target s) @ [(effect_id d, aid)]}"
  using assms by (auto simp: call_adapter_def watch_def observe_latency_def and_then_def run_simps on_target_def
      split: sum.splits prod.splits)

lemma call_probe_watched:
  assumes "call_probe (watch adapters) q s = (x, t)"
  shows "ledger t = ledger s" "snd (target t) = snd (target s)"
  using assms by (auto simp: call_probe_def watch_def and_then_def run_simps on_target_def split: sum.splits prod.splits)

context effect_ledger begin

text \<open>One transition of a record in hand: it is the current one, and the step a \<open>moves_on\<close>, or nothing is written.\<close>

lemma in_hand_recorded:
  assumes inv: "invar (ledger s)" and hand: "q \<in> set (in_hand p)" and ok: "place_ok (view_of s) p"
    and run: "transition_and_record ops q goal d s = (x, t)"
  obtains (moved) now where "x = Inr (advance q goal now)" "invar (ledger t)" "target t = target s"
      "\<And>p' k. (strict q \<Longrightarrow> goal \<notin> lax) \<Longrightarrow>
        set (in_hand p') \<subseteq> insert (advance q goal now) (set (in_hand p)) \<Longrightarrow>
        about_to_start p' = None \<or> about_to_start p' = Some (advance q goal now)
          \<and> advance q goal now \<in> set (in_hand p') \<and> goal = DISPATCHING \<and> (strict q \<longrightarrow> due q) \<Longrightarrow>
        about_to_call p' = None \<Longrightarrow> place_move (view_of s) p k (view_of t) p' k"
  | (failed) err where "x = Inl err" "ledger t = ledger s" "target t = target s"
  using inv run
proof (cases rule: recorded_cases)
  case (moved r now)
  have "\<exists>c. look (ledger s) (effect_id q) = Some c \<and> later q c" using ok hand by (simp add: place_ok_def)
  with moved(1,2) have r: "r = q" by (auto dest: later_current)
  show thesis
  proof (rule that(1) [of now])
    show "x = Inr (advance q goal now)" "invar (ledger t)" "target t = target s"
      using moved r leaves_targetD [OF transition_and_record_target run] by simp_all
    fix p' k
    assume "strict q \<Longrightarrow> goal \<notin> lax" "set (in_hand p') \<subseteq> insert (advance q goal now) (set (in_hand p))"
      "about_to_start p' = None \<or> about_to_start p' = Some (advance q goal now)
          \<and> advance q goal now \<in> set (in_hand p') \<and> goal = DISPATCHING \<and> (strict q \<longrightarrow> due q)"
      "about_to_call p' = None"
    from place_move.moves_on [OF hand _ _ this(1) HOL.refl this(2-4), of "look (ledger s)" "tries (ledger s)" k] moved r
    show "place_move (view_of s) p k (view_of t) p' k" by simp
  qed
next
  case (failed err)
  with leaves_targetD [OF transition_and_record_target run] show thesis by (intro that(2)) simp_all
qed

lemma in_hand_settled:
  assumes inv: "invar (ledger s)" and hand: "q \<in> set (in_hand p)" and ok: "place_ok (view_of s) p"
    and m: "settles_by ops q m s" and run: "m s = (x, t)"
  obtains (moved) q' where "x = Inr q'" "invar (ledger t)" "target t = target s"
      "\<And>p' k. set (in_hand p') \<subseteq> insert q' (set (in_hand p)) \<Longrightarrow> about_to_start p' = None \<Longrightarrow>
        about_to_call p' = None \<Longrightarrow> place_move (view_of s) p k (view_of t) p' k"
  | (failed) err where "x = Inl err" "ledger t = ledger s" "target t = target s"
proof -
  from m run obtain goal data u where u: "transition_and_record ops q goal data u = (x, t)"
    "ledger u = ledger s" "target u = target s" "strict q \<longrightarrow> goal \<notin> lax" by (auto simp: settles_by_def)
  then have at: "invar (ledger u)" "place_ok (view_of u) p" using inv ok by simp_all
  from at(1) hand at(2) u(1) show thesis
  proof (cases rule: in_hand_recorded)
    case (moved now)
    with u show thesis by (intro that(1) [of "advance q goal now"]) simp_all
  next
    case (failed err)
    with u show thesis by (intro that(2)) simp_all
  qed
qed

definition step_ok :: "place \<Rightarrow> ('s, 'w \<times> dispatch_log) world \<Rightarrow> place \<Rightarrow> ('s, 'w \<times> dispatch_log) world \<Rightarrow> bool" where
  "step_ok p s p' t \<longleftrightarrow> invar (ledger t) \<and> sound_place p' \<and> place_move (view_of s) p (snd (target s)) (view_of t) p' (snd (target t))"

lemma step_waits:
  "invar (ledger s) \<Longrightarrow> ledger t = ledger s \<Longrightarrow> snd (target t) = snd (target s) \<Longrightarrow> sound_place p' \<Longrightarrow>
    set (in_hand p') \<subseteq> set (in_hand p) \<Longrightarrow> about_to_start p' = None \<Longrightarrow> about_to_call p' = None \<Longrightarrow> step_ok p s p' t"
  by (simp add: step_ok_def place_move.waits)

lemma step_from: "step_ok p s' p' t \<Longrightarrow> ledger s' = ledger s \<Longrightarrow> target s' = target s \<Longrightarrow> step_ok p s p' t"
  by (simp add: step_ok_def)

lemma step_to: "step_ok p s p' t' \<Longrightarrow> ledger t = ledger t' \<Longrightarrow> target t = target t' \<Longrightarrow> step_ok p s p' t"
  by (simp add: step_ok_def)

section \<open>The worker\<close>

lemma job_step_ok:
  assumes inv: "invar (ledger s)" and sound: "sound_job j" and ok: "place_ok (view_of s) (Working w now lf lim j)"
    and run: "advance_job ops (watch adapters) w now lf lim j s = (j', t)"
  shows "step_ok (Working w now lf lim j) s (Working w now lf lim j') t"
proof (cases "(ops, adapters, w, now, lf, lim, j)" rule: job_step.cases)
  case 1
  obtain y l where y: "claim_op ops w now lf lim (ledger s) = (y, l)" by (cases "claim_op ops w now lf lim (ledger s)")
  show ?thesis
  proof (cases y)
    case (Inl x)
    with 1 run y have "j' = Over (Inl x)" "t = s\<lparr>ledger := l\<rparr>"
      by (simp_all add: advance_job_def and_then_def on_ledger_def)
    with ledger_claim_error [OF inv] y Inl inv show ?thesis by (intro step_waits) simp_all
  next
    case (Inr cs)
    with 1 run y have j': "j' = Taking cs []" and t: "t = s\<lparr>ledger := l\<rparr>"
      by (simp_all add: advance_job_def and_then_def on_ledger_def)
    note cs = ledger_claim [OF inv y [unfolded Inr]]
    have "due c" if "c \<in> set cs" for c
    proof -
      from that cs obtain r where "due r" "c = claim_record r now" by blast
      then show ?thesis by (simp add: due_def)
    qed
    moreover have "place_move (look (ledger s), tries (ledger s)) (Working w now lf lim j) (snd (target s))
        (look (ledger s) ++ map_of (map (\<lambda>c. (effect_id c, c)) cs), tries (ledger s))
        (Working w now lf lim j') (snd (target s))"
      by (rule place_move.claims) (use cs j' in \<open>blast | simp\<close>)+
    ultimately show ?thesis using cs j' t by (simp add: step_ok_def)
  qed
next
  case (2 ops adapters w now lf lim results)
  with run inv show ?thesis by (intro step_waits) (auto simp: advance_job_def)
next
  case (3 ops' adapters' w' now' lf' lim' r rs results)
  obtain y u where y: "transition_and_record ops r DISPATCHING [(VStr ''worker_id'', VStr w)] s = (y, u)"
    by (cases "transition_and_record ops r DISPATCHING [(VStr ''worker_id'', VStr w)] s")
  have "r \<in> set (in_hand (Working w now lf lim j))" using 3 by simp
  from inv this ok y show ?thesis
  proof (cases rule: in_hand_recorded)
    case (moved n)
    with 3 run y have j': "j' = Beginning (advance r DISPATCHING n) rs results" "t = u"
      by (simp_all add: advance_job_def and_then_def)
    have "place_move (view_of s) (Working w now lf lim j) (snd (target s)) (view_of u) (Working w now lf lim j') (snd (target s))"
      by (rule moved(4)) (use 3 sound j' in \<open>auto simp: lax_def\<close>)
    with moved j' sound 3 show ?thesis by (simp add: step_ok_def)
  next
    case (failed err)
    with 3 run y inv show ?thesis by (intro step_waits) (auto simp: advance_job_def and_then_def)
  qed
next
  case (4 ops' adapters' w' now' lf' lim' d rs results)
  let ?e = "envs s (ticks s)"
  obtain y l where y: "start_op ops ?e (effect_id d) (version d) w (ledger s) = (y, l)"
    by (cases "start_op ops ?e (effect_id d) (version d) w (ledger s)")
  show ?thesis
  proof (cases y)
    case (Inl x)
    with 4 run y ledger_start_error [OF inv] inv show ?thesis
      by (intro step_waits) (auto simp: advance_job_def and_then_def run_simps on_ledger_def)
  next
    case (Inr aid)
    with 4 run y have j': "j' = Dispatching d aid rs results" and t: "ledger t = l" "target t = target s"
      by (auto simp: advance_job_def and_then_def run_simps on_ledger_def)
    note l = ledger_start [OF inv y [unfolded Inr]]
    from l obtain c where c: "look (ledger s) (effect_id d) = Some c" "version c = version d" by blast
    have "place_move (view_of s) (Working w now lf lim j) (snd (target s))
        (look (ledger s), (tries (ledger s))(effect_id d := Suc (tries (ledger s) (effect_id d))))
        (Working w now lf lim j') (snd (target s))"
      by (rule place_move.starts [where c = c]) (use c 4 j' l in auto)
    with l t j' sound 4 show ?thesis by (auto simp: step_ok_def is_attempt_def)
  qed
next
  case (5 ops' adapters' w' now' lf' lim' d aid rs results)
  let ?s = "s\<lparr>metrics := record_dispatch_attempt d (metrics s)\<rparr>"
  obtain x u where x: "call_adapter (watch adapters) d aid ?s = (x, u)" by (cases "call_adapter (watch adapters) d aid ?s")
  from call_adapter_watched [OF x] have u: "ledger u = ledger s"
    "snd (target u) \<in> {snd (target s), snd (target s) @ [(effect_id d, aid)]}" by simp_all
  from 5 run x have j': "j' = Settling d aid x rs results" "t = u"
    by (auto simp: advance_job_def and_then_def run_simps)
  have "place_move (view_of s) (Working w now lf lim j) (snd (target s)) (view_of s) (Working w now lf lim j') (snd (target u))"
    by (rule place_move.calls [OF _ u(2)]) (use 5 j' in simp_all)
  with u j' inv sound 5 show ?thesis by (simp add: step_ok_def)
next
  case (6 ops' adapters' w' now' lf' lim' d aid res rs results)
  obtain y u where y: "settle_answered ops d aid res s = (y, u)" by (cases "settle_answered ops d aid res s")
  have "d \<in> set (in_hand (Working w now lf lim j))" using 6 by simp
  from inv this ok settle_answered_settles y show ?thesis
  proof (cases rule: in_hand_settled)
    case (moved q')
    with 6 run y have j': "j' = Taking rs (results @ [q'])" "t = u" by (auto simp: advance_job_def)
    have "place_move (view_of s) (Working w now lf lim j) (snd (target s)) (view_of u) (Working w now lf lim j') (snd (target s))"
      by (rule moved(4)) (use 6 j' in auto)
    with moved j' sound 6 show ?thesis by (simp add: step_ok_def)
  next
    case (failed err)
    with 6 run y inv sound show ?thesis by (intro step_waits) (auto simp: advance_job_def)
  qed
next
  case (7 ops' adapters' w' now' lf' lim' d aid x rs results)
  obtain y u where y: "settle_failed ops d aid x s = (y, u)" by (cases "settle_failed ops d aid x s")
  have hand: "d \<in> set (in_hand (Working w now lf lim j))" using 7 by simp
  have m: "settles_by ops d (settle_failed ops d aid x) s" using 7 sound by (intro settle_failed_settles) simp
  from inv hand ok m y show ?thesis
  proof (cases rule: in_hand_settled)
    case (moved q')
    with 7 run y have j': "j' = Taking rs (results @ [q'])" "t = u" by (auto simp: advance_job_def and_then_def)
    have "place_move (view_of s) (Working w now lf lim j) (snd (target s)) (view_of u) (Working w now lf lim j') (snd (target s))"
      by (rule moved(4)) (use 7 j' in auto)
    with moved j' sound 7 show ?thesis by (simp add: step_ok_def)
  next
    case (failed err)
    with 7 run y inv sound show ?thesis by (intro step_waits) (auto simp: advance_job_def and_then_def)
  qed
next
  case (8 ops' adapters' w' now' lf' lim' x)
  with run inv show ?thesis by (intro step_waits) (auto simp: advance_job_def)
qed

section \<open>The recovery\<close>

text \<open>A place whose code is one recorded transition and the end.\<close>

lemma ending_step_ok:
  assumes inv: "invar (ledger s)" and ok: "place_ok (view_of s) (Recovering tenant eid st)"
    and hand: "q \<in> set (stage_hand st)" and m: "settles_by ops q m s"
    and step: "stage_step ops adapters tenant eid st s = ending m s"
    and run: "advance_stage ops adapters tenant eid st s = (st', t)" and "\<not> is_ended st"
  shows "step_ok (Recovering tenant eid st) s (Recovering tenant eid st') t"
proof -
  obtain x u where x: "m s = (x, u)" by (cases "m s")
  have st': "st' = Ended x" and t: "ledger t = ledger u" "target t = target u"
    using run \<open>\<not> is_ended st\<close> x by (auto simp: advance_stage_def step ending_run closed_def split: sum.splits stage.splits)
  have "q \<in> set (in_hand (Recovering tenant eid st))" using hand by simp
  from inv this ok m x show ?thesis
  proof (cases rule: in_hand_settled)
    case (moved q')
    have "place_move (view_of s) (Recovering tenant eid st) (snd (target s)) (view_of u) (Recovering tenant eid st') (snd (target s))"
      by (rule moved(4)) (simp_all add: st')
    with moved st' t show ?thesis by (simp add: step_ok_def)
  next
    case (failed err)
    with st' t inv show ?thesis by (intro step_waits) simp_all
  qed
qed

text \<open>A place whose code is one recorded transition and another place.\<close>

lemma transition_step_ok:
  assumes inv: "invar (ledger s)" and ok: "place_ok (view_of s) (Recovering tenant eid st)"
    and hand: "q \<in> set (stage_hand st)" and u: "ledger u = ledger s" "target u = target s"
    and step: "stage_step ops adapters tenant eid st s = and_then (transition_and_record ops q goal d) (\<lambda>r. ret (f r)) u"
    and run: "advance_stage ops adapters tenant eid st s = (st', t)" and "\<not> is_ended st"
    and f: "\<And>r. \<not> is_ended (f r)" and lax: "\<not> strict q"
    and next_hand: "\<And>r. stage_hand (f r) = [r]" "\<And>r. contract r = contract q \<Longrightarrow> sound_stage (f r)"
    and start: "\<And>r tenant eid. about_to_start (Recovering tenant eid (f r)) = None
      \<or> about_to_start (Recovering tenant eid (f r)) = Some r \<and> goal = DISPATCHING"
    and call: "\<And>r tenant eid. about_to_call (Recovering tenant eid (f r)) = None"
  shows "step_ok (Recovering tenant eid st) s (Recovering tenant eid st') t"
proof -
  obtain x v where x: "transition_and_record ops q goal d u = (x, v)" by (cases "transition_and_record ops q goal d u")
  have at: "invar (ledger u)" "q \<in> set (in_hand (Recovering tenant eid st))" "place_ok (view_of u) (Recovering tenant eid st)"
    using inv ok hand u by simp_all
  from at x show ?thesis
  proof (cases rule: in_hand_recorded)
    case (moved now)
    with run \<open>\<not> is_ended st\<close> x f have st': "st' = f (advance q goal now)" and t: "t = v"
      by (simp_all add: advance_stage_def step and_then_def)
    have "place_move (view_of u) (Recovering tenant eid st) (snd (target s)) (view_of v) (Recovering tenant eid st') (snd (target s))"
      by (rule moved(4)) (use lax next_hand(1) start [of tenant eid] call in \<open>auto simp: st'\<close>)
    with moved st' t u next_hand(2) show ?thesis by (simp add: step_ok_def)
  next
    case (failed err)
    with run \<open>\<not> is_ended st\<close> x have "st' = Ended (Inl err)" "ledger t = ledger v" "target t = target v"
      by (auto simp: advance_stage_def step and_then_def closed_def split: stage.splits)
    with failed u inv show ?thesis by (intro step_waits) simp_all
  qed
qed

lemma routing_step_ok:
  assumes inv: "invar (ledger s)" and ok: "place_ok (view_of s) (Recovering tenant eid (Routing r))"
    and run: "advance_stage ops adapters tenant eid (Routing r) s = (st', t)"
  shows "step_ok (Recovering tenant eid (Routing r)) s (Recovering tenant eid st') t"
proof -
  let ?u = "s\<lparr>metrics := record_retention_remaining (env_now (envs s (ticks s))) r (metrics s), ticks := Suc (Suc (ticks s))\<rparr>"
  consider (dispatch) "safety (contract r) = IDEMPOTENT"
    | (probe) "safety (contract r) \<in> {RECONCILABLE, TRANSACTIONAL}" | (operator) "safety (contract r) = UNSAFE"
    by (cases "safety (contract r)") simp_all
  then show ?thesis
  proof cases
    case operator
    then have "stage_step ops adapters tenant eid (Routing r) s = ending (to_operator ops r ''unsafe_unknown'' ''unsafe_unknown'') s"
      by (simp add: route_unknown_def)
    from ending_step_ok [OF inv ok _ to_operator_settles this run] show ?thesis by simp
  next
    case probe
    show ?thesis
      by (rule transition_step_ok [OF inv ok _ _ _ _ run, where q = r and u = s and f = Probing])
        (use probe in \<open>auto simp: route_unknown_def not_strict\<close>)
  next
    case dispatch
    show ?thesis
    proof (cases "key_retention_valid (env_now (envs s (Suc (ticks s)))) r")
      case True
      show ?thesis
        by (rule transition_step_ok [OF inv ok _ _ _ _ run, where q = r and u = ?u and f = Starting])
          (use dispatch True in \<open>auto simp: route_unknown_def and_then_def run_simps not_strict\<close>)
    next
      case False
      with dispatch have "stage_step ops adapters tenant eid (Routing r) s =
          ending (\<lambda>s. to_operator ops r ''retention_expired'' ''idempotency_key_retention_expired'' ?u) s"
        by (simp add: route_unknown_def and_then_def run_simps ending_run)
      moreover have "settles_by ops r (\<lambda>s. to_operator ops r ''retention_expired'' ''idempotency_key_retention_expired'' ?u) s"
        using to_operator_settles [of ops r _ _ ?u] by (simp add: settles_by_def)
      ultimately show ?thesis using ending_step_ok [OF inv ok _ _ _ run] by simp
    qed
  qed
qed

lemma stage_step_ok:
  assumes inv: "invar (ledger s)" and sound: "sound_stage st" and ok: "place_ok (view_of s) (Recovering tenant eid st)"
    and run: "advance_stage ops (watch adapters) tenant eid st s = (st', t)"
  shows "step_ok (Recovering tenant eid st) s (Recovering tenant eid st') t"
proof (cases st)
  case Opening
  show ?thesis
  proof (cases "get_op ops tenant eid (ledger s)")
    case None
    with Opening run inv show ?thesis by (intro step_waits) (auto simp: advance_stage_def closed_def)
  next
    case (Some r)
    with ledger_get [OF inv, of tenant eid] have r: "look (ledger s) eid = Some r" by (auto split: option.splits if_splits)
    with ledger_id [OF inv] have "effect_id r = eid" by blast
    moreover from Opening run Some have "st' = Routing r" "t = s" by (simp_all add: advance_stage_def)
    ultimately show ?thesis using inv r by (simp add: step_ok_def place_move.reads)
  qed
next
  case (Routing r)
  with routing_step_ok inv ok run show ?thesis by simp
next
  case (Starting d)
  let ?e = "envs s (ticks s)"
  obtain y l where y: "start_op ops ?e (effect_id d) (version d) ''reconciler'' (ledger s) = (y, l)"
    by (cases "start_op ops ?e (effect_id d) (version d) ''reconciler'' (ledger s)")
  show ?thesis
  proof (cases y)
    case (Inl x)
    with Starting run y ledger_start_error [OF inv] inv show ?thesis
      by (intro step_waits) (auto simp: advance_stage_def and_then_def run_simps on_ledger_def closed_def)
  next
    case (Inr aid)
    with Starting run y have st': "st' = Calling d aid" and t: "ledger t = l" "target t = target s"
      by (auto simp: advance_stage_def and_then_def run_simps on_ledger_def)
    note l = ledger_start [OF inv y [unfolded Inr]]
    from l obtain c where c: "look (ledger s) (effect_id d) = Some c" "version c = version d" by blast
    have "place_move (view_of s) (Recovering tenant eid st) (snd (target s))
        (look (ledger s), (tries (ledger s))(effect_id d := Suc (tries (ledger s) (effect_id d))))
        (Recovering tenant eid st') (snd (target s))"
      by (rule place_move.starts [where c = c]) (use c Starting st' l in auto)
    with l t st' sound Starting show ?thesis by (simp add: step_ok_def)
  qed
next
  case (Calling d aid)
  have t: "ledger t = ledger s" "snd (target t) \<in> {snd (target s), snd (target s) @ [(effect_id d, aid)]}"
    and st': "stage_hand st' \<in> {[d], []}" "sound_stage st'" "about_to_start (Recovering tenant eid st') = None"
      "about_to_call (Recovering tenant eid st') = None"
    using run Calling sound
    by (auto simp: advance_stage_def and_then_def run_simps watch_def observe_latency_def on_target_def closed_def
        split: prod.splits sum.splits)
  have "place_move (view_of s) (Recovering tenant eid st) (snd (target s)) (view_of s) (Recovering tenant eid st') (snd (target t))"
    by (rule place_move.calls [OF _ t(2)]) (use Calling st' in auto)
  with t st' inv show ?thesis by (simp add: step_ok_def)
next
  case (Reporting d aid x)
  show ?thesis
    by (rule ending_step_ok [OF inv ok _ _ _ run, where q = d
        and m = "case x of Inl err \<Rightarrow> redispatch_failed ops d aid err | Inr res \<Rightarrow> redispatch_answered ops d aid res"])
      (use Reporting sound in \<open>auto simp: not_strict redispatch_failed_settles redispatch_answered_settles split: sum.split\<close>)
next
  case (Probing q)
  obtain x u where x: "call_probe (watch adapters) q s = (x, u)" by (cases "call_probe (watch adapters) q s")
  from call_probe_watched [OF x] Probing run x inv sound show ?thesis
    by (intro step_waits) (auto simp: advance_stage_def and_then_def closed_def split: sum.splits)
next
  case (Deciding q p)
  show ?thesis
    by (rule ending_step_ok [OF inv ok _ _ _ run, where q = q and m = "probe_answered ops q p"])
      (use Deciding sound in \<open>auto simp: not_strict probe_answered_settles\<close>)
next
  case (Ended x)
  with run inv show ?thesis by (intro step_waits) (auto simp: advance_stage_def)
qed

lemma advance_place_ok:
  assumes inv: "invar (ledger s)" and sound: "sound_place p" and ok: "place_ok (view_of s) p"
    and run: "advance_place ops (watch adapters) p s = (p', t)"
  shows "step_ok p s p' t"
proof (cases p)
  case (Working w now lf lim j)
  with run obtain j' where j': "advance_job ops (watch adapters) w now lf lim j s = (j', t)" "p' = Working w now lf lim j'"
    by (auto split: prod.splits)
  from job_step_ok [OF inv _ _ j'(1)] Working sound ok j'(2) show ?thesis by simp
next
  case (Recovering tenant eid st)
  with run obtain st' where st': "advance_stage ops (watch adapters) tenant eid st s = (st', t)" "p' = Recovering tenant eid st'"
    by (auto split: prod.splits)
  from stage_step_ok [OF inv _ _ st'(1)] Recovering sound ok st'(2) show ?thesis by simp
qed

section \<open>The fleet\<close>

abbreviation fleet_view :: "('s, 'w) fleet \<Rightarrow> view" where
  "fleet_view m \<equiv> (look (fleet_ledger m), tries (fleet_ledger m))"

text \<open>Only contracts that allow an unsafe effect no retry are in the ledger.\<close>

abbreviation guarded :: "effect_contract \<Rightarrow> bool" where
  "guarded c \<equiv> safety c = UNSAFE \<longrightarrow> retry_limit c \<le> 0"

definition sound_fleet :: "('s, 'w) fleet \<Rightarrow> bool" where
  "sound_fleet m \<longleftrightarrow> invar (fleet_ledger m) \<and> (\<forall>p \<in> set (places m). sound_place p)
     \<and> contracts_known guarded (fleet_view m) \<and> fleet_ok (fleet_view m) (places m) (snd (fleet_target m))"

lemma new_fleet_sound:
  "invar l \<Longrightarrow> look l = Map.empty \<Longrightarrow> sound_fleet (new_fleet l w)"
  by (simp add: sound_fleet_def new_fleet_def places_def contracts_known_def fleet_ok_def unsafe_ok_def apart_def)

lemma place_move_contracts: "place_move v p k v' p' k' \<Longrightarrow> contracts_known known v \<Longrightarrow> contracts_known known v'"
proof (induction rule: place_move.induct)
  case (claims cs rs now p' n p k)
  have "known (contract r)" if r: "(rs ++ map_of (map (\<lambda>c. (effect_id c, c)) cs)) i = Some r" for i r
  proof (cases "map_of (map (\<lambda>c. (effect_id c, c)) cs) i")
    case None
    with r have "rs i = Some r" by (simp add: map_add_dom_app_simps(3) domIff)
    with claims.prems show ?thesis by (simp add: contracts_known_def)
  next
    case (Some c)
    then have "c \<in> set cs" by (auto dest: map_of_SomeD)
    with claims.hyps(2) obtain q where "rs (effect_id c) = Some q" "c = claim_record q now" by blast
    with Some r claims.prems show ?thesis by (auto simp: contracts_known_def)
  qed
  then show ?case by (simp add: contracts_known_def)
qed (auto simp: contracts_known_def)

lemma member_turn_sound:
  assumes "sound_fleet m"
  shows "sound_fleet (member_turn ops i m) \<and> grows (fleet_view m) (fleet_view (member_turn ops i m))"
proof (cases "i < length (members m)")
  case False
  then have "member_turn ops i m = m" by (simp add: member_turn_def)
  with assms show ?thesis by (simp add: grows_refl)
next
  case i: True
  let ?a = "members m ! i" and ?s = "member_world m (members m ! i)"
  obtain p t where run: "advance_place ops (watch (member_adapters ?a)) (place_of ?a) ?s = (p, t)"
    by (cases "advance_place ops (watch (member_adapters ?a)) (place_of ?a) ?s")
  have s [simp]: "ledger ?s = fleet_ledger m" "target ?s = fleet_target m" by (simp_all add: member_world_def)
  have at: "places m ! i = place_of ?a" "i < length (places m)" using i by (simp_all add: places_def)
  have inv: "invar (ledger ?s)" and sound: "sound_place (place_of ?a)" and ok: "place_ok (view_of ?s) (place_of ?a)"
    using assms nth_mem [OF at(2)] at(1) by (auto simp: sound_fleet_def fleet_ok_def)
  from advance_place_ok [OF inv sound ok run] have step: "invar (ledger t)" "sound_place p"
    "place_move (fleet_view m) (places m ! i) (snd (fleet_target m)) (view_of t) p (snd (target t))"
    by (simp_all add: step_ok_def at)
  have turn: "fleet_ledger (member_turn ops i m) = ledger t" "fleet_target (member_turn ops i m) = target t"
    "places (member_turn ops i m) = (places m)[i := p]"
    using i by (simp_all add: member_turn_def Let_def run places_def map_update)
  have "sound_place q" if "q \<in> set ((places m)[i := p])" for q
    using that step(2) assms set_update_subset_insert [of "places m" i p] by (auto simp: sound_fleet_def)
  with fleet_ok_move [OF _ at(2) step(3)] place_move_contracts [OF step(3)] place_move_grows [OF step(3)] step(1) assms
  show ?thesis by (simp add: sound_fleet_def turn)
qed

lemma recruit_sound:
  assumes "sound_fleet m" and "sound_place p" and "about_to_start p = None" and "about_to_call p = None"
    and "\<And>q. q \<in> set (in_hand p) \<Longrightarrow> look (fleet_ledger m) (effect_id q) = Some q"
  shows "sound_fleet (recruit p adapters es m)" "fleet_view (recruit p adapters es m) = fleet_view m"
  using assms fleet_ok_joined [of "fleet_view m" "places m" "snd (fleet_target m)" p]
  by (auto simp: sound_fleet_def recruit_def places_def)

text \<open>A call of the API on the ledger.\<close>

lemma reserve_sound:
  assumes m: "sound_fleet m" and c: "guarded c" and wf: "wf_request req"
    and run: "reserve_op ops e tenant req c (fleet_ledger m) = (x, l)"
  shows "sound_fleet (m\<lparr>fleet_ledger := l\<rparr>) \<and> grows (fleet_view m) (fleet_view (m\<lparr>fleet_ledger := l\<rparr>))"
proof -
  have inv: "invar (fleet_ledger m)" using m by (simp add: sound_fleet_def)
  have same: ?thesis if "invar l" "look l = look (fleet_ledger m)" "tries l = tries (fleet_ledger m)"
    using m that by (simp add: sound_fleet_def places_def grows_refl)
  show ?thesis
  proof (cases x)
    case (Inl err)
    with ledger_reserve_error [OF inv wf] run have "l = fleet_ledger m" by blast
    with inv same show ?thesis by simp
  next
    case (Inr res)
    note written = ledger_reserve [OF inv wf run [unfolded Inr]]
    show ?thesis
    proof (cases "created res")
      case False
      with written same show ?thesis by simp
    next
      case True
      with written obtain r where r: "look (fleet_ledger m) (effect_id r) = None"
        "look l = (look (fleet_ledger m))(effect_id r \<mapsto> r)" "status r = PREPARED" "contract r = pin c"
        and l: "invar l" "tries l = tries (fleet_ledger m)" by auto
      have none: "tries (fleet_ledger m) (effect_id r) = 0" by (rule ledger_untried [OF inv r(1)])
      have g: "grows (fleet_view m) (look l, tries (fleet_ledger m))"
        using r(1,2) by (auto simp: grows_def later_refl)
      have "unsafe_ok (look l, tries (fleet_ledger m))"
        using m r none by (auto simp: sound_fleet_def fleet_ok_def unsafe_ok_def)
      with fleet_ok_outside [OF _ g] m have "fleet_ok (look l, tries (fleet_ledger m)) (places m) (snd (fleet_target m))"
        by (simp add: sound_fleet_def)
      moreover have "contracts_known guarded (look l, tries (fleet_ledger m))"
        using m r c ledger_pin [of c] by (auto simp: sound_fleet_def contracts_known_def)
      ultimately show ?thesis using m l g by (simp add: sound_fleet_def places_def)
    qed
  qed
qed

lemma change_sound:
  assumes m: "sound_fleet m" and goal: "goal \<in> {CANCELLED, SUCCEEDED, FAILED_FINAL, COMPENSATED}"
    and run: "transition_op ops e eid v goal d (fleet_ledger m) = (x, l)"
  shows "sound_fleet (m\<lparr>fleet_ledger := l\<rparr>) \<and> grows (fleet_view m) (fleet_view (m\<lparr>fleet_ledger := l\<rparr>))"
proof -
  have inv: "invar (fleet_ledger m)" using m by (simp add: sound_fleet_def)
  show ?thesis
  proof (cases x)
    case (Inl err)
    with ledger_transition_error [OF inv] run have "l = fleet_ledger m" by simp
    with m show ?thesis by (simp add: grows_refl)
  next
    case (Inr r')
    from ledger_transition [OF inv run [unfolded Inr]] obtain r where
      r: "look (fleet_ledger m) eid = Some r" "is_allowed (status r) goal"
        "look l = (look (fleet_ledger m))(eid \<mapsto> advance r goal (env_now e))"
      and l: "invar l" "tries l = tries (fleet_ledger m)" by blast
    have g: "grows (fleet_view m) (look l, tries (fleet_ledger m))"
      unfolding r(3) by (rule grows_update [where q = r]) (use r successor_advance [OF r(2)] in simp_all)
    have "unsafe_ok (look l, tries (fleet_ledger m))"
      unfolding r(3) by (rule unsafe_ok_update [where q = r]) (use m r(1) goal in \<open>auto simp: sound_fleet_def fleet_ok_def due_def\<close>)
    with fleet_ok_outside [OF _ g] m have "fleet_ok (look l, tries (fleet_ledger m)) (places m) (snd (fleet_target m))"
      by (simp add: sound_fleet_def)
    moreover have "contracts_known guarded (look l, tries (fleet_ledger m))"
      using m r(1,3) by (auto simp: sound_fleet_def contracts_known_def)
    ultimately show ?thesis using m l g by (simp add: sound_fleet_def places_def)
  qed
qed

text \<open>Every run of a fleet.\<close>

lemma grows_trans: "grows v v' \<Longrightarrow> grows v' v'' \<Longrightarrow> grows v v''"
  unfolding grows_def by (meson later_trans le_trans)

lemma fleet_run_ok:
  assumes "fleet_run ops reg m0 m" and reg: "sound_registry reg" and start: "sound_fleet m0"
  shows "sound_fleet m \<and> grows (fleet_view m0) (fleet_view m)"
  using assms(1)
proof (induction rule: fleet_run.induct)
  case formed
  with start show ?case by (simp add: grows_refl)
next
  case (stepped m i)
  with member_turn_sound [of m i] show ?case by (blast intro: grows_trans)
next
  case (hired m w now lf lim adapters es)
  with recruit_sound [of m "Working w now lf lim Claiming" adapters es] show ?case by simp
next
  case (opened m tenant eid adapters es)
  with recruit_sound [of m "Recovering tenant eid Opening" adapters es] show ?case by simp
next
  case (handed m tenant eid r adapters es)
  then have "invar (fleet_ledger m)" by (simp add: sound_fleet_def)
  with handed.hyps(2) ledger_get [OF this, of tenant eid] ledger_id have "look (fleet_ledger m) (effect_id r) = Some r"
    by (auto split: option.splits if_splits)
  with handed.IH recruit_sound [of m "Recovering tenant eid (Routing r)" adapters es] show ?case by simp
next
  case (submitted m req c e tenant x l)
  have "guarded c" using sound_registry_get [OF reg submitted.hyps(2)] by (auto simp: sound_contract_def)
  with submitted.hyps(3,4) submitted.IH reserve_sound [of m c] show ?case by (blast intro: grows_trans)
next
  case (changed m goal e eid v d x l)
  with change_sound [of m goal] show ?case by (blast intro: grows_trans)
next
  case (outside m w)
  then show ?case by (simp add: sound_fleet_def places_def)
qed

section \<open>What holds of every fleet that starts on an empty ledger\<close>

lemma calls_of_effect:
  assumes "distinct log" and "\<forall>t \<in> set log. ticketed v t"
  shows "length (filter (\<lambda>t. fst t = i) log) \<le> snd v i"
proof -
  have "set (filter (\<lambda>t. fst t = i) log) \<subseteq> (\<lambda>n. (i, attempt_name i n)) ` {1..snd v i}"
    using assms(2) by (fastforce simp: ticketed_def)
  then have "card (set (filter (\<lambda>t. fst t = i) log)) \<le> card ((\<lambda>n. (i, attempt_name i n)) ` {1..snd v i})"
    by (rule card_mono [rotated]) simp
  also have "\<dots> \<le> snd v i" using card_image_le [of "{1..snd v i}" "\<lambda>n. (i, attempt_name i n)"] by simp
  finally show ?thesis using distinct_card [OF distinct_filter [OF assms(1)]] by simp
qed

lemma fleet_calls:
  assumes "fleet_run ops reg (new_fleet l w) m" and "sound_registry reg" and "invar l" and "look l = Map.empty"
  shows "invar (fleet_ledger m) \<and> distinct (snd (fleet_target m))
    \<and> (\<forall>(i, aid) \<in> set (snd (fleet_target m)). \<exists>n. aid = attempt_name i n \<and> 1 \<le> n \<and> n \<le> tries (fleet_ledger m) i)"
  using fleet_run_ok [OF assms(1,2) new_fleet_sound [OF assms(3,4)]]
  by (simp add: sound_fleet_def fleet_ok_def ticketed_def split_beta)

lemma fleet_unsafe:
  assumes "fleet_run ops reg (new_fleet l w) m" and "sound_registry reg" and "invar l" and "look l = Map.empty"
    and "look (fleet_ledger m) i = Some r" and "safety (contract r) = UNSAFE"
  shows "tries (fleet_ledger m) i \<le> 1 \<and> calls_for i m \<le> 1"
proof -
  have m: "sound_fleet m" using fleet_run_ok [OF assms(1,2) new_fleet_sound [OF assms(3,4)]] ..
  with assms(5,6) have "retry_limit (contract r) \<le> 0" by (auto simp: sound_fleet_def contracts_known_def)
  with m assms(5,6) have one: "tries (fleet_ledger m) i \<le> 1"
    by (simp add: sound_fleet_def fleet_ok_def unsafe_ok_def)
  have "distinct (snd (fleet_target m))" "\<forall>t \<in> set (snd (fleet_target m)). ticketed (fleet_view m) t"
    using m by (simp_all add: sound_fleet_def fleet_ok_def)
  from calls_of_effect [OF this, of i] one show ?thesis by (simp add: calls_for_def)
qed

lemma fleet_life:
  assumes "fleet_run ops reg (new_fleet l w) m" and "fleet_run ops reg m m'" and "sound_registry reg"
    and "invar l" and "look l = Map.empty" and "look (fleet_ledger m) i = Some r"
  shows "\<exists>r'. look (fleet_ledger m') i = Some r' \<and> later r r'"
proof -
  have "sound_fleet m" using fleet_run_ok [OF assms(1,3) new_fleet_sound [OF assms(4,5)]] ..
  from fleet_run_ok [OF assms(2,3) this] have "grows (fleet_view m) (fleet_view m')" ..
  with assms(6) show ?thesis by (auto simp: grows_def)
qed

text \<open>A process ends: each turn of its own lowers its rank, and nobody else's raises it.\<close>

lemma place_rank_step:
  assumes "invar (ledger s)" and "advance_place ops adapters p s = (p', t)"
  shows "place_rank p' \<le> place_rank p - 1"
  using assms(2) job_rank_step [OF assms(1)] rank_step
  by (cases p) (auto split: prod.splits)

lemma place_rank_turn:
  assumes m: "sound_fleet m" and j: "j < length (members m)"
  shows "place_rank (places (member_turn ops i m) ! j) \<le> place_rank (places m ! j) - (if i = j then 1 else 0)"
proof (cases "i = j")
  case True
  let ?a = "members m ! j" and ?s = "member_world m (members m ! j)"
  obtain p t where run: "advance_place ops (watch (member_adapters ?a)) (place_of ?a) ?s = (p, t)"
    by (cases "advance_place ops (watch (member_adapters ?a)) (place_of ?a) ?s")
  have "invar (ledger ?s)" using m by (simp add: sound_fleet_def member_world_def)
  from place_rank_step [OF this run] show ?thesis
    using True j by (simp add: member_turn_def Let_def run places_def)
next
  case False
  with j show ?thesis by (simp add: member_turn_def Let_def places_def split: prod.split)
qed

lemma place_rank_turns:
  assumes "sound_fleet m" and "j < length (members m)"
  shows "place_rank (places (run_members ops is m) ! j) \<le> place_rank (places m ! j) - count_list is j"
  using assms
proof (induction "is" arbitrary: m)
  case (Cons i js)
  have "sound_fleet (member_turn ops i m)" using member_turn_sound [OF Cons.prems(1)] ..
  from Cons.IH [OF this] place_rank_turn [OF Cons.prems, of i] Cons.prems(2) show ?case
    by (auto split: if_splits)
qed simp

lemma fleet_member_ends:
  assumes "fleet_run ops reg (new_fleet l w) m" and "sound_registry reg" and "invar l" and "look l = Map.empty"
    and "j < length (members m)" and "place_rank (places m ! j) \<le> count_list is j"
  shows "finished (places (run_members ops is m) ! j)"
proof -
  have "sound_fleet m" using fleet_run_ok [OF assms(1,2) new_fleet_sound [OF assms(3,4)]] ..
  from place_rank_turns [OF this assms(5), of "is"] assms(6) show ?thesis by (simp flip: place_rank_finished)
qed

end

end
