(* ===== verification/Fleet_Properties.thy ===== *)
theory Fleet_Properties
  imports Fleet_Refinement Sqlite_Properties Postgres_Properties
begin

text \<open>
  Properties of any number of workers and recoveries that run at the same time on one ledger, in memory,
  in SQLite and in Postgres, for every adapter, every target and every interleaving of their calls.
\<close>

lemma no_effects: "mem_look empty_store = Map.empty" "sql_look empty_db = Map.empty" "pg_look empty_pg = Map.empty"
  by (simp_all add: fun_eq_iff mem_look_def empty_store_def sql_look_def empty_db_def pg_look_def empty_pg_def)

lemmas mem_fleet = effect_ledger.fleet_unsafe [OF mem.effect_ledger_axioms _ _ mem_ok_empty no_effects(1)]
  effect_ledger.fleet_calls [OF mem.effect_ledger_axioms _ _ mem_ok_empty no_effects(1)]
  effect_ledger.fleet_life [OF mem.effect_ledger_axioms _ _ _ mem_ok_empty no_effects(1)]
  effect_ledger.fleet_member_ends [OF mem.effect_ledger_axioms _ _ mem_ok_empty no_effects(1)]

lemmas sql_fleet = effect_ledger.fleet_unsafe [OF sql.effect_ledger_axioms _ _ sql_ok_empty no_effects(2)]
  effect_ledger.fleet_calls [OF sql.effect_ledger_axioms _ _ sql_ok_empty no_effects(2)]
  effect_ledger.fleet_life [OF sql.effect_ledger_axioms _ _ _ sql_ok_empty no_effects(2)]
  effect_ledger.fleet_member_ends [OF sql.effect_ledger_axioms _ _ sql_ok_empty no_effects(2)]

lemmas pg_fleet = effect_ledger.fleet_unsafe [OF pg.effect_ledger_axioms _ _ pg_ok_empty no_effects(3)]
  effect_ledger.fleet_calls [OF pg.effect_ledger_axioms _ _ pg_ok_empty no_effects(3)]
  effect_ledger.fleet_life [OF pg.effect_ledger_axioms _ _ _ pg_ok_empty no_effects(3)]
  effect_ledger.fleet_member_ends [OF pg.effect_ledger_axioms _ _ pg_ok_empty no_effects(3)]

section \<open>A fleet of two workers and a recovery\<close>

text \<open>One unsafe effect, and three processes that take turns on it.\<close>

definition demo_reg :: registry where
  "demo_reg = [(''send'', demo_contract UNSAFE)]"

definition crew :: "('s, sim_target) fleet \<Rightarrow> ('s, sim_target) fleet" where
  "crew m = recruit (Recovering ''acme'' ''eff_u'' Opening) default_adapter_for (\<lambda>n. demo_env)
     (recruit (Working ''w2'' (seconds 200) (seconds 30) 10 Claiming) default_adapter_for (\<lambda>n. demo_env)
       (recruit (Working ''w1'' (seconds 200) (seconds 30) 10 Claiming) default_adapter_for (\<lambda>n. demo_env) m))"

lemma demo_reg_sound: "sound_registry demo_reg"
  by (simp add: sound_registry_def demo_reg_def demo_sound)

lemma crew_run: "fleet_run ops reg m0 m \<Longrightarrow> fleet_run ops reg m0 (crew m)"
  unfolding crew_def by (intro fleet_run.intros)

lemma crew_simps [simp]:
  "fleet_ledger (crew m) = fleet_ledger m" "length (members (crew m)) = length (members m) + 3"
  "members m = [] \<Longrightarrow> place_rank (places (crew m) ! 0) = 52" "members m = [] \<Longrightarrow> place_rank (places (crew m) ! 2) = 5"
  by (simp_all add: crew_def recruit_def places_def)

text \<open>The fleets after the submission, in each ledger.\<close>

lemma mem_submitted_fleet:
  obtains m where "fleet_run (memory_ops demo_keys) demo_reg (new_fleet empty_store (sim_init 0)) m" "members m = []"
    "mem_look (fleet_ledger m) ''eff_000001'' = Some (demo_record UNSAFE)"
    "fleet_ledger m = demo_store UNSAFE" "snd (fleet_target m) = []"
proof -
  let ?m = "new_fleet empty_store (sim_init 0) \<lparr>fleet_ledger := demo_store UNSAFE\<rparr>"
  have "fleet_run (memory_ops demo_keys) demo_reg (new_fleet empty_store (sim_init 0)) ?m"
    by (rule fleet_run.submitted [OF fleet_run.formed, where req = "demo_request 10" and c = "demo_contract UNSAFE"
          and e = demo_env and tenant = "''acme''"])
      (simp_all add: demo_reg_def registry_get_def demo_wf new_fleet_def memory_ops_simps demo_reserve)
  then show thesis by (rule that) (simp_all add: new_fleet_def)
qed

lemma sql_submitted_fleet:
  obtains m where "fleet_run (sqlite_ops demo_keys) demo_reg (new_fleet empty_db (sim_init 0)) m" "members m = []"
    "sql_look (fleet_ledger m) ''eff_u'' = Some (sql_saved (sqlite_record UNSAFE))"
proof -
  obtain t where t: "sql_reserve demo_keys demo_env ''acme'' (demo_request 10) (demo_contract UNSAFE) empty_db =
      (Inr \<lparr>res_effect = sqlite_record UNSAFE, created = True, replayed = False\<rparr>, t)"
    "sql_look t ''eff_u'' = Some (sql_saved (sqlite_record UNSAFE))"
    by (rule sqlite_reserved [of UNSAFE])
  let ?m = "new_fleet empty_db (sim_init 0) \<lparr>fleet_ledger := t\<rparr>"
  have "fleet_run (sqlite_ops demo_keys) demo_reg (new_fleet empty_db (sim_init 0)) ?m"
    by (rule fleet_run.submitted [OF fleet_run.formed, where req = "demo_request 10" and c = "demo_contract UNSAFE"
          and e = demo_env and tenant = "''acme''"])
      (simp_all add: demo_reg_def registry_get_def demo_wf new_fleet_def sqlite_ops_simps t)
  then show thesis by (rule that) (simp_all add: new_fleet_def t)
qed

lemma pg_submitted_fleet:
  obtains m r where "fleet_run (pg_ops easy_driver demo_keys) demo_reg (new_fleet empty_pg (sim_init 0)) m" "members m = []"
    "pg_look (fleet_ledger m) ''eff_u'' = Some r" "safety (contract r) = UNSAFE"
proof -
  obtain t r where t: "pg_reserve easy_driver demo_keys demo_env ''acme'' (demo_request 10) (demo_contract UNSAFE) empty_pg =
      (Inr \<lparr>res_effect = r, created = True, replayed = False\<rparr>, t)"
    "pg_look t ''eff_u'' = Some r" "contract r = pg_pin (demo_contract UNSAFE)"
    by (rule pg_reserved [of UNSAFE]) blast
  let ?m = "new_fleet empty_pg (sim_init 0) \<lparr>fleet_ledger := t\<rparr>"
  have "fleet_run (pg_ops easy_driver demo_keys) demo_reg (new_fleet empty_pg (sim_init 0)) ?m"
    by (rule fleet_run.submitted [OF fleet_run.formed, where req = "demo_request 10" and c = "demo_contract UNSAFE"
          and e = demo_env and tenant = "''acme''"])
      (simp_all add: demo_reg_def registry_get_def pg_demo_wf new_fleet_def pg_ops_simps t)
  then show thesis
    by (intro that [of ?m r]) (simp_all add: new_fleet_def t pg.ledger_pin)
qed

section \<open>One worker alone, up to its call of the target\<close>

text \<open>\<open>Q\<close> says where the worker is and what the ledger holds.\<close>

definition lone :: "(job \<Rightarrow> 's \<Rightarrow> bool) \<Rightarrow> dispatch_log \<Rightarrow> ('s, sim_target) fleet \<Rightarrow> bool" where
  "lone Q k m \<longleftrightarrow> snd (fleet_target m) = k \<and> (\<exists>a j. members m = [a] \<and> Q j (fleet_ledger m)
     \<and> place_of a = Working ''w1'' (seconds 200) (seconds 30) 10 j \<and> member_adapters a = default_adapter_for)"

lemma lone_turn:
  assumes "lone Q k m"
    and "\<And>s j. Q j (ledger s) \<Longrightarrow> snd (target s) = k \<Longrightarrow> \<exists>j' t. advance_job ops (watch default_adapter_for) ''w1''
      (seconds 200) (seconds 30) 10 j s = (j', t) \<and> Q' j' (ledger t) \<and> snd (target t) = k'"
  shows "lone Q' k' (member_turn ops 0 m)"
proof -
  from assms(1) obtain a j where a: "snd (fleet_target m) = k" "members m = [a]" "Q j (fleet_ledger m)"
    "place_of a = Working ''w1'' (seconds 200) (seconds 30) 10 j" "member_adapters a = default_adapter_for"
    by (auto simp: lone_def)
  from assms(2) [of j "member_world m a"] a(1,3) obtain j' t where "advance_job ops (watch default_adapter_for) ''w1''
      (seconds 200) (seconds 30) 10 j (member_world m a) = (j', t)" "Q' j' (ledger t)" "snd (target t) = k'"
    by (auto simp: member_world_def)
  with a show ?thesis by (auto simp: lone_def member_turn_def)
qed

lemma default_called:
  assumes "call_adapter (watch default_adapter_for) d aid s = (x, t)"
  shows "ledger t = ledger s \<and> snd (target t) = snd (target s) @ [(effect_id d, aid)]"
  using assms by (auto simp: call_adapter_def watch_def observe_latency_def and_then_def run_simps on_target_def
      default_adapter_for_def split: sum.splits prod.splits)

text \<open>The demonstration effect is claimed, moved to \<open>DISPATCHING\<close>, given an attempt, and dispatched.\<close>

definition claimed_demo :: "job \<Rightarrow> memory_store \<Rightarrow> bool" where
  "claimed_demo j l \<longleftrightarrow> (\<exists>r. j = Taking [r] [] \<and> effect_id r = ''eff_000001'' \<and> due r \<and> mem_ok l
     \<and> mem_look l ''eff_000001'' = Some r \<and> mem_tries l ''eff_000001'' = 0)"

definition moved_demo :: "job \<Rightarrow> memory_store \<Rightarrow> bool" where
  "moved_demo j l \<longleftrightarrow> (\<exists>d. j = Beginning d [] [] \<and> effect_id d = ''eff_000001'' \<and> mem_ok l
     \<and> mem_look l ''eff_000001'' = Some d \<and> mem_tries l ''eff_000001'' = 0)"

definition tried_demo :: "job \<Rightarrow> memory_store \<Rightarrow> bool" where
  "tried_demo j l \<longleftrightarrow> (\<exists>d. j = Dispatching d (attempt_name ''eff_000001'' 1) [] [] \<and> effect_id d = ''eff_000001'')"

lemma demo_claimed:
  assumes "ledger s = demo_store cls" and "j = Claiming"
  shows "\<exists>j' t. advance_job (memory_ops key) adapters w (seconds 200) (seconds 30) 10 j s = (j', t)
    \<and> claimed_demo j' (ledger t) \<and> snd (target t) = snd (target s)"
proof -
  let ?c = "claim_record (demo_record cls) (seconds 200)"
  have "claim_pick (demo_store cls) (seconds 200) 10 = [(''eff_000001'', demo_record cls)]"
    by (simp add: claim_pick_def claimable_def leased_def)
  then have picked: "claimed_records (seconds 200) (claim_pick (demo_store cls) (seconds 200) 10) = [?c]"
    by (simp add: claimed_records_def)
  from mem_claim_law [OF demo_store_ok, of w "seconds 200" "seconds 30" 10 cls] mem_claim_reference [OF demo_store_ok,
      of w "seconds 200" "seconds 30" 10 cls] picked
  obtain l where l: "mem_claim_due w (seconds 200) (seconds 30) 10 (demo_store cls) = (Inr [?c], l)" "mem_ok l"
    "mem_tries l = mem_tries (demo_store cls)" "mem_look l = mem_look (demo_store cls) ++ map_of [(effect_id ?c, ?c)]"
    by auto
  have "mem_tries (demo_store cls) ''eff_000001'' = 0"
    by (simp add: mem_tries_def mem_attempt_count_def demo_store_def reserved_store_def)
  with l assms show ?thesis
    by (auto simp: advance_job_def and_then_def on_ledger_def memory_ops_simps claimed_demo_def due_def)
qed

lemma demo_moved:
  assumes "claimed_demo j (ledger s)"
  shows "\<exists>j' t. advance_job (memory_ops key) adapters w now lf lim j s = (j', t)
    \<and> moved_demo j' (ledger t) \<and> snd (target t) = snd (target s)"
proof -
  from assms obtain r where r: "j = Taking [r] []" "effect_id r = ''eff_000001''" "due r" "mem_ok (ledger s)"
    "mem_look (ledger s) ''eff_000001'' = Some r" "mem_tries (ledger s) ''eff_000001'' = 0"
    by (auto simp: claimed_demo_def)
  have "mem_look (ledger s) (effect_id r) = Some r" "is_allowed (status r) DISPATCHING"
    using r by (auto simp: due_def is_allowed_simps)
  from mem.transition_and_record_current [OF r(4) this, where key = key and d = "[(VStr ''worker_id'', VStr w)]"]
  obtain t n where "transition_and_record (memory_ops key) r DISPATCHING [(VStr ''worker_id'', VStr w)] s =
      (Inr (advance r DISPATCHING n), t)" "mem_ok (ledger t)"
    "mem_look (ledger t) = (mem_look (ledger s))(effect_id r \<mapsto> advance r DISPATCHING n)"
    "mem_tries (ledger t) = mem_tries (ledger s)" "target t = target s" by blast
  with r show ?thesis by (auto simp: advance_job_def and_then_def moved_demo_def)
qed

lemma demo_tried:
  assumes "moved_demo j (ledger s)"
  shows "\<exists>j' t. advance_job (memory_ops key) adapters w now lf lim j s = (j', t)
    \<and> tried_demo j' (ledger t) \<and> snd (target t) = snd (target s)"
proof -
  from assms obtain d where d: "j = Beginning d [] []" "effect_id d = ''eff_000001''" "mem_ok (ledger s)"
    "mem_look (ledger s) ''eff_000001'' = Some d" "mem_tries (ledger s) ''eff_000001'' = 0"
    by (auto simp: moved_demo_def)
  from mem.start_done [OF d(3,4) HOL.refl, of key "envs s (ticks s)" w] d(5)
  obtain l where "start_op (memory_ops key) (envs s (ticks s)) ''eff_000001'' (version d) w (ledger s) =
      (Inr (attempt_name ''eff_000001'' 1), l)" by auto
  with d(1,2) show ?thesis by (auto simp: advance_job_def and_then_def run_simps on_ledger_def tried_demo_def)
qed

lemma demo_called:
  assumes "tried_demo j (ledger s)"
  shows "\<exists>j' t. advance_job ops (watch default_adapter_for) w now lf lim j s = (j', t)
    \<and> True \<and> snd (target t) = snd (target s) @ [(''eff_000001'', attempt_name ''eff_000001'' 1)]"
proof -
  from assms obtain d where d: "j = Dispatching d (attempt_name ''eff_000001'' 1) [] []" "effect_id d = ''eff_000001''"
    by (auto simp: tried_demo_def)
  obtain x t where x: "call_adapter (watch default_adapter_for) d (attempt_name ''eff_000001'' 1)
      (s\<lparr>metrics := record_dispatch_attempt d (metrics s)\<rparr>) = (x, t)"
    by (cases "call_adapter (watch default_adapter_for) d (attempt_name ''eff_000001'' 1)
      (s\<lparr>metrics := record_dispatch_attempt d (metrics s)\<rparr>)")
  from default_called [OF x] d x show ?thesis by (auto simp: advance_job_def and_then_def run_simps)
qed

lemma lone_worker_calls:
  assumes "lone (\<lambda>j l. j = Claiming \<and> l = demo_store UNSAFE) [] m"
  shows "snd (fleet_target (run_members (memory_ops key) [0, 0, 0, 0] m)) = [(''eff_000001'', attempt_name ''eff_000001'' 1)]"
proof -
  have 1: "lone claimed_demo [] (member_turn (memory_ops key) 0 m)" by (rule lone_turn [OF assms]) (use demo_claimed in metis)
  have 2: "lone moved_demo [] (member_turn (memory_ops key) 0 (member_turn (memory_ops key) 0 m))"
    by (rule lone_turn [OF 1]) (use demo_moved in metis)
  note 3 = lone_turn [OF 2, of "memory_ops key" tried_demo "[]"]
  have 3: "lone tried_demo [] (member_turn (memory_ops key) 0 (member_turn (memory_ops key) 0 (member_turn (memory_ops key) 0 m)))"
    by (rule 3) (use demo_tried in metis)
  have "lone (\<lambda>j l. True) [(''eff_000001'', attempt_name ''eff_000001'' 1)] (run_members (memory_ops key) [0, 0, 0, 0] m)"
    unfolding run_members_simps by (rule lone_turn [OF 3]) (use demo_called in fastforce)
  then show ?thesis by (simp add: lone_def)
qed

section \<open>Attempts\<close>

text \<open>
  C1. However many workers and recoveries run at the same time, and however their calls, crashes and the
  calls of the API interleave, an unsafe effect has at most one attempt in the ledger and its adapter is
  called at most once. So it is in the in-memory ledger, in SQLite and in Postgres.
\<close>

theorem fleet_unsafe_once:
  assumes "sound_registry reg"
    and "fleet_run (memory_ops key) reg (new_fleet empty_store w) m"
    and "mem_look (fleet_ledger m) i = Some r" and "safety (contract r) = UNSAFE"
    and "fleet_run (sqlite_ops key) reg (new_fleet empty_db w') m'"
    and "sql_look (fleet_ledger m') i' = Some r'" and "safety (contract r') = UNSAFE"
    and "fleet_run (pg_ops drv key) reg (new_fleet empty_pg w'') m''"
    and "pg_look (fleet_ledger m'') i'' = Some r''" and "safety (contract r'') = UNSAFE"
  shows "mem_tries (fleet_ledger m) i \<le> 1 \<and> calls_for i m \<le> 1
    \<and> sql_attempt_count i' (fleet_ledger m') \<le> 1 \<and> calls_for i' m' \<le> 1
    \<and> pg_tries (fleet_ledger m'') i'' \<le> 1 \<and> calls_for i'' m'' \<le> 1"
  using mem_fleet(1) [OF assms(2,1,3,4)] sql_fleet(1) [OF assms(5,1,6,7)] pg_fleet(1) [OF assms(8,1,9,10)] by blast

theorem fleet_unsafe_once_witness:
  "\<exists>m m' m''. fleet_run (memory_ops demo_keys) demo_reg (new_fleet empty_store (sim_init 0)) m
     \<and> fleet_run (sqlite_ops demo_keys) demo_reg (new_fleet empty_db (sim_init 0)) m'
     \<and> fleet_run (pg_ops easy_driver demo_keys) demo_reg (new_fleet empty_pg (sim_init 0)) m''
     \<and> length (members m) = 3 \<and> mem_tries (fleet_ledger m) ''eff_000001'' \<le> 1 \<and> calls_for ''eff_000001'' m \<le> 1
     \<and> sql_attempt_count ''eff_u'' (fleet_ledger m') \<le> 1 \<and> pg_tries (fleet_ledger m'') ''eff_u'' \<le> 1"
proof -
  obtain m where m: "fleet_run (memory_ops demo_keys) demo_reg (new_fleet empty_store (sim_init 0)) m" "members m = []"
    "mem_look (fleet_ledger m) ''eff_000001'' = Some (demo_record UNSAFE)" by (rule mem_submitted_fleet)
  let ?m = "run_members (memory_ops demo_keys) [0, 1, 2, 1, 0, 2, 0, 1, 1, 0] (crew m)"
  have later: "fleet_run (memory_ops demo_keys) demo_reg m ?m" by (intro run_members_run crew_run fleet_run.formed)
  from mem_fleet(3) [OF m(1) later demo_reg_sound m(3)] obtain r where
    r: "mem_look (fleet_ledger ?m) ''eff_000001'' = Some r" "later (demo_record UNSAFE) r" by blast
  have whole: "fleet_run (memory_ops demo_keys) demo_reg (new_fleet empty_store (sim_init 0)) ?m"
    by (intro run_members_run crew_run m)
  have unsafe: "safety (contract r) = UNSAFE" using r(2) by (simp add: later_def same_pins_def)
  obtain m' where m': "fleet_run (sqlite_ops demo_keys) demo_reg (new_fleet empty_db (sim_init 0)) m'"
    "sql_look (fleet_ledger m') ''eff_u'' = Some (sql_saved (sqlite_record UNSAFE))" by (rule sql_submitted_fleet)
  have "safety (contract (sql_saved (sqlite_record UNSAFE))) = UNSAFE"
    by (simp add: sql.saved_fields sql.pin_fields) (simp add: sqlite_record_def)
  moreover obtain m'' r'' where m'': "fleet_run (pg_ops easy_driver demo_keys) demo_reg (new_fleet empty_pg (sim_init 0)) m''"
    "pg_look (fleet_ledger m'') ''eff_u'' = Some r''" "safety (contract r'') = UNSAFE" by (rule pg_submitted_fleet)
  ultimately show ?thesis
    using fleet_unsafe_once [OF demo_reg_sound whole r(1) unsafe m'(1,2) _ m''] whole m' m(2)
    by (intro exI [of _ ?m] exI [of _ m'] exI [of _ m'']) simp
qed

text \<open>
  C2. Whatever the interleaving, an adapter is only called under an attempt the ledger already holds, and no
  attempt is called twice: the calls that reach the target are distinct attempts of their effects, numbered
  no higher than the attempts written.
\<close>

theorem fleet_calls_recorded:
  assumes "sound_registry reg"
    and "fleet_run (memory_ops key) reg (new_fleet empty_store w) m"
    and "fleet_run (sqlite_ops key) reg (new_fleet empty_db w') m'"
    and "fleet_run (pg_ops drv key) reg (new_fleet empty_pg w'') m''"
  shows "distinct (snd (fleet_target m)) \<and> (\<forall>(i, aid) \<in> set (snd (fleet_target m)).
      \<exists>n. aid = attempt_name i n \<and> 1 \<le> n \<and> n \<le> mem_tries (fleet_ledger m) i)
    \<and> distinct (snd (fleet_target m')) \<and> (\<forall>(i, aid) \<in> set (snd (fleet_target m')).
      \<exists>n. aid = attempt_name i n \<and> 1 \<le> n \<and> n \<le> sql_attempt_count i (fleet_ledger m'))
    \<and> distinct (snd (fleet_target m'')) \<and> (\<forall>(i, aid) \<in> set (snd (fleet_target m'')).
      \<exists>n. aid = attempt_name i n \<and> 1 \<le> n \<and> n \<le> pg_tries (fleet_ledger m'') i)"
  using mem_fleet(2) [OF assms(2,1)] sql_fleet(2) [OF assms(3,1)] pg_fleet(2) [OF assms(4,1)] by blast

text \<open>The worker above, and what its call left in the log.\<close>

theorem fleet_calls_recorded_witness:
  "\<exists>m. fleet_run (memory_ops demo_keys) demo_reg (new_fleet empty_store (sim_init 0)) m
     \<and> snd (fleet_target m) = [(''eff_000001'', attempt_name ''eff_000001'' 1)]
     \<and> (\<exists>n. attempt_name ''eff_000001'' 1 = attempt_name ''eff_000001'' n \<and> 1 \<le> n
       \<and> n \<le> mem_tries (fleet_ledger m) ''eff_000001'')"
proof -
  obtain m where m: "fleet_run (memory_ops demo_keys) demo_reg (new_fleet empty_store (sim_init 0)) m" "members m = []"
    "fleet_ledger m = demo_store UNSAFE" "snd (fleet_target m) = []" by (rule mem_submitted_fleet)
  let ?w = "recruit (Working ''w1'' (seconds 200) (seconds 30) 10 Claiming) default_adapter_for (\<lambda>n. demo_env) m"
  let ?m = "run_members (memory_ops demo_keys) [0, 0, 0, 0] ?w"
  have "lone (\<lambda>j l. j = Claiming \<and> l = demo_store UNSAFE) [] ?w" using m by (simp add: lone_def recruit_def)
  from lone_worker_calls [OF this] have log: "snd (fleet_target ?m) = [(''eff_000001'', attempt_name ''eff_000001'' 1)]" .
  have run: "fleet_run (memory_ops demo_keys) demo_reg (new_fleet empty_store (sim_init 0)) ?m"
    by (intro run_members_run fleet_run.hired m)
  obtain m' where m': "fleet_run (sqlite_ops demo_keys) demo_reg (new_fleet empty_db (sim_init 0)) m'"
    by (rule sql_submitted_fleet)
  obtain m'' r where m'': "fleet_run (pg_ops easy_driver demo_keys) demo_reg (new_fleet empty_pg (sim_init 0)) m''"
    by (rule pg_submitted_fleet)
  from fleet_calls_recorded [OF demo_reg_sound run m' m''] have "\<forall>(i, aid) \<in> set (snd (fleet_target ?m)).
      \<exists>n. aid = attempt_name i n \<and> 1 \<le> n \<and> n \<le> mem_tries (fleet_ledger ?m) i" by blast
  with run log show ?thesis by (intro exI [of _ ?m]) (simp del: run_members_simps)
qed

section \<open>Records\<close>

text \<open>
  C3. While any number of workers and recoveries run, an effect keeps its identity, request, hash,
  downstream key, pinned contract and creation time; its record changes only with a higher version, its
  status moves along the transition graph, and a terminal record never changes again.
\<close>

theorem fleet_effects_pinned:
  assumes "sound_registry reg"
    and "fleet_run (memory_ops key) reg (new_fleet empty_store w) m" and "fleet_run (memory_ops key) reg m n"
    and "mem_look (fleet_ledger m) i = Some r"
    and "fleet_run (sqlite_ops key) reg (new_fleet empty_db w') m'" and "fleet_run (sqlite_ops key) reg m' n'"
    and "sql_look (fleet_ledger m') i' = Some r'"
    and "fleet_run (pg_ops drv key) reg (new_fleet empty_pg w'') m''" and "fleet_run (pg_ops drv key) reg m'' n''"
    and "pg_look (fleet_ledger m'') i'' = Some r''"
  shows "\<forall>(now, before) \<in> {(mem_look (fleet_ledger n) i, r), (sql_look (fleet_ledger n') i', r'),
      (pg_look (fleet_ledger n'') i'', r'')}.
    \<exists>after. now = Some after \<and> same_pins before after \<and> (after = before \<or> version before < version after)
      \<and> moves (status before) (status after) \<and> (is_terminal (status before) \<longrightarrow> after = before)"
  using mem_fleet(3) [OF assms(2,3,1,4)] sql_fleet(3) [OF assms(5,6,1,7)] pg_fleet(3) [OF assms(8,9,1,10)]
  by (auto simp: later_def)

theorem fleet_effects_pinned_witness:
  "\<exists>m n r. fleet_run (memory_ops demo_keys) demo_reg (new_fleet empty_store (sim_init 0)) m
     \<and> fleet_run (memory_ops demo_keys) demo_reg m n \<and> length (members n) = 3
     \<and> mem_look (fleet_ledger n) ''eff_000001'' = Some r \<and> same_pins (demo_record UNSAFE) r"
proof -
  obtain m where m: "fleet_run (memory_ops demo_keys) demo_reg (new_fleet empty_store (sim_init 0)) m" "members m = []"
    "mem_look (fleet_ledger m) ''eff_000001'' = Some (demo_record UNSAFE)" by (rule mem_submitted_fleet)
  let ?n = "run_members (memory_ops demo_keys) [0, 1, 2, 1, 0, 2, 0, 1, 1, 0] (crew m)"
  have n: "fleet_run (memory_ops demo_keys) demo_reg m ?n" by (intro run_members_run crew_run fleet_run.formed)
  obtain m' where m': "fleet_run (sqlite_ops demo_keys) demo_reg (new_fleet empty_db (sim_init 0)) m'"
    "sql_look (fleet_ledger m') ''eff_u'' = Some (sql_saved (sqlite_record UNSAFE))" by (rule sql_submitted_fleet)
  obtain m'' r'' where m'': "fleet_run (pg_ops easy_driver demo_keys) demo_reg (new_fleet empty_pg (sim_init 0)) m''"
    "pg_look (fleet_ledger m'') ''eff_u'' = Some r''" by (rule pg_submitted_fleet)
  from fleet_effects_pinned [OF demo_reg_sound m(1) n m(3) m'(1) fleet_run.formed m'(2) m''(1) fleet_run.formed m''(2)]
  obtain r where "mem_look (fleet_ledger ?n) ''eff_000001'' = Some r" "same_pins (demo_record UNSAFE) r" by auto
  with m n show ?thesis by (intro exI [of _ m] exI [of _ ?n] exI [of _ r]) simp
qed

section \<open>Operation keys\<close>

text \<open>Each ledger holds at most one effect of a tenant and an operation key.\<close>

definition same_key :: "effect_record \<Rightarrow> effect_record \<Rightarrow> bool" where
  "same_key r q \<longleftrightarrow> tenant_id r = tenant_id q \<and> operation_key (request r) = operation_key (request q)"

lemma mem_one_key:
  assumes "mem_ok s" and "mem_look s i = Some r" and "mem_look s j = Some q" and "same_key r q"
  shows "i = j"
  using mem_look_identity [OF assms(1,2)] mem_look_identity [OF assms(1,3)] assms(4) by (simp add: same_key_def)

lemma sql_one_key:
  assumes ok: "sql_ok s" and r: "sql_look s i = Some r" and q: "sql_look s j = Some q" and key: "same_key r q"
  shows "i = j"
proof -
  obtain row where row: "row \<in> set (effects_table s)" "row_id row = i" "row_to_record row = Inr r"
    by (rule sql_look_SomeE [OF r])
  obtain row' where row': "row' \<in> set (effects_table s)" "row_id row' = j" "row_to_record row' = Inr q"
    by (rule sql_look_SomeE [OF q])
  have "row_identity row = row_identity row'"
    using key row_to_record_Inr [OF row(3)] row_to_record_Inr [OF row'(3)] by (simp add: same_key_def row_identity_def)
  with ok row(1) row'(1) have "row = row'" by (auto simp: sql_ok_def distinct_map dest: inj_onD)
  with row(2) row'(2) show ?thesis by simp
qed

lemma pg_one_key:
  assumes ok: "pg_ok drv s" and r: "pg_look s i = Some r" and q: "pg_look s j = Some q" and key: "same_key r q"
  shows "i = j"
proof -
  obtain row where row: "row \<in> set (pg_intents s)" "in_id row = i" "intent_to_record row = Inr r"
    by (rule pg_look_SomeE [OF r])
  obtain row' where row': "row' \<in> set (pg_intents s)" "in_id row' = j" "intent_to_record row' = Inr q"
    by (rule pg_look_SomeE [OF q])
  have "in_identity row = in_identity row'"
    using key intent_to_record_Inr [OF row(3)] intent_to_record_Inr [OF row'(3)] by (simp add: same_key_def in_identity_def)
  with pg_ok_core [OF ok] row(1) row'(1) have "row = row'" by (auto simp: pg_core_def distinct_map dest: inj_onD)
  with row(2) row'(2) show ?thesis by simp
qed

text \<open>
  C4. A tenant and an operation key name at most one effect in each ledger, however many processes submit,
  work on, reconcile, cancel and resolve at the same time.
\<close>

theorem fleet_one_effect_per_key:
  assumes "sound_registry reg"
    and "fleet_run (memory_ops key) reg (new_fleet empty_store w) m" and "mem_look (fleet_ledger m) i = Some r"
    and "mem_look (fleet_ledger m) j = Some q" and "same_key r q"
    and "fleet_run (sqlite_ops key) reg (new_fleet empty_db w') m'" and "sql_look (fleet_ledger m') i' = Some r'"
    and "sql_look (fleet_ledger m') j' = Some q'" and "same_key r' q'"
    and "fleet_run (pg_ops drv key) reg (new_fleet empty_pg w'') m''" and "pg_look (fleet_ledger m'') i'' = Some r''"
    and "pg_look (fleet_ledger m'') j'' = Some q''" and "same_key r'' q''"
  shows "i = j \<and> i' = j' \<and> i'' = j''"
proof -
  have "mem_ok (fleet_ledger m)" using mem_fleet(2) [OF assms(2,1)] ..
  moreover have "sql_ok (fleet_ledger m')" using sql_fleet(2) [OF assms(6,1)] ..
  moreover have "pg_ok drv (fleet_ledger m'')" using pg_fleet(2) [OF assms(10,1)] ..
  ultimately show ?thesis
    using mem_one_key [OF _ assms(3-5)] sql_one_key [OF _ assms(7-9)] pg_one_key [OF _ assms(11-13)] by blast
qed

theorem fleet_one_effect_per_key_witness:
  "\<exists>m. fleet_run (memory_ops demo_keys) demo_reg (new_fleet empty_store (sim_init 0)) m \<and> length (members m) = 3
    \<and> (\<exists>r. mem_look (fleet_ledger m) ''eff_000001'' = Some r
       \<and> (\<forall>j q. mem_look (fleet_ledger m) j = Some q \<longrightarrow> same_key r q \<longrightarrow> j = ''eff_000001''))"
proof -
  obtain m where m: "fleet_run (memory_ops demo_keys) demo_reg (new_fleet empty_store (sim_init 0)) m" "members m = []"
    "mem_look (fleet_ledger m) ''eff_000001'' = Some (demo_record UNSAFE)" by (rule mem_submitted_fleet)
  let ?n = "run_members (memory_ops demo_keys) [0, 1, 2, 1, 0, 2, 0, 1, 1, 0] (crew m)"
  have n: "fleet_run (memory_ops demo_keys) demo_reg m ?n" by (intro run_members_run crew_run fleet_run.formed)
  have whole: "fleet_run (memory_ops demo_keys) demo_reg (new_fleet empty_store (sim_init 0)) ?n"
    by (intro run_members_run crew_run m)
  from mem_fleet(3) [OF m(1) n demo_reg_sound m(3)] obtain r where r: "mem_look (fleet_ledger ?n) ''eff_000001'' = Some r"
    by blast
  obtain m' where m': "fleet_run (sqlite_ops demo_keys) demo_reg (new_fleet empty_db (sim_init 0)) m'"
    "sql_look (fleet_ledger m') ''eff_u'' = Some (sql_saved (sqlite_record UNSAFE))" by (rule sql_submitted_fleet)
  obtain m'' r'' where m'': "fleet_run (pg_ops easy_driver demo_keys) demo_reg (new_fleet empty_pg (sim_init 0)) m''"
    "pg_look (fleet_ledger m'') ''eff_u'' = Some r''" by (rule pg_submitted_fleet)
  have same: "same_key x x" for x by (simp add: same_key_def)
  have one: "j = ''eff_000001''" if "mem_look (fleet_ledger ?n) j = Some q" "same_key r q" for j q
    using fleet_one_effect_per_key [OF demo_reg_sound whole r that m'(1,2,2) same m''(1,2,2) same] by simp
  have three: "length (members ?n) = 3" using m(2) by (simp del: run_members_simps)
  show ?thesis by (rule exI [of _ ?n]) (intro conjI whole three exI [of _ r] r allI impI, rule one)
qed

section \<open>Every process ends\<close>

text \<open>
  C23. A worker and a recovery end, by returning or by raising, after a number of their own steps that is
  known in advance (for a fresh worker five times its limit and two, for a fresh recovery five), whatever
  the other processes do in between and however many there are.
\<close>

theorem fleet_ends:
  assumes "sound_registry reg"
    and "fleet_run (memory_ops key) reg (new_fleet empty_store w) m" and "j < length (members m)"
    and "place_rank (places m ! j) \<le> count_list js j"
    and "fleet_run (sqlite_ops key) reg (new_fleet empty_db w') m'" and "j' < length (members m')"
    and "place_rank (places m' ! j') \<le> count_list js' j'"
    and "fleet_run (pg_ops drv key) reg (new_fleet empty_pg w'') m''" and "j'' < length (members m'')"
    and "place_rank (places m'' ! j'') \<le> count_list js'' j''"
  shows "finished (places (run_members (memory_ops key) js m) ! j)
    \<and> finished (places (run_members (sqlite_ops key) js' m') ! j')
    \<and> finished (places (run_members (pg_ops drv key) js'' m'') ! j'')"
  using mem_fleet(4) [OF assms(2,1,3,4)] sql_fleet(4) [OF assms(5,1,6,7)] pg_fleet(4) [OF assms(8,1,9,10)] by blast

text \<open>Fifty-two turns for each of the workers and the recovery, in turn.\<close>

theorem fleet_ends_witness:
  "\<exists>m m' m''. finished (places (run_members (memory_ops demo_keys) (concat (replicate 52 [0, 1, 2])) (crew m)) ! 0)
    \<and> finished (places (run_members (sqlite_ops demo_keys) (concat (replicate 52 [0, 1, 2])) (crew m')) ! 2)
    \<and> finished (places (run_members (pg_ops easy_driver demo_keys) (concat (replicate 52 [0, 1, 2])) (crew m'')) ! 0)
    \<and> mem_look (fleet_ledger m) ''eff_000001'' = Some (demo_record UNSAFE)"
proof -
  obtain m where m: "fleet_run (memory_ops demo_keys) demo_reg (new_fleet empty_store (sim_init 0)) m" "members m = []"
    "mem_look (fleet_ledger m) ''eff_000001'' = Some (demo_record UNSAFE)" by (rule mem_submitted_fleet)
  obtain m' where m': "fleet_run (sqlite_ops demo_keys) demo_reg (new_fleet empty_db (sim_init 0)) m'" "members m' = []"
    by (rule sql_submitted_fleet)
  obtain m'' r where m'': "fleet_run (pg_ops easy_driver demo_keys) demo_reg (new_fleet empty_pg (sim_init 0)) m''"
    "members m'' = []" by (rule pg_submitted_fleet)
  have turns: "count_list (concat (replicate 52 [0, 1, 2 :: nat])) 0 = 52"
    "count_list (concat (replicate 52 [0, 1, 2 :: nat])) 2 = 52" by (simp_all add: numeral_eq_Suc)
  show ?thesis
    by (rule exI [of _ m], rule exI [of _ m'], rule exI [of _ m''])
      (use fleet_ends [OF demo_reg_sound crew_run [OF m(1)] _ _ crew_run [OF m'(1)] _ _ crew_run [OF m''(1)],
          of 0 "concat (replicate 52 [0, 1, 2])" 2 "concat (replicate 52 [0, 1, 2])" 0 "concat (replicate 52 [0, 1, 2])"]
        turns m m' m'' in \<open>simp del: concat.simps replicate.simps\<close>)
qed

section \<open>The steps are the code\<close>

text \<open>
  Without interruption the steps of the model are the code: those of a worker compute \<open>dispatch_once\<close>
  and those of a recovery \<open>recover_one\<close>, result or exception, ledger, target, clock and metrics.
\<close>

theorem steps_are_the_code:
  assumes "dispatch_once ops adapters w now lf lim s = (x, t)" and "recover_one ops adapters tenant eid s = (y, u)"
  shows "(\<exists>n. ((\<lambda>(j, v). advance_job ops adapters w now lf lim j v) ^^ n) (Claiming, s) = (Over x, t))
    \<and> ((\<lambda>(st, v). advance_stage ops adapters tenant eid st v) ^^ 5) (Opening, s) = (Ended y, u)"
  using job_steps_whole [OF assms(1)] stages_whole [OF assms(2)] by blast

theorem steps_are_the_code_witness:
  "\<exists>x t y u. (\<exists>n. ((\<lambda>(j, v). advance_job (memory_ops demo_keys) default_adapter_for ''w'' 200 30 10 j v) ^^ n)
      (Claiming, demo_world (demo_store UNSAFE)) = (Over x, t))
    \<and> ((\<lambda>(st, v). advance_stage (memory_ops demo_keys) default_adapter_for ''acme'' ''eff_000001'' st v) ^^ 5)
      (Opening, demo_world (demo_store UNSAFE)) = (Ended y, u)"
  using steps_are_the_code [OF prod.collapse [symmetric] prod.collapse [symmetric]] by blast

end
