(* ===== verification/Contract_Config.thy ===== *)
theory Contract_Config
  imports Contracts Durations
begin

text \<open>
  Contracts from configuration (\<open>contract_from_mapping\<close>, \<open>ContractRegistry.from_mapping\<close> and
  \<open>load_contracts\<close>). The decoded YAML document is a Python value and the code converts its entries with
  \<open>str\<close>, \<open>int\<close> and \<open>float\<close>; these conversions are written out on every kind of value. The file system
  and the YAML library are an argument: for a path that exists, the decoded document or the exception of reading it.
\<close>

section \<open>Conversions of Python values\<close>

text \<open>Underscores between digits are dropped, others are refused.\<close>

fun drop_underscores :: "bool \<Rightarrow> string \<Rightarrow> string option" where
  "drop_underscores after_digit [] = Some []"
| "drop_underscores after_digit (c # cs) =
     (if c = CHR ''_'' then
        (if after_digit \<and> cs \<noteq> [] \<and> is_digit (hd cs) then drop_underscores False cs else None)
      else map_option (\<lambda>ds. c # ds) (drop_underscores (is_digit c) cs))"

definition split_at :: "(char \<Rightarrow> bool) \<Rightarrow> string \<Rightarrow> string \<times> string option" where
  "split_at p cs = (takeWhile (\<lambda>c. \<not> p c) cs,
     case dropWhile (\<lambda>c. \<not> p c) cs of [] \<Rightarrow> None | _ # r \<Rightarrow> Some r)"

text \<open>The leading sign, and whether it is a minus.\<close>

definition take_sign :: "string \<Rightarrow> bool \<times> string" where
  "take_sign cs = (if cs \<noteq> [] \<and> hd cs = CHR ''-'' then (True, tl cs)
     else if cs \<noteq> [] \<and> hd cs = CHR ''+'' then (False, tl cs) else (False, cs))"

text \<open>A decimal literal as a fraction; \<open>None\<close> if the text is not one.\<close>

definition decimal :: "string \<Rightarrow> (int \<times> int) option" where
  "decimal cs =
     (case take_sign cs of (neg, body) \<Rightarrow>
      case split_at (\<lambda>c. c = CHR ''e'' \<or> c = CHR ''E'') body of (mantissa, ex) \<Rightarrow>
      case split_at (\<lambda>c. c = CHR ''.'') mantissa of (whole, frac) \<Rightarrow>
        let fs = (case frac of None \<Rightarrow> [] | Some f \<Rightarrow> f);
            ds = whole @ fs;
            n = int (digits_val ds) * (if neg then - 1 else 1)
        in if ds = [] \<or> \<not> list_all is_digit ds then None
           else (case ex of
               None \<Rightarrow> Some (n, 10 ^ length fs)
             | Some e \<Rightarrow> (case take_sign e of (eneg, es) \<Rightarrow>
                 if es = [] \<or> \<not> list_all is_digit es then None
                 else if eneg then Some (n, 10 ^ (length fs + digits_val es))
                 else Some (n * 10 ^ digits_val es, 10 ^ length fs))))"

definition lower_char :: "char \<Rightarrow> char" where
  "lower_char c = (let n = of_char c :: nat in if 65 \<le> n \<and> n \<le> 90 then char_of (n + 32) else c)"

datatype fvalue = FNumber dyadic | FInfinite | FNan

definition value_error :: error where "value_error = PyError ''ValueError''"
definition type_error :: error where "type_error = PyError ''TypeError''"
definition overflow_error :: error where "overflow_error = PyError ''OverflowError''"

definition float_of_text :: "string \<Rightarrow> error + fvalue" where
  "float_of_text text_value = (let cs = strip text_value; word = map lower_char (snd (take_sign cs)) in
     if word = ''nan'' then Inr FNan
     else if word = ''inf'' \<or> word = ''infinity'' then Inr FInfinite
     else case drop_underscores False cs of
       None \<Rightarrow> Inl value_error
     | Some ds \<Rightarrow> (case decimal ds of None \<Rightarrow> Inl value_error | Some (n, d) \<Rightarrow> Inr (FNumber (nearest n d))))"

text \<open>\<open>bytes\<close> are read as ASCII text, without the separators that only text has as white space.\<close>

definition ascii_text :: "byte list \<Rightarrow> string option" where
  "ascii_text bs = (if list_all (\<lambda>b. unat b < 128 \<and> (unat b < 28 \<or> 31 < unat b)) bs
     then Some (map (\<lambda>b. char_of (unat b)) bs) else None)"

definition py_float :: "pyval \<Rightarrow> error + fvalue" where
  "py_float v = (case v of
     VInt n \<Rightarrow> Inr (FNumber (nearest n 1))
   | VBool b \<Rightarrow> Inr (FNumber (if b then 1 else 0, 0))
   | VFloat (Finite t) \<Rightarrow> float_of_text t
   | VFloat NaN \<Rightarrow> Inr FNan
   | VFloat _ \<Rightarrow> Inr FInfinite
   | VStr s \<Rightarrow> float_of_text s
   | VBytes bs \<Rightarrow> (case ascii_text bs of None \<Rightarrow> Inl value_error | Some s \<Rightarrow> float_of_text s)
   | _ \<Rightarrow> Inl type_error)"

definition int_of_text :: "string \<Rightarrow> error + int" where
  "int_of_text s = (case py_int s of None \<Rightarrow> Inl value_error | Some i \<Rightarrow> Inr i)"

definition truncated :: "fvalue \<Rightarrow> error + int" where
  "truncated x = (case x of
     FNumber (m, k) \<Rightarrow> Inr (sgn m * (\<bar>m\<bar> div 2 ^ k))
   | FInfinite \<Rightarrow> Inl overflow_error
   | FNan \<Rightarrow> Inl value_error)"

definition py_int_of :: "pyval \<Rightarrow> error + int" where
  "py_int_of v = (case v of
     VInt n \<Rightarrow> Inr n
   | VBool b \<Rightarrow> Inr (if b then 1 else 0)
   | VFloat f \<Rightarrow> (case py_float v of Inl x \<Rightarrow> Inl x | Inr x \<Rightarrow> truncated x)
   | VStr s \<Rightarrow> int_of_text s
   | VBytes bs \<Rightarrow> (case ascii_text bs of None \<Rightarrow> Inl value_error | Some s \<Rightarrow> int_of_text s)
   | _ \<Rightarrow> Inl type_error)"

text \<open>
  \<open>str(v)\<close> of a YAML scalar; \<open>shown\<close> is \<open>str\<close> of the containers and objects, which no sensible
  version is.
\<close>

definition py_str :: "(pyval \<Rightarrow> string) \<Rightarrow> pyval \<Rightarrow> string" where
  "py_str shown v = (case v of
     VStr s \<Rightarrow> s
   | VInt n \<Rightarrow> int_text n
   | VBool b \<Rightarrow> (if b then ''True'' else ''False'')
   | VNone \<Rightarrow> ''None''
   | VFloat (Finite t) \<Rightarrow> t
   | VFloat NaN \<Rightarrow> ''nan''
   | VFloat Infinity \<Rightarrow> ''inf''
   | VFloat NegInfinity \<Rightarrow> ''-inf''
   | _ \<Rightarrow> shown v)"

section \<open>One contract\<close>

text \<open>\<open>timedelta(seconds=x)\<close>: at most 999999999 days either way.\<close>

definition timedelta_seconds :: "fvalue \<Rightarrow> error + timedelta" where
  "timedelta_seconds x = (case x of
     FNumber d \<Rightarrow> (let t = timedelta_of_seconds d; days = t div 86400000000 in
       if \<bar>days\<bar> \<le> 999999999 then Inr t else Inl overflow_error)
   | FInfinite \<Rightarrow> Inl overflow_error
   | FNan \<Rightarrow> Inl value_error)"

definition config_duration :: "json_object \<Rightarrow> string \<Rightarrow> error + timedelta option" where
  "config_duration data field = (case dict_get data field of
     None \<Rightarrow> Inr None
   | Some VNone \<Rightarrow> Inr None
   | Some v \<Rightarrow> (case py_float v of
       Inl x \<Rightarrow> Inl x
     | Inr f \<Rightarrow> (case timedelta_seconds f of Inl x \<Rightarrow> Inl x | Inr t \<Rightarrow> Inr (Some t))))"

definition safety_of_value :: "pyval \<Rightarrow> safety_class option" where
  "safety_of_value v = (case v of VStr t \<Rightarrow> safety_of t | _ \<Rightarrow> None)"

definition contract_from_mapping :: "(pyval \<Rightarrow> string) \<Rightarrow> string \<Rightarrow> pyval \<Rightarrow> error + effect_contract" where
  "contract_from_mapping shown name v = (case v of
     VDict data \<Rightarrow>
       (case Option.bind (dict_get data ''safety'') safety_of_value of
          None \<Rightarrow> Inl (ContractError name BadSafety)
        | Some sc \<Rightarrow>
          let ver = (case dict_get data ''version'' of None \<Rightarrow> ''v1'' | Some x \<Rightarrow> py_str shown x)
          in case py_int_of (case dict_get data ''retry_limit'' of None \<Rightarrow> VInt 0 | Some x \<Rightarrow> x) of
               Inl x \<Rightarrow> Inl x
             | Inr limit \<Rightarrow>
               (case config_duration data ''key_retention_seconds'' of
                  Inl x \<Rightarrow> Inl x
                | Inr retention \<Rightarrow>
                  (case config_duration data ''settlement_bound_seconds'' of
                     Inl x \<Rightarrow> Inl x
                   | Inr bound \<Rightarrow> validate_contract
                       \<lparr>contract_name = name, contract_version = ver, safety = sc, retry_limit = limit,
                        key_retention = retention, settlement_bound = bound\<rparr>)))
   | _ \<Rightarrow> Inl type_error)"

section \<open>The registry\<close>

fun from_mapping :: "(pyval \<Rightarrow> string) \<Rightarrow> (string \<times> pyval) list \<Rightarrow> error + registry" where
  "from_mapping shown [] = Inr []"
| "from_mapping shown ((name, spec) # items) = (case contract_from_mapping shown name spec of
     Inl x \<Rightarrow> Inl x
   | Inr c \<Rightarrow> (case from_mapping shown items of Inl x \<Rightarrow> Inl x | Inr reg \<Rightarrow> Inr ((name, c) # reg)))"

text \<open>
  \<open>ContractRegistry.from_yaml\<close> on a decoded document: \<open>... or {}\<close>, then its \<open>tools\<close>, then \<open>items()\<close>. A key that
  is no text stands for its \<open>str\<close>.
\<close>

definition py_falsy :: "pyval \<Rightarrow> bool" where
  "py_falsy v \<longleftrightarrow> v \<in> {VNone, VBool False, VInt 0, VFloat (Finite ''0.0''), VFloat (Finite ''-0.0''), VStr [],
     VBytes [], VList [], VTuple [], VDict []}"

definition document_tools :: "(pyval \<Rightarrow> string) \<Rightarrow> pyval \<Rightarrow> error + (string \<times> pyval) list" where
  "document_tools shown doc = (case (if py_falsy doc then VDict [] else doc) of
     VDict raw \<Rightarrow> (case (case dict_get raw ''tools'' of None \<Rightarrow> VDict raw | Some v \<Rightarrow> v) of
       VDict items \<Rightarrow> Inr (map (\<lambda>(k, v). (py_str shown k, v)) items)
     | _ \<Rightarrow> Inl (PyError ''AttributeError''))
   | _ \<Rightarrow> Inl (PyError ''AttributeError''))"

definition from_yaml :: "(pyval \<Rightarrow> string) \<Rightarrow> error + pyval \<Rightarrow> error + registry" where
  "from_yaml shown loaded = (case loaded of
     Inl x \<Rightarrow> Inl x
   | Inr doc \<Rightarrow> (case document_tools shown doc of Inl x \<Rightarrow> Inl x | Inr tools \<Rightarrow> from_mapping shown tools))"

definition load_contracts :: "(pyval \<Rightarrow> string) \<Rightarrow> (string \<Rightarrow> (error + pyval) option) \<Rightarrow> string
    \<Rightarrow> error + registry" where
  "load_contracts shown files path = (case files path of None \<Rightarrow> Inr [] | Some loaded \<Rightarrow> from_yaml shown loaded)"

section \<open>What a loaded registry promises\<close>

lemma contract_from_mapping_Inr:
  assumes "contract_from_mapping shown name v = Inr c"
  obtains data where "v = VDict data" "contract_name c = name" "sound_contract c"
    "dict_get data ''safety'' = Some (VStr (safety_value (safety c)))"
    "py_int_of (case dict_get data ''retry_limit'' of None \<Rightarrow> VInt 0 | Some x \<Rightarrow> x) = Inr (retry_limit c)"
    "config_duration data ''key_retention_seconds'' = Inr (key_retention c)"
    "config_duration data ''settlement_bound_seconds'' = Inr (settlement_bound c)"
proof -
  obtain data where data: "v = VDict data" using assms by (cases v) (simp_all add: contract_from_mapping_def)
  obtain sc where sc: "Option.bind (dict_get data ''safety'') safety_of_value = Some sc"
    using assms by (cases "Option.bind (dict_get data ''safety'') safety_of_value")
      (simp_all add: contract_from_mapping_def data)
  obtain limit where limit: "py_int_of (case dict_get data ''retry_limit'' of None \<Rightarrow> VInt 0 | Some x \<Rightarrow> x) = Inr limit"
    using assms by (cases "py_int_of (case dict_get data ''retry_limit'' of None \<Rightarrow> VInt 0 | Some x \<Rightarrow> x)")
      (simp_all add: contract_from_mapping_def data sc)
  obtain retention where retention: "config_duration data ''key_retention_seconds'' = Inr retention"
    using assms by (cases "config_duration data ''key_retention_seconds''")
      (simp_all add: contract_from_mapping_def data sc limit)
  obtain bound where bound: "config_duration data ''settlement_bound_seconds'' = Inr bound"
    using assms by (cases "config_duration data ''settlement_bound_seconds''")
      (simp_all add: contract_from_mapping_def data sc limit retention)
  let ?ver = "case dict_get data ''version'' of None \<Rightarrow> ''v1'' | Some x \<Rightarrow> py_str shown x"
  let ?c = "\<lparr>contract_name = name, contract_version = ?ver, safety = sc, retry_limit = limit,
    key_retention = retention, settlement_bound = bound\<rparr>"
  have "validate_contract ?c = Inr c"
    using assms by (simp add: contract_from_mapping_def data sc limit retention bound Let_def)
  then have c: "c = ?c" "sound_contract ?c" by (simp_all add: validate_contract_sound)
  from sc obtain x where x: "dict_get data ''safety'' = Some x" "safety_of_value x = Some sc"
    by (auto simp: bind_eq_Some_conv)
  from x(2) obtain t where t: "x = VStr t" "safety_of t = Some sc" by (cases x) (simp_all add: safety_of_value_def)
  from t(2) have "t = safety_value sc" by (auto simp: safety_of_def split: if_splits)
  with that [OF data] c x(1) t(1) limit retention bound show thesis by simp
qed

lemma from_mapping_sound: "from_mapping shown items = Inr reg \<Longrightarrow> sound_registry reg \<and> map fst reg = map fst items"
proof (induction shown items arbitrary: reg rule: from_mapping.induct)
  case (2 shown name spec items)
  then obtain c reg' where c: "contract_from_mapping shown name spec = Inr c" "from_mapping shown items = Inr reg'"
    "reg = (name, c) # reg'" by (auto split: sum.splits)
  from contract_from_mapping_Inr [OF c(1)] have "sound_contract c" .
  with 2(1) [OF c(1,2)] c(3) show ?case by (simp add: sound_registry_def)
qed (simp add: sound_registry_def)

lemma load_contracts_Inr:
  assumes "load_contracts shown files path = Inr reg"
  obtains "files path = None" "reg = []"
  | doc tools where "files path = Some (Inr doc)" "document_tools shown doc = Inr tools" "from_mapping shown tools = Inr reg"
  using assms by (auto simp: load_contracts_def from_yaml_def split: option.splits sum.splits)

lemma load_contracts_sound: "load_contracts shown files path = Inr reg \<Longrightarrow> sound_registry reg"
  by (elim load_contracts_Inr) (simp_all add: sound_registry_def from_mapping_sound [unfolded sound_registry_def])

end
