(* ===== verification/Auth.thy ===== *)
theory Auth
  imports Contract_Config Store_Api
begin

text \<open>
  Process configuration and authentication (\<open>config.py\<close>, \<open>auth.py\<close>). \<open>settings\<close> are the fields of
  \<open>Settings\<close>, already read from the environment. Raw API keys are hashed at once; the tenant of a request
  is looked up by the hash of its key and never taken from the request.
\<close>

section \<open>Settings\<close>

datatype store_kind = MemoryKind | SqliteKind | PostgresKind

fun store_kind_value :: "store_kind \<Rightarrow> string" where
  "store_kind_value MemoryKind = ''memory''"
| "store_kind_value SqliteKind = ''sqlite''"
| "store_kind_value PostgresKind = ''postgres''"

record settings =
  broker_secret_hex :: "string option"
  broker_secret_base64 :: "string option"
  store_kind_of :: store_kind
  sqlite_path :: string
  postgres_dsn :: "string option"
  contracts_path :: string
  api_key_hashes :: "(string \<times> string) list"
  dev_api_key_enabled :: bool
  dev_api_key :: string
  dev_tenant_id :: string
  adapter_factory :: "string option"

definition default_settings :: settings where
  "default_settings = \<lparr>broker_secret_hex = None, broker_secret_base64 = None, store_kind_of = MemoryKind,
     sqlite_path = ''effect-broker.sqlite3'', postgres_dsn = None, contracts_path = ''contracts.yaml'',
     api_key_hashes = [], dev_api_key_enabled = True, dev_api_key = ''dev-effect-broker-key'',
     dev_tenant_id = ''tenant-dev'', adapter_factory = None\<rparr>"

definition dev_broker_secret :: "byte list" where
  "dev_broker_secret = utf8_encode ''effect-broker-dev-secret-do-not-use-in-production''"

text \<open>\<open>bytes.fromhex\<close>: two digits a byte, ASCII white space between bytes.\<close>

definition hex_digit :: "char \<Rightarrow> nat option" where
  "hex_digit c = (let n = of_char c :: nat in
     if is_digit c then Some (n - 48)
     else if 97 \<le> n \<and> n \<le> 102 then Some (n - 87)
     else if 65 \<le> n \<and> n \<le> 70 then Some (n - 55)
     else None)"

definition ascii_space :: "char \<Rightarrow> bool" where
  "ascii_space c \<longleftrightarrow> (of_char c :: nat) \<in> {9, 10, 11, 12, 13, 32}"

fun from_hex :: "string \<Rightarrow> byte list option" where
  "from_hex [] = Some []"
| "from_hex [c] = (if ascii_space c then Some [] else None)"
| "from_hex (c # d # cs) =
     (if ascii_space c then from_hex (d # cs)
      else case (hex_digit c, hex_digit d) of
        (Some h, Some l) \<Rightarrow> map_option (\<lambda>bs. of_nat (16 * h + l) # bs) (from_hex cs)
      | _ \<Rightarrow> None)"

definition is_ascii :: "string \<Rightarrow> bool" where
  "is_ascii s \<longleftrightarrow> (\<forall>c \<in> set s. (of_char c :: nat) < 128)"

text \<open>\<open>base64.b64decode(text, validate=True)\<close>: whole groups of the standard alphabet, padded at the end.\<close>

definition b64_standard :: string where
  "b64_standard = ''ABCDEFGHIJKLMNOPQRSTUVWXYZabcdefghijklmnopqrstuvwxyz0123456789+/''"

definition b64_val :: "char \<Rightarrow> nat option" where
  "b64_val c = (if c \<in> set b64_standard then Some (length (takeWhile (\<lambda>d. d \<noteq> c) b64_standard)) else None)"

fun b64_decode :: "string \<Rightarrow> byte list option" where
  "b64_decode [] = Some []"
| "b64_decode (a # b # c # d # cs) =
     (case (b64_val a, b64_val b, b64_val c, b64_val d) of
        (Some x, Some y, Some z, Some t) \<Rightarrow>
          (let n = ((x * 64 + y) * 64 + z) * 64 + t
           in map_option (\<lambda>bs. of_nat (n div 65536) # of_nat (n div 256) # of_nat n # bs) (b64_decode cs))
      | (Some x, Some y, Some z, None) \<Rightarrow>
          (if d = CHR ''='' \<and> cs = []
           then (let n = (x * 64 + y) * 64 + z in Some [of_nat (n div 1024), of_nat (n div 4)]) else None)
      | (Some x, Some y, None, None) \<Rightarrow>
          (if c = CHR ''='' \<and> d = CHR ''='' \<and> cs = [] then Some [of_nat ((x * 64 + y) div 16)] else None)
      | _ \<Rightarrow> None)"
| "b64_decode _ = None"

text \<open>\<open>broker_secret_bytes\<close>; the flag is the warning that the development secret is in use.\<close>

definition broker_secret_bytes :: "settings \<Rightarrow> error + byte list \<times> bool" where
  "broker_secret_bytes cfg =
     (if broker_secret_hex cfg \<notin> {None, Some []} then
        (case from_hex (the (broker_secret_hex cfg)) of
           None \<Rightarrow> Inl value_error | Some bs \<Rightarrow> Inr (bs, False))
      else if broker_secret_base64 cfg \<notin> {None, Some []} then
        (if \<not> is_ascii (the (broker_secret_base64 cfg)) then Inl value_error
         else case b64_decode (the (broker_secret_base64 cfg)) of
           None \<Rightarrow> Inl (PyError ''Error'') | Some bs \<Rightarrow> Inr (bs, False))
      else Inr (dev_broker_secret, True))"

text \<open>
  \<open>build_broker\<close> up to the choice of the store: the tenant keys, the contracts and the ledger to open,
  or the exception.
\<close>

datatype store_choice = UseMemory | UseSqlite string | UsePostgres string

definition build_broker :: "(pyval \<Rightarrow> string) \<Rightarrow> (string \<Rightarrow> (error + pyval) option) \<Rightarrow> settings
    \<Rightarrow> error + tenant_key_provider \<times> registry \<times> store_choice" where
  "build_broker shown files cfg = (case broker_secret_bytes cfg of
     Inl x \<Rightarrow> Inl x
   | Inr (secret, _) \<Rightarrow> (case load_contracts shown files (contracts_path cfg) of
       Inl x \<Rightarrow> Inl x
     | Inr reg \<Rightarrow>
       (let keys = tenant_key_provider_from_secret secret in
        case store_kind_of cfg of
          MemoryKind \<Rightarrow> Inr (keys, reg, UseMemory)
        | SqliteKind \<Rightarrow> Inr (keys, reg, UseSqlite (sqlite_path cfg))
        | PostgresKind \<Rightarrow> (case postgres_dsn cfg of
            None \<Rightarrow> Inl value_error
          | Some dsn \<Rightarrow> Inr (keys, reg, UsePostgres dsn)))))"

section \<open>API keys\<close>

definition hash_api_key :: "string \<Rightarrow> string" where
  "hash_api_key raw = hex_text (sha256 (utf8_encode raw))"

type_synonym authenticator = "(string \<times> string) list"      \<comment> \<open>\<open>key_hash_to_tenant\<close>\<close>

text \<open>\<open>dict.setdefault\<close> keeps a configured entry.\<close>

definition from_settings :: "settings \<Rightarrow> authenticator" where
  "from_settings cfg =
     (if dev_api_key_enabled cfg \<and> map_of (api_key_hashes cfg) (hash_api_key (dev_api_key cfg)) = None
      then api_key_hashes cfg @ [(hash_api_key (dev_api_key cfg), dev_tenant_id cfg)]
      else api_key_hashes cfg)"

text \<open>\<open>hmac.compare_digest\<close> on two \<open>str\<close>: \<open>TypeError\<close> unless both are ASCII.\<close>

fun tenant_for_hash :: "string \<Rightarrow> authenticator \<Rightarrow> error + string option" where
  "tenant_for_hash incoming [] = Inr None"
| "tenant_for_hash incoming ((stored, tenant) # rest) =
     (if \<not> is_ascii stored \<or> \<not> is_ascii incoming then Inl type_error
      else if stored = incoming then Inr (Some tenant)
      else tenant_for_hash incoming rest)"

definition tenant_for_key :: "authenticator \<Rightarrow> string \<Rightarrow> error + string option" where
  "tenant_for_key auth raw = tenant_for_hash (hash_api_key raw) auth"

text \<open>
  \<open>require_tenant\<close> on the two optional credentials of a request: the tenant, the detail of a 401, or an
  exception.
\<close>

datatype auth_result = Tenant string | Unauthorized string | AuthRaised error

definition require_tenant :: "authenticator \<Rightarrow> string option \<Rightarrow> string option \<Rightarrow> auth_result" where
  "require_tenant auth api_key bearer =
     (let raw = (if api_key = None then bearer else api_key)
      in if raw = None \<or> raw = Some [] then Unauthorized ''missing API key''
         else case tenant_for_key auth (the raw) of
           Inl x \<Rightarrow> AuthRaised x
         | Inr None \<Rightarrow> Unauthorized ''invalid API key''
         | Inr (Some tenant) \<Rightarrow> Tenant tenant)"

section \<open>What authentication promises\<close>

lemma length_hex_digits: "length hex_digits = 16"
  by (simp add: hex_digits_def)

lemma hex_text_ascii: "is_ascii (hex_text bs)"
proof -
  have "\<forall>c \<in> set hex_digits. (of_char c :: nat) < 128" by (simp add: hex_digits_def)
  moreover have "i < 16 \<Longrightarrow> hex_digits ! i \<in> set hex_digits" for i
    using nth_mem [of i hex_digits] length_hex_digits by simp
  moreover have "unat b div 16 < 16" "unat b mod 16 < 16" for b :: byte using unsigned_less [of b, where ?'a = nat] by simp_all
  ultimately show ?thesis by (auto simp: is_ascii_def hex_text_def)
qed

lemma tenant_for_hash_ascii:
  assumes "is_ascii h" and "\<forall>(stored, tenant) \<in> set auth. is_ascii stored"
  shows "tenant_for_hash h auth = Inr (map_of auth h)"
  using assms(2) by (induction auth) (auto simp: assms(1))

lemma from_settings_map:
  "map_of (from_settings cfg) h = (case map_of (api_key_hashes cfg) h of
     Some t \<Rightarrow> Some t
   | None \<Rightarrow> if dev_api_key_enabled cfg \<and> h = hash_api_key (dev_api_key cfg) then Some (dev_tenant_id cfg) else None)"
  by (auto simp: from_settings_def map_add_Some_iff split: option.splits)

text \<open>A secret given in hexadecimal is the secret.\<close>

lemma hex_digit_nth:
  assumes "i < 16"
  shows "hex_digit (hex_digits ! i) = Some i" "\<not> ascii_space (hex_digits ! i)"
proof -
  have vals: "map hex_digit hex_digits = map Some [0..<16]"
    by (simp add: hex_digits_def hex_digit_def is_digit_def upt_rec)
  have "\<forall>c \<in> set hex_digits. \<not> ascii_space c" by (simp add: hex_digits_def ascii_space_def)
  with assms show "\<not> ascii_space (hex_digits ! i)" by (simp add: length_hex_digits)
  from arg_cong [OF vals, of "\<lambda>xs. xs ! i"] assms show "hex_digit (hex_digits ! i) = Some i"
    by (simp add: length_hex_digits)
qed

lemma from_hex_text: "from_hex (hex_text bs) = Some bs"
proof (induction bs)
  case (Cons b bs)
  have bound: "unat b div 16 < 16" "unat b mod 16 < 16" using unsigned_less [of b, where ?'a = nat] by simp_all
  have "(of_nat (16 * (unat b div 16) + unat b mod 16) :: byte) = b" by (simp only: mult_div_mod_eq of_nat_unat) simp
  with Cons show ?case by (simp add: hex_text_def hex_digit_nth [OF bound(1)] hex_digit_nth [OF bound(2)])
qed (simp add: hex_text_def)

end
