(* ===== verification/Http_Api.thy ===== *)
theory Http_Api
  imports Engine Auth
begin

text \<open>
  The HTTP surface (\<open>api.py\<close>). A request is its credentials and a call, already decoded to the types of
  the body models; the constraints on the fields (\<open>ge\<close>, \<open>le\<close>, \<open>min_length\<close>, \<open>Literal\<close>) are
  \<open>valid_call\<close>. As FastAPI does, the tenant dependency is resolved before the fields are validated. A
  response is a status code and a typed body; \<open>detail\<close> is \<open>str(exc)\<close>. An exception that is not an
  \<open>EffectBrokerError\<close> leaves the handler and is the result \<open>Inl\<close>.
\<close>

section \<open>Bodies\<close>

record submit_body =
  sb_operation_key :: string
  sb_tool :: string
  sb_arguments :: json_object
  sb_requested_by :: string
  sb_trace_id :: "string option"

record contract_body =
  cb_name :: string
  cb_version :: string
  cb_safety :: string
  cb_retry_limit :: int
  cb_key_retention_seconds :: "dyadic option"
  cb_settlement_bound_seconds :: "dyadic option"

record effect_body =
  eb_effect_id :: string
  eb_status :: effect_status
  eb_contract :: contract_body
  eb_version :: int
  eb_created_at :: time
  eb_updated_at :: time
  eb_operation_key :: string
  eb_tool :: string
  eb_requested_by :: string
  eb_trace_id :: "string option"

datatype http_body =
    ReservationBody string effect_status bool bool   \<comment> \<open>effect id, status, created, replayed\<close>
  | EffectBody effect_body
  | ReceiptBody json_object
  | ReconcileBody string effect_status
  | ListEffectsBody "effect_body list" int int
  | Problem string string nat string                 \<comment> \<open>type, title, status, detail\<close>
  | HttpDetail string                                \<comment> \<open>\<open>HTTPException\<close>\<close>
  | Invalid                                          \<comment> \<open>\<open>RequestValidationError\<close>\<close>
  | Healthy
  | MetricsText metrics

record http_response =
  http_status :: nat
  http_body :: http_body

definition response :: "nat \<Rightarrow> http_body \<Rightarrow> http_response" where
  "response code body = \<lparr>http_status = code, http_body = body\<rparr>"

datatype http_call =
    SubmitEffect submit_body
  | GetEffect string
  | GetReceipt string
  | ReconcileEffect string
  | ListEffects "effect_status option" int int
  | ResolveEffect string string json_object          \<comment> \<open>id, resolution, evidence\<close>
  | CancelEffect string int string string            \<comment> \<open>id, expected version, actor, reason\<close>
  | Healthz
  | Metrics

definition body_seconds :: "timedelta option \<Rightarrow> dyadic option" where
  "body_seconds = map_option total_seconds"

definition effect_body_of :: "effect_record \<Rightarrow> effect_body" where
  "effect_body_of r =
     \<lparr>eb_effect_id = effect_id r, eb_status = status r,
      eb_contract = \<lparr>cb_name = contract_name (contract r), cb_version = contract_version (contract r),
        cb_safety = safety_value (safety (contract r)), cb_retry_limit = retry_limit (contract r),
        cb_key_retention_seconds = body_seconds (key_retention (contract r)),
        cb_settlement_bound_seconds = body_seconds (settlement_bound (contract r))\<rparr>,
      eb_version = version r, eb_created_at = created_at r, eb_updated_at = updated_at r,
      eb_operation_key = operation_key (request r), eb_tool = tool (request r),
      eb_requested_by = requested_by (request r), eb_trace_id = trace_id (request r)\<rparr>"

section \<open>Errors\<close>

fun status_for_error :: "error \<Rightarrow> nat" where
  "status_for_error (UnknownEffectError _) = 404"
| "status_for_error (PayloadConflictError _ _ _) = 409"
| "status_for_error (InvalidTransitionError _ _) = 409"
| "status_for_error (VersionConflictError _) = 409"
| "status_for_error (ContractError _ _) = 422"
| "status_for_error (CanonicalizationError _) = 422"
| "status_for_error _ = 500"

fun title_for_error :: "error \<Rightarrow> string" where
  "title_for_error (UnknownEffectError _) = ''Effect not found''"
| "title_for_error (PayloadConflictError _ _ _) = ''Payload conflict''"
| "title_for_error (InvalidTransitionError _ _) = ''Invalid transition''"
| "title_for_error (VersionConflictError _) = ''Invalid transition''"
| "title_for_error (ContractError _ _) = ''Contract error''"
| "title_for_error (CanonicalizationError _) = ''Canonicalization error''"
| "title_for_error _ = ''Effect broker error''"

definition domain_error_handler :: "(error \<Rightarrow> string) \<Rightarrow> error \<Rightarrow> http_response" where
  "domain_error_handler detail x = response (status_for_error x)
     (Problem (''https://effect-broker.local/problems/'' @ error_name x) (title_for_error x)
       (status_for_error x) (detail x))"

section \<open>Endpoints\<close>

definition request_of_body :: "submit_body \<Rightarrow> effect_request" where
  "request_of_body body = \<lparr>operation_key = sb_operation_key body, tool = sb_tool body,
     arguments = sb_arguments body, requested_by = sb_requested_by body, trace_id = sb_trace_id body\<rparr>"

definition resolutions :: "effect_status list" where
  "resolutions = [SUCCEEDED, FAILED_FINAL, COMPENSATED]"

fun valid_call :: "http_call \<Rightarrow> bool" where
  "valid_call (ListEffects st lim offset) \<longleftrightarrow> 1 \<le> lim \<and> lim \<le> 500 \<and> 0 \<le> offset"
| "valid_call (ResolveEffect eid resolution ev) \<longleftrightarrow> resolution \<in> status_value ` set resolutions"
| "valid_call (CancelEffect eid expected actor reason) \<longleftrightarrow> 0 \<le> expected \<and> actor \<noteq> [] \<and> reason \<noteq> []"
| "valid_call _ \<longleftrightarrow> True"

definition reply :: "('s, 'w, 'a) process \<Rightarrow> ('a \<Rightarrow> http_response) \<Rightarrow> ('s, 'w, http_response) process" where
  "reply m f = and_then m (\<lambda>x. ret (f x))"

fun endpoint :: "('s, 'w) broker \<Rightarrow> string \<Rightarrow> http_call \<Rightarrow> ('s, 'w, http_response) process" where
  "endpoint b tenant (SubmitEffect body) = reply (submit b tenant (request_of_body body))
     (\<lambda>res. response 201 (ReservationBody (effect_id (res_effect res)) (status (res_effect res))
       (created res) (replayed res)))"
| "endpoint b tenant (GetEffect eid) = reply (broker_get b tenant eid) (\<lambda>r. response 200 (EffectBody (effect_body_of r)))"
| "endpoint b tenant (GetReceipt eid) = reply (replay_receipt b tenant eid) (\<lambda>d. response 200 (ReceiptBody d))"
| "endpoint b tenant (ReconcileEffect eid) = reply (reconcile b tenant eid)
     (\<lambda>r. response 200 (ReconcileBody (effect_id r) (status r)))"
| "endpoint b tenant (ListEffects st lim offset) = reply (broker_list b tenant st lim offset)
     (\<lambda>rs. response 200 (ListEffectsBody (map effect_body_of rs) lim offset))"
| "endpoint b tenant (ResolveEffect eid resolution ev) = (case status_of resolution of
     None \<Rightarrow> throw value_error
   | Some goal \<Rightarrow> reply (resolve b tenant eid goal ev) (\<lambda>r. response 200 (EffectBody (effect_body_of r))))"
| "endpoint b tenant (CancelEffect eid expected actor reason) = reply (cancel b tenant eid expected actor reason)
     (\<lambda>r. response 200 (EffectBody (effect_body_of r)))"
| "endpoint b tenant Healthz = ret (response 200 Healthy)"
| "endpoint b tenant Metrics = (\<lambda>s. (Inr (response 200 (MetricsText (metrics s))), s))"

definition answered :: "(error \<Rightarrow> string) \<Rightarrow> ('s, 'w, http_response) process \<Rightarrow> ('s, 'w, http_response) process"
where
  "answered detail m =
     on_error m (\<lambda>x. if is_domain_error x then ret (domain_error_handler detail x) else throw x)"

fun public_call :: "http_call \<Rightarrow> bool" where
  "public_call Healthz = True"
| "public_call Metrics = True"
| "public_call _ = False"

definition handle_http :: "(error \<Rightarrow> string) \<Rightarrow> authenticator \<Rightarrow> ('s, 'w) broker \<Rightarrow> string option \<Rightarrow> string option
    \<Rightarrow> http_call \<Rightarrow> ('s, 'w, http_response) process" where
  "handle_http detail auth b api_key bearer call =
     (if public_call call then endpoint b [] call
      else case require_tenant auth api_key bearer of
        AuthRaised x \<Rightarrow> throw x
      | Unauthorized d \<Rightarrow> ret (response 401 (HttpDetail d))
      | Tenant tenant \<Rightarrow>
          if \<not> valid_call call then ret (response 422 Invalid)
          else answered detail (endpoint b tenant call))"

section \<open>What the surface promises\<close>

lemma answered_Inl: "answered detail m s = (Inl x, t) \<Longrightarrow> \<not> is_domain_error x"
  by (auto simp: answered_def on_error_def split: prod.splits sum.splits if_splits)

lemma answered_raised:
  "m s = (Inl x, t) \<Longrightarrow> is_domain_error x \<Longrightarrow> answered detail m s = (Inr (domain_error_handler detail x), t)"
  by (simp add: answered_def on_error_def)

lemma answered_returned: "m s = (Inr r, t) \<Longrightarrow> answered detail m s = (Inr r, t)"
  by (simp add: answered_def on_error_def)

text \<open>The codes of the endpoints themselves are 200 and 201.\<close>

lemma reply_status:
  "reply m f s = (Inr r, t) \<Longrightarrow> (\<And>x. http_status (f x) = c) \<Longrightarrow> http_status r = c"
  by (auto simp: reply_def and_then_Inr)

lemma endpoint_status: "endpoint b tenant call s = (Inr r, t) \<Longrightarrow> http_status r \<in> {200, 201}"
  by (cases call) (auto simp: response_def split: option.splits dest!: reply_status)

lemma problem_codes: "is_domain_error x \<Longrightarrow> http_status (domain_error_handler detail x) = status_for_error x
    \<and> status_for_error x \<in> {404, 409, 422, 500}"
  by (cases x) (simp_all add: domain_error_handler_def response_def)

end
