(* ===== verification/Mcp_Server.thy ===== *)
theory Mcp_Server
  imports Engine Contract_Config
begin

text \<open>
  The tools of the MCP server (\<open>mcp_server.py\<close>), for the tenant the server was created with. Each returns
  the dict it answers with, or lets the exception of the broker through.
\<close>

definition mcp_reservation_dict :: "reservation \<Rightarrow> json_object" where
  "mcp_reservation_dict res =
     [(VStr ''effect_id'', VStr (effect_id (res_effect res))),
      (VStr ''status'', VStr (status_value (status (res_effect res)))),
      (VStr ''created'', VBool (created res)),
      (VStr ''replayed'', VBool (replayed res))]"

definition mcp_effect_dict :: "effect_record \<Rightarrow> json_object" where
  "mcp_effect_dict r =
     [(VStr ''effect_id'', VStr (effect_id r)),
      (VStr ''status'', VStr (status_value (status r))),
      (VStr ''operation_key'', VStr (operation_key (request r))),
      (VStr ''tool'', VStr (tool (request r))),
      (VStr ''contract'', VStr (contract_name (contract r))),
      (VStr ''contract_version'', VStr (contract_version (contract r))),
      (VStr ''safety'', VStr (safety_value (safety (contract r)))),
      (VStr ''version'', VInt (version r)),
      (VStr ''created_at'', VStr (isoformat (created_at r))),
      (VStr ''updated_at'', VStr (isoformat (updated_at r)))]"

definition mcp_submit :: "('s, 'w) broker \<Rightarrow> string \<Rightarrow> string \<Rightarrow> string \<Rightarrow> json_object \<Rightarrow> string \<Rightarrow> string option
    \<Rightarrow> ('s, 'w, json_object) process" where
  "mcp_submit b tenant op_key tool_name args requester trace =
     and_then (submit b tenant \<lparr>operation_key = op_key, tool = tool_name, arguments = args,
         requested_by = requester, trace_id = trace\<rparr>)
       (\<lambda>res. ret (mcp_reservation_dict res))"

definition mcp_get :: "('s, 'w) broker \<Rightarrow> string \<Rightarrow> string \<Rightarrow> ('s, 'w, json_object) process" where
  "mcp_get b tenant eid = and_then (broker_get b tenant eid) (\<lambda>r. ret (mcp_effect_dict r))"

definition mcp_reconcile :: "('s, 'w) broker \<Rightarrow> string \<Rightarrow> string \<Rightarrow> ('s, 'w, json_object) process" where
  "mcp_reconcile b tenant eid = and_then (reconcile b tenant eid) (\<lambda>r. ret (mcp_effect_dict r))"

definition mcp_cancel :: "('s, 'w) broker \<Rightarrow> string \<Rightarrow> string \<Rightarrow> int \<Rightarrow> string \<Rightarrow> string
    \<Rightarrow> ('s, 'w, json_object) process" where
  "mcp_cancel b tenant eid expected actor reason =
     and_then (cancel b tenant eid expected actor reason) (\<lambda>r. ret (mcp_effect_dict r))"

definition mcp_list :: "('s, 'w) broker \<Rightarrow> string \<Rightarrow> string option \<Rightarrow> int \<Rightarrow> int
    \<Rightarrow> ('s, 'w, json_object list) process" where
  "mcp_list b tenant st lim offset =
     (let listed = (\<lambda>parsed. and_then (broker_list b tenant parsed lim offset) (\<lambda>rs. ret (map mcp_effect_dict rs)))
      in case st of
           None \<Rightarrow> listed None
         | Some t \<Rightarrow> (case status_of t of None \<Rightarrow> throw value_error | Some x \<Rightarrow> listed (Some x)))"

definition brokered_tool_call :: "('s, 'w) broker \<Rightarrow> string \<Rightarrow> string \<Rightarrow> string \<Rightarrow> json_object \<Rightarrow> string
    \<Rightarrow> ('s, 'w, json_object) process" where
  "brokered_tool_call b tenant op_key tool_name args requester =
     mcp_submit b tenant op_key tool_name args requester None"

end
