(* ===== verification/Cli.thy ===== *)
theory Cli
  imports Engine Auth
begin

text \<open>
  The operator commands (\<open>cli.py\<close>). A command answers with the payload it emits or with the exception
  \<open>_fail\<close> reports before \<open>Exit(1)\<close>; an exception the command does not catch is the result \<open>Inl\<close>. The
  tenant is the development tenant of the settings. \<open>loads\<close> is \<open>json.loads\<close> on the text the operator
  typed. What a command prints and which broker it works on are in \<open>Cli_Commands\<close>; the commands that only
  start another program (\<open>serve\<close>, \<open>crash-demo\<close>) are not modelled.
\<close>

datatype cli_result = Emitted json_object | Failed error

definition value_errors :: "string set" where
  "value_errors = {''ValueError'', ''JSONDecodeError'', ''Error''}"

definition fails_with :: "(error \<Rightarrow> bool) \<Rightarrow> ('s, 'w, json_object) process \<Rightarrow> ('s, 'w, cli_result) process" where
  "fails_with caught m = on_error (and_then m (\<lambda>d. ret (Emitted d)))
     (\<lambda>x. if caught x then ret (Failed x) else throw x)"

definition cli_effect_dict :: "effect_record \<Rightarrow> json_object" where
  "cli_effect_dict r =
     [(VStr ''effect_id'', VStr (effect_id r)),
      (VStr ''status'', VStr (status_value (status r))),
      (VStr ''operation_key'', VStr (operation_key (request r))),
      (VStr ''tool'', VStr (tool (request r))),
      (VStr ''contract'', VStr (contract_name (contract r) @ ''@'' @ contract_version (contract r))),
      (VStr ''safety'', VStr (safety_value (safety (contract r)))),
      (VStr ''version'', VInt (version r)),
      (VStr ''created_at'', VStr (isoformat (created_at r))),
      (VStr ''updated_at'', VStr (isoformat (updated_at r))),
      (VStr ''requested_by'', VStr (requested_by (request r))),
      (VStr ''trace_id'', opt_str (trace_id (request r)))]"

definition cli_submit :: "(string \<Rightarrow> error + pyval) \<Rightarrow> ('s, 'w) broker \<Rightarrow> settings \<Rightarrow> string \<Rightarrow> string \<Rightarrow> string
    \<Rightarrow> string \<Rightarrow> string option \<Rightarrow> ('s, 'w, cli_result) process" where
  "cli_submit loads b cfg op_key tool_name args requester trace =
     fails_with (\<lambda>x. is_domain_error x \<or> error_name x \<in> value_errors)
       (and_then (raise_or_return (loads args)) (\<lambda>v. case v of
          VDict parsed \<Rightarrow>
            and_then (submit b (dev_tenant_id cfg) \<lparr>operation_key = op_key, tool = tool_name, arguments = parsed,
                requested_by = requester, trace_id = trace\<rparr>)
              (\<lambda>res. ret
                [(VStr ''effect_id'', VStr (effect_id (res_effect res))),
                 (VStr ''status'', VStr (status_value (status (res_effect res)))),
                 (VStr ''created'', VBool (created res)),
                 (VStr ''replayed'', VBool (replayed res))])
        | _ \<Rightarrow> throw value_error))"

definition cli_inspect :: "('s, 'w) broker \<Rightarrow> settings \<Rightarrow> string \<Rightarrow> ('s, 'w, cli_result) process" where
  "cli_inspect b cfg eid = fails_with is_domain_error
     (and_then (broker_get b (dev_tenant_id cfg) eid) (\<lambda>r. ret (cli_effect_dict r)))"

definition cli_list :: "('s, 'w) broker \<Rightarrow> settings \<Rightarrow> effect_status option \<Rightarrow> int \<Rightarrow> int
    \<Rightarrow> ('s, 'w, cli_result) process" where
  "cli_list b cfg st lim offset = fails_with is_domain_error
     (and_then (broker_list b (dev_tenant_id cfg) st lim offset)
       (\<lambda>rs. ret [(VStr ''items'', VList (map (\<lambda>r. VDict (cli_effect_dict r)) rs))]))"

definition cli_reconcile :: "('s, 'w) broker \<Rightarrow> settings \<Rightarrow> string \<Rightarrow> ('s, 'w, cli_result) process" where
  "cli_reconcile b cfg eid = fails_with (\<lambda>x. is_domain_error x \<or> x = PyError ''RuntimeError'')
     (and_then (reconcile b (dev_tenant_id cfg) eid) (\<lambda>r. ret (cli_effect_dict r)))"

definition cli_cancel :: "('s, 'w) broker \<Rightarrow> settings \<Rightarrow> string \<Rightarrow> int \<Rightarrow> string \<Rightarrow> string
    \<Rightarrow> ('s, 'w, cli_result) process" where
  "cli_cancel b cfg eid expected actor reason = fails_with is_domain_error
     (and_then (cancel b (dev_tenant_id cfg) eid expected actor reason) (\<lambda>r. ret (cli_effect_dict r)))"

text \<open>\<open>contracts validate\<close>: the tools of a valid file.\<close>

definition validate_contracts :: "(pyval \<Rightarrow> string) \<Rightarrow> (string \<times> pyval) list \<Rightarrow> error + string list" where
  "validate_contracts shown tools = (case from_mapping shown tools of Inl x \<Rightarrow> Inl x | Inr reg \<Rightarrow> Inr (registry_tools reg))"

section \<open>The operation-key check of \<open>doctor\<close>\<close>

definition hex_run :: "string \<Rightarrow> bool" where
  "hex_run cs \<longleftrightarrow> (\<forall>c \<in> set cs. hex_digit c \<noteq> None)"

definition uuid_like :: "string \<Rightarrow> bool" where
  "uuid_like cs \<longleftrightarrow> length cs = 36
     \<and> cs ! 8 = CHR ''-'' \<and> cs ! 13 = CHR ''-'' \<and> cs ! 18 = CHR ''-'' \<and> cs ! 23 = CHR ''-''
     \<and> hex_run (take 8 cs) \<and> hex_run (take 4 (drop 9 cs)) \<and> hex_run (take 4 (drop 14 cs))
     \<and> hex_run (take 4 (drop 19 cs)) \<and> hex_run (drop 24 cs)"

definition risky_operation_key :: "string \<Rightarrow> bool" where
  "risky_operation_key op_key \<longleftrightarrow> CHR '':'' \<notin> set op_key \<or> uuid_like op_key"

text \<open>
  The second test adds nothing: a UUID has no colon, so the check flags exactly the keys without one,
  and a UUID behind a prefix passes.
\<close>

lemma hex_run_colon: "hex_run cs \<Longrightarrow> CHR '':'' \<notin> set cs"
  by (auto simp: hex_run_def hex_digit_def is_digit_def)

lemma uuid_parts:
  assumes "length cs = 36"
  shows "cs = take 8 cs @ [cs ! 8] @ take 4 (drop 9 cs) @ [cs ! 13] @ take 4 (drop 14 cs) @ [cs ! 18]
    @ take 4 (drop 19 cs) @ [cs ! 23] @ drop 24 cs"
proof -
  have step: "drop n cs = take m (drop n cs) @ [cs ! (n + m)] @ drop (Suc (n + m)) cs" if "n + m < 36" for n m
    using that assms id_take_nth_drop [of m "drop n cs"] by (simp add: add.commute)
  from step [of 0 8] step [of 9 4] step [of 14 4] step [of 19 4] show ?thesis by simp
qed

lemma risky_iff_no_colon: "risky_operation_key k \<longleftrightarrow> CHR '':'' \<notin> set k"
proof -
  have "CHR '':'' \<notin> set k" if u: "uuid_like k"
  proof -
    have "set k = set (take 8 k) \<union> {k ! 8} \<union> set (take 4 (drop 9 k)) \<union> {k ! 13} \<union> set (take 4 (drop 14 k))
        \<union> {k ! 18} \<union> set (take 4 (drop 19 k)) \<union> {k ! 23} \<union> set (drop 24 k)"
      using u by (subst uuid_parts) (auto simp: uuid_like_def)
    with u show ?thesis using hex_run_colon by (auto simp: uuid_like_def)
  qed
  then show ?thesis by (auto simp: risky_operation_key_def)
qed

definition doctor :: "(pyval \<Rightarrow> string) \<Rightarrow> (string \<Rightarrow> (error + pyval) option) \<Rightarrow> ('s, 'w) broker \<Rightarrow> settings
    \<Rightarrow> ('s, 'w, cli_result) process" where
  "doctor shown files b cfg = (case broker_secret_bytes cfg of
     Inl x \<Rightarrow> ret (Failed x)
   | Inr _ \<Rightarrow>
       (let missing = (if files (contracts_path cfg) = None
          then [''contracts file not found: '' @ contracts_path cfg] else [])
        in case load_contracts shown files (contracts_path cfg) of
             Inl x \<Rightarrow> if is_domain_error x then ret (Failed x) else throw x
           | Inr reg \<Rightarrow> fails_with is_domain_error
               (and_then (broker_list b (dev_tenant_id cfg) None 500 0) (\<lambda>rs.
                let warns = missing @ map (\<lambda>r. ''risky operation_key pattern: '' @ operation_key (request r))
                      (filter (\<lambda>r. risky_operation_key (operation_key (request r))) rs)
                in ret
                  [(VStr ''status'', VStr (if warns = [] then ''ok'' else ''warning'')),
                   (VStr ''store'', VStr (store_kind_value (store_kind_of cfg))),
                   (VStr ''contracts'', VList (map VStr (registry_tools reg))),
                   (VStr ''warnings'', VList (map VStr warns))]))))"

section \<open>The loops of the worker and reconciler processes\<close>

text \<open>\<open>module:function\<close>; \<open>None\<close> is \<open>BadParameter\<close>.\<close>

definition adapter_factory_path :: "string option \<Rightarrow> (string \<times> string) option" where
  "adapter_factory_path path = (case path of
     None \<Rightarrow> None
   | Some p \<Rightarrow> if CHR '':'' \<in> set p
       then Some (takeWhile (\<lambda>c. c \<noteq> CHR '':'') p, tl (dropWhile (\<lambda>c. c \<noteq> CHR '':'') p)) else None)"

text \<open>
  The records a loop prints in its first \<open>n\<close> passes (with \<open>--once\<close>: in its only pass). Both loops run
  until an exception or the end of the process.
\<close>

fun worker_loop :: "nat \<Rightarrow> bool \<Rightarrow> ('s, 'w) broker \<Rightarrow> 'w adapter_for \<Rightarrow> string \<Rightarrow> int
    \<Rightarrow> ('s, 'w, effect_record list) process" where
  "worker_loop 0 once b adapters w lim = ret []"
| "worker_loop (Suc n) once b adapters w lim =
     and_then read_env (\<lambda>e.
     and_then (dispatch_once (store b) adapters w (env_now e) (seconds 30) lim) (\<lambda>rs.
     if once then ret rs
     else and_then (worker_loop n once b adapters w lim) (\<lambda>later. ret (rs @ later))))"

fun reconcile_all :: "('s, 'w) broker \<Rightarrow> string \<Rightarrow> effect_record list \<Rightarrow> ('s, 'w, effect_record list) process" where
  "reconcile_all b tenant [] = ret []"
| "reconcile_all b tenant (r # rs) =
     and_then (reconcile b tenant (effect_id r)) (\<lambda>x.
     and_then (reconcile_all b tenant rs) (\<lambda>xs. ret (x # xs)))"

fun reconciler_loop :: "nat \<Rightarrow> bool \<Rightarrow> ('s, 'w) broker \<Rightarrow> string \<Rightarrow> int \<Rightarrow> ('s, 'w, effect_record list) process" where
  "reconciler_loop 0 once b tenant lim = ret []"
| "reconciler_loop (Suc n) once b tenant lim =
     and_then (broker_list b tenant (Some OUTCOME_UNKNOWN) lim 0) (\<lambda>found.
     and_then (reconcile_all b tenant found) (\<lambda>rs.
     if once then ret rs
     else and_then (reconciler_loop n once b tenant lim) (\<lambda>later. ret (rs @ later))))"

end
