(* ===== verification/Cli_Commands.thy ===== *)
theory Cli_Commands
  imports Cli Http_Api
begin

text \<open>
  The rest of \<open>cli.py\<close>: which broker a command works on (\<open>_broker\<close>, with the cache of in-memory brokers of
  one process), the worker and reconciler commands, and what a command prints and exits with.

  \<^item> Opening a store is the constructor of the store (\<open>opened\<close>), the file system is \<open>resolved\<close>
    (\<open>Path.resolve\<close>) and importing an adapter factory is \<open>imported\<close>.
  \<^item> What is printed is what \<open>console.print\<close> is given: a line, in the markup of the library, or a table with its
    header and rows. \<open>message\<close> is the message of an exception, which the exceptions of the model do not carry.
\<close>

section \<open>The broker of a command\<close>

text \<open>\<open>build_broker\<close> (\<open>config.py\<close>) with the store opened.\<close>

definition built_broker :: "(pyval \<Rightarrow> string) \<Rightarrow> (string \<Rightarrow> (error + pyval) option)
    \<Rightarrow> (tenant_key_provider \<Rightarrow> store_choice \<Rightarrow> error + 's store_ops) \<Rightarrow> settings \<Rightarrow> 'w adapter_for option
    \<Rightarrow> error + ('s, 'w) broker" where
  "built_broker shown files opened cfg adapters = (case build_broker shown files cfg of
     Inl x \<Rightarrow> Inl x
   | Inr (keys, reg, choice) \<Rightarrow> (case opened keys choice of
       Inl x \<Rightarrow> Inl x
     | Inr ops \<Rightarrow> Inr \<lparr>store = ops, contracts = reg, adapter_for = adapters\<rparr>))"

type_synonym cache_key = "string \<times> string \<times> string \<times> string"

type_synonym ('s, 'w) broker_cache = "cache_key \<Rightarrow> ('s, 'w) broker option"

definition cache_key_of :: "(string \<Rightarrow> string) \<Rightarrow> settings \<Rightarrow> cache_key" where
  "cache_key_of resolved cfg = (store_kind_value (store_kind_of cfg), resolved (contracts_path cfg),
     resolved (sqlite_path cfg), case adapter_factory cfg of None \<Rightarrow> '''' | Some f \<Rightarrow> f)"

definition cli_broker :: "(string \<Rightarrow> string) \<Rightarrow> (settings \<Rightarrow> 'w adapter_for option \<Rightarrow> error + ('s, 'w) broker)
    \<Rightarrow> settings \<Rightarrow> 'w adapter_for option \<Rightarrow> (('s, 'w) broker_cache, error, ('s, 'w) broker) prog" where
  "cli_broker resolved build cfg adapters cache =
     (if store_kind_of cfg = MemoryKind \<and> adapters = None then
        (case cache (cache_key_of resolved cfg) of
           Some b \<Rightarrow> (Inr b, cache)
         | None \<Rightarrow> (case build cfg None of
             Inl x \<Rightarrow> (Inl x, cache)
           | Inr b \<Rightarrow> (Inr b, cache(cache_key_of resolved cfg \<mapsto> b))))
      else (build cfg adapters, cache))"

text \<open>The caches a process can have: empty at the start, then what \<open>_broker\<close> leaves.\<close>

inductive cli_cache :: "(string \<Rightarrow> string) \<Rightarrow> (settings \<Rightarrow> 'w adapter_for option \<Rightarrow> error + ('s, 'w) broker)
    \<Rightarrow> ('s, 'w) broker_cache \<Rightarrow> bool" for resolved build where
  started: "cli_cache resolved build Map.empty"
| asked: "cli_cache resolved build cache \<Longrightarrow> cli_broker resolved build cfg adapters cache = (x, cache')
    \<Longrightarrow> cli_cache resolved build cache'"

section \<open>The worker and reconciler commands\<close>

definition chosen_factory :: "(string \<Rightarrow> string \<Rightarrow> error + 'w adapter_for) \<Rightarrow> string option \<Rightarrow> error + 'w adapter_for" where
  "chosen_factory imported path = (case adapter_factory_path path of
     None \<Rightarrow> Inl (PyError ''BadParameter'')
   | Some (module_name, function_name) \<Rightarrow> (case imported module_name function_name of
       Inl x \<Rightarrow> if error_name x \<in> {''ImportError'', ''ModuleNotFoundError'', ''AttributeError'', ''ValueError''}
         then Inl (PyError ''BadParameter'') else Inl x
     | Inr f \<Rightarrow> Inr f))"

text \<open>\<open>adapter_factory or settings.adapter_factory\<close>\<close>

definition factory_option :: "string option \<Rightarrow> settings \<Rightarrow> string option" where
  "factory_option option cfg = (if option \<in> {None, Some []} then adapter_factory cfg else option)"

definition cli_worker :: "nat \<Rightarrow> (string \<Rightarrow> string \<Rightarrow> error + 'w adapter_for)
    \<Rightarrow> (settings \<Rightarrow> 'w adapter_for option \<Rightarrow> error + ('s, 'w) broker) \<Rightarrow> settings \<Rightarrow> bool \<Rightarrow> string option \<Rightarrow> string \<Rightarrow> int
    \<Rightarrow> ('s, 'w, effect_record list) process" where
  "cli_worker n imported build cfg once option w lim =
     and_then (raise_or_return (chosen_factory imported (factory_option option cfg))) (\<lambda>f.
     and_then (raise_or_return (build cfg (Some f))) (\<lambda>b. worker_loop n once b f w lim))"

definition cli_reconciler :: "nat \<Rightarrow> (string \<Rightarrow> string \<Rightarrow> error + 'w adapter_for)
    \<Rightarrow> (settings \<Rightarrow> 'w adapter_for option \<Rightarrow> error + ('s, 'w) broker) \<Rightarrow> settings \<Rightarrow> bool \<Rightarrow> string option \<Rightarrow> int
    \<Rightarrow> ('s, 'w, effect_record list) process" where
  "cli_reconciler n imported build cfg once option lim =
     and_then (raise_or_return (chosen_factory imported (factory_option option cfg))) (\<lambda>f.
     and_then (raise_or_return (build cfg (Some f))) (\<lambda>b. reconciler_loop n once b (dev_tenant_id cfg) lim))"

section \<open>What is printed\<close>

datatype printed = Line string | Grid "string list" "string list list"

definition status_text :: "string \<Rightarrow> string" where
  "status_text s = (if s = status_value OUTCOME_UNKNOWN \<or> s = status_value MANUAL_REVIEW
     then ''[bold yellow]'' @ s @ ''[/bold yellow]'' else s)"

text \<open>
  \<open>json.dumps(payload, sort_keys=True)\<close>: separators with a space, text in ASCII, any float. (It would
  coerce a key that is not text; the payloads of this file have text keys only, and that branch is an
  error here.)
\<close>

definition ascii_escape :: "char \<Rightarrow> string" where
  "ascii_escape c = (let n = of_char c :: nat in
     if n < 127 then json_escape c else CHR 0x5C # ''u00'' @ [hex_digits ! (n div 16), hex_digits ! (n mod 16)])"

definition ascii_string :: "string \<Rightarrow> string" where
  "ascii_string s = CHR 0x22 # concat (map ascii_escape s) @ [CHR 0x22]"

fun spaced_dumps :: "pyval \<Rightarrow> error + string" and
  spaced_seq :: "pyval list \<Rightarrow> error + string list" and
  spaced_items :: "(pyval \<times> pyval) list \<Rightarrow> error + (string \<times> string) list"
where
  "spaced_dumps VNone = Inr ''null''"
| "spaced_dumps (VBool b) = Inr (if b then ''true'' else ''false'')"
| "spaced_dumps (VInt i) = Inr (int_text i)"
| "spaced_dumps (VFloat f) = Inr (case f of
     Finite t \<Rightarrow> t | NaN \<Rightarrow> ''NaN'' | Infinity \<Rightarrow> ''Infinity'' | NegInfinity \<Rightarrow> ''-Infinity'')"
| "spaced_dumps (VStr s) = Inr (ascii_string s)"
| "spaced_dumps (VList xs) = map_sum id (\<lambda>ts. ''['' @ join '', '' ts @ '']'') (spaced_seq xs)"
| "spaced_dumps (VTuple xs) = map_sum id (\<lambda>ts. ''['' @ join '', '' ts @ '']'') (spaced_seq xs)"
| "spaced_dumps (VDict kvs) = map_sum id (\<lambda>kts.
     ''{'' @ join '', '' (map (\<lambda>kt. ascii_string (fst kt) @ '': '' @ snd kt) (sort_key fst kts)) @ ''}'') (spaced_items kvs)"
| "spaced_dumps _ = Inl (PyError ''TypeError'')"
| "spaced_seq [] = Inr []"
| "spaced_seq (x # xs) = (case spaced_dumps x of Inl e \<Rightarrow> Inl e | Inr t \<Rightarrow> map_sum id ((#) t) (spaced_seq xs))"
| "spaced_items [] = Inr []"
| "spaced_items ((VStr k, v) # kvs) =
     (case spaced_dumps v of Inl e \<Rightarrow> Inl e | Inr t \<Rightarrow> map_sum id ((#) (k, t)) (spaced_items kvs))"
| "spaced_items (kv # kvs) = Inl (PyError ''TypeError'')"

text \<open>\<open>payload[key]\<close>, and a cell, which must be text.\<close>

definition payload_field :: "json_object \<Rightarrow> string \<Rightarrow> error + pyval" where
  "payload_field d k = (case dict_get d k of None \<Rightarrow> Inl (PyError ''KeyError'') | Some v \<Rightarrow> Inr v)"

definition text_cell :: "pyval \<Rightarrow> error + string" where
  "text_cell v = (case v of VStr s \<Rightarrow> Inr s | _ \<Rightarrow> Inl (PyError ''NotRenderableError''))"

definition cell :: "json_object \<Rightarrow> (pyval \<Rightarrow> error + string) \<Rightarrow> string \<Rightarrow> error + string" where
  "cell d f k = (case payload_field d k of Inl x \<Rightarrow> Inl x | Inr v \<Rightarrow> f v)"

definition status_cell :: "pyval \<Rightarrow> error + string" where
  "status_cell v = map_sum id status_text (text_cell v)"

fun all_cells :: "(error + 'a) list \<Rightarrow> error + 'a list" where
  "all_cells [] = Inr []"
| "all_cells (Inl x # cs) = Inl x"
| "all_cells (Inr c # cs) = map_sum id ((#) c) (all_cells cs)"

definition reservation_table :: "(pyval \<Rightarrow> string) \<Rightarrow> json_object \<Rightarrow> error + printed" where
  "reservation_table shown d = map_sum id (\<lambda>row. Grid [''effect_id'', ''status'', ''created'', ''replayed''] [row])
     (all_cells [cell d text_cell ''effect_id'', cell d status_cell ''status'',
        cell d (\<lambda>v. Inr (py_str shown v)) ''created'', cell d (\<lambda>v. Inr (py_str shown v)) ''replayed''])"

definition effect_table_fields :: "string list" where
  "effect_table_fields = [''effect_id'', ''status'', ''operation_key'', ''tool'', ''contract'', ''version'',
     ''created_at'', ''updated_at'']"

definition effect_table :: "(pyval \<Rightarrow> string) \<Rightarrow> json_object \<Rightarrow> error + printed" where
  "effect_table shown d = map_sum id (Grid [''field'', ''value''])
     (all_cells (map (\<lambda>k. map_sum id (\<lambda>c. [k, c])
        (cell d (if k = ''status'' then status_cell else (\<lambda>v. Inr (py_str shown v))) k)) effect_table_fields))"

definition list_row :: "pyval \<Rightarrow> error + string list" where
  "list_row v = (case v of
     VDict e \<Rightarrow> all_cells [cell e text_cell ''effect_id'', cell e status_cell ''status'',
       cell e text_cell ''operation_key'', cell e text_cell ''tool'', cell e text_cell ''updated_at'']
   | _ \<Rightarrow> Inl (PyError ''TypeError''))"

definition list_table :: "json_object \<Rightarrow> error + printed" where
  "list_table d = (case payload_field d ''items'' of
     Inl x \<Rightarrow> Inl x
   | Inr (VList es) \<Rightarrow> map_sum id (Grid [''effect_id'', ''status'', ''operation_key'', ''tool'', ''updated_at''])
       (all_cells (map list_row es))
   | Inr _ \<Rightarrow> Inl (PyError ''TypeError''))"

text \<open>\<open>sep.join(texts) or "(none)"\<close>\<close>

definition joined_cell :: "string \<Rightarrow> pyval \<Rightarrow> error + string" where
  "joined_cell separator v = (case v of
     VList ts \<Rightarrow> map_sum id (\<lambda>ss. let t = join separator ss in if t = [] then ''(none)'' else t) (all_cells (map text_cell ts))
   | _ \<Rightarrow> Inl (PyError ''TypeError''))"

definition doctor_table :: "json_object \<Rightarrow> error + printed" where
  "doctor_table d = map_sum id (\<lambda>cs. Grid [''check'', ''value''] (map2 (\<lambda>k c. [k, c])
       [''status'', ''store'', ''contracts'', ''warnings''] cs))
     (all_cells [cell d text_cell ''status'', cell d text_cell ''store'', cell d (joined_cell '', '') ''contracts'',
        cell d (joined_cell [CHR 0x0A]) ''warnings''])"

definition emitted :: "bool \<Rightarrow> (json_object \<Rightarrow> error + printed) \<Rightarrow> json_object \<Rightarrow> error + printed" where
  "emitted json_output table d = (if json_output then map_sum id Line (spaced_dumps (VDict d)) else table d)"

text \<open>The end of a command: what it prints and the exit status; an exception that is not caught exits with 1.\<close>

definition failure_line :: "(error \<Rightarrow> string) \<Rightarrow> error \<Rightarrow> printed" where
  "failure_line message x = Line (''[red]'' @ error_name x @ ''[/red]: '' @ message x)"

definition finished_command :: "(error \<Rightarrow> string) \<Rightarrow> bool \<Rightarrow> (json_object \<Rightarrow> error + printed)
    \<Rightarrow> ('s, 'w, cli_result) process \<Rightarrow> ('s, 'w) world \<Rightarrow> (printed list \<times> int) \<times> ('s, 'w) world" where
  "finished_command message json_output table m s = (case m s of
     (Inl x, t) \<Rightarrow> (([], 1), t)
   | (Inr (Failed x), t) \<Rightarrow> (([failure_line message x], 1), t)
   | (Inr (Emitted d), t) \<Rightarrow> (case emitted json_output table d of Inl x \<Rightarrow> (([], 1), t) | Inr p \<Rightarrow> (([p], 0), t)))"

text \<open>The lines of the worker and reconciler loops, and of \<open>contracts validate\<close>.\<close>

definition progress_line :: "effect_record \<Rightarrow> printed" where
  "progress_line r = Line (effect_id r @ '' '' @ status_text (status_value (status r)))"

definition contracts_ok_line :: "string list \<Rightarrow> printed" where
  "contracts_ok_line tools = Line (''contracts ok: '' @ (let t = join '', '' tools in if t = [] then ''(none)'' else t))"

section \<open>Every payload has its table\<close>

lemma effect_dict_table:
  "effect_table shown (cli_effect_dict r) = Inr (Grid [''field'', ''value'']
     [[''effect_id'', effect_id r], [''status'', status_text (status_value (status r))],
      [''operation_key'', operation_key (request r)], [''tool'', tool (request r)],
      [''contract'', contract_name (contract r) @ ''@'' @ contract_version (contract r)],
      [''version'', int_text (version r)], [''created_at'', isoformat (created_at r)],
      [''updated_at'', isoformat (updated_at r)]])"
  by (simp add: effect_table_def effect_table_fields_def cell_def payload_field_def dict_get_def cli_effect_dict_def
      status_cell_def text_cell_def py_str_def)

lemma effect_list_row:
  "list_row (VDict (cli_effect_dict r)) = Inr [effect_id r, status_text (status_value (status r)),
     operation_key (request r), tool (request r), isoformat (updated_at r)]"
  by (simp add: list_row_def cell_def payload_field_def dict_get_def cli_effect_dict_def status_cell_def text_cell_def)

lemma all_cells_Inr: "all_cells (map (\<lambda>x. Inr (f x)) xs) = Inr (map f xs)"
  by (induction xs) simp_all

lemma effect_list_table:
  "list_table [(VStr ''items'', VList (map (\<lambda>r. VDict (cli_effect_dict r)) rs))] =
     Inr (Grid [''effect_id'', ''status'', ''operation_key'', ''tool'', ''updated_at'']
       (map (\<lambda>r. [effect_id r, status_text (status_value (status r)), operation_key (request r), tool (request r),
          isoformat (updated_at r)]) rs))"
  by (simp add: list_table_def payload_field_def dict_get_def effect_list_row o_def all_cells_Inr)

section \<open>The brokers of one process\<close>

text \<open>A broker that \<open>_broker\<close> returns without adapters has none, whether it is new or from the cache.\<close>

lemma built_broker_adapters: "built_broker shown files opened cfg adapters = Inr b \<Longrightarrow> adapter_for b = adapters"
  by (auto simp: built_broker_def split: sum.splits)

lemma cli_cache_unwired:
  assumes build: "\<And>cfg adapters b. build cfg adapters = Inr b \<Longrightarrow> adapter_for b = adapters"
  shows "cli_cache resolved build cache \<Longrightarrow> cache k = Some b \<Longrightarrow> adapter_for b = None"
  by (induction arbitrary: k b rule: cli_cache.induct)
    (auto simp: cli_broker_def split: if_splits option.splits sum.splits dest: build [OF sym] build)

lemma cli_broker_unwired:
  assumes "\<And>cfg adapters b. build cfg adapters = Inr b \<Longrightarrow> adapter_for b = adapters"
    and "cli_cache resolved build cache" and "cli_broker resolved build cfg None cache = (Inr b, cache')"
  shows "adapter_for b = None"
  using assms(3) cli_cache_unwired [OF assms(1,2)] assms(1)
  by (auto simp: cli_broker_def split: if_splits option.splits sum.splits)

text \<open>In-memory commands with the same settings share their broker, and so its ledger.\<close>

lemma cli_broker_shared:
  assumes "cli_broker resolved build cfg None cache = (Inr b, cache')" and "store_kind_of cfg = MemoryKind"
    and "store_kind_of cfg' = MemoryKind" and "cache_key_of resolved cfg' = cache_key_of resolved cfg"
  shows "cli_broker resolved build cfg' None cache' = (Inr b, cache')"
  using assms by (auto simp: cli_broker_def split: option.splits sum.splits)

end
