(* ===== verification/Surface_Properties.thy ===== *)
theory Surface_Properties
  imports Http_Api Mcp_Server Cli_Commands Scenario Sqlite_Properties Postgres_Properties
begin

text \<open>
  Properties of the surfaces: HTTP requests are confined to the tenant of their key, refusals change
  nothing, contracts loaded from configuration keep the promises of their class, and every run of a
  process over either ledger refines the abstract protocol.
\<close>

section \<open>Requests that raise\<close>

context effect_store begin

lemma submit_raises:
  assumes st: "store b = ops" and inv: "invar (ledger s)" and wf: "wf_request req"
    and run: "submit b tenant req s = (Inl x, t)"
  shows "ledger t = ledger s"
proof (cases "registry_get (contracts b) (tool req)")
  case (Inl e)
  with run show ?thesis by (simp add: submit_def and_then_def run_simps)
next
  case (Inr c)
  obtain y l where y: "reserve_op ops (envs s (ticks s)) tenant req c (ledger s) = (y, l)"
    by (cases "reserve_op ops (envs s (ticks s)) tenant req c (ledger s)")
  with run Inr have "isl y" "ledger t = l"
    by (cases y; auto simp: submit_def and_then_def run_simps st observe_latency_def on_error_def on_ledger_def
        split: error.splits)+
  with reserve_error [OF inv wf] y show ?thesis by (cases y) auto
qed

lemma cancel_raises:
  assumes st: "store b = ops" and inv: "invar (ledger s)" and run: "cancel b tenant eid v actor reason s = (Inl x, t)"
  shows "ledger t = ledger s"
proof -
  obtain y u where y: "broker_get b tenant eid s = (y, u)" by (cases "broker_get b tenant eid s")
  note got = broker_get_run [OF st inv y]
  show ?thesis
  proof (cases "\<exists>r. y = Inr r \<and> version r = v \<and> status r \<in> {PREPARED, RETRYABLE}")
    case True
    then obtain r where r: "y = Inr r" "version r = v" "status r \<in> {PREPARED, RETRYABLE}" by blast
    let ?d = "[(VStr ''actor'', VStr actor), (VStr ''reason'', VStr reason)]"
    obtain z l where z: "transition_op ops (envs s (ticks s)) (effect_id r) v CANCELLED ?d (ledger s) = (z, l)"
      by (cases "transition_op ops (envs s (ticks s)) (effect_id r) v CANCELLED ?d (ledger s)")
    with run y r got(1) have "isl z" "ledger t = l"
      by (cases z; auto simp: cancel_def and_then_def st run_simps on_ledger_def)+
    with transition_error [OF inv] z show ?thesis by (cases z) auto
  next
    case False
    with run y got(1) show ?thesis by (cases y) (simp_all add: cancel_def and_then_def split: if_splits)
  qed
qed

lemma resolve_raises:
  assumes st: "store b = ops" and inv: "invar (ledger s)" and run: "resolve b tenant eid goal ev s = (Inl x, t)"
  shows "ledger t = ledger s"
proof -
  obtain y u where y: "broker_get b tenant eid s = (y, u)" by (cases "broker_get b tenant eid s")
  note got = broker_get_run [OF st inv y]
  show ?thesis
  proof (cases "\<exists>r. y = Inr r \<and> status r = MANUAL_REVIEW \<and> goal \<in> {SUCCEEDED, FAILED_FINAL, COMPENSATED}")
    case True
    then obtain r where r: "y = Inr r" "status r = MANUAL_REVIEW" "goal \<in> {SUCCEEDED, FAILED_FINAL, COMPENSATED}" by blast
    let ?d = "[(VStr ''evidence'', VDict ev), (VStr ''actor'', VStr ''operator'')]"
    obtain z l where z: "transition_op ops (envs s (ticks s)) (effect_id r) (version r) goal ?d (ledger s) = (z, l)"
      by (cases "transition_op ops (envs s (ticks s)) (effect_id r) (version r) goal ?d (ledger s)")
    with run y r got(1) have "isl z" "ledger t = l"
      by (cases z; auto simp: resolve_def and_then_def st run_simps on_ledger_def)+
    with transition_error [OF inv] z show ?thesis by (cases z) auto
  next
    case False
    with run y got(1) show ?thesis by (cases y) (auto simp: resolve_def and_then_def split: if_splits)
  qed
qed

lemma reply_raises: "reply m f s = (Inl x, t) \<Longrightarrow> m s = (Inl x, t)"
  by (auto simp: reply_def and_then_Inl)

lemma endpoint_raises:
  assumes st: "store b = ops" and inv: "invar (ledger s)" and run: "endpoint b tenant call s = (Inl x, t)"
    and wf: "\<And>body. call = SubmitEffect body \<Longrightarrow> wf_request (request_of_body body)"
    and "\<And>eid. call \<noteq> ReconcileEffect eid"
  shows "ledger t = ledger s"
proof (cases call)
  case (SubmitEffect body)
  from run have "submit b tenant (request_of_body body) s = (Inl x, t)"
    unfolding SubmitEffect endpoint.simps by (rule reply_raises)
  then show ?thesis by (rule submit_raises [OF st inv wf [OF SubmitEffect]])
next
  case (GetEffect eid)
  from run have "broker_get b tenant eid s = (Inl x, t)" unfolding GetEffect endpoint.simps by (rule reply_raises)
  then show ?thesis by (auto simp: broker_get_def split: option.splits)
next
  case (GetReceipt eid)
  from run have "replay_receipt b tenant eid s = (Inl x, t)" unfolding GetReceipt endpoint.simps by (rule reply_raises)
  then show ?thesis by (auto simp: replay_receipt_def split: option.splits)
next
  case (ListEffects sf lim offset)
  from run have "broker_list b tenant sf lim offset s = (Inl x, t)" unfolding ListEffects endpoint.simps by (rule reply_raises)
  then show ?thesis by (simp add: broker_list_def)
next
  case (ResolveEffect eid resolution ev)
  show ?thesis
  proof (cases "status_of resolution")
    case None
    with run show ?thesis by (simp add: ResolveEffect)
  next
    case (Some goal)
    with run have "resolve b tenant eid goal ev s = (Inl x, t)" by (intro reply_raises) (simp add: ResolveEffect)
    then show ?thesis by (rule resolve_raises [OF st inv])
  qed
next
  case (CancelEffect eid v actor reason)
  from run have "cancel b tenant eid v actor reason s = (Inl x, t)" unfolding CancelEffect endpoint.simps by (rule reply_raises)
  then show ?thesis by (rule cancel_raises [OF st inv])
qed (use run assms(5) in simp_all)

end




text \<open>A service with one key per tenant.\<close>

definition demo_auth :: "string \<Rightarrow> authenticator" where
  "demo_auth tenant = [(hash_api_key ''k'', tenant)]"

lemma demo_tenant: "require_tenant (demo_auth tenant) (Some ''k'') None = Tenant tenant"
  by (simp add: require_tenant_def tenant_for_key_def demo_auth_def hash_api_key_def hex_text_ascii)


section \<open>Tenants\<close>

text \<open>The effect a request is about.\<close>

fun about :: "http_call \<Rightarrow> string option" where
  "about (GetEffect eid) = Some eid"
| "about (GetReceipt eid) = Some eid"
| "about (ReconcileEffect eid) = Some eid"
| "about (ResolveEffect eid resolution ev) = Some eid"
| "about (CancelEffect eid expected actor reason) = Some eid"
| "about _ = None"

lemma foreign_endpoint:
  assumes "get_op (store b) tenant eid (ledger s) = None" and "receipt_op (store b) tenant eid (ledger s) = None"
    and call: "about call = Some eid" "valid_call call"
  shows "endpoint b tenant call s =
    (Inl (if adapter_for b = None \<and> call = ReconcileEffect eid then PyError ''RuntimeError'' else UnknownEffectError eid), s)"
proof -
  have get: "broker_get b tenant eid s = (Inl (UnknownEffectError eid), s)" by (simp add: broker_get_def assms(1))
  have rec: "replay_receipt b tenant eid s = (Inl (UnknownEffectError eid), s)" by (simp add: replay_receipt_def assms(2))
  show ?thesis using call get rec
    by (cases call) (auto simp: reply_def and_then_def reconcile_def cancel_def resolve_def throw_def split: option.splits)
qed

text \<open>
  What a request about the effect \<open>eid\<close> is answered with under a key that is not of its tenant: a function of
  the request and the configuration alone.
\<close>

definition stranger_reply :: "(error \<Rightarrow> string) \<Rightarrow> authenticator \<Rightarrow> ('s, 'w) broker \<Rightarrow> string option \<Rightarrow> string option
    \<Rightarrow> http_call \<Rightarrow> string \<Rightarrow> error + http_response" where
  "stranger_reply detail auth b api_key bearer call eid = (case require_tenant auth api_key bearer of
     AuthRaised x \<Rightarrow> Inl x
   | Unauthorized why \<Rightarrow> Inr (response 401 (HttpDetail why))
   | Tenant tenant \<Rightarrow>
       if \<not> valid_call call then Inr (response 422 Invalid)
       else if adapter_for b = None \<and> call = ReconcileEffect eid then Inl (PyError ''RuntimeError'')
       else Inr (response 404 (Problem (''https://effect-broker.local/problems/UnknownEffectError'') ''Effect not found'' 404
         (detail (UnknownEffectError eid)))))"

lemma stranger_handled:
  assumes "about call = Some eid"
    and "\<And>tenant. require_tenant auth api_key bearer = Tenant tenant \<Longrightarrow>
      get_op (store b) tenant eid (ledger s) = None \<and> receipt_op (store b) tenant eid (ledger s) = None"
  shows "handle_http detail auth b api_key bearer call s = (stranger_reply detail auth b api_key bearer call eid, s)"
proof -
  have secret: "\<not> public_call call" using assms(1) by (cases call) simp_all
  show ?thesis
  proof (cases "require_tenant auth api_key bearer")
    case (Tenant tenant)
    with assms foreign_endpoint [of b tenant eid s call] secret show ?thesis
      by (auto simp: handle_http_def stranger_reply_def answered_def on_error_def domain_error_handler_def)
  qed (use secret in \<open>simp_all add: handle_http_def stranger_reply_def\<close>)
qed

text \<open>The tenant of a request is the one that the hash of its key is configured for.\<close>

lemma tenant_for_hash_Inr: "tenant_for_hash h auth = Inr t \<Longrightarrow> map_of auth h = t"
  by (induction auth) (auto split: if_splits)

lemma tenant_for_hash_Inl: "tenant_for_hash h auth = Inl x \<Longrightarrow> is_ascii h \<Longrightarrow> \<exists>(stored, t) \<in> set auth. \<not> is_ascii stored"
  by (induction auth) (auto split: if_splits)

lemma require_tenant_keys:
  "require_tenant auth api_key bearer = Tenant tenant \<Longrightarrow>
     \<exists>raw. (if api_key = None then bearer else api_key) = Some raw \<and> map_of auth (hash_api_key raw) = Some tenant"
  "require_tenant auth api_key bearer = AuthRaised x \<Longrightarrow> \<exists>(stored, t) \<in> set auth. \<not> is_ascii stored"
  using tenant_for_hash_Inl [OF _ hex_text_ascii]
  by (auto simp: require_tenant_def tenant_for_key_def hash_api_key_def Let_def
      dest!: tenant_for_hash_Inr split: if_splits sum.splits option.splits)

text \<open>
  C36. The tenant of an HTTP request is the one its API key hashes to, whatever the request says. A request
  about an effect under a key that is not configured for the effect's tenant changes nothing, on the
  in-memory and on the SQLite ledger, and is answered exactly as it would be if no ledger entry of that id
  existed, whatever else the ledger held: 401 when the key is missing, empty or unknown, 422 when a field is out of
  range, otherwise 404. Two exceptions leave the handler instead (the server makes them a 500), and they do
  not depend on the effect either: \<open>TypeError\<close>, only when some configured key hash is not ASCII, and
  \<open>RuntimeError\<close> for a reconciliation when the broker has no adapters, as the served one.
\<close>

theorem http_isolated:
  assumes "about call = Some eid"
    and "\<forall>raw. (if api_key = None then bearer else api_key) = Some raw \<longrightarrow> map_of auth (hash_api_key raw) \<noteq> Some owner"
    and "store b = memory_ops key" and "mem_look (ledger s) eid = Some r" and "tenant_id r = owner"
    and "store b' = sqlite_ops key'" and "sql_ok (ledger s')" and "sql_look (ledger s') eid = Some r'"
    and "tenant_id r' = owner"
  shows "handle_http detail auth b api_key bearer call s = (stranger_reply detail auth b api_key bearer call eid, s)
    \<and> (\<forall>s0. mem_look (ledger s0) eid = None \<longrightarrow>
        handle_http detail auth b api_key bearer call s0 = (stranger_reply detail auth b api_key bearer call eid, s0))
    \<and> handle_http detail auth b' api_key bearer call s' = (stranger_reply detail auth b' api_key bearer call eid, s')
    \<and> (\<forall>s0. sql_ok (ledger s0) \<longrightarrow> sql_look (ledger s0) eid = None \<longrightarrow>
        handle_http detail auth b' api_key bearer call s0 = (stranger_reply detail auth b' api_key bearer call eid, s0))
    \<and> (\<forall>resp. stranger_reply detail auth b api_key bearer call eid = Inr resp \<longrightarrow> http_status resp \<in> {401, 404, 422})
    \<and> (\<forall>x. stranger_reply detail auth b api_key bearer call eid = Inl x \<longrightarrow>
        (\<exists>(stored, t) \<in> set auth. \<not> is_ascii stored) \<or> adapter_for b = None \<and> call = ReconcileEffect eid)"
proof -
  have foreign: "tenant \<noteq> owner" if "require_tenant auth api_key bearer = Tenant tenant" for tenant
    using require_tenant_keys(1) [OF that] assms(2) by auto
  have mem: "handle_http detail auth b api_key bearer call u = (stranger_reply detail auth b api_key bearer call eid, u)"
    if "\<forall>q. mem_look (ledger u) eid = Some q \<longrightarrow> tenant_id q = owner" for u
    using that foreign
    by (intro stranger_handled [OF assms(1)])
      (auto simp: assms(3) memory_ops_simps mem_get_def mem_receipt_def mem_look_def split: option.splits)
  have sql: "handle_http detail auth b' api_key bearer call u = (stranger_reply detail auth b' api_key bearer call eid, u)"
    if "sql_ok (ledger u)" "\<forall>q. sql_look (ledger u) eid = Some q \<longrightarrow> tenant_id q = owner" for u
    using that(2) foreign
    by (intro stranger_handled [OF assms(1)])
      (auto simp: assms(6) sqlite_ops_def sql_receipt_def sql_get_look [OF that(1)] or_else_def split: option.splits)
  have "\<forall>resp. stranger_reply detail auth b api_key bearer call eid = Inr resp \<longrightarrow> http_status resp \<in> {401, 404, 422}"
    by (auto simp: stranger_reply_def response_def split: auth_result.splits if_splits)
  moreover have "\<forall>x. stranger_reply detail auth b api_key bearer call eid = Inl x \<longrightarrow>
      (\<exists>(stored, t) \<in> set auth. \<not> is_ascii stored) \<or> adapter_for b = None \<and> call = ReconcileEffect eid"
    using require_tenant_keys(2) by (auto simp: stranger_reply_def split: auth_result.splits if_splits)
  ultimately show ?thesis using mem sql assms(4,5,7-9) by auto
qed

text \<open>A key of another tenant asks for the effect in SQLite.\<close>

theorem http_isolated_witness:
  "\<exists>resp s' r. sql_look (ledger s') ''eff_u'' = Some r \<and> http_status resp = 404
     \<and> handle_http error_name (demo_auth ''other'') (sqlite_broker UNSAFE) (Some ''k'') None (GetEffect ''eff_u'') s' =
         (Inr resp, s')"
proof -
  obtain l where l: "sql_ok l" "sql_look l ''eff_u'' = Some (sql_saved (sqlite_record UNSAFE))" by (rule sqlite_reserved)
  have acme: "tenant_id (sql_saved (sqlite_record UNSAFE)) = ''acme''"
    using sql_saved_fields(1) [of "sqlite_record UNSAFE"] by (simp add: sqlite_record_def)
  obtain m :: "(memory_store, sim_target) world" where m: "mem_look (ledger m) ''eff_u'' = Some (demo_record UNSAFE)"
    by (rule that [of "demo_world (demo_store UNSAFE\<lparr>records := [(''eff_u'', demo_record UNSAFE)]\<rparr>)"])
      (simp add: mem_look_def demo_world_def)
  have stranger: "\<forall>raw. (if Some ''k'' = None then None else Some ''k'') = Some raw \<longrightarrow>
      map_of (demo_auth ''other'') (hash_api_key raw) \<noteq> Some ''acme''" by (simp add: demo_auth_def)
  have "tenant_id (demo_record UNSAFE) = ''acme''" by simp
  from http_isolated [where call = "GetEffect ''eff_u''" and eid = "''eff_u''" and b = "demo_broker UNSAFE" and s = m
      and key = demo_keys and b' = "sqlite_broker UNSAFE" and key' = demo_keys and s' = "sqlite_world l" and detail = error_name,
      OF _ stranger _ m this _ _ _ acme] l
  show ?thesis
    by (intro exI [of _ "response 404 (Problem ''https://effect-broker.local/problems/UnknownEffectError'' ''Effect not found'' 404
          (error_name (UnknownEffectError ''eff_u''))) "] exI [of _ "sqlite_world l"])
      (simp add: stranger_reply_def demo_tenant response_def)
qed

section \<open>Contracts\<close>

lemma from_mapping_entry:
  "from_mapping shown items = Inr reg \<Longrightarrow> (name, c) \<in> set reg \<Longrightarrow>
     \<exists>v. (name, v) \<in> set items \<and> contract_from_mapping shown name v = Inr c"
proof (induction shown items arbitrary: reg rule: from_mapping.induct)
  case (2 shown n spec items)
  then obtain d reg' where d: "contract_from_mapping shown n spec = Inr d" "from_mapping shown items = Inr reg'"
    "reg = (n, d) # reg'" by (auto split: sum.splits)
  with 2(1) [OF d(1,2)] 2(3) show ?case by auto
qed simp

text \<open>
  C39. A registry loaded from configuration is sound: every contract in it is built from the entry of its
  tool, with the safety class, retry limit and durations the entry gives, and keeps the promise of its
  class (no negative retries; a positive key retention when idempotent, a settlement bound when
  reconcilable, no retry at all when unsafe). The entries are those under \<open>tools\<close> in the document, or of the
  document itself when it has no \<open>tools\<close>. Anything else makes the loading fail.
\<close>

theorem contracts_loaded:
  assumes "load_contracts shown files path = Inr reg"
  shows "sound_registry reg \<and> (\<forall>name c. registry_get reg name = Inr c \<longrightarrow>
    (\<exists>doc tools data. files path = Some (Inr doc) \<and> document_tools shown doc = Inr tools \<and> (name, VDict data) \<in> set tools
      \<and> contract_name c = name \<and> sound_contract c
      \<and> dict_get data ''safety'' = Some (VStr (safety_value (safety c)))
      \<and> py_int_of (case dict_get data ''retry_limit'' of None \<Rightarrow> VInt 0 | Some x \<Rightarrow> x) = Inr (retry_limit c)
      \<and> config_duration data ''key_retention_seconds'' = Inr (key_retention c)
      \<and> config_duration data ''settlement_bound_seconds'' = Inr (settlement_bound c)))"
proof -
  have "\<exists>doc tools data. files path = Some (Inr doc) \<and> document_tools shown doc = Inr tools \<and> (name, VDict data) \<in> set tools
      \<and> contract_name c = name \<and> sound_contract c
      \<and> dict_get data ''safety'' = Some (VStr (safety_value (safety c)))
      \<and> py_int_of (case dict_get data ''retry_limit'' of None \<Rightarrow> VInt 0 | Some x \<Rightarrow> x) = Inr (retry_limit c)
      \<and> config_duration data ''key_retention_seconds'' = Inr (key_retention c)
      \<and> config_duration data ''settlement_bound_seconds'' = Inr (settlement_bound c)"
    if get: "registry_get reg name = Inr c" for name c
  proof -
    from get have entry: "(name, c) \<in> set reg" by (simp add: registry_get_Inr map_of_SomeD)
    obtain doc tools where tools: "files path = Some (Inr doc)" "document_tools shown doc = Inr tools"
      "from_mapping shown tools = Inr reg" by (rule load_contracts_Inr [OF assms]) (use entry in simp_all)
    from from_mapping_entry [OF tools(3) entry] obtain v where v: "(name, v) \<in> set tools"
      "contract_from_mapping shown name v = Inr c" by blast
    from v(2) show ?thesis by (rule contract_from_mapping_Inr) (use tools(1,2) v(1) in auto)
  qed
  with load_contracts_sound [OF assms] show ?thesis by blast
qed

definition demo_entry :: json_object where
  "demo_entry = [(VStr ''safety'', VStr ''unsafe''), (VStr ''retry_limit'', VStr '' 0 '')]"

theorem contracts_loaded_witness:
  "load_contracts (\<lambda>v. []) (\<lambda>p. Some (Inr (VDict [(VStr ''tools'', VDict [(VStr ''charge'', VDict demo_entry)])]))) ''contracts.yaml'' =
      Inr [(''charge'', \<lparr>contract_name = ''charge'', contract_version = ''v1'', safety = UNSAFE, retry_limit = 0,
        key_retention = None, settlement_bound = None\<rparr>)]
   \<and> sound_registry [(''charge'', \<lparr>contract_name = ''charge'', contract_version = ''v1'', safety = UNSAFE, retry_limit = 0,
        key_retention = None, settlement_bound = None\<rparr>)]"
proof -
  have "py_int '' 0 '' = Some 0" by code_simp
  then have run: "load_contracts (\<lambda>v. []) (\<lambda>p. Some (Inr (VDict [(VStr ''tools'', VDict [(VStr ''charge'', VDict demo_entry)])]))) ''contracts.yaml'' =
      Inr [(''charge'', \<lparr>contract_name = ''charge'', contract_version = ''v1'', safety = UNSAFE, retry_limit = 0,
        key_retention = None, settlement_bound = None\<rparr>)]"
    by (simp add: load_contracts_def from_yaml_def document_tools_def py_falsy_def py_str_def contract_from_mapping_def
        demo_entry_def dict_get_def safety_of_value_def
        safety_of_def py_int_of_def int_of_text_def config_duration_def validate_contract_def)
  with contracts_loaded [OF run] show ?thesis by simp
qed

section \<open>Reconciliation from the surfaces\<close>

text \<open>
  C38. A broker that \<open>_broker()\<close> returns, new or from the cache of the process, has no adapters, whatever the
  settings say of an adapter factory. So the \<open>reconcile\<close> command never reconciles: it prints the error and
  exits with 1, whichever the effect, and the reconcile request to a process started by \<open>serve\<close> raises
  \<open>RuntimeError\<close>. Neither changes anything.
\<close>

theorem reconcile_unwired:
  assumes "cli_cache resolved (built_broker shown files opened) cache"
    and "cli_broker resolved (built_broker shown files opened) cfg None cache = (Inr b, cache')"
    and "require_tenant auth api_key bearer = Tenant tenant"
  shows "finished_command message json_output (effect_table shown) (cli_reconcile b cfg eid) s =
      (([failure_line message (PyError ''RuntimeError'')], 1), s)
    \<and> handle_http detail auth b api_key bearer (ReconcileEffect eid) s = (Inl (PyError ''RuntimeError''), s)"
proof -
  have "adapter_for b = None" by (rule cli_broker_unwired [OF built_broker_adapters assms(1,2)])
  then have raised: "reconcile b tenant' eid s = (Inl (PyError ''RuntimeError''), s)" for tenant'
    by (simp add: reconcile_def)
  then have "cli_reconcile b cfg eid s = (Inr (Failed (PyError ''RuntimeError'')), s)"
    by (simp add: cli_reconcile_def fails_with_def on_error_def and_then_def)
  moreover have "handle_http detail auth b api_key bearer (ReconcileEffect eid) s = (Inl (PyError ''RuntimeError''), s)"
    by (simp add: handle_http_def assms(3) answered_def reply_def on_error_def and_then_def raised)
  ultimately show ?thesis by (simp add: finished_command_def)
qed

text \<open>The development settings, with an adapter factory that is configured and not used.\<close>

theorem reconcile_unwired_witness:
  "\<exists>b cache. cli_broker (\<lambda>p. p) (built_broker (\<lambda>v. []) (\<lambda>p. None) (\<lambda>keys choice. Inr (memory_ops keys)))
      (default_settings\<lparr>adapter_factory := Some ''app:adapter''\<rparr>) None Map.empty = (Inr b, cache)
    \<and> finished_command error_name True (effect_table (\<lambda>v. []))
        (cli_reconcile b (default_settings\<lparr>adapter_factory := Some ''app:adapter''\<rparr>) ''eff_000001'')
        (demo_world (demo_store IDEMPOTENT)) =
      (([Line ''[red]RuntimeError[/red]: RuntimeError''], 1), demo_world (demo_store IDEMPOTENT))"
proof -
  let ?cfg = "default_settings\<lparr>adapter_factory := Some ''app:adapter''\<rparr>"
  let ?build = "built_broker (\<lambda>v. []) (\<lambda>p. None) (\<lambda>keys choice. Inr (memory_ops keys))
    :: settings \<Rightarrow> sim_target adapter_for option \<Rightarrow> error + (memory_store, sim_target) broker"
  obtain b cache where b: "cli_broker (\<lambda>p. p) ?build ?cfg None Map.empty = (Inr b, cache)"
    by (simp add: cli_broker_def built_broker_def build_broker_def broker_secret_bytes_def load_contracts_def
        default_settings_def)
  from reconcile_unwired [OF cli_cache.started b demo_tenant, of error_name True "''eff_000001''"
      "demo_world (demo_store IDEMPOTENT)"] b
  show ?thesis by (intro exI [of _ b] exI [of _ cache]) (simp add: failure_line_def)
qed

text \<open>
  C40. Every life of a broker process refines the abstract \<open>protocol\<close>, over the in-memory ledger, over SQLite
  and over Postgres with any driver: whatever its submissions, worker passes with any adapters,
  reconciliations, cancellations and resolutions do to the ledger is a sequence of protocol steps, each one
  move of one effect, and the invariant of the ledger is kept.
\<close>

theorem process_refines_protocol:
  assumes "broker_run b s t" and "store b = memory_ops key" and "mem_ok (ledger s)"
    and "broker_run b' s' t'" and "store b' = sqlite_ops key" and "sql_ok (ledger s')"
    and "broker_run b'' s'' t''" and "store b'' = pg_ops drv key" and "pg_ok drv (ledger s'')"
  shows "(mem_ok (ledger t) \<and> protocols (\<lambda>c. \<exists>name. registry_get (contracts b) name = Inr c)
      (mem_look (ledger s), mem_tries (ledger s)) (mem_look (ledger t), mem_tries (ledger t)))
    \<and> (sql_ok (ledger t') \<and> protocols (\<lambda>c. \<exists>name d. registry_get (contracts b') name = Inr d \<and> c = sql_pin d)
      (sql_look (ledger s'), \<lambda>i. sql_attempt_count i (ledger s')) (sql_look (ledger t'), \<lambda>i. sql_attempt_count i (ledger t')))
    \<and> (pg_ok drv (ledger t'') \<and> protocols (\<lambda>c. \<exists>name d. registry_get (contracts b'') name = Inr d \<and> c = pg_pin d)
      (pg_look (ledger s''), pg_tries (ledger s'')) (pg_look (ledger t''), pg_tries (ledger t'')))"
  using broker_run_memory [OF assms(1-3)] broker_run_sqlite [OF assms(4-6)] broker_run_pg [OF assms(7-9)] by (intro conjI)

theorem process_refines_protocol_witness:
  "\<exists>t t' t'' r. broker_run (demo_broker UNSAFE) (demo_world empty_store) t
     \<and> broker_run (sqlite_broker UNSAFE) (sqlite_world empty_db) t'
     \<and> broker_run (pg_broker UNSAFE) (pg_world empty_pg) t''
     \<and> ledger t = demo_store UNSAFE \<and> mem_ok (ledger t)
     \<and> protocols (\<lambda>c. \<exists>name. registry_get (contracts (demo_broker UNSAFE)) name = Inr c)
         (mem_look empty_store, mem_tries empty_store) (mem_look (ledger t), mem_tries (ledger t))
     \<and> sql_look (ledger t') ''eff_u'' = Some (sql_saved (sqlite_record UNSAFE)) \<and> sql_ok (ledger t')
     \<and> pg_look (ledger t'') ''eff_u'' = Some r \<and> pg_ok easy_driver (ledger t'')"
proof -
  obtain t where t: "broker_run (demo_broker UNSAFE) (demo_world empty_store) t" "ledger t = demo_store UNSAFE"
    by (rule demo_submitted)
  obtain t' where t': "broker_run (sqlite_broker UNSAFE) (sqlite_world empty_db) t'"
    "sql_look (ledger t') ''eff_u'' = Some (sql_saved (sqlite_record UNSAFE))"
    by (rule sqlite_submitted)
  obtain t'' r where t'': "broker_run (pg_broker UNSAFE) (pg_world empty_pg) t''" "pg_look (ledger t'') ''eff_u'' = Some r"
    by (rule pg_submitted)
  have "store (demo_broker UNSAFE) = memory_ops demo_keys" "mem_ok (ledger (demo_world empty_store))"
    "store (sqlite_broker UNSAFE) = sqlite_ops demo_keys" "sql_ok (ledger (sqlite_world empty_db))"
    "store (pg_broker UNSAFE) = pg_ops easy_driver demo_keys" "pg_ok easy_driver (ledger (pg_world empty_pg))"
    by (simp_all add: mem_ok_empty sql_ok_empty pg_ok_empty)
  note ref = process_refines_protocol [OF t(1) this(1,2) t'(1) this(3,4) t''(1) this(5,6), unfolded demo_world_simps]
  note ref = conjunct1 [OF ref] conjunct2 [OF ref]
  from ref(1) have "mem_ok (ledger t)" "protocols (\<lambda>c. \<exists>name. registry_get (contracts (demo_broker UNSAFE)) name = Inr c)
         (mem_look empty_store, mem_tries empty_store) (mem_look (ledger t), mem_tries (ledger t))" by blast+
  moreover from ref(2) have "sql_ok (ledger t')" "pg_ok easy_driver (ledger t'')" by blast+
  ultimately show ?thesis using t t' t'' by blast
qed

end
