(* ===== verification/Spec2Isabelle.thy ===== *)
theory Spec2Isabelle
  imports Lifecycle Ledger_Properties Worker_Properties Recovery_Properties Fingerprints
    History_Properties Service_Properties Target_Properties Sqlite_Properties Postgres_Properties Schema_Properties Crash_Properties
    Fleet_Properties Surface_Properties
begin

text \<open>
  Verification of effect-broker, a ledger-backed broker between agents that ask for external effects
  (a payment, a mail) and the targets that carry them out. The repository is \<open>src/\<close>; paths below are
  relative to \<open>src/src/effect_broker/\<close>.

  \<^bold>\<open>The program.\<close> A caller submits an effect under an operation key; the broker (\<open>engine.py\<close>) looks up
  the contract of the tool (\<open>contracts.py\<close>), computes a request hash and a downstream key
  (\<open>canonical.py\<close>) and reserves a record in a ledger (\<open>store/\<close>: in memory, SQLite or Postgres behind
  one protocol). The worker (\<open>worker.py\<close>) claims due records under a lease, writes \<open>DISPATCHING\<close> and an
  attempt and only then calls the adapter of the target (\<open>adapters/\<close>); what it learns it writes back,
  fenced by the version of the record. An outcome nobody knows is resolved by the reconciler
  (\<open>reconcile.py\<close>) according to the safety class of the contract: redispatch under the same key, an
  authoritative probe, or an operator. All moves follow the graph of \<open>statemachine.py\<close>;
  \<open>observability.py\<close> counts them. HTTP (\<open>api.py\<close>, \<open>auth.py\<close>), MCP (\<open>mcp_server.py\<close>) and the command
  line (\<open>cli.py\<close>) are surfaces over the broker, set up from \<open>config.py\<close>.

  \<^bold>\<open>How it is modelled.\<close> A method that may raise and changes state is a \<open>prog\<close> of \<open>Prelude\<close>: a function
  from the state to the exception (\<open>Inl\<close>) or the value (\<open>Inr\<close>) and the state left behind, so that what
  an exception leaves half done is part of the model. Records, enums and dictionaries are as the code has
  them; Python values are \<open>pyval\<close>, times are microseconds since the epoch, durations microseconds. The
  clock and the UUID source are arguments (\<open>env\<close>), consumed in the order of the readings. Adapters are
  arbitrary functions on the state of their target: no property assumes that one behaves, except where
  the simulated target of the repository is the subject.

  \<^bold>\<open>Theories.\<close>
  \<^item> Base: \<open>Prelude\<close>, \<open>Py_Values\<close> (values of requests, outputs and events), \<open>Digests\<close> (UTF-8, SHA-256,
    HMAC, base64, written out), \<open>Clock\<close> (\<open>isoformat\<close>), \<open>Durations\<close> (\<open>timedelta\<close> and IEEE doubles),
    \<open>Json_Parse\<close> (\<open>json.loads\<close> on the texts the stores hold).
  \<^item> Vocabulary: \<open>Models\<close> (\<open>models.py\<close>, \<open>errors.py\<close>), \<open>Status_Machine\<close> (\<open>statemachine.py\<close>), \<open>Contracts\<close>
    and \<open>Contract_Config\<close> (\<open>contracts.py\<close>), \<open>Canonical\<close> (\<open>canonical.py\<close>), \<open>Canonical_Text\<close> (its texts
    are unambiguous).
  \<^item> Ledgers: \<open>Store_Api\<close> (\<open>store/base.py\<close>: the operations as a record, and two contracts as locales:
    \<open>effect_ledger\<close>, what every ledger keeps whatever its engine does in between, and \<open>effect_store\<close>, a
    sublocale of it, which also fixes what each operation returns), \<open>Memory_Store\<close>
    (\<open>store/memory.py\<close>) with \<open>Memory_Laws\<close>, \<open>Tables\<close> (rows and their lookup, for both SQL ledgers),
    \<open>Sqlite_Store\<close> (\<open>store/sqlite.py\<close>) with \<open>Sqlite_Laws\<close>, \<open>Postgres_Store\<close>
    (\<open>store/postgres.py\<close>) with \<open>Postgres_Laws\<close> and \<open>Postgres_Runs\<close> (the outcome of each statement
    sequence, and what a column or the driver refuses), \<open>Postgres_Schema\<close> (the table metadata, the migration of \<open>store/migrations/\<close> and the
    URL it runs on). The laws theories end in an interpretation: memory and SQLite of \<open>effect_store\<close>,
    Postgres of \<open>effect_ledger\<close>.
  \<^item> Process: \<open>Observability\<close>, \<open>Runtime\<close> (the state of a process: ledger, targets, metrics, clock),
    \<open>Worker\<close>, \<open>Reconcile\<close>, \<open>Engine\<close>; \<open>Simulated\<close> (\<open>adapters/base.py\<close>, \<open>adapters/simulated.py\<close>).
  \<^item> Crash matrix (\<open>examples/crash_matrix/\<close> of the repository): \<open>Crash_Target\<close> (\<open>target.py\<close>, a target with an
    SQLite file of its own), \<open>Recovery_Steps\<close> (recovery processes cut into the steps between two calls of
    ledger or target, so that any number of them can be interleaved), \<open>Recovery_Contest\<close> (the invariant of
    the interleaving), \<open>Crash_Matrix\<close> (\<open>worker.py\<close> with its failpoints and \<open>runner.py\<close>, both with the ledger
    that the environment of the process selects).
  \<^item> Concurrency: \<open>Worker_Steps\<close> (\<open>dispatch_once\<close> cut into steps of one call each), \<open>Fleet\<close> (any number of
    workers and recoveries on one ledger and one target, with API calls and crashes in between, and a log
    of the dispatches that reach the target), \<open>Fleet_Invariant\<close> (the abstract step of one process and the
    invariant of all of them), \<open>Fleet_Refinement\<close> (inside \<open>effect_ledger\<close>: the code's steps are such steps).
  \<^item> Surfaces: \<open>Auth\<close> (\<open>auth.py\<close>, \<open>config.py\<close>), \<open>Http_Api\<close>, \<open>Mcp_Server\<close>, \<open>Cli\<close> (the
    commands) and \<open>Cli_Commands\<close> (the broker a command works on, its output and exit status).
  \<^item> Specification: \<open>Protocol\<close> is an abstract step relation on a map from ids to records and a count of
    attempts, with the safety properties proved on it once; \<open>Process_Refinement\<close> shows inside
    \<open>effect_ledger\<close> that every operation of the process is a sequence of its steps; \<open>Frame\<close> carries a
    fact that every ledger operation keeps to the whole process.
  \<^item> Properties: \<open>Lifecycle\<close> (the life of an effect over any run), \<open>Ledger_Properties\<close> (single
    operations), \<open>Worker_Properties\<close>, \<open>Recovery_Properties\<close>, \<open>History_Properties\<close> (logs and receipts),
    \<open>Fingerprints\<close>, \<open>Service_Properties\<close>, \<open>Target_Properties\<close> (broker and simulated target together),
    \<open>Sqlite_Properties\<close>, \<open>Postgres_Properties\<close>, \<open>Schema_Properties\<close>, \<open>Crash_Properties\<close>,
    \<open>Fleet_Properties\<close> (processes at the same time, on each ledger), \<open>Surface_Properties\<close>; \<open>Scenario\<close> is the concrete process that their witnesses
    evaluate.

  \<^bold>\<open>What is shown.\<close> Over any sequence of operations of a process, with any adapters, on the in-memory,
  the SQLite and the Postgres ledger: statuses move along the graph, versions grow, what was pinned at the reservation
  stays, terminal outcomes are final, an unsafe effect is attempted at most once, a key names one effect,
  claims are exclusive while the lease lives, stale writes are refused; logs are gapless histories and
  receipts state what they recorded. With any number of workers and recoveries at the same time, one call
  of one process at a time in any order, on each of the three ledgers: the same of pins, versions and
  statuses, one effect for a tenant and an operation key, one attempt and one call of the adapter for an unsafe effect, no call without an attempt of its
  own that the ledger already holds, and every process ends; run without interruption the steps compute
  \<open>dispatch_once\<close> and \<open>recover_one\<close>. For the worker and the reconciler, what is persisted on every branch
  of what an adapter may do (for a redispatch also when no adapter is found and when SQLite cannot store the
  answer, which leave the effect in \<open>DISPATCHING\<close>). For the fingerprints, that equal hashes mean equal requests unless SHA-256
  collides on the two texts at hand. For the surfaces, confinement to the tenant of the key (a foreign effect is answered as
  a missing one), and that refusals change nothing; the \<open>reconcile\<close> command and the service \<open>serve\<close> starts are shown to have no
  adapters, so that they refuse every reconciliation. For SQLite, atomicity and faithful columns. For Postgres,
  where a claim skips the rows that others hold locked and a transition reads without a lock: that a
  transition takes effect at one point, that claims do not overlap, what a transition does on every branch
  for any driver, values the driver refuses included, and that the migration builds the tables the store declares. For the crash matrix,
  that a worker killed between the charge and its receipt leads to one charge and the status the README
  promises, for every interleaving of the recoveries, of which exactly one returns, as long as \<open>BROKER_DSN\<close>
  is not set; when it is, the worker opens another ledger than the runner and the matrix always fails.

  \<^bold>\<open>Bounds and fuel.\<close> The JSON parser runs on fuel \<open>2 * length + 1\<close>, which the round trip shows to be
  enough for every canonical text; the loops of worker and reconciler commands are unrolled for a given
  number of passes; a recovery ends after five turns of its own, a worker after five for each effect of its
  limit and two more (measures on their places); durations are exact in a double below \<open>2 ^ 33\<close> seconds. Characters are the code
  points 0 to 255.

  \<^bold>\<open>Not modelled.\<close> In Postgres the opening of engines and pools, connection
  failures, deadlocks and statement timeouts, the name space of constraint indexes and the running of
  Alembic (the order of texts is taken to be that of their code points, which every collation has on
  the hexadecimal ids the code compares); times beyond the year 9999; lock timeouts, disk errors and integers beyond 64 bits in SQLite; the
  starting of subprocesses and their time limits (a recovery that does not get its turns is a time-out); the export of metrics and
  traces to Prometheus and OpenTelemetry; the parsing of YAML, of HTTP and of command lines by their
  libraries; how the console library renders the lines and tables it is given; the \<open>serve\<close> and
  \<open>crash-demo\<close> commands, which only start another program.
\<close>

end
